(* ===== verification/Prelude.thy ===== *)
theory Prelude
  imports Main "HOL-Library.Word" "HOL-Library.Sublist"
begin

unbundle bit_operations_syntax

text \<open>
  What every component of the library shares: the machine-integer types of the C++ code, strings
  of bytes, exceptions as values, and the facts that move unsigned 64-bit arithmetic to the natural
  numbers when it does not wrap around.
\<close>

section \<open>Types\<close>

type_synonym u8 = "8 word"
type_synonym u16 = "16 word"
type_synonym u32 = "32 word"
type_synonym u64 = "64 word"
type_synonym byte = "8 word"

text \<open>A \<^verbatim>\<open>std::string\<close> that carries payload is a list of bytes; \<^verbatim>\<open>size()\<close> is a \<^verbatim>\<open>size_t\<close>.\<close>

type_synonym bytes = "8 word list"

definition size64 :: "'a list \<Rightarrow> u64" where
  "size64 xs = of_nat (length xs)"

text \<open>\<^verbatim>\<open>std::string::resize\<close> cuts a string or pads it with zero bytes.\<close>

definition string_resize :: "bytes \<Rightarrow> u64 \<Rightarrow> bytes" where
  "string_resize s n = take (unat n) s @ replicate (unat n - length s) 0"

text \<open>
  Exceptions and undefined behaviour are values.  \<open>Undefined_behaviour\<close> stands for what the C++
  standard leaves undefined, such as \<^verbatim>\<open>front()\<close> of an empty \<^verbatim>\<open>std::deque\<close>; \<open>Does_not_return\<close> for a
  call whose loop runs forever.  \<open>Unix_error\<close> and \<open>Gai_error\<close> are the \<^verbatim>\<open>tagged_error\<close>s of \<^verbatim>\<open>util.hh\<close> and
  \<^verbatim>\<open>address.cc\<close>: what was attempted, and the error number.
\<close>

datatype exn = Out_of_range string | Runtime_error string | Length_error string | Invalid_argument string
  | Unix_error string int | Gai_error string int | Bad_optional_access | Undefined_behaviour | Does_not_return

type_synonym 'a result = "exn + 'a"

definition bindE :: "'a result \<Rightarrow> ('a \<Rightarrow> 'b result) \<Rightarrow> 'b result" where
  "bindE m f = (case m of Inl e \<Rightarrow> Inl e | Inr x \<Rightarrow> f x)"

lemma bindE_simps [simp]:
  "bindE (Inl e) f = Inl e"
  "bindE (Inr x) f = f x"
  by (simp_all add: bindE_def)

lemma bindE_Inr_iff: "bindE m f = Inr y \<longleftrightarrow> (\<exists>x. m = Inr x \<and> f x = Inr y)"
  by (cases m) auto

lemma bindE_cong [fundef_cong]:
  "m = m' \<Longrightarrow> (\<And>x. m' = Inr x \<Longrightarrow> f x = g x) \<Longrightarrow> bindE m f = bindE m' g"
  by (cases m) auto

lemma bindE_assoc: "bindE (bindE m f) g = bindE m (\<lambda>x. bindE (f x) g)"
  by (cases m) auto

definition of_flag :: "bool \<Rightarrow> u64" where
  "of_flag b = (if b then 1 else 0)"

text \<open>\<^verbatim>\<open>std::to_string\<close> of an integer.\<close>

fun dec_nat :: "nat \<Rightarrow> string" where
  "dec_nat n = (if n < 10 then [char_of (48 + n)] else dec_nat (n div 10) @ [char_of (48 + n mod 10)])"

declare dec_nat.simps [simp del]

definition dec_int :: "int \<Rightarrow> string" where
  "dec_int i = (if i < 0 then ''-'' @ dec_nat (nat (- i)) else dec_nat (nat i))"

section \<open>Collections of facts\<close>

named_theorems stream_laws \<open>the contract of a flow-controlled byte stream\<close>
named_theorems frame \<open>fields an operation leaves unchanged\<close>
named_theorems never_raises \<open>operations that return on well-formed states\<close>
named_theorems keeps_inv \<open>operations that keep a component's invariant\<close>
named_theorems word_nat \<open>64-bit comparisons as comparisons of natural numbers\<close>

section \<open>Unsigned arithmetic without wrap-around\<close>

text \<open>The number of values of \<^verbatim>\<open>size_t\<close> and \<^verbatim>\<open>uint64_t\<close>, kept folded in proofs.\<close>

definition two64 :: nat where
  "two64 = 2 ^ 64"

lemma unat_lt64 [simp]: "unat (a :: u64) < two64"
  using unsigned_less [of a, where 'a = nat] by (simp add: two64_def)

lemma unat_le64 [simp]: "unat (a :: u64) \<le> two64"
  by (simp add: less_imp_le)

lemma two64_pos [simp]: "0 < two64"
  by (simp add: two64_def)

lemma unat_add64: "unat a + unat b < two64 \<Longrightarrow> unat (a + b :: u64) = unat a + unat b"
  by (simp add: unat_word_ariths two64_def)

lemma unat_sub64: "b \<le> a \<Longrightarrow> unat (a - b :: u64) = unat a - unat b"
  by (rule unat_sub)

lemma unat_of_nat64: "n < two64 \<Longrightarrow> unat (of_nat n :: u64) = n"
  by (simp add: unat_of_nat two64_def)

lemma unat_size64: "length xs < two64 \<Longrightarrow> unat (size64 xs) = length xs"
  by (simp add: size64_def unat_of_nat64)

lemma unat_of_flag [simp]: "unat (of_flag b) = of_bool b"
  by (simp add: of_flag_def)

lemma size64_simps [simp]:
  "size64 [] = 0"
  "size64 (x # xs) = 1 + size64 xs"
  "size64 (xs @ ys) = size64 xs + size64 ys"
  by (simp_all add: size64_def)

lemma of_nat_unat64 [simp]: "of_nat (unat (a :: u64)) = a"
  by simp

lemmas [word_nat] = word_le_nat_alt word_less_nat_alt word_unat_eq_iff

lemma unat_min64 [simp]: "unat (min a b :: u64) = min (unat a) (unat b)"
  by (auto simp: min_def word_nat)

lemma unat_ucast_u64 [simp]:
  "unat (ucast (a :: u32) :: u64) = unat a"
  "unat (ucast (b :: u16) :: u64) = unat b"
  "unat (ucast (c :: u8) :: u64) = unat c"
  by (simp_all add: unsigned_ucast_eq take_bit_nat_eq_self_iff order_less_trans [OF unsigned_less])

lemma of_nat_sum_list_unat: "of_nat (sum_list (map (\<lambda>x. unat (f x)) xs)) = (sum_list (map f xs) :: u64)"
  by (induction xs) simp_all

section \<open>Lists\<close>

lemma take_min_length: "take (min n (length xs)) xs = take n xs"
  by (simp add: min_def)

lemma take_length_take: "take (length (take n xs)) xs = take n xs"
  by (simp add: min_def)

lemma take_plus_slice: "take m xs @ take n (drop m xs) = take (m + n) xs"
  by (simp add: take_add)

lemma take_take_slice: "d = take (length d) (drop n (take m xs)) \<Longrightarrow> d = take (length d) (drop n xs)"
  by (metis drop_take length_take min.cobounded2 min.orderE min.cobounded1 take_take)

lemma prefix_take_iff: "prefix xs ys \<longleftrightarrow> xs = take (length xs) ys"
  by (metis append_eq_conv_conj prefix_def append_take_drop_id)

end
