(* ===== verification/Buffers.thy ===== *)
theory Buffers
  imports Prelude
begin

text \<open>
  \<^verbatim>\<open>libsponge/util/buffer.hh\<close> and \<^verbatim>\<open>buffer.cc\<close>: \<open>Buffer\<close> (a read-only string with a starting
  offset), \<open>BufferList\<close> and \<open>BufferViewList\<close> (queues of chunks).  The reference count of
  \<^verbatim>\<open>std::shared_ptr\<close> is not visible: the stored string is never written, so sharing it and
  copying it agree.

  The locale \<open>chunk\<close> is the interface that the prefix-removing loops rely on; it is interpreted
  on \<open>Buffer\<close> and on \<^verbatim>\<open>std::string_view\<close>.
\<close>

section \<open>Buffer\<close>

record Buffer =
  bf_storage :: "bytes option"
  bf_starting_offset :: u64

definition Buffer_default :: Buffer where
  "Buffer_default = \<lparr>bf_storage = None, bf_starting_offset = 0\<rparr>"

definition Buffer_of_string :: "bytes \<Rightarrow> Buffer" where
  "Buffer_of_string str = \<lparr>bf_storage = Some str, bf_starting_offset = 0\<rparr>"

definition Buffer_str :: "Buffer \<Rightarrow> bytes" where
  "Buffer_str b = (case bf_storage b of None \<Rightarrow> []
                   | Some s \<Rightarrow> drop (unat (bf_starting_offset b)) s)"

definition Buffer_size :: "Buffer \<Rightarrow> u64" where
  "Buffer_size b = size64 (Buffer_str b)"

definition Buffer_at :: "Buffer \<Rightarrow> u64 \<Rightarrow> u8 result" where
  "Buffer_at b n = (if n < Buffer_size b then Inr (Buffer_str b ! unat n)
                    else Inl (Out_of_range ''string_view::at''))"

definition Buffer_copy :: "Buffer \<Rightarrow> bytes" where
  "Buffer_copy b = Buffer_str b"

definition Buffer_remove_prefix :: "Buffer \<Rightarrow> u64 \<Rightarrow> Buffer result" where
  "Buffer_remove_prefix b n =
     (if n > Buffer_size b then Inl (Out_of_range ''Buffer::remove_prefix'')
      else let off = bf_starting_offset b + n in
        Inr (case bf_storage b of
               None \<Rightarrow> b\<lparr>bf_starting_offset := off\<rparr>
             | Some s \<Rightarrow> if off = size64 s then b\<lparr>bf_starting_offset := off, bf_storage := None\<rparr>
                         else b\<lparr>bf_starting_offset := off\<rparr>))"

text \<open>
  The class invariant: the offset stays inside the stored string, whose length is a \<^verbatim>\<open>size_t\<close>.
\<close>

definition Buffer_wf :: "Buffer \<Rightarrow> bool" where
  "Buffer_wf b \<longleftrightarrow> (case bf_storage b of None \<Rightarrow> True
     | Some s \<Rightarrow> unat (bf_starting_offset b) \<le> length s \<and> length s < two64)"

lemma Buffer_wf_default [simp]: "Buffer_wf Buffer_default"
  by (simp add: Buffer_wf_def Buffer_default_def)

lemma Buffer_wf_of_string [simp]: "length s < two64 \<Longrightarrow> Buffer_wf (Buffer_of_string s)"
  by (simp add: Buffer_wf_def Buffer_of_string_def)

lemma Buffer_str_simps [simp]:
  "Buffer_str Buffer_default = []"
  "Buffer_str (Buffer_of_string s) = s"
  by (simp_all add: Buffer_str_def Buffer_default_def Buffer_of_string_def)

lemma Buffer_str_bound: "Buffer_wf b \<Longrightarrow> length (Buffer_str b) < two64"
  by (auto simp: Buffer_wf_def Buffer_str_def split: option.splits)

lemma unat_Buffer_size: "Buffer_wf b \<Longrightarrow> unat (Buffer_size b) = length (Buffer_str b)"
  by (simp add: Buffer_size_def unat_size64 Buffer_str_bound)

lemma Buffer_remove_prefix_ok:
  assumes "Buffer_wf b" and "unat n \<le> length (Buffer_str b)"
  shows "\<exists>b'. Buffer_remove_prefix b n = Inr b' \<and> Buffer_wf b'
              \<and> Buffer_str b' = drop (unat n) (Buffer_str b)"
proof (cases "bf_storage b")
  case None
  with assms show ?thesis
    by (auto simp: Buffer_remove_prefix_def Buffer_size_def Buffer_str_def Buffer_wf_def word_nat)
next
  case (Some s)
  let ?off = "bf_starting_offset b"
  from assms Some have off: "unat ?off \<le> length s" "length s < two64"
    and n: "unat n \<le> length s - unat ?off"
    by (auto simp: Buffer_wf_def Buffer_str_def)
  then have sum: "unat (?off + n) = unat ?off + unat n"
    by (intro unat_add64) linarith
  have le: "\<not> n > Buffer_size b"
    using assms by (simp add: word_nat unat_Buffer_size)
  have eq: "?off + n = size64 s \<longleftrightarrow> unat ?off + unat n = length s"
    using off by (simp add: word_nat unat_size64 sum)
  show ?thesis
    using Some off n le sum eq
    by (auto simp: Buffer_remove_prefix_def Buffer_str_def Buffer_wf_def Let_def add.commute)
qed

lemma Buffer_remove_prefix_error:
  assumes "Buffer_wf b"
  shows "(\<exists>e. Buffer_remove_prefix b n = Inl e) \<longleftrightarrow> length (Buffer_str b) < unat n"
  using assms Buffer_remove_prefix_ok [OF assms, of n]
  by (auto simp: Buffer_remove_prefix_def word_nat unat_Buffer_size not_less)

lemma Buffer_at_ok: "Buffer_wf b \<Longrightarrow> unat n < length (Buffer_str b) \<Longrightarrow>
    Buffer_at b n = Inr (Buffer_str b ! unat n)"
  by (simp add: Buffer_at_def word_nat unat_Buffer_size)

section \<open>Queues of chunks\<close>

text \<open>
  The loop of \<^verbatim>\<open>BufferList::remove_prefix\<close> and \<^verbatim>\<open>BufferViewList::remove_prefix\<close>: the two bodies
  differ in the type of the chunk and in the message only.
\<close>

fun remove_prefix_loop :: "('c \<Rightarrow> u64) \<Rightarrow> ('c \<Rightarrow> u64 \<Rightarrow> 'c result) \<Rightarrow> exn \<Rightarrow> u64 \<Rightarrow> 'c list
    \<Rightarrow> 'c list result" where
  "remove_prefix_loop csize cdrop e n [] = (if n > 0 then Inl e else Inr [])"
| "remove_prefix_loop csize cdrop e n (c # cs) =
     (if n > 0 then
        if n < csize c then bindE (cdrop c n) (\<lambda>c'. Inr (c' # cs))
        else remove_prefix_loop csize cdrop e (n - csize c) cs
      else Inr (c # cs))"

definition chunks_size :: "('c \<Rightarrow> u64) \<Rightarrow> 'c list \<Rightarrow> u64" where
  "chunks_size csize cs = foldl (\<lambda>ret c. ret + csize c) 0 cs"

text \<open>What a chunk promises to the loops above.\<close>

locale chunk =
  fixes view :: "'c \<Rightarrow> bytes"
    and csize :: "'c \<Rightarrow> u64"
    and cdrop :: "'c \<Rightarrow> u64 \<Rightarrow> 'c result"
    and wf :: "'c \<Rightarrow> bool"
  assumes view_bound: "wf c \<Longrightarrow> length (view c) < two64"
    and csize: "wf c \<Longrightarrow> csize c = size64 (view c)"
    and cdrop: "wf c \<Longrightarrow> unat n \<le> length (view c) \<Longrightarrow>
       \<exists>c'. cdrop c n = Inr c' \<and> wf c' \<and> view c' = drop (unat n) (view c)"
begin

definition flat :: "'c list \<Rightarrow> bytes" where
  "flat cs = concat (map view cs)"

lemma flat_simps [simp]:
  "flat [] = []"
  "flat (c # cs) = view c @ flat cs"
  "flat (cs @ ds) = flat cs @ flat ds"
  by (simp_all add: flat_def)

lemma unat_csize: "wf c \<Longrightarrow> unat (csize c) = length (view c)"
  by (simp add: csize unat_size64 view_bound)

lemma remove_prefix_loop_ok:
  "list_all wf cs \<Longrightarrow> unat n \<le> length (flat cs) \<Longrightarrow>
   \<exists>cs'. remove_prefix_loop csize cdrop e n cs = Inr cs' \<and> list_all wf cs'
         \<and> flat cs' = drop (unat n) (flat cs)"
proof (induction cs arbitrary: n)
  case Nil
  then show ?case by (simp add: word_nat)
next
  case (Cons c cs)
  then have wf: "wf c" "list_all wf cs" by auto
  consider "n = 0" | "n > 0" "n < csize c" | "n > 0" "csize c \<le> n"
    by (metis not_le word_neq_0_conv)
  then show ?case
  proof cases
    case 1
    with Cons.prems show ?thesis by simp
  next
    case 2
    then have "unat n \<le> length (view c)"
      using wf by (simp add: word_nat unat_csize)
    with cdrop [OF wf(1), of n] 2 wf show ?thesis by auto
  next
    case 3
    then have sub: "unat (n - csize c) = unat n - length (view c)"
      and le: "length (view c) \<le> unat n"
      using wf by (simp_all add: unat_sub64 unat_csize word_nat)
    with Cons.prems have "unat (n - csize c) \<le> length (flat cs)" by simp
    from Cons.IH [OF wf(2) this] 3 sub le show ?thesis by (auto dest: leD)
  qed
qed

lemma remove_prefix_loop_error:
  "list_all wf cs \<Longrightarrow> length (flat cs) < unat n \<Longrightarrow>
   remove_prefix_loop csize cdrop e n cs = Inl e"
proof (induction cs arbitrary: n)
  case Nil
  then show ?case by (simp add: word_nat)
next
  case (Cons c cs)
  then have wf: "wf c" by simp
  with Cons.prems have "csize c \<le> n"
    by (simp add: word_nat unat_csize)
  then have "unat (n - csize c) = unat n - length (view c)"
    using wf by (simp add: unat_sub64 unat_csize)
  with Cons.prems \<open>csize c \<le> n\<close> show ?case
    by (auto simp: word_nat intro!: Cons.IH)
qed

lemma chunks_size_flat: "list_all wf cs \<Longrightarrow> chunks_size csize cs = size64 (flat cs)"
proof (induction cs rule: rev_induct)
  case Nil
  then show ?case by (simp add: chunks_size_def)
next
  case (snoc c cs)
  then show ?case by (simp add: chunks_size_def csize)
qed

end

interpretation buf: chunk Buffer_str Buffer_size Buffer_remove_prefix Buffer_wf
  by unfold_locales (simp_all add: Buffer_str_bound Buffer_size_def Buffer_remove_prefix_ok)

section \<open>BufferList\<close>

record BufferList =
  bl_buffers :: "Buffer list"

definition BufferList_of_Buffer :: "Buffer \<Rightarrow> BufferList" where
  "BufferList_of_Buffer b = \<lparr>bl_buffers = [b]\<rparr>"

definition BufferList_append :: "BufferList \<Rightarrow> BufferList \<Rightarrow> BufferList" where
  "BufferList_append l other = l\<lparr>bl_buffers := foldl (\<lambda>acc buf. acc @ [buf]) (bl_buffers l) (bl_buffers other)\<rparr>"

definition BufferList_of_string :: "bytes \<Rightarrow> BufferList" where
  "BufferList_of_string str =
     BufferList_append \<lparr>bl_buffers = []\<rparr> (BufferList_of_Buffer (Buffer_of_string str))"

definition BufferList_to_Buffer :: "BufferList \<Rightarrow> Buffer result" where
  "BufferList_to_Buffer l =
     (case bl_buffers l of
        [] \<Rightarrow> Inr Buffer_default
      | [b] \<Rightarrow> Inr b
      | _ \<Rightarrow> Inl (Runtime_error ''BufferList: please use concatenate() to combine a multi-Buffer BufferList into one Buffer''))"

definition BufferList_concatenate :: "BufferList \<Rightarrow> bytes" where
  "BufferList_concatenate l = foldl (\<lambda>ret buf. ret @ Buffer_str buf) [] (bl_buffers l)"

definition BufferList_size :: "BufferList \<Rightarrow> u64" where
  "BufferList_size l = chunks_size Buffer_size (bl_buffers l)"

definition BufferList_remove_prefix :: "BufferList \<Rightarrow> u64 \<Rightarrow> BufferList result" where
  "BufferList_remove_prefix l n =
     bindE (remove_prefix_loop Buffer_size Buffer_remove_prefix
              (Out_of_range ''BufferList::remove_prefix'') n (bl_buffers l))
       (\<lambda>bs. Inr (l\<lparr>bl_buffers := bs\<rparr>))"

definition BufferList_wf :: "BufferList \<Rightarrow> bool" where
  "BufferList_wf l \<longleftrightarrow> list_all Buffer_wf (bl_buffers l)"

lemma foldl_snoc: "foldl (\<lambda>acc x. acc @ [x]) xs ys = xs @ ys"
  by (induction ys arbitrary: xs) auto

lemma foldl_append_concat: "foldl (\<lambda>ret x. ret @ f x) acc ys = acc @ concat (map f ys)"
  by (induction ys arbitrary: acc) auto

lemma BufferList_append_buffers [simp]:
  "bl_buffers (BufferList_append l k) = bl_buffers l @ bl_buffers k"
  by (simp add: BufferList_append_def foldl_snoc)

lemma BufferList_concatenate_flat: "BufferList_concatenate l = buf.flat (bl_buffers l)"
  by (simp add: BufferList_concatenate_def foldl_append_concat buf.flat_def)

lemma BufferList_concatenate_append [simp]:
  "BufferList_concatenate (BufferList_append l k) = BufferList_concatenate l @ BufferList_concatenate k"
  by (simp add: BufferList_concatenate_flat)

lemma BufferList_concatenate_of [simp]:
  "BufferList_concatenate (BufferList_of_Buffer b) = Buffer_str b"
  "BufferList_concatenate (BufferList_of_string s) = s"
  "BufferList_concatenate \<lparr>bl_buffers = []\<rparr> = []"
  by (simp_all add: BufferList_concatenate_flat BufferList_of_Buffer_def BufferList_of_string_def)

section \<open>BufferViewList\<close>

text \<open>A \<^verbatim>\<open>std::string_view\<close> is the bytes it shows; an \<^verbatim>\<open>iovec\<close> is the chunk it points to.\<close>

definition string_view_remove_prefix :: "bytes \<Rightarrow> u64 \<Rightarrow> bytes result" where
  "string_view_remove_prefix v n =
     (if n \<le> size64 v then Inr (drop (unat n) v) else Inl Undefined_behaviour)"

record BufferViewList =
  bv_views :: "bytes list"

definition BufferViewList_of_string :: "bytes \<Rightarrow> BufferViewList" where
  "BufferViewList_of_string str = \<lparr>bv_views = [str]\<rparr>"

definition BufferViewList_of_BufferList :: "BufferList \<Rightarrow> BufferViewList" where
  "BufferViewList_of_BufferList l = \<lparr>bv_views = map Buffer_str (bl_buffers l)\<rparr>"

definition BufferViewList_remove_prefix :: "BufferViewList \<Rightarrow> u64 \<Rightarrow> BufferViewList result" where
  "BufferViewList_remove_prefix l n =
     bindE (remove_prefix_loop size64 string_view_remove_prefix
              (Out_of_range ''BufferListView::remove_prefix'') n (bv_views l))
       (\<lambda>vs. Inr (l\<lparr>bv_views := vs\<rparr>))"

definition BufferViewList_size :: "BufferViewList \<Rightarrow> u64" where
  "BufferViewList_size l = chunks_size size64 (bv_views l)"

definition BufferViewList_as_iovecs :: "BufferViewList \<Rightarrow> (bytes \<times> u64) list" where
  "BufferViewList_as_iovecs l = map (\<lambda>x. (x, size64 x)) (bv_views l)"

definition view_wf :: "bytes \<Rightarrow> bool" where
  "view_wf v \<longleftrightarrow> length v < two64"

interpretation view: chunk "\<lambda>v. v" size64 string_view_remove_prefix view_wf
  by unfold_locales (auto simp: view_wf_def string_view_remove_prefix_def word_nat unat_size64)

section \<open>Properties\<close>

text \<open>
  Removing a prefix of \<open>n\<close> bytes from a well-formed \<open>BufferList\<close> drops the first \<open>n\<close> bytes of
  what \<open>concatenate\<close> returns, and throws \<^verbatim>\<open>std::out_of_range\<close> exactly when there are fewer.
\<close>

lemma BufferList_remove_prefix_spec:
  assumes "BufferList_wf l"
  shows "case BufferList_remove_prefix l n of
           Inr l' \<Rightarrow> BufferList_wf l' \<and> unat n \<le> length (BufferList_concatenate l)
                      \<and> BufferList_concatenate l' = drop (unat n) (BufferList_concatenate l)
         | Inl e \<Rightarrow> e = Out_of_range ''BufferList::remove_prefix''
                      \<and> length (BufferList_concatenate l) < unat n"
proof (cases "unat n \<le> length (buf.flat (bl_buffers l))")
  case True
  with assms obtain bs where
    "remove_prefix_loop Buffer_size Buffer_remove_prefix (Out_of_range ''BufferList::remove_prefix'')
       n (bl_buffers l) = Inr bs"
    "list_all Buffer_wf bs" "buf.flat bs = drop (unat n) (buf.flat (bl_buffers l))"
    using buf.remove_prefix_loop_ok unfolding BufferList_wf_def by metis
  with True show ?thesis
    by (simp add: BufferList_remove_prefix_def BufferList_wf_def BufferList_concatenate_flat)
next
  case False
  with assms show ?thesis
    by (simp add: BufferList_remove_prefix_def BufferList_wf_def BufferList_concatenate_flat
        buf.remove_prefix_loop_error)
qed

lemma BufferViewList_remove_prefix_spec:
  assumes "list_all view_wf (bv_views l)" and "unat n \<le> length (concat (bv_views l))"
  shows "\<exists>l'. BufferViewList_remove_prefix l n = Inr l' \<and> list_all view_wf (bv_views l')
              \<and> concat (bv_views l') = drop (unat n) (concat (bv_views l))"
  using view.remove_prefix_loop_ok [OF assms(1), of n "Out_of_range ''BufferListView::remove_prefix''"] assms(2)
  by (auto simp: BufferViewList_remove_prefix_def view.flat_def)

lemma BufferViewList_size_concat:
  "list_all view_wf (bv_views l) \<Longrightarrow> BufferViewList_size l = size64 (concat (bv_views l))"
  by (simp add: BufferViewList_size_def view.chunks_size_flat view.flat_def)

lemma BufferList_size_concatenate:
  "BufferList_wf l \<Longrightarrow> BufferList_size l = size64 (BufferList_concatenate l)"
  by (simp add: BufferList_size_def BufferList_wf_def BufferList_concatenate_flat buf.chunks_size_flat)

end
