(* ===== verification/Byte_Stream.thy ===== *)
theory Byte_Stream
  imports Buffers
begin

text \<open>
  \<^verbatim>\<open>libsponge/byte_stream.hh\<close> and \<^verbatim>\<open>byte_stream.cc\<close>: the flow-controlled in-memory byte stream.
  The state is the record \<open>ByteStream\<close>, one definition per method.  The counters are 64-bit words;
  \<open>buffer_size\<close> is their difference, so it stays right when they wrap around.

  The locale \<open>flow_stream\<close> is the contract that the reassembler, the sender and the socket rely on:
  a bounded queue of bytes.  It is interpreted on the definitions of this theory.
\<close>

section \<open>State and operations\<close>

record ByteStream =
  bs_buffer :: "Buffer list"
  bs_capacity :: u64
  bs_byte_written :: u64
  bs_byte_read :: u64
  bs_end :: bool
  bs_error :: bool

definition ByteStream_new :: "u64 \<Rightarrow> ByteStream" where
  "ByteStream_new capacity = \<lparr>bs_buffer = [], bs_capacity = capacity, bs_byte_written = 0,
     bs_byte_read = 0, bs_end = False, bs_error = False\<rparr>"

definition ByteStream_buffer_size :: "ByteStream \<Rightarrow> u64" where
  "ByteStream_buffer_size s = bs_byte_written s - bs_byte_read s"

definition ByteStream_write :: "ByteStream \<Rightarrow> bytes \<Rightarrow> ByteStream \<times> u64" where
  "ByteStream_write s str =
     (let delta_len = min (size64 str) (bs_capacity s - ByteStream_buffer_size s) in
      (s\<lparr>bs_buffer := bs_buffer s @ [Buffer_of_string (take (unat delta_len) str)],
         bs_byte_written := bs_byte_written s + delta_len\<rparr>, delta_len))"

fun peek_loop :: "u64 \<Rightarrow> Buffer list \<Rightarrow> bytes \<Rightarrow> bytes" where
  "peek_loop true_len [] ret = ret"
| "peek_loop true_len (buffer # rest) ret =
     (if true_len \<ge> Buffer_size buffer then
        let ret' = ret @ Buffer_str buffer; true_len' = true_len - Buffer_size buffer in
        if true_len' \<le> 0 then ret' else peek_loop true_len' rest ret'
      else ret @ take (unat true_len) (Buffer_copy buffer))"

definition ByteStream_peek_output :: "ByteStream \<Rightarrow> u64 \<Rightarrow> bytes" where
  "ByteStream_peek_output s len =
     (let true_len = min len (ByteStream_buffer_size s) in peek_loop true_len (bs_buffer s) [])"

fun pop_loop :: "u64 \<Rightarrow> Buffer list \<Rightarrow> Buffer list result" where
  "pop_loop delta_len [] = (if delta_len > 0 then Inl Undefined_behaviour else Inr [])"
| "pop_loop delta_len (front # rest) =
     (if delta_len > 0 then
        if delta_len \<ge> Buffer_size front then pop_loop (delta_len - Buffer_size front) rest
        else bindE (Buffer_remove_prefix front delta_len) (\<lambda>front'. Inr (front' # rest))
      else Inr (front # rest))"

definition ByteStream_pop_output :: "ByteStream \<Rightarrow> u64 \<Rightarrow> ByteStream result" where
  "ByteStream_pop_output s len =
     (let delta_len = min len (ByteStream_buffer_size s) in
      if delta_len \<le> 0 then Inr s
      else bindE (pop_loop delta_len (bs_buffer s))
             (\<lambda>bs. Inr (s\<lparr>bs_byte_read := bs_byte_read s + delta_len, bs_buffer := bs\<rparr>)))"

definition ByteStream_read :: "ByteStream \<Rightarrow> u64 \<Rightarrow> (ByteStream \<times> bytes) result" where
  "ByteStream_read s len =
     (let delta_len = min len (ByteStream_buffer_size s);
          ret = ByteStream_peek_output s delta_len in
      bindE (ByteStream_pop_output s delta_len) (\<lambda>s'. Inr (s', ret)))"

definition ByteStream_end_input :: "ByteStream \<Rightarrow> ByteStream" where
  "ByteStream_end_input s = s\<lparr>bs_end := True\<rparr>"

definition ByteStream_set_error :: "ByteStream \<Rightarrow> ByteStream" where
  "ByteStream_set_error s = s\<lparr>bs_error := True\<rparr>"

definition ByteStream_input_ended :: "ByteStream \<Rightarrow> bool" where
  "ByteStream_input_ended s = bs_end s"

definition ByteStream_buffer_empty :: "ByteStream \<Rightarrow> bool" where
  "ByteStream_buffer_empty s \<longleftrightarrow> ByteStream_buffer_size s = 0"

definition ByteStream_eof :: "ByteStream \<Rightarrow> bool" where
  "ByteStream_eof s \<longleftrightarrow> bs_end s \<and> ByteStream_buffer_empty s"

definition ByteStream_remaining_capacity :: "ByteStream \<Rightarrow> u64" where
  "ByteStream_remaining_capacity s = bs_capacity s - ByteStream_buffer_size s"

section \<open>The contract of a flow-controlled stream\<close>

text \<open>A run of writes and reads: the final state, the bytes accepted and the bytes delivered.\<close>

datatype stream_op = Write_op bytes | Read_op u64

fun stream_run :: "('s \<Rightarrow> bytes \<Rightarrow> 's \<times> u64) \<Rightarrow> ('s \<Rightarrow> u64 \<Rightarrow> ('s \<times> bytes) result) \<Rightarrow> 's
    \<Rightarrow> stream_op list \<Rightarrow> ('s \<times> bytes \<times> bytes) result" where
  "stream_run put get s [] = Inr (s, [], [])"
| "stream_run put get s (Write_op d # ops) =
     (let (s', n) = put s d in
      bindE (stream_run put get s' ops) (\<lambda>(t, i, out). Inr (t, take (unat n) d @ i, out)))"
| "stream_run put get s (Read_op n # ops) =
     bindE (get s n) (\<lambda>(s', d).
       bindE (stream_run put get s' ops) (\<lambda>(t, i, out). Inr (t, i, d @ out)))"

fun op_wf :: "stream_op \<Rightarrow> bool" where
  "op_wf (Write_op d) \<longleftrightarrow> length d < two64"
| "op_wf (Read_op n) \<longleftrightarrow> True"

locale flow_stream =
  fixes inv :: "'s \<Rightarrow> bool"
    and contents :: "'s \<Rightarrow> bytes"
    and capacity :: "'s \<Rightarrow> nat"
    and put :: "'s \<Rightarrow> bytes \<Rightarrow> 's \<times> u64"
    and look :: "'s \<Rightarrow> u64 \<Rightarrow> bytes"
    and pop :: "'s \<Rightarrow> u64 \<Rightarrow> 's result"
    and get :: "'s \<Rightarrow> u64 \<Rightarrow> ('s \<times> bytes) result"
  assumes bounded: "inv s \<Longrightarrow> length (contents s) \<le> capacity s"
    and write_law: "inv s \<Longrightarrow> length d < two64 \<Longrightarrow> put s d = (s', n) \<Longrightarrow>
        inv s' \<and> unat n = min (length d) (capacity s - length (contents s))
        \<and> contents s' = contents s @ take (unat n) d \<and> capacity s' = capacity s"
    and peek_law: "inv s \<Longrightarrow> look s n = take (unat n) (contents s)"
    and pop_law: "inv s \<Longrightarrow> \<exists>s'. pop s n = Inr s' \<and> inv s'
        \<and> contents s' = drop (unat n) (contents s) \<and> capacity s' = capacity s"
    and read_law: "inv s \<Longrightarrow> \<exists>s'. get s n = Inr (s', take (unat n) (contents s)) \<and> inv s'
        \<and> contents s' = drop (unat n) (contents s) \<and> capacity s' = capacity s"
begin

text \<open>Queues are first in, first out, whatever the interleaving of writes and reads.\<close>

lemma fifo:
  "inv s \<Longrightarrow> list_all op_wf ops \<Longrightarrow>
   \<exists>t i out. stream_run put get s ops = Inr (t, i, out) \<and> inv t
             \<and> capacity t = capacity s \<and> contents s @ i = out @ contents t"
proof (induction ops arbitrary: s)
  case Nil
  then show ?case by simp
next
  case (Cons p ops)
  show ?case
  proof (cases p)
    case (Write_op d)
    obtain s' n where w: "put s d = (s', n)" by fastforce
    with Cons.prems Write_op have s': "inv s'" "capacity s' = capacity s"
      "contents s' = contents s @ take (unat n) d"
      using write_law [of s d s' n] by auto
    from Cons.IH [OF s'(1)] Cons.prems obtain t i out where
      "stream_run put get s' ops = Inr (t, i, out)" "inv t" "capacity t = capacity s'"
      "contents s' @ i = out @ contents t"
      by auto
    with s' w Write_op show ?thesis by simp
  next
    case (Read_op n)
    from read_law [OF Cons.prems(1), of n] obtain s' where s':
      "get s n = Inr (s', take (unat n) (contents s))" "inv s'" "capacity s' = capacity s"
      "contents s' = drop (unat n) (contents s)"
      by auto
    from Cons.IH [OF s'(2)] Cons.prems obtain t i out where
      "stream_run put get s' ops = Inr (t, i, out)" "inv t" "capacity t = capacity s'"
      "drop (unat n) (contents s) @ i = out @ contents t"
      using s'(4) by auto
    moreover from this have "contents s @ i = (take (unat n) (contents s) @ out) @ contents t"
      by (metis append.assoc append_take_drop_id)
    ultimately show ?thesis
      using s' Read_op by simp
  qed
qed

text \<open>Peeking, then popping the part that a partial write took, loses and duplicates nothing.\<close>

lemma peek_then_pop:
  assumes "inv s" and "unat k \<le> length (look s n)"
  shows "\<exists>s'. pop s k = Inr s' \<and> inv s' \<and> take (unat k) (look s n) @ contents s' = contents s"
proof -
  from assms have "take (unat k) (look s n) = take (unat k) (contents s)"
    by (simp add: peek_law min_absorb1)
  with pop_law [OF assms(1), of k] show ?thesis by auto
qed

end

section \<open>The byte stream implements the contract\<close>

definition ByteStream_contents :: "ByteStream \<Rightarrow> bytes" where
  "ByteStream_contents s = concat (map Buffer_str (bs_buffer s))"

definition ByteStream_inv :: "ByteStream \<Rightarrow> bool" where
  "ByteStream_inv s \<longleftrightarrow> list_all Buffer_wf (bs_buffer s)
     \<and> unat (ByteStream_buffer_size s) = length (ByteStream_contents s)
     \<and> length (ByteStream_contents s) \<le> unat (bs_capacity s)"

lemma ByteStream_contents_flat: "ByteStream_contents s = buf.flat (bs_buffer s)"
  by (simp add: ByteStream_contents_def buf.flat_def)

lemma ByteStream_new_inv [keeps_inv]: "ByteStream_inv (ByteStream_new c)"
  by (simp add: ByteStream_inv_def ByteStream_new_def ByteStream_buffer_size_def ByteStream_contents_def)

lemma ByteStream_new_simps [simp]:
  "ByteStream_contents (ByteStream_new c) = []"
  "bs_capacity (ByteStream_new c) = c"
  "bs_byte_written (ByteStream_new c) = 0"
  "bs_byte_read (ByteStream_new c) = 0"
  "bs_end (ByteStream_new c) = False"
  "bs_error (ByteStream_new c) = False"
  by (simp_all add: ByteStream_new_def ByteStream_contents_def)

lemma unat_buffer_size: "ByteStream_inv s \<Longrightarrow> unat (ByteStream_buffer_size s) = length (ByteStream_contents s)"
  by (simp add: ByteStream_inv_def)

lemma unat_remaining_capacity:
  "ByteStream_inv s \<Longrightarrow>
   unat (ByteStream_remaining_capacity s) = unat (bs_capacity s) - length (ByteStream_contents s)"
  by (auto simp: ByteStream_inv_def ByteStream_remaining_capacity_def word_nat intro!: unat_sub64 [THEN trans])

lemma ByteStream_buffer_empty_iff: "ByteStream_inv s \<Longrightarrow> ByteStream_buffer_empty s \<longleftrightarrow> ByteStream_contents s = []"
  by (auto simp: ByteStream_buffer_empty_def word_nat unat_buffer_size)

lemma ByteStream_eof_iff: "ByteStream_inv s \<Longrightarrow> ByteStream_eof s \<longleftrightarrow> bs_end s \<and> ByteStream_contents s = []"
  by (simp add: ByteStream_eof_def ByteStream_buffer_empty_iff)

lemma ByteStream_write_law:
  assumes "ByteStream_inv s" and "length d < two64" and "ByteStream_write s d = (s', n)"
  shows "ByteStream_inv s'"
    and "unat n = min (length d) (unat (bs_capacity s) - length (ByteStream_contents s))"
    and "ByteStream_contents s' = ByteStream_contents s @ take (unat n) d"
proof -
  let ?n = "min (size64 d) (bs_capacity s - ByteStream_buffer_size s)"
  have n: "n = ?n" and s': "s' = s\<lparr>bs_buffer := bs_buffer s @ [Buffer_of_string (take (unat n) d)],
         bs_byte_written := bs_byte_written s + n\<rparr>"
    using assms(3) by (auto simp: ByteStream_write_def Let_def)
  show un: "unat n = min (length d) (unat (bs_capacity s) - length (ByteStream_contents s))"
    using assms(1,2) unat_remaining_capacity [of s]
    by (simp add: n unat_size64 ByteStream_remaining_capacity_def)
  show c: "ByteStream_contents s' = ByteStream_contents s @ take (unat n) d"
    by (simp add: s' ByteStream_contents_def)
  have cap: "length (ByteStream_contents s) + unat n \<le> unat (bs_capacity s)"
    using assms(1) un by (auto simp: ByteStream_inv_def min_def)
  have "ByteStream_buffer_size s' = ByteStream_buffer_size s + n"
    by (simp add: s' ByteStream_buffer_size_def)
  moreover have "unat (ByteStream_buffer_size s) + unat n < two64"
    using le_less_trans [OF cap unat_lt64] assms(1) by (simp add: unat_buffer_size)
  ultimately have bs: "unat (ByteStream_buffer_size s') = length (ByteStream_contents s) + unat n"
    using assms(1) by (simp add: unat_add64 unat_buffer_size)
  have "unat n \<le> length d" using un by simp
  then have len: "length (ByteStream_contents s') = length (ByteStream_contents s) + unat n"
    by (simp add: c)
  have wf: "list_all Buffer_wf (bs_buffer s')"
    using assms(1,2) by (simp add: s' ByteStream_inv_def)
  show "ByteStream_inv s'"
    using wf bs cap len by (simp add: ByteStream_inv_def) (simp add: s')
qed

lemma ByteStream_write_frame [frame]:
  "bs_capacity (fst (ByteStream_write s d)) = bs_capacity s"
  "bs_byte_read (fst (ByteStream_write s d)) = bs_byte_read s"
  "bs_byte_written (fst (ByteStream_write s d)) = bs_byte_written s + snd (ByteStream_write s d)"
  "bs_end (fst (ByteStream_write s d)) = bs_end s"
  "bs_error (fst (ByteStream_write s d)) = bs_error s"
  by (simp_all add: ByteStream_write_def Let_def)

text \<open>The loop of \<open>peek_output\<close> copies a prefix of the concatenated chunks.\<close>

lemma peek_loop_take:
  "list_all Buffer_wf bs \<Longrightarrow> unat n \<le> length (buf.flat bs) \<Longrightarrow>
   peek_loop n bs ret = ret @ take (unat n) (buf.flat bs)"
proof (induction bs arbitrary: n ret)
  case Nil
  then show ?case by simp
next
  case (Cons b bs)
  then have wf: "Buffer_wf b" "list_all Buffer_wf bs" by auto
  show ?case
  proof (cases "Buffer_size b \<le> n")
    case True
    then have le: "length (Buffer_str b) \<le> unat n"
      and sub: "unat (n - Buffer_size b) = unat n - length (Buffer_str b)"
      using wf by (simp_all add: word_nat unat_Buffer_size unat_sub64)
    have "unat (n - Buffer_size b) \<le> length (buf.flat bs)"
      using Cons.prems sub by simp
    from Cons.IH [OF wf(2) this] True le sub show ?thesis
      by (auto simp: Let_def word_nat)
  next
    case False
    then have "unat n < length (Buffer_str b)"
      using wf by (simp add: word_nat unat_Buffer_size)
    with False show ?thesis by (simp add: Buffer_copy_def)
  qed
qed

lemma ByteStream_peek_law [stream_laws]:
  assumes "ByteStream_inv s"
  shows "ByteStream_peek_output s n = take (unat n) (ByteStream_contents s)"
proof -
  from assms have len: "unat (min n (ByteStream_buffer_size s)) = min (unat n) (length (ByteStream_contents s))"
    by (simp add: unat_buffer_size)
  moreover have "list_all Buffer_wf (bs_buffer s)"
    using assms by (simp add: ByteStream_inv_def)
  ultimately show ?thesis
    by (simp add: ByteStream_peek_output_def Let_def peek_loop_take ByteStream_contents_flat take_min_length)
qed

lemma peek_length:
  assumes "ByteStream_inv s"
  shows "length (ByteStream_peek_output s (min 65536 n)) < 2 ^ 63"
proof -
  have "length (ByteStream_peek_output s (min 65536 n)) \<le> 65536" by (simp add: ByteStream_peek_law [OF assms])
  then show ?thesis by simp
qed

text \<open>The loop of \<open>pop_output\<close> is the prefix-removing loop of the buffer lists.\<close>

lemma pop_loop_eq: "pop_loop n bs = remove_prefix_loop Buffer_size Buffer_remove_prefix Undefined_behaviour n bs"
  by (induction bs arbitrary: n) (auto simp: not_le)

lemma ByteStream_pop_ok:
  assumes "ByteStream_inv s"
  shows "\<exists>bs. ByteStream_pop_output s n =
           Inr (s\<lparr>bs_byte_read := bs_byte_read s + min n (ByteStream_buffer_size s), bs_buffer := bs\<rparr>)
         \<and> list_all Buffer_wf bs \<and> buf.flat bs = drop (unat n) (ByteStream_contents s)"
proof (cases "min n (ByteStream_buffer_size s) = 0")
  case True
  with assms have "drop (unat n) (ByteStream_contents s) = ByteStream_contents s"
    by (auto simp: min_def word_nat unat_buffer_size split: if_splits)
  with True assms show ?thesis
    by (intro exI [of _ "bs_buffer s"])
      (simp add: ByteStream_pop_output_def ByteStream_inv_def ByteStream_contents_flat)
next
  case False
  let ?m = "min n (ByteStream_buffer_size s)"
  from assms have m: "unat ?m = min (unat n) (length (buf.flat (bs_buffer s)))"
    by (simp add: unat_buffer_size ByteStream_contents_flat)
  with assms obtain bs where "pop_loop ?m (bs_buffer s) = Inr bs" "list_all Buffer_wf bs"
    "buf.flat bs = drop (unat ?m) (buf.flat (bs_buffer s))"
    using buf.remove_prefix_loop_ok [of "bs_buffer s" ?m] unfolding pop_loop_eq
    by (metis ByteStream_inv_def min.cobounded2)
  moreover from this m have "buf.flat bs = drop (unat n) (buf.flat (bs_buffer s))"
    by (simp add: min_def)
  ultimately show ?thesis
    using False by (auto simp: ByteStream_pop_output_def Let_def ByteStream_contents_flat)
qed

lemma ByteStream_pop_law:
  assumes "ByteStream_inv s"
  obtains s' where "ByteStream_pop_output s n = Inr s'" and "ByteStream_inv s'"
    and "ByteStream_contents s' = drop (unat n) (ByteStream_contents s)"
    and "bs_capacity s' = bs_capacity s" "bs_end s' = bs_end s" "bs_error s' = bs_error s"
    and "bs_byte_written s' = bs_byte_written s"
    and "bs_byte_read s' = bs_byte_read s + min n (ByteStream_buffer_size s)"
proof -
  from ByteStream_pop_ok [OF assms, of n] obtain bs where bs:
    "ByteStream_pop_output s n =
       Inr (s\<lparr>bs_byte_read := bs_byte_read s + min n (ByteStream_buffer_size s), bs_buffer := bs\<rparr>)"
    "list_all Buffer_wf bs" "buf.flat bs = drop (unat n) (ByteStream_contents s)"
    by auto
  let ?s' = "s\<lparr>bs_byte_read := bs_byte_read s + min n (ByteStream_buffer_size s), bs_buffer := bs\<rparr>"
  have c: "ByteStream_contents ?s' = drop (unat n) (ByteStream_contents s)"
    using bs(3) by (simp add: ByteStream_contents_flat)
  have "ByteStream_buffer_size ?s' = ByteStream_buffer_size s - min n (ByteStream_buffer_size s)"
    by (simp add: ByteStream_buffer_size_def)
  then have "unat (ByteStream_buffer_size ?s') = length (ByteStream_contents s) - unat n"
    using assms by (simp add: unat_sub64 unat_buffer_size)
  with bs(2) c assms have "ByteStream_inv ?s'"
    by (auto simp: ByteStream_inv_def)
  with bs(1) c show ?thesis by (intro that [of ?s']) simp_all
qed

lemma ByteStream_read_law:
  assumes "ByteStream_inv s"
  obtains s' where "ByteStream_read s n = Inr (s', take (unat n) (ByteStream_contents s))"
    and "ByteStream_inv s'" and "ByteStream_contents s' = drop (unat n) (ByteStream_contents s)"
    and "bs_capacity s' = bs_capacity s" "bs_end s' = bs_end s" "bs_error s' = bs_error s"
    and "bs_byte_written s' = bs_byte_written s"
    and "bs_byte_read s' = bs_byte_read s + min n (ByteStream_buffer_size s)"
proof -
  let ?m = "min n (ByteStream_buffer_size s)"
  have m: "unat ?m = min (unat n) (length (ByteStream_contents s))"
    using assms by (simp add: unat_buffer_size)
  obtain s' where s': "ByteStream_pop_output s ?m = Inr s'" "ByteStream_inv s'"
    "ByteStream_contents s' = drop (unat ?m) (ByteStream_contents s)"
    "bs_capacity s' = bs_capacity s" "bs_end s' = bs_end s" "bs_error s' = bs_error s"
    "bs_byte_written s' = bs_byte_written s"
    "bs_byte_read s' = bs_byte_read s + min ?m (ByteStream_buffer_size s)"
    using ByteStream_pop_law [OF assms] by metis
  have "take (unat ?m) (ByteStream_contents s) = take (unat n) (ByteStream_contents s)"
    "drop (unat ?m) (ByteStream_contents s) = drop (unat n) (ByteStream_contents s)"
    unfolding m by (simp_all add: min_def)
  with s' assms show ?thesis
    by (intro that [of s']) (simp_all add: ByteStream_read_def Let_def stream_laws)
qed

interpretation bs: flow_stream ByteStream_inv ByteStream_contents "\<lambda>s. unat (bs_capacity s)"
  ByteStream_write ByteStream_peek_output ByteStream_pop_output ByteStream_read
proof unfold_locales
  fix s :: ByteStream and d n s'
  assume "ByteStream_inv s"
  then show "length (ByteStream_contents s) \<le> unat (bs_capacity s)"
    by (simp add: ByteStream_inv_def)
next
  fix s :: ByteStream and d n s'
  assume *: "ByteStream_inv s" "length d < two64" "ByteStream_write s d = (s', n)"
  then have "bs_capacity s' = bs_capacity s"
    using ByteStream_write_frame(1) [of s d] by simp
  with ByteStream_write_law [OF *]
  show "ByteStream_inv s' \<and> unat n = min (length d) (unat (bs_capacity s) - length (ByteStream_contents s))
        \<and> ByteStream_contents s' = ByteStream_contents s @ take (unat n) d
        \<and> unat (bs_capacity s') = unat (bs_capacity s)"
    by simp
next
  fix s n assume "ByteStream_inv s"
  then show "ByteStream_peek_output s n = take (unat n) (ByteStream_contents s)"
    by (rule ByteStream_peek_law)
next
  fix s n assume "ByteStream_inv s"
  then show "\<exists>s'. ByteStream_pop_output s n = Inr s' \<and> ByteStream_inv s'
      \<and> ByteStream_contents s' = drop (unat n) (ByteStream_contents s)
      \<and> unat (bs_capacity s') = unat (bs_capacity s)"
    by (rule ByteStream_pop_law) auto
next
  fix s n assume "ByteStream_inv s"
  then show "\<exists>s'. ByteStream_read s n = Inr (s', take (unat n) (ByteStream_contents s)) \<and> ByteStream_inv s'
      \<and> ByteStream_contents s' = drop (unat n) (ByteStream_contents s)
      \<and> unat (bs_capacity s') = unat (bs_capacity s)"
    by (rule ByteStream_read_law) auto
qed

lemma ByteStream_flag_ops [simp]:
  "ByteStream_inv (ByteStream_end_input s) = ByteStream_inv s"
  "ByteStream_inv (ByteStream_set_error s) = ByteStream_inv s"
  "ByteStream_contents (ByteStream_end_input s) = ByteStream_contents s"
  "ByteStream_contents (ByteStream_set_error s) = ByteStream_contents s"
  "ByteStream_buffer_size (ByteStream_end_input s) = ByteStream_buffer_size s"
  "ByteStream_buffer_size (ByteStream_set_error s) = ByteStream_buffer_size s"
  by (simp_all add: ByteStream_inv_def ByteStream_end_input_def ByteStream_set_error_def
      ByteStream_contents_def ByteStream_buffer_size_def)


section \<open>Properties\<close>

text \<open>
  C34: Whatever the interleaving of \<^verbatim>\<open>write\<close> and \<^verbatim>\<open>read\<close> on a fresh \<^verbatim>\<open>ByteStream\<close>, no call fails; the
  bytes read so far followed by the bytes still buffered are exactly the bytes accepted so far, in
  order; at most \<^verbatim>\<open>capacity\<close> bytes are buffered, and \<^verbatim>\<open>buffer_size()\<close> reports their number.
\<close>

theorem bytestream_fifo:
  assumes "list_all op_wf ops"
  shows "\<exists>t i out. stream_run ByteStream_write ByteStream_read (ByteStream_new c) ops = Inr (t, i, out)
           \<and> i = out @ ByteStream_contents t \<and> length (ByteStream_contents t) \<le> unat c
           \<and> unat (ByteStream_buffer_size t) = length (ByteStream_contents t)"
proof -
  from bs.fifo [OF ByteStream_new_inv assms, of c] obtain t i out where
    "stream_run ByteStream_write ByteStream_read (ByteStream_new c) ops = Inr (t, i, out)"
    "ByteStream_inv t" "unat (bs_capacity t) = unat c" "i = out @ ByteStream_contents t"
    by auto
  then show ?thesis
    using bs.bounded [of t] by (auto simp: unat_buffer_size)
qed

theorem bytestream_fifo_witness:
  "\<exists>t i out. stream_run ByteStream_write ByteStream_read (ByteStream_new 3)
       [Write_op [1, 2], Read_op 1, Write_op [3, 4, 5]] = Inr (t, i, out)
     \<and> i = out @ ByteStream_contents t \<and> length (ByteStream_contents t) \<le> unat (3 :: u64)
     \<and> unat (ByteStream_buffer_size t) = length (ByteStream_contents t)"
  by (rule bytestream_fifo) (simp add: two64_def)

text \<open>
  \<^verbatim>\<open>write\<close> accepts exactly the longest prefix that fits, returns its length, keeps the
  invariant, and reduces \<^verbatim>\<open>remaining_capacity()\<close> by that length.  It does so also after
  \<^verbatim>\<open>end_input()\<close>: the \<^verbatim>\<open>_end\<close> flag is not consulted, so a stream whose input has ended can grow again.
\<close>

lemma bytestream_write_spec:
  assumes "ByteStream_inv s" and "length d < two64" and "ByteStream_write s d = (s', n)"
  shows "ByteStream_inv s'
    \<and> unat n = min (length d) (unat (ByteStream_remaining_capacity s))
    \<and> ByteStream_contents s' = ByteStream_contents s @ take (unat n) d
    \<and> unat (ByteStream_remaining_capacity s') = unat (ByteStream_remaining_capacity s) - unat n
    \<and> bs_end s' = bs_end s"
proof -
  note w = ByteStream_write_law [OF assms]
  have "bs_capacity s' = bs_capacity s" "bs_end s' = bs_end s"
    using ByteStream_write_frame(1,4) [of s d] assms(3) by simp_all
  with w assms(1) show ?thesis
    by (simp add: unat_remaining_capacity)
qed

definition ended_stream :: ByteStream where
  "ended_stream = ByteStream_end_input (ByteStream_new 2)"

lemma ended_stream_accepts:
  "\<exists>s' n. ByteStream_write ended_stream [7, 8, 9] = (s', n) \<and> unat n = 2
     \<and> ByteStream_contents s' = [7, 8] \<and> bs_end s'"
proof -
  obtain s' n where w: "ByteStream_write ended_stream [7, 8, 9] = (s', n)" by fastforce
  have inv: "ByteStream_inv ended_stream" and rem: "unat (ByteStream_remaining_capacity ended_stream) = 2"
    by (simp_all add: ended_stream_def keeps_inv unat_remaining_capacity)
      (simp add: ByteStream_end_input_def)
  have "ByteStream_contents ended_stream = []" "bs_end ended_stream"
    by (simp_all add: ended_stream_def) (simp add: ByteStream_end_input_def)
  moreover have "length [7, 8, 9 :: byte] < two64" by (simp add: two64_def)
  ultimately show ?thesis
    using bytestream_write_spec [OF inv _ w] rem w by auto
qed

end
