(* ===== verification/Containers.thy ===== *)
theory Containers
  imports Prelude "HOL-Library.Product_Lexorder"
begin

text \<open>
  The ordered containers of the C++ standard library as the code uses them.  A \<^verbatim>\<open>std::set\<close> or
  \<^verbatim>\<open>std::map\<close> is the list of its elements in iteration order, an iterator of it is a position; a
  \<^verbatim>\<open>std::list\<close> is a list of nodes with identities, and an iterator of it is a node's identity.

  The locale \<open>ordered_set\<close> states what the clients rely on; it is interpreted on the operations
  for a \<^verbatim>\<open>std::set\<close> of pairs and for a \<^verbatim>\<open>std::set\<close> that compares the first component only.
\<close>

section \<open>Ordered sets and maps\<close>

definition lower_bound :: "('a \<Rightarrow> 'k::linorder) \<Rightarrow> 'k \<Rightarrow> 'a list \<Rightarrow> nat" where
  "lower_bound key k xs = length (takeWhile (\<lambda>x. key x < k) xs)"

fun oinsert :: "('a \<Rightarrow> 'k::linorder) \<Rightarrow> 'a \<Rightarrow> 'a list \<Rightarrow> 'a list" where
  "oinsert key x [] = [x]"
| "oinsert key x (y # ys) =
     (if key x < key y then x # y # ys else if key x = key y then y # ys else y # oinsert key x ys)"

fun oassign :: "('a \<Rightarrow> 'k::linorder) \<Rightarrow> 'a \<Rightarrow> 'a list \<Rightarrow> 'a list" where
  "oassign key x [] = [x]"
| "oassign key x (y # ys) =
     (if key x < key y then x # y # ys else if key x = key y then x # ys else y # oassign key x ys)"

definition oerase :: "('a \<Rightarrow> 'k) \<Rightarrow> 'k \<Rightarrow> 'a list \<Rightarrow> 'a list" where
  "oerase key k xs = filter (\<lambda>x. key x \<noteq> k) xs"

abbreviation osorted :: "('a \<Rightarrow> 'k::linorder) \<Rightarrow> 'a list \<Rightarrow> bool" where
  "osorted key xs \<equiv> sorted_wrt (<) (map key xs)"

lemma set_oinsert: "osorted key xs \<Longrightarrow> set (oinsert key x xs) =
    (if key x \<in> key ` set xs then set xs else insert x (set xs))"
  by (induction xs) (auto dest: less_imp_neq)

lemma osorted_oinsert: "osorted key xs \<Longrightarrow> osorted key (oinsert key x xs)"
  by (induction xs) (auto simp: set_oinsert split: if_splits)

lemma oinsert_last:
  "\<forall>y\<in>set xs. key y < key x \<Longrightarrow> oinsert key x xs = xs @ [x]"
  by (induction xs) (auto dest: less_asym)

lemma set_oerase [simp]: "set (oerase key k xs) = {x \<in> set xs. key x \<noteq> k}"
  by (auto simp: oerase_def)

lemma osorted_oerase: "osorted key xs \<Longrightarrow> osorted key (oerase key k xs)"
  by (induction xs) (auto simp: oerase_def)

lemma lower_bound_take:
  "set (take (lower_bound key k xs) xs) = {x \<in> set xs. key x < k}" if "osorted key xs"
  using that
proof (induction xs)
  case Nil
  then show ?case by (simp add: lower_bound_def)
next
  case (Cons y ys)
  show ?case
  proof (cases "key y < k")
    case True
    with Cons show ?thesis by (auto simp: lower_bound_def)
  next
    case False
    moreover from this Cons.prems have "\<forall>x\<in>set ys. \<not> key x < k"
      by (auto dest: less_trans)
    ultimately show ?thesis by (auto simp: lower_bound_def)
  qed
qed

lemma lower_bound_drop:
  "set (drop (lower_bound key k xs) xs) = {x \<in> set xs. k \<le> key x}" if "osorted key xs"
  using that
proof (induction xs)
  case Nil
  then show ?case by (simp add: lower_bound_def)
next
  case (Cons y ys)
  show ?case
  proof (cases "key y < k")
    case True
    with Cons show ?thesis by (auto simp: lower_bound_def)
  next
    case False
    moreover from this Cons.prems have "\<forall>x\<in>set ys. k \<le> key x"
      by (auto simp: not_less intro: order_trans less_imp_le)
    ultimately show ?thesis by (auto simp: lower_bound_def)
  qed
qed

text \<open>What the clients of an ordered set rely on.\<close>

locale ordered_set =
  fixes key :: "'a \<Rightarrow> 'k::linorder"
    and ins :: "'a \<Rightarrow> 'a list \<Rightarrow> 'a list"
    and del :: "'k \<Rightarrow> 'a list \<Rightarrow> 'a list"
  assumes ins_set: "osorted key xs \<Longrightarrow> set (ins x xs) =
        (if key x \<in> key ` set xs then set xs else insert x (set xs))"
    and ins_sorted: "osorted key xs \<Longrightarrow> osorted key (ins x xs)"
    and del_set: "osorted key xs \<Longrightarrow> set (del k xs) = {x \<in> set xs. key x \<noteq> k}"
    and del_sorted: "osorted key xs \<Longrightarrow> osorted key (del k xs)"
begin

lemma del_all: "osorted key xs \<Longrightarrow>
    osorted key (foldl (\<lambda>s v. del (key v) s) xs vs)
    \<and> set (foldl (\<lambda>s v. del (key v) s) xs vs) = {x \<in> set xs. key x \<notin> key ` set vs}"
proof (induction vs arbitrary: xs)
  case Nil
  then show ?case by simp
next
  case (Cons v vs)
  from Cons.IH [OF del_sorted [OF Cons.prems, of "key v"]] Cons.prems show ?case
    by (auto simp: del_set)
qed

lemma ins_all: "osorted key xs \<Longrightarrow> distinct (map key vs) \<Longrightarrow> key ` set vs \<inter> key ` set xs = {} \<Longrightarrow>
    osorted key (foldl (\<lambda>s v. ins v s) xs vs)
    \<and> set (foldl (\<lambda>s v. ins v s) xs vs) = set xs \<union> set vs"
proof (induction vs arbitrary: xs)
  case Nil
  then show ?case by simp
next
  case (Cons v vs)
  have s: "set (ins v xs) = insert v (set xs)"
    using Cons.prems ins_set [of xs v] by auto
  with Cons.IH [OF ins_sorted [OF Cons.prems(1), of v]] Cons.prems show ?case by auto
qed

lemma ins_all_inj: "osorted key xs \<Longrightarrow> inj key \<Longrightarrow>
    osorted key (foldl (\<lambda>s v. ins v s) xs vs)
    \<and> set (foldl (\<lambda>s v. ins v s) xs vs) = set xs \<union> set vs"
proof (induction vs arbitrary: xs)
  case Nil
  then show ?case by simp
next
  case (Cons v vs)
  have "set (ins v xs) = insert v (set xs)"
    using Cons.prems ins_set [of xs v] by (auto simp: inj_image_mem_iff)
  with Cons.IH [OF ins_sorted [OF Cons.prems(1), of v] Cons.prems(2)] show ?case by auto
qed

end

interpretation pair_set: ordered_set "\<lambda>p :: u64 \<times> u64. p" "oinsert (\<lambda>p. p)" "oerase (\<lambda>p. p)"
  by unfold_locales (rule set_oinsert [of "\<lambda>p. p"] osorted_oinsert [of "\<lambda>p. p"]
      set_oerase [of "\<lambda>p. p"] osorted_oerase [of "\<lambda>p. p"]; assumption)+

interpretation first_set: ordered_set "fst :: u64 \<times> 'b \<Rightarrow> u64" "oinsert fst" "oerase fst"
  by unfold_locales (simp_all add: set_oinsert osorted_oinsert osorted_oerase)

section \<open>Linked lists\<close>

text \<open>
  \<open>list_insert_before\<close> is \<^verbatim>\<open>std::list::insert(it, x)\<close> and \<open>list_assign\<close> is \<^verbatim>\<open>*it = x\<close>: using an
  iterator whose node is not in the list is undefined.
\<close>

fun list_insert_before :: "('a \<Rightarrow> nat) \<Rightarrow> nat \<Rightarrow> 'a \<Rightarrow> 'a list \<Rightarrow> 'a list result" where
  "list_insert_before ident it x [] = Inl Undefined_behaviour"
| "list_insert_before ident it x (y # ys) =
     (if ident y = it then Inr (x # y # ys)
      else bindE (list_insert_before ident it x ys) (\<lambda>zs. Inr (y # zs)))"

fun list_assign :: "('a \<Rightarrow> nat) \<Rightarrow> nat \<Rightarrow> ('a \<Rightarrow> 'a) \<Rightarrow> 'a list \<Rightarrow> 'a list result" where
  "list_assign ident it f [] = Inl Undefined_behaviour"
| "list_assign ident it f (y # ys) =
     (if ident y = it then Inr (f y # ys)
      else bindE (list_assign ident it f ys) (\<lambda>zs. Inr (y # zs)))"

fun list_deref :: "('a \<Rightarrow> nat) \<Rightarrow> nat \<Rightarrow> 'a list \<Rightarrow> 'a result" where
  "list_deref ident it [] = Inl Undefined_behaviour"
| "list_deref ident it (y # ys) = (if ident y = it then Inr y else list_deref ident it ys)"

lemma list_insert_before_split:
  "ident y = it \<Longrightarrow> it \<notin> ident ` set xs \<Longrightarrow>
   list_insert_before ident it x (xs @ y # ys) = Inr (xs @ x # y # ys)"
  by (induction xs) auto

lemma list_assign_split:
  "ident y = it \<Longrightarrow> it \<notin> ident ` set xs \<Longrightarrow>
   list_assign ident it f (xs @ y # ys) = Inr (xs @ f y # ys)"
  by (induction xs) auto

lemma list_deref_split:
  "ident y = it \<Longrightarrow> it \<notin> ident ` set xs \<Longrightarrow> list_deref ident it (xs @ y # ys) = Inr y"
  by (induction xs) auto

end
