(* ===== verification/Free_Intervals.thy ===== *)
theory Free_Intervals
  imports Containers
begin

text \<open>
  The byte accounting of \<^verbatim>\<open>libsponge/stream_reassembler.cc\<close>: despite its name, \<^verbatim>\<open>_used_byte\<close> is the
  ordered set of the half-open index intervals that have \<^emph>\<open>not\<close> been received.  \<open>remove_segement\<close>
  cuts one interval, \<open>claim_walk\<close> is the loop of \<^verbatim>\<open>push_substring\<close> that visits the intervals around a
  new segment, and \<open>claim\<close> is the whole of lines 60 to 73: it also returns the new value of
  \<^verbatim>\<open>_stored_bytes\<close>.

  The main lemma \<open>claim_correct\<close> says that claiming \<open>[l, r)\<close> removes exactly those bytes from the
  free ones and adds the number of bytes that were free to the counter.
\<close>

type_synonym interval = "u64 \<times> u64"
type_synonym claim_acc = "u64 \<times> interval list \<times> interval list"

section \<open>Definitions\<close>

definition remove_segement :: "interval \<Rightarrow> u64 \<Rightarrow> u64 \<Rightarrow> claim_acc \<Rightarrow> claim_acc" where
  "remove_segement it l r acc =
     (case acc of (stored_bytes, to_erase, to_insert) \<Rightarrow>
       if l \<ge> snd it \<or> r \<le> fst it then (stored_bytes, to_erase, to_insert)
       else let to_erase' = to_erase @ [it] in
         if l \<ge> fst it then
           let new_node = (r, snd it);
               stored_bytes' = stored_bytes + (min r (snd it) - l);
               node = (fst it, l);
               ins1 = (if snd node > fst node then to_insert @ [node] else to_insert);
               ins2 = (if snd new_node > fst new_node then ins1 @ [new_node] else ins1)
           in (stored_bytes', to_erase', ins2)
         else
           let stored_bytes' = stored_bytes + (min r (snd it) - fst it);
               node = (r, snd it);
               ins1 = (if snd node > fst node then to_insert @ [node] else to_insert)
           in (stored_bytes', to_erase', ins1))"

fun claim_walk :: "nat \<Rightarrow> nat \<Rightarrow> u64 \<Rightarrow> u64 \<Rightarrow> interval list \<Rightarrow> claim_acc \<Rightarrow> claim_acc" where
  "claim_walk it_l it_r l r [] acc = acc"
| "claim_walk it_l it_r l r (v # vs) acc =
     (let acc' = remove_segement v l r acc in
      if it_l = it_r then acc' else claim_walk (Suc it_l) it_r l r vs acc')"

definition claim :: "u64 \<Rightarrow> u64 \<Rightarrow> u64 \<Rightarrow> interval list \<Rightarrow> u64 \<times> interval list" where
  "claim l r stored_bytes used_byte =
     (let it_l = lower_bound (\<lambda>p. p) (l, l) used_byte;
          it_r = lower_bound (\<lambda>p. p) (r, r) used_byte;
          it_l' = (if it_l \<noteq> 0 then it_l - 1 else it_l)
      in case claim_walk it_l' it_r l r (drop it_l' used_byte) (stored_bytes, [], []) of
           (stored_bytes', to_erase, to_insert) \<Rightarrow>
             (stored_bytes',
              foldl (\<lambda>s v. oinsert (\<lambda>p. p) v s)
                (foldl (\<lambda>s v. oerase (\<lambda>p. p) v s) used_byte to_erase) to_insert))"

section \<open>Well-formed interval sets\<close>

definition ivl :: "interval \<Rightarrow> nat set" where
  "ivl p = {unat (fst p) ..< unat (snd p)}"

definition free_bytes :: "interval list \<Rightarrow> nat set" where
  "free_bytes F = (\<Union>p \<in> set F. ivl p)"

definition apart :: "interval \<Rightarrow> interval \<Rightarrow> bool" where
  "apart p q \<longleftrightarrow> snd p \<le> fst q \<or> snd q \<le> fst p"

definition free_wf :: "interval list \<Rightarrow> bool" where
  "free_wf F \<longleftrightarrow> osorted (\<lambda>p. p) F \<and> (\<forall>p \<in> set F. fst p < snd p)
     \<and> (\<forall>p \<in> set F. \<forall>q \<in> set F. p \<noteq> q \<longrightarrow> apart p q)"

section \<open>One interval\<close>

definition hit :: "u64 \<Rightarrow> u64 \<Rightarrow> interval \<Rightarrow> bool" where
  "hit l r p \<longleftrightarrow> l < snd p \<and> fst p < r"

definition pieces :: "u64 \<Rightarrow> u64 \<Rightarrow> interval \<Rightarrow> interval list" where
  "pieces l r p = filter (\<lambda>q. fst q < snd q) [(fst p, l), (r, snd p)]"

definition overlap :: "u64 \<Rightarrow> u64 \<Rightarrow> interval \<Rightarrow> u64" where
  "overlap l r p = min r (snd p) - max l (fst p)"

lemma remove_segement_eq:
  "remove_segement p l r (st, er, ins) =
     (if hit l r p then (st + overlap l r p, er @ [p], ins @ pieces l r p) else (st, er, ins))"
  by (auto simp: remove_segement_def hit_def pieces_def overlap_def Let_def max_def not_le)

lemma unat_max64 [simp]: "unat (max a b :: u64) = max (unat a) (unat b)"
  by (auto simp: max_def word_nat)

lemma overlap_card:
  assumes "hit l r p" and "l \<le> r" and "fst p < snd p"
  shows "unat (overlap l r p) = card (ivl p \<inter> {unat l ..< unat r})"
proof -
  have le: "max l (fst p) \<le> min r (snd p)"
    using assms by (auto simp: hit_def)
  have "ivl p \<inter> {unat l ..< unat r} = {max (unat l) (unat (fst p)) ..< min (unat r) (unat (snd p))}"
    by (auto simp: ivl_def)
  with le show ?thesis by (simp add: overlap_def unat_sub64)
qed

lemma pieces_ivl:
  assumes "hit l r p" and "l \<le> r"
  shows "(\<Union>q \<in> set (pieces l r p). ivl q) = ivl p - {unat l ..< unat r}"
  using assms by (auto simp: pieces_def ivl_def hit_def word_nat)

lemma no_hit_ivl: "\<not> hit l r p \<Longrightarrow> ivl p \<inter> {unat l ..< unat r} = {}"
  by (auto simp: hit_def ivl_def word_nat)

lemma pieces_inside:
  assumes "q \<in> set (pieces l r p)" and "l \<le> r" and "hit l r p"
  shows "fst q < snd q" and "fst p \<le> fst q" and "snd q \<le> snd p"
  using assms by (auto simp: pieces_def hit_def split: if_splits)

lemma pieces_apart:
  "q \<in> set (pieces l r p) \<Longrightarrow> q' \<in> set (pieces l r p) \<Longrightarrow> l \<le> r \<Longrightarrow> q \<noteq> q' \<Longrightarrow> apart q q'"
  by (auto simp: pieces_def apart_def split: if_splits)

lemma apart_mono: "apart p p' \<Longrightarrow> fst p \<le> fst q \<Longrightarrow> snd q \<le> snd p \<Longrightarrow> fst p' \<le> fst q' \<Longrightarrow> snd q' \<le> snd p'
    \<Longrightarrow> apart q q'"
  unfolding apart_def by (meson order_trans)

section \<open>The walk visits every interval that the segment hits\<close>

lemma foldl_remove_segement:
  "foldl (\<lambda>acc v. remove_segement v l r acc) (st, er, ins) vs =
     (st + sum_list (map (overlap l r) (filter (hit l r) vs)), er @ filter (hit l r) vs,
      ins @ concat (map (pieces l r) (filter (hit l r) vs)))"
  by (induction vs arbitrary: st er ins) (simp_all add: remove_segement_eq add.assoc)

lemma claim_walk_foldl:
  "it_l \<le> it_r \<Longrightarrow> claim_walk it_l it_r l r vs acc =
     foldl (\<lambda>acc v. remove_segement v l r acc) acc (take (Suc it_r - it_l) vs)"
proof (induction vs arbitrary: it_l acc)
  case Nil
  then show ?case by simp
next
  case (Cons v vs)
  then show ?case by (cases "it_l = it_r") (simp_all add: Suc_diff_le take_Cons' Suc_diff_Suc)
qed

lemma lower_bound_mono: "k \<le> k' \<Longrightarrow> lower_bound key k xs \<le> lower_bound key k' xs"
  unfolding lower_bound_def by (induction xs) (auto intro: less_le_trans)

lemma sorted_apart: "apart p q \<Longrightarrow> fst q < snd q \<Longrightarrow> p \<le> q \<Longrightarrow> snd p \<le> fst q"
  by (auto simp: apart_def less_eq_prod_def)

lemma before_walk_no_hit:
  assumes "free_wf F" and "p \<in> set (take (lower_bound (\<lambda>p. p) (l, l) F - 1) F)"
  shows "\<not> hit l r p"
proof -
  let ?n = "lower_bound (\<lambda>p. p) (l, l) F"
  from assms(1) have srt: "sorted_wrt (<) F" by (simp add: free_wf_def)
  have n: "?n \<le> length F" by (simp add: lower_bound_def length_takeWhile_le)
  from assms(2) obtain i where i: "i < ?n - 1" "p = F ! i" "i < length F"
    by (auto simp: in_set_conv_nth)
  let ?q = "F ! (?n - 1)"
  have "?q \<in> set (take ?n F)"
    using i n by (auto simp: in_set_conv_nth intro!: exI [of _ "?n - 1"])
  then have q: "?q \<in> set F" "?q < (l, l)"
    using lower_bound_take [of "\<lambda>p. p" F "(l, l)"] srt by auto
  have "p < ?q"
    using srt i n by (auto simp: sorted_wrt_iff_nth_less)
  moreover from q have qq: "fst ?q < snd ?q" using assms(1) by (simp add: free_wf_def)
  moreover have "apart p ?q"
    using assms(1) i q \<open>p < ?q\<close> unfolding free_wf_def by auto
  ultimately have "snd p \<le> fst ?q" by (intro sorted_apart) auto
  moreover have "fst ?q \<le> l"
    using q(2) by (auto simp: less_prod_def)
  ultimately show ?thesis by (auto simp: hit_def)
qed

lemma after_walk_no_hit:
  assumes "free_wf F" and "p \<in> set (drop (lower_bound (\<lambda>p. p) (r, r) F) F)"
  shows "\<not> hit l r p"
  using lower_bound_drop [of "\<lambda>p. p" F "(r, r)"] assms
  by (auto simp: free_wf_def hit_def less_eq_prod_def)

lemma claim_walk_hits:
  assumes "free_wf F" and "l \<le> r"
  defines "n \<equiv> lower_bound (\<lambda>p. p) (l, l) F" and "m \<equiv> lower_bound (\<lambda>p. p) (r, r) F"
  shows "claim_walk (n - 1) m l r (drop (n - 1) F) (st, [], []) =
     (st + sum_list (map (overlap l r) (filter (hit l r) F)), filter (hit l r) F,
      concat (map (pieces l r) (filter (hit l r) F)))"
proof -
  have nm: "n \<le> m"
    using assms(2) unfolding n_def m_def by (intro lower_bound_mono) (simp add: less_eq_prod_def)
  let ?mid = "take (Suc m - (n - 1)) (drop (n - 1) F)"
  have "F = take (n - 1) F @ ?mid @ drop (Suc m) F"
    using nm append_take_drop_id [of "n - 1" F] append_take_drop_id [of "Suc m - (n - 1)" "drop (n - 1) F"]
    by (simp add: le_diff_conv)
  then have "filter (hit l r) F =
      filter (hit l r) (take (n - 1) F) @ filter (hit l r) ?mid @ filter (hit l r) (drop (Suc m) F)"
    by (metis filter_append)
  moreover have "filter (hit l r) (take (n - 1) F) = []"
    using before_walk_no_hit [OF assms(1)] by (simp add: filter_empty_conv n_def)
  moreover have "filter (hit l r) (drop (Suc m) F) = []"
    using after_walk_no_hit [OF assms(1)] set_drop_subset_set_drop [of m "Suc m" F]
    by (auto simp: filter_empty_conv m_def)
  ultimately have "filter (hit l r) F = filter (hit l r) ?mid" by simp
  then show ?thesis
    using nm by (simp add: claim_walk_foldl foldl_remove_segement)
qed

section \<open>Claiming a segment\<close>

lemma claim_set:
  assumes "free_wf F" and "l \<le> r" and "claim l r st F = (st', F')"
  shows "osorted (\<lambda>p. p) F'"
    and "set F' = {p \<in> set F. \<not> hit l r p} \<union> (\<Union>p \<in> {p \<in> set F. hit l r p}. set (pieces l r p))"
    and "st' = st + sum_list (map (overlap l r) (filter (hit l r) F))"
proof -
  let ?er = "filter (hit l r) F" and ?ins = "concat (map (pieces l r) (filter (hit l r) F))"
  let ?E = "foldl (\<lambda>s v. oerase (\<lambda>p. p) v s) F ?er"
  have F': "F' = foldl (\<lambda>s v. oinsert (\<lambda>p. p) v s) ?E ?ins"
    and st': "st' = st + sum_list (map (overlap l r) ?er)"
    using assms(3) claim_walk_hits [OF assms(1,2), of st]
    by (auto simp: claim_def Let_def split: if_splits)
  have E: "osorted (\<lambda>p. p) ?E" "set ?E = {p \<in> set F. \<not> hit l r p}"
    using pair_set.del_all [of F ?er] assms(1) by (auto simp: free_wf_def)
  show "osorted (\<lambda>p. p) F'"
    "set F' = {p \<in> set F. \<not> hit l r p} \<union> (\<Union>p \<in> {p \<in> set F. hit l r p}. set (pieces l r p))"
    using pair_set.ins_all_inj [OF E(1), of ?ins] E(2) unfolding F' by auto
  show "st' = st + sum_list (map (overlap l r) ?er)" by (rule st')
qed

lemma claim_origin:
  assumes "free_wf F" and "l \<le> r" and "claim l r st F = (st', F')" and "q \<in> set F'"
  obtains p where "p \<in> set F" "fst p \<le> fst q" "snd q \<le> snd p" "fst q < snd q"
    "q = p \<and> \<not> hit l r p \<or> hit l r p \<and> q \<in> set (pieces l r p)"
proof -
  from assms(4) claim_set(2) [OF assms(1-3)]
  consider "q \<in> set F" "\<not> hit l r q" | p where "p \<in> set F" "hit l r p" "q \<in> set (pieces l r p)"
    by auto
  then show ?thesis
  proof cases
    case 1
    with assms(1) that [of q] show ?thesis by (auto simp: free_wf_def)
  next
    case 2
    with pieces_inside [OF 2(3) assms(2) 2(2)] that [of p] show ?thesis by auto
  qed
qed

lemma claim_wf:
  assumes "free_wf F" and "l \<le> r" and "claim l r st F = (st', F')"
  shows "free_wf F'"
proof -
  have "apart q q'" if q: "q \<in> set F'" "q' \<in> set F'" "q \<noteq> q'" for q q'
  proof -
    obtain p where p: "p \<in> set F" "fst p \<le> fst q" "snd q \<le> snd p" "fst q < snd q"
      "q = p \<and> \<not> hit l r p \<or> hit l r p \<and> q \<in> set (pieces l r p)"
      using claim_origin [OF assms q(1)] .
    obtain p' where p': "p' \<in> set F" "fst p' \<le> fst q'" "snd q' \<le> snd p'" "fst q' < snd q'"
      "q' = p' \<and> \<not> hit l r p' \<or> hit l r p' \<and> q' \<in> set (pieces l r p')"
      using claim_origin [OF assms q(2)] .
    show ?thesis
    proof (cases "p = p'")
      case True
      with p(5) p'(5) q(3) assms(2) show ?thesis by (auto intro: pieces_apart)
    next
      case False
      with p(1) p'(1) assms(1) have "apart p p'" by (simp add: free_wf_def)
      with p p' show ?thesis by (blast intro: apart_mono)
    qed
  qed
  moreover have "fst q < snd q" if "q \<in> set F'" for q
    using claim_origin [OF assms that] by blast
  ultimately show ?thesis
    using claim_set(1) [OF assms] by (auto simp: free_wf_def)
qed

lemma ivl_disjoint: "apart p q \<Longrightarrow> ivl p \<inter> ivl q = {}"
  by (auto simp: apart_def ivl_def word_nat)

lemma unat_sum_list_card:
  assumes "free_wf F" and "l \<le> r"
  shows "sum_list (map (overlap l r) (filter (hit l r) F)) =
         of_nat (card (free_bytes F \<inter> {unat l ..< unat r}))"
proof -
  let ?H = "filter (hit l r) F" and ?L = "{unat l ..< unat r}"
  have "distinct F"
    using assms(1) by (simp add: free_wf_def strict_sorted_iff)
  have "free_bytes F \<inter> ?L = (\<Union>p \<in> set ?H. ivl p \<inter> ?L)"
    using no_hit_ivl by (fastforce simp: free_bytes_def)
  moreover have "card (\<Union>p \<in> set ?H. ivl p \<inter> ?L) = (\<Sum>p \<in> set ?H. card (ivl p \<inter> ?L))"
  proof (rule card_UN_disjoint)
    show "\<forall>p \<in> set ?H. \<forall>q \<in> set ?H. p \<noteq> q \<longrightarrow> (ivl p \<inter> ?L) \<inter> (ivl q \<inter> ?L) = {}"
    proof (intro ballI impI)
      fix p q assume "p \<in> set ?H" "q \<in> set ?H" "p \<noteq> q"
      with assms(1) have "ivl p \<inter> ivl q = {}"
        by (intro ivl_disjoint) (simp add: free_wf_def)
      then show "(ivl p \<inter> ?L) \<inter> (ivl q \<inter> ?L) = {}" by blast
    qed
  qed simp_all
  ultimately have "card (free_bytes F \<inter> ?L) = (\<Sum>p \<in> set ?H. card (ivl p \<inter> ?L))" by simp
  also have "\<dots> = (\<Sum>p \<in> set ?H. unat (overlap l r p))"
    using assms by (intro sum.cong) (auto simp: overlap_card free_wf_def)
  also have "\<dots> = sum_list (map (\<lambda>p. unat (overlap l r p)) ?H)"
    using \<open>distinct F\<close> by (simp add: sum_list_distinct_conv_sum_set)
  finally have "of_nat (card (free_bytes F \<inter> ?L)) = (of_nat (sum_list (map (\<lambda>p. unat (overlap l r p)) ?H)) :: u64)"
    by simp
  also have "\<dots> = sum_list (map (overlap l r) ?H)"
    by (rule of_nat_sum_list_unat)
  finally show ?thesis by simp
qed

lemma claim_correct:
  assumes "free_wf F" and "l \<le> r" and "claim l r st F = (st', F')"
  shows "free_wf F'"
    and "free_bytes F' = free_bytes F - {unat l ..< unat r}"
    and "st' = st + of_nat (card (free_bytes F \<inter> {unat l ..< unat r}))"
proof -
  show "free_wf F'" by (rule claim_wf [OF assms])
  have "free_bytes F' = (\<Union>p \<in> {p \<in> set F. \<not> hit l r p}. ivl p)
      \<union> (\<Union>p \<in> {p \<in> set F. hit l r p}. \<Union>q \<in> set (pieces l r p). ivl q)"
    by (simp add: free_bytes_def claim_set(2) [OF assms])
  also have "\<dots> = (\<Union>p \<in> {p \<in> set F. \<not> hit l r p}. ivl p)
      \<union> (\<Union>p \<in> {p \<in> set F. hit l r p}. ivl p - {unat l ..< unat r})"
    using assms(2) by (auto simp: pieces_ivl)
  also have "\<dots> = free_bytes F - {unat l ..< unat r}"
    using no_hit_ivl by (fastforce simp: free_bytes_def)
  finally show "free_bytes F' = free_bytes F - {unat l ..< unat r}" .
  show "st' = st + of_nat (card (free_bytes F \<inter> {unat l ..< unat r}))"
    using claim_set(3) [OF assms] unat_sum_list_card [OF assms(1,2)] by simp
qed

text \<open>
  C13: The bookkeeping of received bytes refines a set: the ordered list of free intervals stands for the set of bytes
  not received yet, and cutting the range of a new segment out of it, with all its case distinctions, removes
  exactly that range from the set, keeps the list ordered and disjoint, and adds to the counter exactly the
  number of bytes that were new.
\<close>

theorem claim_refines_difference:
  assumes "free_wf F" and "l \<le> r" and "claim l r st F = (st', F')"
  shows "free_wf F' \<and> free_bytes F' = free_bytes F - {unat l ..< unat r}
     \<and> st' = st + of_nat (card (free_bytes F \<inter> {unat l ..< unat r}))"
  using claim_correct [OF assms] by simp

theorem claim_refines_difference_witness:
  "\<exists>st' F'. claim 2 5 0 [(0, 10)] = (st', F') \<and> free_bytes F' = free_bytes [(0, 10)] - {unat (2 :: u64) ..< unat (5 :: u64)}"
proof -
  obtain st' F' where c: "claim 2 5 0 [(0, 10)] = (st', F')" by fastforce
  have wf: "free_wf [(0, 10)]" by (simp add: free_wf_def)
  have "(2 :: u64) \<le> 5" by simp
  from claim_refines_difference [OF wf this c] c show ?thesis by blast
qed

end
