(* ===== verification/Delivery.thy ===== *)
theory Delivery
  imports Prelude
begin

text \<open>
  Runs of a component that consumes operations one by one and hands bytes to an application.  The
  locale \<open>prefix_reader\<close> is the contract of a component that delivers a stream \<open>S\<close> in order: each
  step that is allowed returns the next bytes of \<open>S\<close> at the reader's position.  Then so does every
  run.  It is interpreted on the reassembler and on the receiver.
\<close>

fun run_ops :: "('s \<Rightarrow> 'op \<Rightarrow> ('s \<times> bytes) result) \<Rightarrow> 's \<Rightarrow> 'op list \<Rightarrow> ('s \<times> bytes) result" where
  "run_ops step s [] = Inr (s, [])"
| "run_ops step s (op # ops) =
     bindE (step s op) (\<lambda>(s', d). bindE (run_ops step s' ops) (\<lambda>(s'', d'). Inr (s'', d @ d')))"

locale prefix_reader =
  fixes step :: "'s \<Rightarrow> 'op \<Rightarrow> ('s \<times> bytes) result"
    and inv :: "'s \<Rightarrow> bool"
    and pos :: "'s \<Rightarrow> nat"
    and ok :: "'op \<Rightarrow> bool"
    and S :: bytes
  assumes step_law: "inv s \<Longrightarrow> ok op \<Longrightarrow>
    \<exists>s' d. step s op = Inr (s', d) \<and> inv s' \<and> pos s' = pos s + length d
           \<and> d = take (length d) (drop (pos s) S)"
begin

lemma run_law:
  "inv s \<Longrightarrow> list_all ok ops \<Longrightarrow>
   \<exists>s' d. run_ops step s ops = Inr (s', d) \<and> inv s' \<and> pos s' = pos s + length d
          \<and> d = take (length d) (drop (pos s) S)"
proof (induction ops arbitrary: s)
  case Nil
  then show ?case by simp
next
  case (Cons op ops)
  from Cons.prems step_law [of s op] obtain s1 d1 where s1: "step s op = Inr (s1, d1)" "inv s1"
    "pos s1 = pos s + length d1" "d1 = take (length d1) (drop (pos s) S)"
    by auto
  from Cons.IH [OF s1(2)] Cons.prems obtain s2 d2 where s2: "run_ops step s1 ops = Inr (s2, d2)" "inv s2"
    "pos s2 = pos s1 + length d2" "d2 = take (length d2) (drop (pos s1) S)"
    by auto
  have "d2 = take (length d2) (drop (length d1) (drop (pos s) S))"
    using s2(4) s1(3) by (simp add: add.commute)
  with s1(4) have "d1 @ d2 = take (length (d1 @ d2)) (drop (pos s) S)"
    by (metis take_add length_append)
  moreover have "run_ops step s (op # ops) = Inr (s2, d1 @ d2)" using s1(1) s2(1) by simp
  moreover have "pos s2 = pos s + length (d1 @ d2)" using s1(3) s2(3) by simp
  ultimately show ?case using s2(2) by blast
qed

end

end
