(* ===== verification/Stream_Reassembler.thy ===== *)
theory Stream_Reassembler
  imports Byte_Stream Free_Intervals Delivery
begin

text \<open>
  \<^verbatim>\<open>libsponge/stream_reassembler.hh\<close> and \<^verbatim>\<open>stream_reassembler.cc\<close>: the reassembler that turns
  substrings, out of order and overlapping, into an in-order byte stream.

  The waiting substrings are the nodes of a \<^verbatim>\<open>std::list\<close>; \<^verbatim>\<open>_existed\<close> maps an index to the iterator of
  the node that starts there.  An iterator is the identity of its node, drawn from the counter
  \<open>ra_next_node\<close> (the allocator).  \<open>push_substring\<close> is composed of the three blocks of the C++ function:
  \<open>claim\<close> (the accounting of theory \<open>Free_Intervals\<close>), \<open>store_segment\<close> and \<open>assemble_loop\<close>.
\<close>

section \<open>State and operations\<close>

record snode =
  sn_id :: nat
  sn_data :: bytes
  sn_index :: u64

record StreamReassembler =
  ra_output :: ByteStream
  ra_capacity :: u64
  ra_assembled_bytes :: u64
  ra_stored_bytes :: u64
  ra_str_to_assemble :: "snode list"
  ra_existed :: "(u64 \<times> nat) list"
  ra_eof :: bool
  ra_used_byte :: "interval list"
  ra_next_node :: nat

definition StreamReassembler_new :: "u64 \<Rightarrow> StreamReassembler" where
  "StreamReassembler_new capacity =
     \<lparr>ra_output = ByteStream_new capacity, ra_capacity = capacity, ra_assembled_bytes = 0,
      ra_stored_bytes = 0, ra_str_to_assemble = [], ra_existed = [], ra_eof = False,
      ra_used_byte = [(0, - 1)], ra_next_node = 0\<rparr>"

definition StreamReassembler_unassembled_bytes :: "StreamReassembler \<Rightarrow> u64" where
  "StreamReassembler_unassembled_bytes r = ra_stored_bytes r - ra_assembled_bytes r"

definition StreamReassembler_assembled_bytes :: "StreamReassembler \<Rightarrow> u64" where
  "StreamReassembler_assembled_bytes r = ra_assembled_bytes r"

definition StreamReassembler_empty :: "StreamReassembler \<Rightarrow> bool" where
  "StreamReassembler_empty r \<longleftrightarrow> ra_stored_bytes r = ra_assembled_bytes r \<and> ra_eof r"

definition StreamReassembler_stream_out :: "StreamReassembler \<Rightarrow> ByteStream" where
  "StreamReassembler_stream_out r = ra_output r"

text \<open>\<^verbatim>\<open>std::string::resize\<close> cuts or pads with zero bytes; \<^verbatim>\<open>substr\<close> throws past the end.\<close>

definition string_substr :: "bytes \<Rightarrow> u64 \<Rightarrow> u64 \<Rightarrow> bytes result" where
  "string_substr s pos count =
     (if pos > size64 s then Inl (Out_of_range ''basic_string::substr'')
      else Inr (take (unat count) (drop (unat pos) s)))"

definition store_segment :: "StreamReassembler \<Rightarrow> bytes \<Rightarrow> u64 \<Rightarrow> StreamReassembler result" where
  "store_segment r tmp index =
     (let existed = ra_existed r; it = lower_bound fst index existed;
          new = ra_next_node r; node = \<lparr>sn_id = new, sn_data = tmp, sn_index = index\<rparr> in
      if it = length existed then
        Inr (r\<lparr>ra_str_to_assemble := ra_str_to_assemble r @ [node],
               ra_existed := oassign fst (index, new) existed, ra_next_node := Suc new\<rparr>)
      else if fst (existed ! it) = index then
        bindE (list_deref sn_id (snd (existed ! it)) (ra_str_to_assemble r)) (\<lambda>old.
          if size64 tmp > size64 (sn_data old) then
            bindE (list_assign sn_id (snd (existed ! it)) (\<lambda>n. n\<lparr>sn_data := tmp, sn_index := index\<rparr>)
                     (ra_str_to_assemble r))
              (\<lambda>l. Inr (r\<lparr>ra_str_to_assemble := l\<rparr>))
          else Inr r)
      else
        bindE (list_insert_before sn_id (snd (existed ! it)) node (ra_str_to_assemble r)) (\<lambda>l.
          Inr (r\<lparr>ra_str_to_assemble := l,
                 ra_existed := oassign fst (index, new) existed, ra_next_node := Suc new\<rparr>)))"

fun assemble_loop :: "snode list \<Rightarrow> (u64 \<times> nat) list \<Rightarrow> u64 \<Rightarrow> ByteStream
    \<Rightarrow> (snode list \<times> (u64 \<times> nat) list \<times> u64 \<times> ByteStream) result" where
  "assemble_loop [] existed assembled output = Inr ([], existed, assembled, output)"
| "assemble_loop (front # rest) existed assembled output =
     (if sn_index front \<le> assembled then
        let index = sn_index front; data = sn_data front in
        bindE (if index + size64 data > assembled then
                 bindE (string_substr data (assembled - index) (index + size64 data - assembled))
                   (\<lambda>s. Inr (fst (ByteStream_write output s), index + size64 data))
               else Inr (output, assembled))
          (\<lambda>(output', assembled').
             assemble_loop rest (oerase fst index existed) assembled' output')
      else Inr (front # rest, existed, assembled, output))"

definition absorb_segment :: "StreamReassembler \<Rightarrow> bytes \<Rightarrow> u64 \<Rightarrow> StreamReassembler result" where
  "absorb_segment r tmp index =
     (let (stored, used) = claim index (index + size64 tmp) (ra_stored_bytes r) (ra_used_byte r) in
      bindE (store_segment (r\<lparr>ra_stored_bytes := stored, ra_used_byte := used\<rparr>) tmp index) (\<lambda>r2.
      bindE (assemble_loop (ra_str_to_assemble r2) (ra_existed r2) (ra_assembled_bytes r2) (ra_output r2))
        (\<lambda>(l, ex, asm, out).
           Inr (r2\<lparr>ra_str_to_assemble := l, ra_existed := ex, ra_assembled_bytes := asm, ra_output := out\<rparr>))))"

definition end_if_empty :: "StreamReassembler \<Rightarrow> StreamReassembler" where
  "end_if_empty r = (if StreamReassembler_empty r
                     then r\<lparr>ra_output := ByteStream_end_input (ra_output r)\<rparr> else r)"

definition StreamReassembler_push_substring ::
    "StreamReassembler \<Rightarrow> bytes \<Rightarrow> u64 \<Rightarrow> bool \<Rightarrow> StreamReassembler result" where
  "StreamReassembler_push_substring r data index eof =
     (let limit = ra_capacity r + bs_byte_read (ra_output r) in
      if index \<ge> limit then Inr r
      else
        let over = (index + size64 data > limit);
            tmp = (if over then string_resize data (limit - index) else data);
            r1 = (if over then r else r\<lparr>ra_eof := ra_eof r \<or> eof\<rparr>)
        in if index + size64 tmp \<le> ra_assembled_bytes r1 then Inr (end_if_empty r1)
           else bindE (absorb_segment r1 tmp index) (\<lambda>r2. Inr (end_if_empty r2)))"

section \<open>The waiting substrings\<close>

type_synonym entry = "u64 \<times> bytes"

definition entry_of :: "snode \<Rightarrow> entry" where
  "entry_of n = (sn_index n, sn_data n)"

definition nodes_wf :: "snode list \<Rightarrow> (u64 \<times> nat) list \<Rightarrow> nat \<Rightarrow> bool" where
  "nodes_wf L existed next \<longleftrightarrow> existed = map (\<lambda>n. (sn_index n, sn_id n)) L
     \<and> osorted sn_index L \<and> distinct (map sn_id L) \<and> (\<forall>n \<in> set L. sn_id n < next)"

text \<open>What storing a substring means: one substring per index, the longer of two wins.\<close>

fun keep_longer :: "u64 \<Rightarrow> bytes \<Rightarrow> entry list \<Rightarrow> entry list" where
  "keep_longer k d [] = [(k, d)]"
| "keep_longer k d ((k', d') # es) =
     (if k < k' then (k, d) # (k', d') # es
      else if k = k' then (if size64 d > size64 d' then (k, d) else (k', d')) # es
      else (k', d') # keep_longer k d es)"

lemma keep_longer_append:
  "\<forall>e \<in> set as. fst e < k \<Longrightarrow> keep_longer k d (as @ bs) = as @ keep_longer k d bs"
  by (induction as) (auto dest: less_asym)

lemma oassign_append:
  "\<forall>e \<in> set as. fst e < fst x \<Longrightarrow> oassign fst x (as @ bs) = as @ oassign fst x bs"
  by (induction as) (auto dest: less_asym)

lemma split_at_index:
  assumes "nodes_wf L existed next"
  obtains A B where "L = A @ B" "\<forall>n \<in> set A. sn_index n < index"
    "B = [] \<or> index \<le> sn_index (hd B)" "lower_bound fst index existed = length A"
proof -
  let ?A = "takeWhile (\<lambda>n. sn_index n < index) L" and ?B = "dropWhile (\<lambda>n. sn_index n < index) L"
  have "lower_bound fst index existed = length ?A"
    using assms by (simp add: nodes_wf_def lower_bound_def takeWhile_map comp_def)
  moreover have "?B = [] \<or> index \<le> sn_index (hd ?B)"
    by (metis hd_dropWhile not_le)
  ultimately show ?thesis
    by (intro that [of ?A ?B]) (auto dest: set_takeWhileD)
qed

lemma store_segment_ok:
  assumes "nodes_wf (ra_str_to_assemble r) (ra_existed r) (ra_next_node r)"
  shows "\<exists>L next. store_segment r tmp index =
           Inr (r\<lparr>ra_str_to_assemble := L, ra_existed := map (\<lambda>n. (sn_index n, sn_id n)) L,
                  ra_next_node := next\<rparr>)
         \<and> nodes_wf L (map (\<lambda>n. (sn_index n, sn_id n)) L) next
         \<and> map entry_of L = keep_longer index tmp (map entry_of (ra_str_to_assemble r))"
proof -
  let ?ix = "\<lambda>n. (sn_index n, sn_id n)" and ?next = "ra_next_node r"
  let ?node = "\<lparr>sn_id = ?next, sn_data = tmp, sn_index = index\<rparr>"
  obtain A B where AB: "ra_str_to_assemble r = A @ B" "\<forall>n \<in> set A. sn_index n < index"
    "B = [] \<or> index \<le> sn_index (hd B)" "lower_bound fst index (ra_existed r) = length A"
    using split_at_index [OF assms] .
  have ex: "ra_existed r = map ?ix (A @ B)"
    and wf: "osorted sn_index (A @ B)" "distinct (map sn_id (A @ B))" "\<forall>n \<in> set (A @ B). sn_id n < ?next"
    using assms AB(1) by (auto simp: nodes_wf_def)
  have A_ex: "\<forall>e \<in> set (map ?ix A). fst e < fst (index, ?next)" using AB(2) by auto
  have A_ent: "\<forall>e \<in> set (map entry_of A). fst e < index" using AB(2) by (auto simp: entry_of_def)
  show ?thesis
  proof (cases B)
    case Nil
    have "store_segment r tmp index = Inr (r\<lparr>ra_str_to_assemble := A @ [?node],
        ra_existed := map ?ix (A @ [?node]), ra_next_node := Suc ?next\<rparr>)"
      using Nil AB A_ex oassign_append [OF A_ex, of "[]"] by (simp add: store_segment_def Let_def ex)
    moreover have "nodes_wf (A @ [?node]) (map ?ix (A @ [?node])) (Suc ?next)"
      using wf AB(2) Nil by (auto simp: nodes_wf_def sorted_wrt_append less_Suc_eq)
    moreover have "map entry_of (A @ [?node]) = keep_longer index tmp (map entry_of (ra_str_to_assemble r))"
      using Nil AB(1) keep_longer_append [OF A_ent, of tmp "[]"] by (simp add: entry_of_def)
    ultimately show ?thesis by blast
  next
    case (Cons b bs)
    have idA: "sn_id b \<notin> sn_id ` set A" using wf(2) Cons by auto
    have at: "ra_existed r ! length A = ?ix b" "length A \<noteq> length (ra_existed r)"
      using ex Cons by (simp_all add: nth_append)
    show ?thesis
    proof (cases "sn_index b = index")
      case False
      then have lt: "index < sn_index b" using AB(3) Cons by auto
      have "store_segment r tmp index = Inr (r\<lparr>ra_str_to_assemble := A @ ?node # B,
          ra_existed := map ?ix (A @ ?node # B), ra_next_node := Suc ?next\<rparr>)"
        using Cons AB at False lt oassign_append [OF A_ex, of "map ?ix B"]
          list_insert_before_split [OF refl idA, of ?node bs]
        by (simp add: store_segment_def Let_def) (simp add: ex)
      moreover have "nodes_wf (A @ ?node # B) (map ?ix (A @ ?node # B)) (Suc ?next)"
        using wf AB(2) Cons lt by (auto simp: nodes_wf_def sorted_wrt_append less_Suc_eq)
      moreover have "map entry_of (A @ ?node # B) = keep_longer index tmp (map entry_of (ra_str_to_assemble r))"
        using Cons lt AB(1) keep_longer_append [OF A_ent, of tmp "map entry_of B"] by (simp add: entry_of_def)
      ultimately show ?thesis by blast
    next
      case True
      let ?b = "if size64 tmp > size64 (sn_data b) then b\<lparr>sn_data := tmp, sn_index := index\<rparr> else b"
      have "store_segment r tmp index = Inr (r\<lparr>ra_str_to_assemble := A @ ?b # bs,
          ra_existed := map ?ix (A @ ?b # bs), ra_next_node := ?next\<rparr>)"
        using Cons AB at True ex list_deref_split [OF refl idA, of bs] list_assign_split [OF refl idA, of _ bs]
        by (cases r) (simp add: store_segment_def Let_def)
      moreover have "nodes_wf (A @ ?b # bs) (map ?ix (A @ ?b # bs)) ?next"
        using wf Cons True by (auto simp: nodes_wf_def sorted_wrt_append)
      moreover have "map entry_of (A @ ?b # bs) = keep_longer index tmp (map entry_of (ra_str_to_assemble r))"
        using Cons True AB(1) keep_longer_append [OF A_ent, of tmp "map entry_of B"] by (simp add: entry_of_def)
      ultimately show ?thesis by blast
    qed
  qed
qed

section \<open>Byte sets\<close>

definition span :: "entry \<Rightarrow> nat set" where
  "span e = {unat (fst e) ..< unat (fst e) + length (snd e)}"

definition covered :: "entry list \<Rightarrow> nat set" where
  "covered es = (\<Union>e \<in> set es. span e)"

definition received :: "interval list \<Rightarrow> nat set" where
  "received F = {0 ..< two64 - 1} - free_bytes F"

text \<open>An entry lies within the window that ends at byte \<open>w\<close>.\<close>

definition within :: "nat \<Rightarrow> entry \<Rightarrow> bool" where
  "within w e \<longleftrightarrow> unat (fst e) + length (snd e) \<le> w"

text \<open>An entry is a substring of the stream \<open>S\<close>; an empty one may stand anywhere.\<close>

definition agrees :: "bytes \<Rightarrow> entry \<Rightarrow> bool" where
  "agrees S e \<longleftrightarrow> (snd e \<noteq> [] \<longrightarrow> unat (fst e) + length (snd e) \<le> length S)
     \<and> snd e = take (length (snd e)) (drop (unat (fst e)) S)"

lemma covered_simps [simp]:
  "covered [] = {}"
  "covered (e # es) = span e \<union> covered es"
  by (simp_all add: covered_def)

lemma covered_keep_longer:
  "length d < two64 \<Longrightarrow> \<forall>e \<in> set es. length (snd e) < two64 \<Longrightarrow>
   covered (keep_longer k d es) = span (k, d) \<union> covered es"
proof (induction es)
  case Nil
  then show ?case by simp
next
  case (Cons e es)
  obtain k' d' where e: "e = (k', d')" by fastforce
  consider "k < k'" | "k = k'" "size64 d' < size64 d" | "k = k'" "size64 d \<le> size64 d'" | "k' < k"
    by (metis linorder_cases not_le)
  then show ?case
  proof cases
    case 2
    then have "span (k', d') \<subseteq> span (k, d)"
      using Cons.prems e by (simp add: span_def word_nat unat_size64)
    with 2 e show ?thesis by auto
  next
    case 3
    then have "span (k, d) \<subseteq> span (k', d')"
      using Cons.prems e by (simp add: span_def word_nat unat_size64)
    with 3 e show ?thesis by auto
  next
    case 4
    then have "\<not> k < k'" "k \<noteq> k'" by auto
    with Cons e show ?thesis by auto
  qed (use e in simp)
qed

lemma set_keep_longer: "set (keep_longer k d es) \<subseteq> insert (k, d) (set es)"
  by (induction es) (auto split: if_splits)

lemma received_claim:
  assumes "free_wf F" and "l \<le> r" and "unat r < two64" and "claim l r st F = (st', F')"
    and "unat r \<le> two64 - 1" and "unat st = card (received F)"
  shows "received F' = received F \<union> {unat l ..< unat r}" and "unat st' = card (received F')"
proof -
  have "{unat l ..< unat r} \<subseteq> {0 ..< two64 - 1}" using assms(5) by auto
  then show rec: "received F' = received F \<union> {unat l ..< unat r}"
    unfolding received_def claim_correct(2) [OF assms(1,2,4)] by blast
  have fin: "finite (received F)" by (simp add: received_def)
  have "received F' \<subseteq> {0 ..< two64 - 1}" by (auto simp: received_def)
  then have "card (received F') \<le> two64 - 1"
    using card_mono [of "{0 ..< two64 - 1}" "received F'"] by simp
  then have bound: "card (received F') < two64"
    using two64_pos by linarith
  have new: "{unat l ..< unat r} - received F = free_bytes F \<inter> {unat l ..< unat r}"
    using assms(5) by (auto simp: received_def)
  have "received F' = received F \<union> ({unat l ..< unat r} - received F)"
    unfolding rec by blast
  then have card: "card (received F') = card (received F) + card (free_bytes F \<inter> {unat l ..< unat r})"
    using card_Un_disjoint [OF fin _ Diff_disjoint, of "{unat l ..< unat r}"] by (simp add: new)
  have "st' = of_nat (unat st) + of_nat (card (free_bytes F \<inter> {unat l ..< unat r}))"
    using claim_correct(3) [OF assms(1,2,4)] by simp
  then have "st' = of_nat (card (received F'))"
    using card assms(6) by simp
  then show "unat st' = card (received F')"
    using bound by (simp add: unat_of_nat64)
qed

section \<open>Assembling\<close>

text \<open>The output stream of a reassembler whose first unassembled byte is \<open>asm\<close>.\<close>

definition out_wf :: "u64 \<Rightarrow> u64 \<Rightarrow> ByteStream \<Rightarrow> bool" where
  "out_wf cap asm out \<longleftrightarrow> ByteStream_inv out \<and> bs_capacity out = cap \<and> bs_byte_written out = asm
     \<and> bs_byte_read out \<le> asm"

lemma out_wf_length: "out_wf cap asm out \<Longrightarrow> length (ByteStream_contents out) = unat asm - unat (bs_byte_read out)"
  by (auto simp: out_wf_def ByteStream_inv_def ByteStream_buffer_size_def unat_sub64)

lemma out_wf_window:
  assumes "out_wf cap asm out"
  shows "unat asm \<le> unat cap + unat (bs_byte_read out)"
proof -
  have "length (ByteStream_contents out) \<le> unat cap"
    using assms bs.bounded [of out] by (simp add: out_wf_def)
  with out_wf_length [OF assms] show ?thesis by linarith
qed

text \<open>One node at the front that reaches beyond the assembled bytes is written in full.\<close>

lemma write_rest_ok:
  assumes "out_wf cap asm out" and "within w (k, d)" and "w < two64"
    and "w = unat cap + unat (bs_byte_read out)"
    and "k \<le> asm" and "asm < k + size64 d"
  defines "s \<equiv> drop (unat asm - unat k) d"
  shows "unat (k + size64 d) = unat k + length d"
    and "string_substr d (asm - k) (k + size64 d - asm) = Inr s"
    and "out_wf cap (k + size64 d) (fst (ByteStream_write out s))"
    and "ByteStream_contents (fst (ByteStream_write out s)) = ByteStream_contents out @ s"
proof -
  have len: "length d < two64" and sum: "unat k + length d < two64"
    using assms(2,3) by (auto simp: within_def)
  then show end_: "unat (k + size64 d) = unat k + length d"
    by (simp add: unat_add64 unat_size64)
  have lt: "unat k \<le> unat asm" "unat asm < unat k + length d"
    using assms(5,6) end_ by (simp_all add: word_nat)
  have cnt: "unat (k + size64 d - asm) = unat k + length d - unat asm"
    using assms(6) end_ by (simp add: unat_sub64 less_imp_le)
  have pos: "unat (asm - k) = unat asm - unat k" using assms(5) by (rule unat_sub64)
  show "string_substr d (asm - k) (k + size64 d - asm) = Inr s"
    using lt len by (auto simp: string_substr_def word_nat unat_size64 pos cnt s_def)
  obtain out' n where w: "ByteStream_write out s = (out', n)" by fastforce
  have s: "length s = unat k + length d - unat asm" "length s < two64"
    using lt len by (auto simp: s_def)
  note laws = ByteStream_write_law [OF _ s(2) w] and fr = ByteStream_write_frame [of out s]
  have inv: "ByteStream_inv out" using assms(1) by (simp add: out_wf_def)
  have "length s \<le> unat cap - length (ByteStream_contents out)"
    using s(1) lt assms(2,4) out_wf_length [OF assms(1)] assms(1)
    by (auto simp: within_def out_wf_def word_nat)
  then have n: "unat n = length s"
    using laws(2) [OF inv] assms(1) by (simp add: out_wf_def)
  then show "ByteStream_contents (fst (ByteStream_write out s)) = ByteStream_contents out @ s"
    using laws(3) [OF inv] w by simp
  have nn: "n = k + size64 d - asm"
    using n s(1) cnt by (simp add: word_nat)
  then have "bs_byte_written out' = k + size64 d"
    using fr(3) w assms(1) by (simp add: out_wf_def)
  moreover have "bs_byte_read out' \<le> k + size64 d"
    using fr(2) w assms(1,6) by (auto simp: out_wf_def)
  ultimately show "out_wf cap (k + size64 d) (fst (ByteStream_write out s))"
    using laws(1) [OF inv] fr(1) w assms(1) by (simp add: out_wf_def)
qed

lemma span_step:
  assumes "k \<le> asm" and "unat (k + size64 d) = unat k + length d"
  shows "{0 ..< unat asm} \<union> span (k, d) = {0 ..< unat (if asm < k + size64 d then k + size64 d else asm)}"
  using assms by (auto simp: span_def word_nat)

text \<open>
  The loop assembles without an exception: the bytes received stay the same set, the nodes that
  remain start beyond the first unassembled byte, and the output grows by the bytes in between.
\<close>

lemma assemble_loop_ok:
  assumes "w < two64"
  shows
  "nodes_wf L (map (\<lambda>n. (sn_index n, sn_id n)) L) next \<Longrightarrow> out_wf cap asm out \<Longrightarrow>
   w = unat cap + unat (bs_byte_read out) \<Longrightarrow> \<forall>n \<in> set L. within w (entry_of n) \<Longrightarrow>
   \<exists>L' asm' out'.
     assemble_loop L (map (\<lambda>n. (sn_index n, sn_id n)) L) asm out
       = Inr (L', map (\<lambda>n. (sn_index n, sn_id n)) L', asm', out')
     \<and> nodes_wf L' (map (\<lambda>n. (sn_index n, sn_id n)) L') next \<and> set L' \<subseteq> set L
     \<and> (\<forall>n \<in> set L'. asm' < sn_index n) \<and> out_wf cap asm' out' \<and> asm \<le> asm'
     \<and> bs_byte_read out' = bs_byte_read out \<and> bs_end out' = bs_end out \<and> bs_error out' = bs_error out
     \<and> {0 ..< unat asm} \<union> covered (map entry_of L) = {0 ..< unat asm'} \<union> covered (map entry_of L')
     \<and> (\<forall>S. (\<forall>n \<in> set L. agrees S (entry_of n)) \<and> unat asm \<le> length S \<longrightarrow>
          unat asm' \<le> length S
          \<and> ByteStream_contents out' = ByteStream_contents out @ take (unat asm' - unat asm) (drop (unat asm) S))"
    (is "?wf L \<Longrightarrow> _ \<Longrightarrow> _ \<Longrightarrow> _ \<Longrightarrow> ?goal L asm out")
proof (induction L arbitrary: asm out)
  case Nil
  then show ?case by simp
next
  case (Cons a L)
  let ?ix = "\<lambda>n. (sn_index n, sn_id n)" and ?k = "sn_index a" and ?d = "sn_data a"
  have wf: "nodes_wf L (map ?ix L) next"
    using Cons.prems(1) by (simp add: nodes_wf_def)
  have gt: "\<forall>n \<in> set L. ?k < sn_index n"
    using Cons.prems(1) by (simp add: nodes_wf_def)
  show ?case
  proof (cases "?k \<le> asm")
    case False
    then have "\<forall>n \<in> set (a # L). asm < sn_index n"
      using gt by (auto intro: less_trans)
    with False Cons.prems show ?thesis by (simp add: subset_iff)
  next
    case True
    let ?asm = "if asm < ?k + size64 ?d then ?k + size64 ?d else asm"
    let ?out = "if asm < ?k + size64 ?d then fst (ByteStream_write out (drop (unat asm - unat ?k) ?d)) else out"
    have win: "within w (?k, ?d)" using Cons.prems(4) by (simp add: entry_of_def)
    then have end_: "unat (?k + size64 ?d) = unat ?k + length ?d"
      using assms by (simp add: within_def unat_add64 unat_size64)
    note wr = write_rest_ok [OF Cons.prems(2) win assms Cons.prems(3) True]
    have out: "out_wf cap ?asm ?out" "bs_byte_read ?out = bs_byte_read out"
      "bs_end ?out = bs_end out" "bs_error ?out = bs_error out"
      using wr(3) Cons.prems(2) by (auto simp: frame)
    have erase: "oerase fst ?k (map ?ix (a # L)) = map ?ix L"
      using gt by (auto simp: oerase_def filter_id_conv)
    have step: "assemble_loop (a # L) (map ?ix (a # L)) asm out = assemble_loop L (map ?ix L) ?asm ?out"
      using True wr(2) erase by (auto simp: Let_def)
    have sp: "{0 ..< unat asm} \<union> span (entry_of a) = {0 ..< unat ?asm}"
      using span_step [OF True end_] by (simp add: entry_of_def)
    from Cons.IH [OF wf out(1)] Cons.prems(3,4) out(2) obtain L' asm' out' where IH:
      "assemble_loop L (map ?ix L) ?asm ?out = Inr (L', map ?ix L', asm', out')"
      "nodes_wf L' (map ?ix L') next" "set L' \<subseteq> set L" "\<forall>n \<in> set L'. asm' < sn_index n"
      "out_wf cap asm' out'" "?asm \<le> asm'" "bs_byte_read out' = bs_byte_read ?out"
      "bs_end out' = bs_end ?out" "bs_error out' = bs_error ?out"
      "{0 ..< unat ?asm} \<union> covered (map entry_of L) = {0 ..< unat asm'} \<union> covered (map entry_of L')"
      "\<And>S. (\<forall>n \<in> set L. agrees S (entry_of n)) \<and> unat ?asm \<le> length S \<Longrightarrow>
          unat asm' \<le> length S
          \<and> ByteStream_contents out' = ByteStream_contents ?out @ take (unat asm' - unat ?asm) (drop (unat ?asm) S)"
      by auto
    have le: "asm \<le> asm'" using IH(6) by (auto split: if_splits)
    have cov: "{0 ..< unat asm} \<union> covered (map entry_of (a # L)) = {0 ..< unat asm'} \<union> covered (map entry_of L')"
      using sp IH(10) by (simp add: Un_assoc [symmetric])
    have str: "unat asm' \<le> length S \<and> ByteStream_contents out' =
        ByteStream_contents out @ take (unat asm' - unat asm) (drop (unat asm) S)"
      if S: "\<forall>n \<in> set (a # L). agrees S (entry_of n)" "unat asm \<le> length S" for S
    proof -
      have a: "?d \<noteq> [] \<longrightarrow> unat ?k + length ?d \<le> length S" "?d = take (length ?d) (drop (unat ?k) S)"
        using S(1) by (simp_all add: agrees_def entry_of_def)
      have asmS: "unat ?asm \<le> length S" using a(1) S(2) end_ True by (cases "?d = []") (simp_all add: word_nat)
      have new: "ByteStream_contents ?out = ByteStream_contents out @ take (unat ?asm - unat asm) (drop (unat asm) S)"
      proof (cases "asm < ?k + size64 ?d")
        case True2: True
        have "drop (unat asm - unat ?k) ?d = drop (unat asm - unat ?k) (take (length ?d) (drop (unat ?k) S))"
          using a(2) by simp
        also have "\<dots> = take (length ?d - (unat asm - unat ?k)) (drop (unat asm) S)"
          using True by (simp add: drop_take word_nat)
        finally show ?thesis
          using True2 True wr(4) end_ by (simp add: word_nat add.commute)
      next
        case False
        then show ?thesis by simp
      qed
      have "unat asm \<le> unat ?asm" "unat ?asm \<le> unat asm'"
        using IH(6) by (auto simp: word_nat split: if_splits)
      then have "take (unat ?asm - unat asm) (drop (unat asm) S) @ take (unat asm' - unat ?asm) (drop (unat ?asm) S)
          = take (unat asm' - unat asm) (drop (unat asm) S)"
        using take_plus_slice [of "unat ?asm - unat asm" "drop (unat asm) S" "unat asm' - unat ?asm"]
        by (simp add: add.commute)
      with IH(11) [of S] S(1) asmS new show ?thesis by simp
    qed
    show ?thesis
    proof (intro exI conjI allI impI)
      show "assemble_loop (a # L) (map ?ix (a # L)) asm out = Inr (L', map ?ix L', asm', out')"
        using step IH(1) by (rule trans)
      show "set L' \<subseteq> set (a # L)" using IH(3) by auto
      show "bs_byte_read out' = bs_byte_read out" using IH(7) out(2) by (rule trans)
      show "bs_end out' = bs_end out" using IH(8) out(3) by (rule trans)
      show "bs_error out' = bs_error out" using IH(9) out(4) by (rule trans)
      fix S assume "(\<forall>n \<in> set (a # L). agrees S (entry_of n)) \<and> unat asm \<le> length S"
      then show "unat asm' \<le> length S" "ByteStream_contents out' =
          ByteStream_contents out @ take (unat asm' - unat asm) (drop (unat asm) S)"
        using str [of S] by blast+
    qed (rule IH(2) IH(4) IH(5) le cov)+
  qed
qed

section \<open>The invariant\<close>

abbreviation entries :: "StreamReassembler \<Rightarrow> entry list" where
  "entries r \<equiv> map entry_of (ra_str_to_assemble r)"

abbreviation window_end :: "StreamReassembler \<Rightarrow> nat" where
  "window_end r \<equiv> unat (ra_capacity r) + unat (bs_byte_read (ra_output r))"

text \<open>
  The bytes received are the assembled ones and the ones that wait; what waits starts beyond the
  first unassembled byte and lies inside the window; the counter of stored bytes counts every
  received byte once.
\<close>

definition ra_wf :: "StreamReassembler \<Rightarrow> bool" where
  "ra_wf r \<longleftrightarrow> out_wf (ra_capacity r) (ra_assembled_bytes r) (ra_output r)
     \<and> nodes_wf (ra_str_to_assemble r) (ra_existed r) (ra_next_node r)
     \<and> free_wf (ra_used_byte r)
     \<and> (\<forall>e \<in> set (entries r). ra_assembled_bytes r < fst e \<and> within (window_end r) e)
     \<and> received (ra_used_byte r) = {0 ..< unat (ra_assembled_bytes r)} \<union> covered (entries r)
     \<and> unat (ra_stored_bytes r) = card (received (ra_used_byte r))"

text \<open>Every substring so far came from the stream \<open>S\<close>, and the output is a prefix of it.\<close>

definition ra_stream :: "bytes \<Rightarrow> StreamReassembler \<Rightarrow> bool" where
  "ra_stream S r \<longleftrightarrow> (\<forall>e \<in> set (entries r). agrees S e)
     \<and> unat (ra_assembled_bytes r) \<le> length S
     \<and> ByteStream_contents (ra_output r) =
         drop (unat (bs_byte_read (ra_output r))) (take (unat (ra_assembled_bytes r)) S)"

lemma StreamReassembler_new_wf [keeps_inv]: "ra_wf (StreamReassembler_new c)"
proof -
  have "unat (- 1 :: u64) = two64 - 1"
    by (simp add: two64_def unsigned_minus_1_eq_mask mask_eq_exp_minus_1)
  then have "free_bytes [(0, - 1)] = {0 ..< two64 - 1}"
    by (simp add: free_bytes_def ivl_def)
  moreover have "(0 :: u64) < - 1" by (simp add: word_gt_0)
  ultimately show ?thesis
    by (simp add: ra_wf_def StreamReassembler_new_def out_wf_def ByteStream_new_inv nodes_wf_def
        free_wf_def received_def)
qed

lemma StreamReassembler_new_stream [keeps_inv]: "ra_stream S (StreamReassembler_new c)"
  by (simp add: ra_stream_def StreamReassembler_new_def)

lemma end_if_empty_simps [simp]:
  "ra_wf (end_if_empty r) = ra_wf r"
  "ra_stream S (end_if_empty r) = ra_stream S r"
  "ra_capacity (end_if_empty r) = ra_capacity r"
  "ra_assembled_bytes (end_if_empty r) = ra_assembled_bytes r"
  "ra_stored_bytes (end_if_empty r) = ra_stored_bytes r"
  "ra_str_to_assemble (end_if_empty r) = ra_str_to_assemble r"
  "ra_used_byte (end_if_empty r) = ra_used_byte r"
  "ra_eof (end_if_empty r) = ra_eof r"
  "ra_output (end_if_empty r) = (if StreamReassembler_empty r then ByteStream_end_input (ra_output r) else ra_output r)"
  by (auto simp: end_if_empty_def ra_wf_def ra_stream_def out_wf_def ByteStream_end_input_def
      ByteStream_inv_def ByteStream_contents_def ByteStream_buffer_size_def)

lemma ra_wf_eof [simp]:
  "ra_wf (r\<lparr>ra_eof := b\<rparr>) = ra_wf r"
  "ra_stream S (r\<lparr>ra_eof := b\<rparr>) = ra_stream S r"
  by (simp_all add: ra_wf_def ra_stream_def)

section \<open>Pushing a substring\<close>

lemma absorb_segment_ok:
  assumes "ra_wf r" and "window_end r < two64" and "within (window_end r) (index, tmp)"
    and "ra_assembled_bytes r < index + size64 tmp"
  shows "\<exists>r'. absorb_segment r tmp index = Inr r' \<and> ra_wf r'
     \<and> received (ra_used_byte r') = received (ra_used_byte r) \<union> span (index, tmp)
     \<and> ra_capacity r' = ra_capacity r \<and> ra_eof r' = ra_eof r
     \<and> ra_assembled_bytes r \<le> ra_assembled_bytes r'
     \<and> bs_byte_read (ra_output r') = bs_byte_read (ra_output r)
     \<and> bs_end (ra_output r') = bs_end (ra_output r) \<and> bs_error (ra_output r') = bs_error (ra_output r)
     \<and> (\<forall>S. ra_stream S r \<and> agrees S (index, tmp) \<longrightarrow> ra_stream S r')"
proof -
  let ?ix = "\<lambda>n. (sn_index n, sn_id n)" and ?e = "(index, tmp)" and ?w = "window_end r"
  let ?asm = "ra_assembled_bytes r" and ?out = "ra_output r"
  have wf: "out_wf (ra_capacity r) ?asm ?out" "nodes_wf (ra_str_to_assemble r) (ra_existed r) (ra_next_node r)"
    "free_wf (ra_used_byte r)" "\<forall>e \<in> set (entries r). ?asm < fst e \<and> within ?w e"
    "received (ra_used_byte r) = {0 ..< unat ?asm} \<union> covered (entries r)"
    "unat (ra_stored_bytes r) = card (received (ra_used_byte r))"
    using assms(1) by (simp_all add: ra_wf_def)
  have len: "length tmp < two64" "unat index + length tmp < two64" "unat index + length tmp \<le> two64 - 1"
    using assms(2,3) by (auto simp: within_def)
  have end_: "unat (index + size64 tmp) = unat index + length tmp"
    using len by (simp add: unat_add64 unat_size64)
  then have le: "index \<le> index + size64 tmp" by (simp add: word_nat)
  obtain st F where cl: "claim index (index + size64 tmp) (ra_stored_bytes r) (ra_used_byte r) = (st, F)"
    by fastforce
  have rec: "received F = received (ra_used_byte r) \<union> span ?e" and card: "unat st = card (received F)"
    using received_claim [OF wf(3) le _ cl _ wf(6)] end_ len by (simp_all add: span_def)
  have fwf: "free_wf F" by (rule claim_correct(1) [OF wf(3) le cl])
  let ?r1 = "r\<lparr>ra_stored_bytes := st, ra_used_byte := F\<rparr>"
  obtain L nx where st: "store_segment ?r1 tmp index =
      Inr (?r1\<lparr>ra_str_to_assemble := L, ra_existed := map ?ix L, ra_next_node := nx\<rparr>)"
    and L: "nodes_wf L (map ?ix L) nx" "map entry_of L = keep_longer index tmp (entries r)"
    using store_segment_ok [of ?r1 tmp index] wf(2) by auto
  have win: "\<forall>n \<in> set L. within ?w (entry_of n)"
    using wf(4) assms(3) set_keep_longer [of index tmp "entries r"] unfolding L(2) [symmetric] by force
  have small: "\<forall>e \<in> set (entries r). length (snd e) < two64"
    using wf(4) assms(2) by (auto simp: within_def)
  have cov: "covered (map entry_of L) = span ?e \<union> covered (entries r)"
    using covered_keep_longer [OF len(1) small] L(2) by simp
  obtain L' asm' out' where as: "assemble_loop L (map ?ix L) ?asm ?out = Inr (L', map ?ix L', asm', out')"
    and L': "nodes_wf L' (map ?ix L') nx" "set L' \<subseteq> set L" "\<forall>n \<in> set L'. asm' < sn_index n"
      "out_wf (ra_capacity r) asm' out'" "?asm \<le> asm'"
    and fr: "bs_byte_read out' = bs_byte_read ?out" "bs_end out' = bs_end ?out" "bs_error out' = bs_error ?out"
    and cov': "{0 ..< unat ?asm} \<union> covered (map entry_of L) = {0 ..< unat asm'} \<union> covered (map entry_of L')"
    and str: "\<And>S. (\<forall>n \<in> set L. agrees S (entry_of n)) \<and> unat ?asm \<le> length S \<Longrightarrow>
          unat asm' \<le> length S
          \<and> ByteStream_contents out' = ByteStream_contents ?out @ take (unat asm' - unat ?asm) (drop (unat ?asm) S)"
    using assemble_loop_ok [OF assms(2) L(1) wf(1) refl win] by blast
  let ?r' = "?r1\<lparr>ra_str_to_assemble := L', ra_existed := map ?ix L', ra_next_node := nx,
      ra_assembled_bytes := asm', ra_output := out'\<rparr>"
  have "absorb_segment r tmp index = Inr ?r'"
    by (simp add: absorb_segment_def cl st as)
  moreover have "received F = {0 ..< unat asm'} \<union> covered (map entry_of L')"
    using rec wf(5) cov cov' by (simp add: Un_ac)
  then have "ra_wf ?r'"
    using L' win fwf card fr(1) by (auto simp: ra_wf_def entry_of_def)
  moreover have "ra_stream S ?r'" if S: "ra_stream S r" "agrees S ?e" for S
  proof -
    have ag: "\<forall>n \<in> set L. agrees S (entry_of n)"
      using S set_keep_longer [of index tmp "entries r"] unfolding ra_stream_def L(2) [symmetric] by force
    have asmS: "unat ?asm \<le> length S" using S(1) by (simp add: ra_stream_def)
    have "unat (bs_byte_read ?out) \<le> unat ?asm" "unat ?asm \<le> unat asm'"
      using wf(1) L'(5) by (simp_all add: out_wf_def word_nat)
    then have "drop (unat (bs_byte_read ?out)) (take (unat ?asm) S) @ take (unat asm' - unat ?asm) (drop (unat ?asm) S)
        = drop (unat (bs_byte_read ?out)) (take (unat asm') S)"
      using take_plus_slice [of "unat ?asm" S "unat asm' - unat ?asm"] asmS by (metis drop_append diff_is_0_eq
          drop0 le_add_diff_inverse length_take min.absorb2)
    with str [of S] ag asmS S(1) L'(2) fr(1) show ?thesis
      by (auto simp: ra_stream_def)
  qed
  ultimately show ?thesis
    using rec L'(5) fr by (intro exI [of _ ?r']) simp
qed

text \<open>The part of a substring that fits into the window.\<close>

abbreviation accepted :: "StreamReassembler \<Rightarrow> u64 \<Rightarrow> bytes \<Rightarrow> nat set" where
  "accepted r index data \<equiv> span (index, data) \<inter> {..< window_end r}"

lemma agrees_take: "agrees S (k, d) \<Longrightarrow> agrees S (k, take n d)"
proof -
  assume "agrees S (k, d)"
  then have bound: "d \<noteq> [] \<longrightarrow> unat k + length d \<le> length S" and d: "d = take (length d) (drop (unat k) S)"
    by (auto simp: agrees_def)
  have "take n d = take (min n (length d)) (drop (unat k) S)"
    using arg_cong [OF d, of "take n"] by simp
  with bound show ?thesis by (auto simp: agrees_def min.commute)
qed

lemma push_substring_cases:
  fixes eof :: bool
  assumes "window_end r < two64" and "unat index + length data < two64"
  defines "tmp \<equiv> take (window_end r - unat index) data"
    and "r1 \<equiv> (if unat index + length data \<le> window_end r then r\<lparr>ra_eof := ra_eof r \<or> eof\<rparr> else r)"
  shows "StreamReassembler_push_substring r data index eof =
     (if window_end r \<le> unat index then Inr r
      else if unat index + length tmp \<le> unat (ra_assembled_bytes r) then Inr (end_if_empty r1)
      else bindE (absorb_segment r1 tmp index) (\<lambda>r2. Inr (end_if_empty r2)))"
proof -
  let ?limit = "ra_capacity r + bs_byte_read (ra_output r)"
  have limit: "unat ?limit = window_end r" using assms(1) by (simp add: unat_add64)
  have end_: "unat (index + size64 data) = unat index + length data"
    using assms(2) by (simp add: unat_add64 unat_size64)
  show ?thesis
  proof (cases "window_end r \<le> unat index")
    case True
    then show ?thesis
      using limit by (simp add: StreamReassembler_push_substring_def word_le_nat_alt)
  next
    case False
    then have sub: "unat (?limit - index) = window_end r - unat index"
      using limit by (subst unat_sub64) (simp_all add: word_nat)
    have tmp: "(if index + size64 data > ?limit then string_resize data (?limit - index) else data) = tmp"
      using False by (auto simp: tmp_def string_resize_def sub word_less_nat_alt limit end_)
    have "length tmp \<le> length data" by (simp add: tmp_def)
    then have "unat (index + size64 tmp) = unat index + length tmp"
      using assms(2) by (simp add: unat_add64 unat_size64)
    moreover have "(if index + size64 data > ?limit then r else r\<lparr>ra_eof := ra_eof r \<or> eof\<rparr>) = r1"
      by (auto simp: r1_def word_less_nat_alt limit end_)
    moreover have "ra_assembled_bytes r1 = ra_assembled_bytes r" by (simp add: r1_def)
    ultimately show ?thesis
      using False tmp by (simp add: StreamReassembler_push_substring_def Let_def word_le_nat_alt limit)
  qed
qed

lemma push_substring_ok:
  assumes "ra_wf r" and "window_end r < two64" and "unat index + length data < two64"
  shows "\<exists>r'. StreamReassembler_push_substring r data index eof = Inr r' \<and> ra_wf r'
     \<and> received (ra_used_byte r') = received (ra_used_byte r) \<union> accepted r index data
     \<and> ra_capacity r' = ra_capacity r
     \<and> ra_assembled_bytes r \<le> ra_assembled_bytes r'
     \<and> ra_eof r' = (ra_eof r \<or> eof \<and> unat index < window_end r \<and> unat index + length data \<le> window_end r)
     \<and> bs_byte_read (ra_output r') = bs_byte_read (ra_output r)
     \<and> bs_error (ra_output r') = bs_error (ra_output r)
     \<and> bs_end (ra_output r') =
         (bs_end (ra_output r) \<or> unat index < window_end r \<and> StreamReassembler_empty r')
     \<and> (\<forall>S. ra_stream S r \<and> agrees S (index, data) \<longrightarrow> ra_stream S r')"
proof -
  let ?tmp = "take (window_end r - unat index) data"
  let ?r1 = "if unat index + length data \<le> window_end r then r\<lparr>ra_eof := ra_eof r \<or> eof\<rparr> else r"
  note cs = push_substring_cases [OF assms(2,3), of eof]
  have sp: "accepted r index data = (if window_end r \<le> unat index then {} else span (index, ?tmp))"
    by (auto simp: span_def)
  have r1: "ra_wf ?r1" "window_end ?r1 = window_end r" "ra_used_byte ?r1 = ra_used_byte r"
    "ra_assembled_bytes ?r1 = ra_assembled_bytes r" "ra_output ?r1 = ra_output r"
    "ra_capacity ?r1 = ra_capacity r" "ra_stream S ?r1 = ra_stream S r" for S
    using assms(1) by simp_all
  have r1eof: "ra_eof ?r1 = (ra_eof r \<or> eof \<and> unat index + length data \<le> window_end r)" by simp
  have emp: "StreamReassembler_empty (end_if_empty x) = StreamReassembler_empty x" for x
    by (simp add: StreamReassembler_empty_def)
  have inside: "{0 ..< unat (ra_assembled_bytes r)} \<subseteq> received (ra_used_byte r)"
    using assms(1) by (auto simp: ra_wf_def)
  consider "window_end r \<le> unat index"
    | "unat index < window_end r" "unat index + length ?tmp \<le> unat (ra_assembled_bytes r)"
    | "unat index < window_end r" "unat (ra_assembled_bytes r) < unat index + length ?tmp"
    by linarith
  then show ?thesis
  proof cases
    case 1
    with assms(1) cs show ?thesis by (simp add: sp)
  next
    case 2
    have "span (index, ?tmp) \<subseteq> received (ra_used_byte r)"
      using 2(2) inside by (auto simp: span_def)
    moreover have "StreamReassembler_push_substring r data index eof = Inr (end_if_empty ?r1)"
      using 2 cs by simp
    ultimately show ?thesis
      using 2(1) r1 r1eof
      by (intro exI [of _ "end_if_empty ?r1"])
        (simp add: sp emp ByteStream_end_input_def Un_absorb2)
  next
    case 3
    have len: "unat index + length ?tmp < two64" "within (window_end r) (index, ?tmp)"
      using 3(1) assms(2) by (auto simp: within_def)
    then have "unat (index + size64 ?tmp) = unat index + length ?tmp"
      by (simp add: unat_add64 unat_size64)
    then have "ra_assembled_bytes ?r1 < index + size64 ?tmp"
      using 3(2) r1(4) by (simp add: word_less_nat_alt)
    then obtain r2 where r2: "absorb_segment ?r1 ?tmp index = Inr r2" "ra_wf r2"
      "received (ra_used_byte r2) = received (ra_used_byte ?r1) \<union> span (index, ?tmp)"
      "ra_capacity r2 = ra_capacity ?r1" "ra_eof r2 = ra_eof ?r1"
      "ra_assembled_bytes ?r1 \<le> ra_assembled_bytes r2"
      "bs_byte_read (ra_output r2) = bs_byte_read (ra_output ?r1)"
      "bs_end (ra_output r2) = bs_end (ra_output ?r1)" "bs_error (ra_output r2) = bs_error (ra_output ?r1)"
      "\<And>S. ra_stream S ?r1 \<and> agrees S (index, ?tmp) \<Longrightarrow> ra_stream S r2"
      using absorb_segment_ok [OF r1(1), of index ?tmp] assms(2) len(2) unfolding r1(2) by blast
    have "StreamReassembler_push_substring r data index eof = Inr (end_if_empty r2)"
      using 3 cs r2(1) by simp
    moreover have "\<And>S. ra_stream S r \<and> agrees S (index, data) \<Longrightarrow> ra_stream S r2"
      using r2(10) r1(7) agrees_take by blast
    ultimately show ?thesis
      using 3(1) r1 r1eof r2
      by (intro exI [of _ "end_if_empty r2"]) (simp add: sp emp ByteStream_end_input_def)
  qed
qed

section \<open>Consequences of the invariant\<close>

lemma first_missing:
  assumes "ra_wf r"
  shows "{0 ..< unat (ra_assembled_bytes r)} \<subseteq> received (ra_used_byte r)"
    and "unat (ra_assembled_bytes r) \<notin> received (ra_used_byte r)"
  using assms by (auto simp: ra_wf_def covered_def span_def word_nat)

lemma stored_minus_assembled:
  assumes "ra_wf r"
  shows "ra_assembled_bytes r \<le> ra_stored_bytes r"
    and "unat (StreamReassembler_unassembled_bytes r) = card (covered (entries r))"
proof -
  let ?a = "unat (ra_assembled_bytes r)"
  have dis: "{0 ..< ?a} \<inter> covered (entries r) = {}"
    using assms by (auto simp: ra_wf_def covered_def span_def word_nat)
  have "finite (covered (entries r))" by (simp add: covered_def span_def)
  then have "card ({0 ..< ?a} \<union> covered (entries r)) = ?a + card (covered (entries r))"
    using card_Un_disjoint [OF _ _ dis] by simp
  then have st: "unat (ra_stored_bytes r) = ?a + card (covered (entries r))"
    using assms by (simp add: ra_wf_def)
  then show le: "ra_assembled_bytes r \<le> ra_stored_bytes r" by (simp add: word_nat)
  show "unat (StreamReassembler_unassembled_bytes r) = card (covered (entries r))"
    using st unat_sub64 [OF le] by (simp add: StreamReassembler_unassembled_bytes_def)
qed

lemma covered_window:
  assumes "ra_wf r"
  shows "covered (entries r) \<subseteq> {unat (ra_assembled_bytes r) ..< window_end r}"
  using assms by (force simp: ra_wf_def covered_def span_def within_def word_nat)

lemma empty_iff:
  assumes "ra_wf r"
  shows "StreamReassembler_empty r \<longleftrightarrow> ra_eof r \<and> covered (entries r) = {}"
proof -
  have "ra_stored_bytes r = ra_assembled_bytes r \<longleftrightarrow> StreamReassembler_unassembled_bytes r = 0"
    by (simp add: StreamReassembler_unassembled_bytes_def)
  also have "\<dots> \<longleftrightarrow> card (covered (entries r)) = 0"
    using stored_minus_assembled(2) [OF assms] by (metis unat_eq_zero)
  also have "\<dots> \<longleftrightarrow> covered (entries r) = {}"
    by (simp add: covered_def span_def)
  finally show ?thesis by (auto simp: StreamReassembler_empty_def)
qed

section \<open>Runs: segments arrive, the application reads\<close>

datatype ra_op = Push bytes u64 bool | Read_out u64

fun ra_step :: "StreamReassembler \<Rightarrow> ra_op \<Rightarrow> (StreamReassembler \<times> bytes) result" where
  "ra_step r (Push data index eof) =
     bindE (StreamReassembler_push_substring r data index eof) (\<lambda>r'. Inr (r', []))"
| "ra_step r (Read_out n) =
     bindE (ByteStream_read (StreamReassembler_stream_out r) n)
       (\<lambda>(out, d). Inr (r\<lparr>ra_output := out\<rparr>, d))"

lemma read_out_ok:
  assumes "ra_wf r"
  shows "\<exists>out. ra_step r (Read_out n) = Inr (r\<lparr>ra_output := out\<rparr>, take (unat n) (ByteStream_contents (ra_output r)))
     \<and> ra_wf (r\<lparr>ra_output := out\<rparr>)
     \<and> ByteStream_contents out = drop (unat n) (ByteStream_contents (ra_output r))
     \<and> unat (bs_byte_read out) =
         unat (bs_byte_read (ra_output r)) + min (unat n) (length (ByteStream_contents (ra_output r)))
     \<and> bs_end out = bs_end (ra_output r) \<and> bs_error out = bs_error (ra_output r)"
proof -
  let ?o = "ra_output r" and ?asm = "ra_assembled_bytes r"
  have ow: "out_wf (ra_capacity r) ?asm ?o" using assms by (simp add: ra_wf_def)
  then have inv: "ByteStream_inv ?o" by (simp add: out_wf_def)
  obtain out where out: "ByteStream_read ?o n = Inr (out, take (unat n) (ByteStream_contents ?o))"
    "ByteStream_inv out" "ByteStream_contents out = drop (unat n) (ByteStream_contents ?o)"
    "bs_capacity out = bs_capacity ?o" "bs_end out = bs_end ?o" "bs_error out = bs_error ?o"
    "bs_byte_written out = bs_byte_written ?o"
    "bs_byte_read out = bs_byte_read ?o + min n (ByteStream_buffer_size ?o)"
    using ByteStream_read_law [OF inv] by metis
  have m: "unat (min n (ByteStream_buffer_size ?o)) = min (unat n) (length (ByteStream_contents ?o))"
    using inv by (simp add: unat_buffer_size)
  have len: "length (ByteStream_contents ?o) = unat ?asm - unat (bs_byte_read ?o)"
    and ra: "unat (bs_byte_read ?o) \<le> unat ?asm"
    using out_wf_length [OF ow] ow by (simp_all add: out_wf_def word_nat)
  have le: "unat (bs_byte_read ?o) + min (unat n) (length (ByteStream_contents ?o)) \<le> unat ?asm"
    using len ra by linarith
  then have rd: "unat (bs_byte_read out) = unat (bs_byte_read ?o) + min (unat n) (length (ByteStream_contents ?o))"
    using out(8) m le_less_trans [OF le unat_lt64] by (simp add: unat_add64)
  have "out_wf (ra_capacity r) ?asm out"
    using ow out rd le by (simp add: out_wf_def word_nat)
  moreover have "within (window_end (r\<lparr>ra_output := out\<rparr>)) e" if "within (window_end r) e" for e
    using that rd by (simp add: within_def)
  ultimately have "ra_wf (r\<lparr>ra_output := out\<rparr>)"
    using assms by (simp add: ra_wf_def)
  with out(1,3,5,6) rd show ?thesis
    by (intro exI [of _ out]) (simp add: StreamReassembler_stream_out_def)
qed

lemma read_out_stream:
  assumes "ra_wf r" and "ra_stream S r" and "ra_step r (Read_out n) = Inr (r', d)"
  shows "ra_stream S r'"
proof -
  let ?o = "ra_output r"
  obtain out where out: "r' = r\<lparr>ra_output := out\<rparr>"
    "ByteStream_contents out = drop (unat n) (ByteStream_contents ?o)"
    "unat (bs_byte_read out) = unat (bs_byte_read ?o) + min (unat n) (length (ByteStream_contents ?o))"
    using read_out_ok [OF assms(1), of n] assms(3) by auto
  have "drop (unat n) (ByteStream_contents ?o) = drop (min (unat n) (length (ByteStream_contents ?o))) (ByteStream_contents ?o)"
    by (simp add: min_def)
  with out assms(2) show ?thesis
    by (simp add: ra_stream_def add.commute)
qed

text \<open>A push that a peer makes of the stream \<open>S\<close>: a substring of it, marked \<open>eof\<close> only at its end.\<close>

fun op_of_stream :: "bytes \<Rightarrow> ra_op \<Rightarrow> bool" where
  "op_of_stream S (Push data index eof) \<longleftrightarrow>
     agrees S (index, data) \<and> (eof \<longrightarrow> unat index + length data = length S)"
| "op_of_stream S (Read_out n) \<longleftrightarrow> True"

lemma ra_step_stream:
  assumes "ra_wf r" and "ra_stream S r" and "op_of_stream S op" and "unat (ra_capacity r) + length S < two64"
  shows "\<exists>r' d. ra_step r op = Inr (r', d) \<and> ra_wf r' \<and> ra_stream S r' \<and> ra_capacity r' = ra_capacity r
     \<and> unat (bs_byte_read (ra_output r')) = unat (bs_byte_read (ra_output r)) + length d
     \<and> ra_assembled_bytes r \<le> ra_assembled_bytes r'
     \<and> d = take (length d) (ByteStream_contents (ra_output r))"
proof (cases op)
  case (Push data index eof)
  have "unat (bs_byte_read (ra_output r)) \<le> length S"
    using assms(1,2) by (auto simp: ra_wf_def out_wf_def ra_stream_def word_nat)
  then have "window_end r < two64" and "unat index + length data < two64"
    using assms(3,4) Push by (auto simp: agrees_def)
  from push_substring_ok [OF assms(1) this, of eof] assms(2,3) Push show ?thesis by fastforce
next
  case (Read_out n)
  with read_out_ok [OF assms(1), of n] read_out_stream [OF assms(1,2), of n] show ?thesis
    by (auto simp: take_min_length min.commute)
qed

text \<open>The reassembler delivers \<open>S\<close> in order, as long as the stream fits the 64-bit counters.\<close>

definition ra_inv :: "bytes \<Rightarrow> StreamReassembler \<Rightarrow> bool" where
  "ra_inv S r \<longleftrightarrow> ra_wf r \<and> ra_stream S r \<and> unat (ra_capacity r) + length S < two64"

definition ra_pos :: "StreamReassembler \<Rightarrow> nat" where
  "ra_pos r = unat (bs_byte_read (ra_output r))"

lemma read_slice:
  assumes "ra_stream S r" and "d = take (length d) (ByteStream_contents (ra_output r))"
  shows "d = take (length d) (drop (ra_pos r) S)"
proof -
  have "ByteStream_contents (ra_output r) = drop (ra_pos r) (take (unat (ra_assembled_bytes r)) S)"
    using assms(1) by (simp add: ra_stream_def ra_pos_def)
  from assms(2) [unfolded this] show ?thesis by (rule take_take_slice)
qed

interpretation ra: prefix_reader ra_step "ra_inv S" ra_pos "op_of_stream S" S for S
proof unfold_locales
  fix r op assume inv: "ra_inv S r" and ok: "op_of_stream S op"
  from inv have r: "ra_wf r" "ra_stream S r" "unat (ra_capacity r) + length S < two64"
    by (simp_all add: ra_inv_def)
  obtain r' d where r': "ra_step r op = Inr (r', d)" "ra_wf r'" "ra_stream S r'" "ra_capacity r' = ra_capacity r"
    "ra_pos r' = ra_pos r + length d" "d = take (length d) (ByteStream_contents (ra_output r))"
    using ra_step_stream [OF r(1,2) ok r(3)] unfolding ra_pos_def by blast
  have "ra_inv S r'" using r' r(3) by (simp add: ra_inv_def)
  with r'(1,5) read_slice [OF r(2) r'(6)]
  show "\<exists>r' d. ra_step r op = Inr (r', d) \<and> ra_inv S r' \<and> ra_pos r' = ra_pos r + length d
      \<and> d = take (length d) (drop (ra_pos r) S)"
    by blast
qed

text \<open>What was read and what can still be read make up the assembled part of the stream.\<close>

lemma delivered_prefix:
  assumes "ra_wf r" and "ra_stream S r" and "ra_pos r = length d" and "d = take (length d) S"
  shows "d @ ByteStream_contents (ra_output r) = take (unat (ra_assembled_bytes r)) S"
proof -
  have "length d \<le> unat (ra_assembled_bytes r)"
    using assms(1,3) by (auto simp: ra_wf_def out_wf_def word_nat ra_pos_def)
  then have "take (length d) S = take (length d) (take (unat (ra_assembled_bytes r)) S)"
    by (simp add: min_absorb1)
  with assms(2-4) show ?thesis
    unfolding ra_stream_def ra_pos_def by (metis append_take_drop_id)
qed

section \<open>When the input ends\<close>

text \<open>
  The flag \<^verbatim>\<open>_eof\<close> is set by the first accepted substring marked \<open>eof\<close>, wherever it starts.  The
  invariant for a stream \<open>S\<close> whose last byte travels with the \<open>eof\<close> mark, or whose bare \<open>eof\<close> mark
  arrives in order:
\<close>

definition ra_fin :: "bytes \<Rightarrow> StreamReassembler \<Rightarrow> bool" where
  "ra_fin S r \<longleftrightarrow>
     (ra_eof r \<longrightarrow> unat (ra_assembled_bytes r) = length S \<or> length S - 1 \<in> covered (entries r))
     \<and> (bs_end (ra_output r) \<longleftrightarrow> ra_eof r \<and> unat (ra_assembled_bytes r) = length S)"

definition eof_with_data :: "bytes \<Rightarrow> StreamReassembler \<Rightarrow> bytes \<Rightarrow> u64 \<Rightarrow> bool \<Rightarrow> bool" where
  "eof_with_data S r data index eof \<longleftrightarrow>
     (eof \<longrightarrow> unat index + length data = length S \<and> (data \<noteq> [] \<or> unat index \<le> unat (ra_assembled_bytes r)))"

lemma covered_below_stream:
  "ra_stream S r \<Longrightarrow> covered (entries r) \<subseteq> {..< length S}"
  by (force simp: ra_stream_def agrees_def covered_def span_def)

lemma last_byte_cases:
  assumes "ra_wf r" and "ra_stream S r" and "length S - 1 \<in> received (ra_used_byte r)" and "S \<noteq> []"
  shows "unat (ra_assembled_bytes r) = length S \<or> length S - 1 \<in> covered (entries r)"
proof -
  have "unat (ra_assembled_bytes r) \<le> length S" using assms(2) by (simp add: ra_stream_def)
  moreover have "length S - 1 < unat (ra_assembled_bytes r) \<or> length S - 1 \<in> covered (entries r)"
    using assms(1,3) by (auto simp: ra_wf_def)
  ultimately show ?thesis using assms(4) by (cases S) auto
qed

lemma push_substring_fin:
  assumes "ra_wf r" and "window_end r < two64" and "unat index + length data < two64"
    and "ra_stream S r" and "agrees S (index, data)" and "ra_fin S r" and "eof_with_data S r data index eof"
    and push: "StreamReassembler_push_substring r data index eof = Inr r'"
  shows "ra_fin S r'"
proof -
  have r': "ra_wf r'" "received (ra_used_byte r') = received (ra_used_byte r) \<union> accepted r index data"
    "ra_assembled_bytes r \<le> ra_assembled_bytes r'"
    "ra_eof r' = (ra_eof r \<or> eof \<and> unat index < window_end r \<and> unat index + length data \<le> window_end r)"
    "bs_end (ra_output r') = (bs_end (ra_output r) \<or> unat index < window_end r \<and> StreamReassembler_empty r')"
    "ra_stream S r'"
    using push_substring_ok [OF assms(1-3), of eof] assms(4,5) push by auto
  have asm: "unat (ra_assembled_bytes r) \<le> unat (ra_assembled_bytes r')" "unat (ra_assembled_bytes r') \<le> length S"
    using r'(3,6) by (simp_all add: word_nat ra_stream_def)
  have E: "unat (ra_assembled_bytes r') = length S \<or> length S - 1 \<in> covered (entries r')" if "ra_eof r'"
  proof (cases "S = [] \<or> unat (ra_assembled_bytes r) = length S")
    case True
    with asm show ?thesis by auto
  next
    case False
    have "length S - 1 \<in> received (ra_used_byte r')"
    proof (cases "ra_eof r")
      case True
      then have "length S - 1 \<in> covered (entries r)" using False assms(6) by (simp add: ra_fin_def)
      then show ?thesis using r'(2) assms(1) by (simp add: ra_wf_def)
    next
      case False2: False
      with that r'(4) have eof: "eof" "unat index + length data \<le> window_end r" by auto
      with assms(7) have e: "unat index + length data = length S" "data \<noteq> [] \<or> unat index \<le> unat (ra_assembled_bytes r)"
        by (auto simp: eof_with_data_def)
      have "data \<noteq> []" using e False asm by auto
      then have "length S - 1 \<in> accepted r index data"
        using e(1) eof(2) by (cases data) (auto simp: span_def)
      then show ?thesis using r'(2) by simp
    qed
    with last_byte_cases [OF r'(1,6)] False show ?thesis by blast
  qed
  have fin: "StreamReassembler_empty r' \<longleftrightarrow> ra_eof r' \<and> unat (ra_assembled_bytes r') = length S"
  proof
    assume "StreamReassembler_empty r'"
    then show "ra_eof r' \<and> unat (ra_assembled_bytes r') = length S"
      using empty_iff [OF r'(1)] E by auto
  next
    assume *: "ra_eof r' \<and> unat (ra_assembled_bytes r') = length S"
    then have "covered (entries r') = {}"
      using covered_below_stream [OF r'(6)] covered_window [OF r'(1)] by force
    with * show "StreamReassembler_empty r'" using empty_iff [OF r'(1)] by simp
  qed
  have "bs_end (ra_output r') \<longleftrightarrow> ra_eof r' \<and> unat (ra_assembled_bytes r') = length S"
  proof (cases "unat index < window_end r")
    case True
    have "ra_eof r'" "unat (ra_assembled_bytes r') = length S" if "bs_end (ra_output r)"
      using that assms(6) r'(4) asm by (auto simp: ra_fin_def)
    with True r'(5) fin show ?thesis by blast
  next
    case False
    then have "r' = r" using push push_substring_cases [OF assms(2,3), of eof] by simp
    then show ?thesis using assms(6) by (simp add: ra_fin_def)
  qed
  with E show ?thesis by (simp add: ra_fin_def)
qed

section \<open>Properties\<close>

text \<open>
  C3: take any stream \<open>S\<close> and any interleaving of substrings of it (out of order, overlapping,
  repeated, cut by the window) with reads by the application.  No call throws, and what the
  application has read followed by what it can still read is exactly the first
  \<open>assembled_bytes()\<close> bytes of \<open>S\<close>.
\<close>

theorem reassembler_delivers_prefix:
  assumes "list_all (op_of_stream S) ops" and "unat cap + length S < two64"
  shows "\<exists>r d. run_ops ra_step (StreamReassembler_new cap) ops = Inr (r, d)
     \<and> d @ ByteStream_contents (StreamReassembler_stream_out r) =
         take (unat (StreamReassembler_assembled_bytes r)) S
     \<and> unat (StreamReassembler_assembled_bytes r) \<le> length S"
proof -
  have "ra_inv S (StreamReassembler_new cap)" "ra_pos (StreamReassembler_new cap) = 0"
    using assms(2) by (simp_all add: ra_inv_def ra_pos_def keeps_inv) (simp_all add: StreamReassembler_new_def)
  with ra.run_law [OF _ assms(1)] obtain r d where
    "run_ops ra_step (StreamReassembler_new cap) ops = Inr (r, d)" "ra_inv S r" "ra_pos r = length d"
    "d = take (length d) S"
    by fastforce
  then show ?thesis
    using delivered_prefix [of r S d]
    by (auto simp: ra_inv_def StreamReassembler_stream_out_def StreamReassembler_assembled_bytes_def ra_stream_def)
qed

theorem reassembler_delivers_prefix_witness:
  "\<exists>r d. run_ops ra_step (StreamReassembler_new 4) [Push [12, 13] 2 True, Push [11, 12] 1 False, Push [10] 0 False, Read_out 9]
       = Inr (r, d)
     \<and> d @ ByteStream_contents (StreamReassembler_stream_out r) =
         take (unat (StreamReassembler_assembled_bytes r)) [10, 11, 12, 13]
     \<and> unat (StreamReassembler_assembled_bytes r) \<le> length [10, 11, 12, 13 :: byte]"
  by (rule reassembler_delivers_prefix) (simp_all add: agrees_def two64_def)

text \<open>
  C15: one call of \<open>push_substring\<close> on a well-formed reassembler, whatever the data: it does not throw,
  keeps the invariant, adds to the received bytes exactly the part of the substring inside the
  window, and leaves \<open>assembled_bytes()\<close> at the least index that has not been received.
\<close>

theorem push_substring_assembles_all:
  assumes "ra_wf r" and "window_end r < two64" and "unat index + length data < two64"
  shows "\<exists>r'. StreamReassembler_push_substring r data index eof = Inr r' \<and> ra_wf r'
     \<and> received (ra_used_byte r') = received (ra_used_byte r) \<union> (span (index, data) \<inter> {..< window_end r})
     \<and> unat (StreamReassembler_assembled_bytes r') = (LEAST n. n \<notin> received (ra_used_byte r'))"
proof -
  obtain r' where r': "StreamReassembler_push_substring r data index eof = Inr r'" "ra_wf r'"
    "received (ra_used_byte r') = received (ra_used_byte r) \<union> accepted r index data"
    using push_substring_ok [OF assms] by blast
  have "(LEAST n. n \<notin> received (ra_used_byte r')) = unat (ra_assembled_bytes r')"
    using first_missing [OF r'(2)] by (intro Least_equality) (auto simp: subset_iff not_less [symmetric])
  with r' show ?thesis by (auto simp: StreamReassembler_assembled_bytes_def)
qed

theorem push_substring_assembles_all_witness:
  "\<exists>r'. StreamReassembler_push_substring (StreamReassembler_new 8) [7, 8] 3 False = Inr r' \<and> ra_wf r'
     \<and> received (ra_used_byte r') = received (ra_used_byte (StreamReassembler_new 8))
         \<union> (span (3, [7, 8]) \<inter> {..< window_end (StreamReassembler_new 8)})
     \<and> unat (StreamReassembler_assembled_bytes r') = (LEAST n. n \<notin> received (ra_used_byte r'))"
  by (rule push_substring_assembles_all [OF StreamReassembler_new_wf])
    (simp_all add: two64_def StreamReassembler_new_def)

lemma held_within_capacity:
  assumes "ra_wf r"
  shows "length (ByteStream_contents (ra_output r)) + unat (StreamReassembler_unassembled_bytes r)
           \<le> unat (ra_capacity r)
     \<and> unat (StreamReassembler_unassembled_bytes r)
           = card (received (ra_used_byte r) - {0 ..< unat (ra_assembled_bytes r)})"
proof
  let ?a = "unat (ra_assembled_bytes r)"
  have sub: "covered (entries r) \<subseteq> {?a ..< window_end r}" by (rule covered_window [OF assms])
  then have "card (covered (entries r)) \<le> window_end r - ?a"
    using card_mono [of "{?a ..< window_end r}"] by fastforce
  moreover have ow: "out_wf (ra_capacity r) (ra_assembled_bytes r) (ra_output r)"
    using assms by (simp add: ra_wf_def)
  moreover have "unat (bs_byte_read (ra_output r)) \<le> ?a"
    using ow by (simp add: out_wf_def word_nat)
  ultimately show "length (ByteStream_contents (ra_output r)) + unat (StreamReassembler_unassembled_bytes r)
      \<le> unat (ra_capacity r)"
    using out_wf_length [OF ow] out_wf_window [OF ow] stored_minus_assembled(2) [OF assms] by linarith
  have "received (ra_used_byte r) - {0 ..< ?a} = covered (entries r)"
    using assms sub by (auto simp: ra_wf_def)
  then show "unat (StreamReassembler_unassembled_bytes r) = card (received (ra_used_byte r) - {0 ..< ?a})"
    using stored_minus_assembled(2) [OF assms] by simp
qed

text \<open>
  C16: the memory limit.  Whatever is pushed into a well-formed reassembler, \<open>push_substring\<close> returns a
  reassembler of the same capacity in which the bytes that wait to be read and the bytes that wait to
  be assembled do not exceed the capacity together.  \<open>unassembled_bytes()\<close> then counts the bytes at and
  above \<open>assembled_bytes()\<close> that had been received or lie in the accepted part of this substring, each
  of them once.
\<close>

theorem reassembler_within_capacity:
  assumes "ra_wf r" and "window_end r < two64" and "unat index + length data < two64"
  shows "\<exists>r'. StreamReassembler_push_substring r data index eof = Inr r' \<and> ra_capacity r' = ra_capacity r
     \<and> length (ByteStream_contents (ra_output r')) + unat (StreamReassembler_unassembled_bytes r')
           \<le> unat (ra_capacity r)
     \<and> unat (StreamReassembler_unassembled_bytes r') =
         card ((received (ra_used_byte r) \<union> (span (index, data) \<inter> {..< window_end r}))
               - {0 ..< unat (StreamReassembler_assembled_bytes r')})"
proof -
  obtain r' where r': "StreamReassembler_push_substring r data index eof = Inr r'" "ra_wf r'"
    "received (ra_used_byte r') = received (ra_used_byte r) \<union> accepted r index data" "ra_capacity r' = ra_capacity r"
    using push_substring_ok [OF assms, of eof] by blast
  with held_within_capacity [OF r'(2)] show ?thesis
    unfolding StreamReassembler_assembled_bytes_def by auto
qed

theorem reassembler_within_capacity_witness:
  "\<exists>r'. StreamReassembler_push_substring (StreamReassembler_new 4) [5, 6, 7, 8, 9, 10] 1 False = Inr r'
     \<and> ra_capacity r' = ra_capacity (StreamReassembler_new 4)
     \<and> length (ByteStream_contents (ra_output r')) + unat (StreamReassembler_unassembled_bytes r')
           \<le> unat (ra_capacity (StreamReassembler_new 4))
     \<and> unat (StreamReassembler_unassembled_bytes r') =
         card ((received (ra_used_byte (StreamReassembler_new 4))
                 \<union> (span (1, [5, 6, 7, 8, 9, 10]) \<inter> {..< window_end (StreamReassembler_new 4)}))
               - {0 ..< unat (StreamReassembler_assembled_bytes r')})"
  by (rule reassembler_within_capacity [OF StreamReassembler_new_wf])
    (simp_all add: two64_def StreamReassembler_new_def)

text \<open>
  C17: the end of the stream.  As long as the \<open>eof\<close> mark comes with the last byte of \<open>S\<close>, or in order,
  the output's input is ended exactly when \<open>eof\<close> has been seen and all of \<open>S\<close> is assembled.
\<close>

theorem reassembler_ends_input_exactly:
  assumes "ra_wf r" and "window_end r < two64" and "unat index + length data < two64"
    and "ra_stream S r" and "agrees S (index, data)" and "ra_fin S r" and "eof_with_data S r data index eof"
    and "StreamReassembler_push_substring r data index eof = Inr r'"
  shows "ByteStream_input_ended (ra_output r') \<longleftrightarrow>
     ra_eof r' \<and> unat (StreamReassembler_assembled_bytes r') = length S"
  using push_substring_fin [OF assms]
  by (simp add: ra_fin_def ByteStream_input_ended_def StreamReassembler_assembled_bytes_def)

lemma push_last_byte: "StreamReassembler_push_substring (StreamReassembler_new 4) [5] 0 True =
    Inr (the (case StreamReassembler_push_substring (StreamReassembler_new 4) [5] 0 True of Inr r \<Rightarrow> Some r | Inl _ \<Rightarrow> None))"
  using push_substring_ok [OF StreamReassembler_new_wf, of 4 0 "[5]" True]
  by (auto simp: two64_def StreamReassembler_new_def)

theorem reassembler_ends_input_exactly_witness:
  "\<exists>r'. StreamReassembler_push_substring (StreamReassembler_new 4) [5] 0 True = Inr r'
     \<and> (ByteStream_input_ended (ra_output r') \<longleftrightarrow>
          ra_eof r' \<and> unat (StreamReassembler_assembled_bytes r') = length [5 :: byte])"
  using push_last_byte
  by (intro exI conjI, assumption, intro reassembler_ends_input_exactly [OF StreamReassembler_new_wf])
    (auto simp: two64_def agrees_def ra_fin_def eof_with_data_def StreamReassembler_new_def ra_stream_def)

lemma push_bare_eof:
  assumes "ra_wf r" and "window_end r < two64"
    and "StreamReassembler_unassembled_bytes r = 0"
    and "unat index < window_end r"
  shows "\<exists>r'. StreamReassembler_push_substring r [] index True = Inr r'
     \<and> bs_end (ra_output r') \<and> StreamReassembler_empty r' \<and> ra_assembled_bytes r' = ra_assembled_bytes r \<and> ra_wf r'"
proof -
  obtain r' where r': "StreamReassembler_push_substring r [] index True = Inr r'" "ra_wf r'"
    "received (ra_used_byte r') = received (ra_used_byte r) \<union> accepted r index []"
    "ra_eof r' = (ra_eof r \<or> True \<and> unat index < window_end r \<and> unat index + length ([] :: bytes) \<le> window_end r)"
    "bs_end (ra_output r') = (bs_end (ra_output r) \<or> unat index < window_end r \<and> StreamReassembler_empty r')"
    using push_substring_ok [OF assms(1,2), of index "[]" True] by auto
  have eq: "received (ra_used_byte r') = received (ra_used_byte r)"
    using r'(3) by (simp add: span_def)
  have a: "unat (ra_assembled_bytes r') = unat (ra_assembled_bytes r)"
    using first_missing [OF r'(2)] first_missing [OF assms(1)] unfolding eq
    by (meson atLeastLessThan_iff le0 linorder_neqE_nat subsetD)
  have "unat (ra_stored_bytes r') = unat (ra_stored_bytes r)"
    using r'(2) assms(1) eq by (simp add: ra_wf_def)
  moreover have "ra_stored_bytes r = ra_assembled_bytes r"
    using assms(3) by (simp add: StreamReassembler_unassembled_bytes_def)
  ultimately have "ra_stored_bytes r' = ra_assembled_bytes r'"
    using a by (simp add: word_unat_eq_iff)
  then have "StreamReassembler_empty r'"
    using r'(4) assms(4) by (simp add: StreamReassembler_empty_def)
  with r' a assms(4) show ?thesis by (auto simp: word_unat_eq_iff)
qed

text \<open>
  A bare \<open>eof\<close> mark (a FIN without payload) that arrives ahead of missing data ends the input at
  once: the reassembler counts stored bytes only, so it takes the stream for complete although the
  bytes from \<open>assembled_bytes()\<close> up to \<open>index\<close> never arrived.
\<close>

lemma bare_eof_out_of_order_ends_input:
  assumes "ra_wf r" and "window_end r < two64"
    and "StreamReassembler_unassembled_bytes r = 0"
    and "unat (ra_assembled_bytes r) < unat index" and "unat index < window_end r"
  shows "\<exists>r'. StreamReassembler_push_substring r [] index True = Inr r'
     \<and> ByteStream_input_ended (ra_output r')
     \<and> unat (StreamReassembler_assembled_bytes r') < unat index"
  using push_bare_eof [OF assms(1-3,5)] assms(4)
  by (auto simp: ByteStream_input_ended_def StreamReassembler_assembled_bytes_def)

lemma bare_eof_example:
  "\<exists>r'. StreamReassembler_push_substring (StreamReassembler_new 8) [] 5 True = Inr r'
     \<and> ByteStream_input_ended (ra_output r')
     \<and> unat (StreamReassembler_assembled_bytes r') < unat (5 :: u64)"
  by (rule bare_eof_out_of_order_ends_input [OF StreamReassembler_new_wf])
    (simp_all add: two64_def StreamReassembler_new_def StreamReassembler_unassembled_bytes_def)

end
