(* ===== verification/Net_Parser.thy ===== *)
theory Net_Parser
  imports Buffers
begin

text \<open>
  \<^verbatim>\<open>libsponge/util/parser.hh\<close> and \<^verbatim>\<open>parser.cc\<close>: integers in network byte order are read from the
  front of a buffer by a \<open>NetParser\<close>, which remembers the first shortage, and written to the end of
  a string by \<open>NetUnparser\<close>.  The template \<^verbatim>\<open>_parse_int<T>\<close> is one polymorphic function on words; its
  three instances are \<open>NetParser_u8\<close>, \<open>NetParser_u16\<close> and \<open>NetParser_u32\<close>.

  The locale \<open>codec\<close> is the contract of a pair of an encoder and a decoder that the headers rely on;
  it is interpreted on the three instances.
\<close>

section \<open>Parse results\<close>

datatype ParseResult = NoError | BadChecksum | PacketTooShort | WrongIPVersion | HeaderTooShort
  | TruncatedPacket | Unsupported

fun ParseResult_index :: "ParseResult \<Rightarrow> nat" where
  "ParseResult_index NoError = 0"
| "ParseResult_index BadChecksum = 1"
| "ParseResult_index PacketTooShort = 2"
| "ParseResult_index WrongIPVersion = 3"
| "ParseResult_index HeaderTooShort = 4"
| "ParseResult_index TruncatedPacket = 5"
| "ParseResult_index Unsupported = 6"

text \<open>Reading past the end of the array \<^verbatim>\<open>_names\<close> is undefined behaviour.\<close>

definition as_string :: "ParseResult \<Rightarrow> string result" where
  "as_string r =
     (let names = [''NoError'', ''BadChecksum'', ''PacketTooShort'', ''WrongIPVersion'',
                   ''HeaderTooShort'', ''TruncatedPacket''] in
      if ParseResult_index r < length names then Inr (names ! ParseResult_index r)
      else Inl Undefined_behaviour)"

section \<open>NetParser\<close>

record NetParser =
  np_buffer :: Buffer
  np_error :: ParseResult

definition NetParser_new :: "Buffer \<Rightarrow> NetParser" where
  "NetParser_new b = \<lparr>np_buffer = b, np_error = NoError\<rparr>"

definition NetParser_set_error :: "NetParser \<Rightarrow> ParseResult \<Rightarrow> NetParser" where
  "NetParser_set_error p res = p\<lparr>np_error := res\<rparr>"

definition NetParser_error :: "NetParser \<Rightarrow> bool" where
  "NetParser_error p \<longleftrightarrow> np_error p \<noteq> NoError"

definition NetParser_check_size :: "NetParser \<Rightarrow> u64 \<Rightarrow> NetParser" where
  "NetParser_check_size p n =
     (if n > Buffer_size (np_buffer p) then NetParser_set_error p PacketTooShort else p)"

text \<open>The loop of \<^verbatim>\<open>_parse_int\<close>, with \<open>n\<close> rounds to go at index \<open>i\<close>.\<close>

fun parse_int_loop :: "Buffer \<Rightarrow> nat \<Rightarrow> u64 \<Rightarrow> 'a::len word \<Rightarrow> 'a word result" where
  "parse_int_loop b 0 i ret = Inr ret"
| "parse_int_loop b (Suc n) i ret =
     bindE (Buffer_at b i) (\<lambda>x. parse_int_loop b n (i + 1) (push_bit 8 ret + ucast x))"

definition NetParser_parse_int :: "NetParser \<Rightarrow> ('a::len word \<times> NetParser) result" where
  "NetParser_parse_int p =
     (let len = LENGTH('a) div 8; p = NetParser_check_size p (of_nat len) in
      if NetParser_error p then Inr (0, p)
      else bindE (parse_int_loop (np_buffer p) len 0 0) (\<lambda>ret.
             bindE (Buffer_remove_prefix (np_buffer p) (of_nat len)) (\<lambda>b.
               Inr (ret, p\<lparr>np_buffer := b\<rparr>))))"

definition NetParser_u32 :: "NetParser \<Rightarrow> (u32 \<times> NetParser) result" where
  "NetParser_u32 = NetParser_parse_int"

definition NetParser_u16 :: "NetParser \<Rightarrow> (u16 \<times> NetParser) result" where
  "NetParser_u16 = NetParser_parse_int"

definition NetParser_u8 :: "NetParser \<Rightarrow> (u8 \<times> NetParser) result" where
  "NetParser_u8 = NetParser_parse_int"

definition NetParser_remove_prefix :: "NetParser \<Rightarrow> u64 \<Rightarrow> NetParser result" where
  "NetParser_remove_prefix p n =
     (let p = NetParser_check_size p n in
      if NetParser_error p then Inr p
      else bindE (Buffer_remove_prefix (np_buffer p) n) (\<lambda>b. Inr (p\<lparr>np_buffer := b\<rparr>)))"

section \<open>NetUnparser\<close>

definition NetUnparser_unparse_int :: "bytes \<Rightarrow> 'a::len word \<Rightarrow> bytes" where
  "NetUnparser_unparse_int s val =
     (let len = LENGTH('a) div 8 in
      s @ map (\<lambda>i. ucast (drop_bit ((len - i - 1) * 8) val AND 0xff)) [0..<len])"

definition NetUnparser_u32 :: "bytes \<Rightarrow> u32 \<Rightarrow> bytes" where
  "NetUnparser_u32 = NetUnparser_unparse_int"

definition NetUnparser_u16 :: "bytes \<Rightarrow> u16 \<Rightarrow> bytes" where
  "NetUnparser_u16 = NetUnparser_unparse_int"

definition NetUnparser_u8 :: "bytes \<Rightarrow> u8 \<Rightarrow> bytes" where
  "NetUnparser_u8 = NetUnparser_unparse_int"

section \<open>Big-endian numbers\<close>

definition be_nat :: "bytes \<Rightarrow> nat" where
  "be_nat bs = foldl (\<lambda>a b. 256 * a + unat b) 0 bs"

definition be_bytes :: "nat \<Rightarrow> nat \<Rightarrow> bytes" where
  "be_bytes n x = map (\<lambda>i. of_nat (x div 256 ^ (n - i - 1))) [0..<n]"

lemma be_bytes_Suc: "be_bytes (Suc n) x = be_bytes n (x div 256) @ [of_nat x]"
  by (auto simp: be_bytes_def div_mult2_eq [symmetric] Suc_diff_Suc simp flip: power_Suc
      intro!: arg_cong [where f = of_nat])

lemma length_be_bytes [simp]: "length (be_bytes n x) = n"
  by (simp add: be_bytes_def)

lemma unat_of_nat_u8: "unat (of_nat x :: u8) = x mod 256"
  by (simp add: unat_of_nat)

lemma be_nat_be_bytes: "be_nat (be_bytes n x) = x mod 256 ^ n"
proof (induction n arbitrary: x)
  case 0
  then show ?case by (simp add: be_nat_def be_bytes_def)
next
  case (Suc n)
  have "be_nat (be_bytes (Suc n) x) = 256 * be_nat (be_bytes n (x div 256)) + x mod 256"
    by (simp add: be_bytes_Suc be_nat_def unat_of_nat_u8)
  also have "\<dots> = x mod 256 ^ Suc n"
    by (simp add: Suc mod_mult2_eq)
  finally show ?case .
qed

lemma foldl_be_word:
  "foldl (\<lambda>ret b. push_bit 8 ret + ucast (b :: u8)) (of_nat a) bs
   = (of_nat (foldl (\<lambda>a b. 256 * a + unat b) a bs) :: 'a::len word)"
proof (induction bs arbitrary: a)
  case Nil
  then show ?case by simp
next
  case (Cons b bs)
  have "push_bit 8 (of_nat a) + ucast b = (of_nat (256 * a + unat b) :: 'a word)"
    by (simp add: push_bit_eq_mult)
  then show ?case using Cons [of "256 * a + unat b"] by simp
qed

lemma unparse_int_be: "8 dvd LENGTH('a) \<Longrightarrow>
  NetUnparser_unparse_int s (v :: 'a::len word) = s @ be_bytes (LENGTH('a) div 8) (unat v)"
proof -
  have low: "ucast (x AND 0xff) = (ucast x :: u8)" for x :: "'a word"
  proof (rule bit_word_eqI)
    fix n assume "n < LENGTH(8)"
    moreover have "bit (0xff :: 'a word) n \<longleftrightarrow> n < 8 \<and> n < LENGTH('a)"
      using bit_mask_iff [of 8 n, where 'a = "'a word"] by (simp add: mask_eq_exp_minus_1 possible_bit_word conj_commute)
    ultimately show "bit (ucast (x AND 0xff) :: u8) n = bit (ucast x :: u8) n"
      by (auto simp: bit_simps dest: bit_imp_le_length)
  qed
  have drop: "ucast (drop_bit (k * 8) v) = (of_nat (unat v div 256 ^ k) :: u8)" for k
  proof -
    have "ucast (drop_bit (k * 8) v) = (of_nat (unat (drop_bit (k * 8) v)) :: u8)"
      by simp
    also have "unat (drop_bit (k * 8) v) = unat v div 256 ^ k"
      unfolding unat_drop_bit_eq by (simp add: drop_bit_eq_div power_mult mult.commute [of k])
    finally show ?thesis .
  qed
  show ?thesis
    by (simp add: NetUnparser_unparse_int_def be_bytes_def Let_def low drop)
qed


section \<open>Behaviour of the parser\<close>

text \<open>The bytes that are left, a parser without error, and the parser after \<open>n\<close> bytes are taken.\<close>

definition left :: "NetParser \<Rightarrow> bytes" where
  "left p = Buffer_str (np_buffer p)"

definition parser_wf :: "NetParser \<Rightarrow> bool" where
  "parser_wf p \<longleftrightarrow> Buffer_wf (np_buffer p)"

definition parser_ok :: "NetParser \<Rightarrow> bool" where
  "parser_ok p \<longleftrightarrow> parser_wf p \<and> np_error p = NoError"

definition skip :: "NetParser \<Rightarrow> nat \<Rightarrow> NetParser" where
  "skip p n = (case Buffer_remove_prefix (np_buffer p) (of_nat n) of
                 Inr b \<Rightarrow> p\<lparr>np_buffer := b\<rparr> | Inl _ \<Rightarrow> p)"

lemma length_left: "parser_wf p \<Longrightarrow> length (left p) < two64"
  by (simp add: parser_wf_def left_def Buffer_str_bound)

lemma parser_new [simp]:
  "left (NetParser_new b) = Buffer_str b"
  "parser_wf (NetParser_new b) = Buffer_wf b"
  "parser_ok (NetParser_new b) = Buffer_wf b"
  "np_error (NetParser_new b) = NoError"
  by (simp_all add: left_def parser_wf_def parser_ok_def NetParser_new_def)

lemma skip_ok:
  assumes "parser_wf p" and "n \<le> length (left p)"
  shows "Buffer_remove_prefix (np_buffer p) (of_nat n) = Inr (np_buffer (skip p n))"
    and "parser_wf (skip p n)" and "left (skip p n) = drop n (left p)"
proof -
  have n: "unat (of_nat n :: u64) = n"
    using assms length_left [of p] by (intro unat_of_nat64) linarith
  with assms Buffer_remove_prefix_ok [of "np_buffer p" "of_nat n"] obtain b where
    "Buffer_remove_prefix (np_buffer p) (of_nat n) = Inr b" "Buffer_wf b"
    "Buffer_str b = drop n (left p)"
    by (auto simp: parser_wf_def left_def)
  then show "Buffer_remove_prefix (np_buffer p) (of_nat n) = Inr (np_buffer (skip p n))"
    "parser_wf (skip p n)" "left (skip p n) = drop n (left p)"
    by (simp_all add: skip_def parser_wf_def left_def)
qed

lemma np_error_skip [simp]: "np_error (skip p n) = np_error p"
  by (simp add: skip_def split: sum.split)

text \<open>Taking bytes in two steps is taking them at once.\<close>

definition drop_front :: "nat \<Rightarrow> Buffer \<Rightarrow> Buffer" where
  "drop_front n b = \<lparr>bf_storage = (case bf_storage b of None \<Rightarrow> None
       | Some s \<Rightarrow> if bf_starting_offset b + of_nat n = size64 s then None else Some s),
     bf_starting_offset = bf_starting_offset b + of_nat n\<rparr>"

lemma skip_drop_front:
  assumes "parser_wf p" and "n \<le> length (left p)"
  shows "skip p n = p\<lparr>np_buffer := drop_front n (np_buffer p)\<rparr>"
proof -
  have "Buffer_remove_prefix (np_buffer p) (of_nat n) \<noteq> Inl (Out_of_range ''Buffer::remove_prefix'')"
    using skip_ok(1) [OF assms] by simp
  then have "Buffer_remove_prefix (np_buffer p) (of_nat n) = Inr (drop_front n (np_buffer p))"
    by (auto simp: Buffer_remove_prefix_def drop_front_def Let_def split: if_splits option.splits)
  then show ?thesis by (simp add: skip_def)
qed

lemma skip_skip:
  assumes "parser_wf p" and "a + b \<le> length (left p)"
  shows "skip (skip p a) b = skip p (a + b)"
proof -
  have a: "a \<le> length (left p)" using assms(2) by simp
  note sk = skip_ok(2,3) [OF assms(1) a]
  have b: "b \<le> length (left (skip p a))" using assms(2) sk by simp
  have "bf_storage (np_buffer p) = Some s \<Longrightarrow> bf_starting_offset (np_buffer p) + of_nat a = size64 s \<Longrightarrow> b = 0" for s
    using b skip_drop_front [OF assms(1) a]
    by (simp add: left_def Buffer_str_def drop_front_def)
  then have "drop_front b (drop_front a (np_buffer p)) = drop_front (a + b) (np_buffer p)"
    by (auto simp: drop_front_def add.assoc split: option.splits)
  then show ?thesis
    using skip_drop_front [OF sk(1) b] skip_drop_front [OF assms(1) a] skip_drop_front [OF assms]
    by simp
qed

lemma skip_parser_ok: "parser_ok p \<Longrightarrow> n \<le> length (left p) \<Longrightarrow> parser_ok (skip p n)"
  by (simp add: parser_ok_def skip_ok)

lemma skip_update: "parser_wf p \<Longrightarrow> n \<le> length (left p) \<Longrightarrow>
    p\<lparr>np_buffer := np_buffer (skip p n)\<rparr> = skip p n"
  using skip_ok(1) [of p n] by (cases "Buffer_remove_prefix (np_buffer p) (of_nat n)") (simp_all add: skip_def)

lemma check_size_ok: "parser_wf p \<Longrightarrow> n < two64 \<Longrightarrow>
    NetParser_check_size p (of_nat n) =
      (if length (left p) < n then p\<lparr>np_error := PacketTooShort\<rparr> else p)"
  by (auto simp: NetParser_check_size_def NetParser_set_error_def word_nat unat_of_nat64
      unat_Buffer_size parser_wf_def left_def)

lemma parse_int_loop_ok:
  "Buffer_wf b \<Longrightarrow> unat i + n \<le> length (Buffer_str b) \<Longrightarrow>
   parse_int_loop b n i ret
     = Inr (foldl (\<lambda>ret b. push_bit 8 ret + ucast b) ret (take n (drop (unat i) (Buffer_str b))))"
proof (induction n arbitrary: i ret)
  case 0
  then show ?case by simp
next
  case (Suc n)
  then have "unat i + 1 < two64"
    using Buffer_str_bound [of b] by linarith
  then have i: "unat (i + 1) = Suc (unat i)"
    using unat_add64 [of i 1] by simp
  have "drop (unat i) (Buffer_str b) = Buffer_str b ! unat i # drop (Suc (unat i)) (Buffer_str b)"
    using Suc.prems by (intro Cons_nth_drop_Suc [symmetric]) simp
  then show ?case
    using Suc.prems Suc.IH [of "i + 1"] by (simp add: Buffer_at_ok i)
qed

lemma parse_int_ok:
  fixes p :: NetParser
  assumes "parser_ok p" and "LENGTH('a::len) div 8 \<le> length (left p)"
  shows "NetParser_parse_int p = Inr (of_nat (be_nat (take (LENGTH('a) div 8) (left p))) :: 'a word,
           skip p (LENGTH('a) div 8))"
proof -
  let ?n = "LENGTH('a) div 8"
  have wf: "parser_wf p" and b: "Buffer_wf (np_buffer p)" and e: "\<not> NetParser_error p"
    using assms by (simp_all add: parser_ok_def parser_wf_def NetParser_error_def)
  then have "?n < two64"
    using length_left [OF wf] assms(2) by linarith
  then have c: "NetParser_check_size p (of_nat ?n) = p"
    using assms(2) wf by (simp add: check_size_ok)
  have l: "parse_int_loop (np_buffer p) ?n 0 0 = Inr (of_nat (be_nat (take ?n (left p))) :: 'a word)"
    using assms(2) b foldl_be_word [of 0 "take ?n (left p)", where 'a = 'a]
    by (simp add: parse_int_loop_ok left_def be_nat_def)
  show ?thesis
    using c e l skip_ok(1) [OF wf assms(2)] skip_update [OF wf assms(2)]
    by (simp add: NetParser_parse_int_def Let_def)
qed

lemma parse_int_fail:
  fixes p :: NetParser
  assumes "parser_wf p" and "LENGTH('a::len) div 8 < two64"
    and "np_error p \<noteq> NoError \<or> length (left p) < LENGTH('a) div 8"
  shows "NetParser_parse_int p = Inr (0 :: 'a word, p\<lparr>np_error :=
           if length (left p) < LENGTH('a) div 8 then PacketTooShort else np_error p\<rparr>)"
  using assms by (auto simp: NetParser_parse_int_def Let_def check_size_ok NetParser_error_def)

lemma remove_prefix_ok:
  assumes "parser_ok p" and "unat n \<le> length (left p)"
  shows "NetParser_remove_prefix p n = Inr (skip p (unat n))"
  using assms check_size_ok [of p "unat n"] skip_ok(1) [of p "unat n"] skip_update [of p "unat n"]
  by (simp add: NetParser_remove_prefix_def parser_ok_def NetParser_error_def)

lemma remove_prefix_fail:
  assumes "parser_wf p" and "np_error p \<noteq> NoError \<or> length (left p) < unat n"
  shows "NetParser_remove_prefix p n = Inr (p\<lparr>np_error :=
           if length (left p) < unat n then PacketTooShort else np_error p\<rparr>)"
  using assms check_size_ok [of p "unat n"]
  by (auto simp: NetParser_remove_prefix_def NetParser_error_def Let_def)

section \<open>The contract of a codec\<close>

locale codec =
  fixes width :: nat
    and enc :: "bytes \<Rightarrow> 'v \<Rightarrow> bytes"
    and dec :: "NetParser \<Rightarrow> ('v \<times> NetParser) result"
    and of_bytes :: "bytes \<Rightarrow> 'v"
    and dflt :: 'v
  assumes enc_append: "enc s v = s @ enc [] v"
    and enc_length: "length (enc [] v) = width"
    and of_bytes_enc: "of_bytes (enc [] v) = v"
    and dec_ok: "parser_ok p \<Longrightarrow> width \<le> length (left p) \<Longrightarrow>
        dec p = Inr (of_bytes (take width (left p)), skip p width)"
    and dec_fail: "parser_wf p \<Longrightarrow> np_error p \<noteq> NoError \<or> length (left p) < width \<Longrightarrow>
        dec p = Inr (dflt, p\<lparr>np_error := if length (left p) < width then PacketTooShort else np_error p\<rparr>)"
begin

lemma roundtrip:
  assumes "parser_ok p" and "left p = enc [] v @ r"
  shows "dec p = Inr (v, skip p width) \<and> parser_ok (skip p width) \<and> left (skip p width) = r"
proof -
  have "width \<le> length (left p)" "take width (left p) = enc [] v" "drop width (left p) = r"
    using assms(2) enc_length [of v] by simp_all
  with assms(1) show ?thesis
    by (simp add: dec_ok of_bytes_enc skip_parser_ok) (simp add: parser_ok_def skip_ok(3))
qed

text \<open>A decoder never raises, keeps the parser well formed and never clears an error.\<close>

lemma dec_total:
  assumes "parser_wf p"
  obtains v p' where "dec p = Inr (v, p')" "parser_wf p'"
    "np_error p \<noteq> NoError \<or> length (left p) < width \<Longrightarrow> np_error p' \<noteq> NoError \<and> np_buffer p' = np_buffer p"
proof (cases "np_error p \<noteq> NoError \<or> length (left p) < width")
  case True
  with dec_fail [OF assms True] assms show ?thesis
    by (intro that [of dflt "p\<lparr>np_error := if length (left p) < width then PacketTooShort else np_error p\<rparr>"])
      (auto simp: parser_wf_def)
next
  case False
  with assms dec_ok [of p] show ?thesis
    by (intro that [of _ "skip p width"]) (auto simp: parser_ok_def skip_ok not_less)
qed

end

lemma unparse_parse:
  fixes v :: "'a::len word"
  assumes "8 dvd LENGTH('a)"
  shows "of_nat (be_nat (NetUnparser_unparse_int [] v)) = v"
proof -
  have "256 ^ (LENGTH('a) div 8) = (2 ^ LENGTH('a) :: nat)"
    using assms power_mult [of "2 :: nat" 8 "LENGTH('a) div 8"] by simp
  then have "unat v mod 256 ^ (LENGTH('a) div 8) = unat v"
    by simp
  then show ?thesis
    using assms by (simp add: unparse_int_be be_nat_be_bytes)
qed

lemma unparse_int_length: "8 dvd LENGTH('a) \<Longrightarrow>
    length (NetUnparser_unparse_int s (v :: 'a::len word)) = length s + LENGTH('a) div 8"
  by (simp add: unparse_int_be)

lemma unparse_int_append: "8 dvd LENGTH('a) \<Longrightarrow>
    NetUnparser_unparse_int s (v :: 'a::len word) = s @ NetUnparser_unparse_int [] v"
  by (simp add: unparse_int_be)

lemmas codec_intro = unparse_int_append unparse_int_length [THEN trans] unparse_parse
  parse_int_ok [THEN trans] parse_int_fail [THEN trans]

interpretation u8: codec 1 NetUnparser_u8 NetParser_u8 "\<lambda>bs. of_nat (be_nat bs)" 0
  unfolding NetUnparser_u8_def NetParser_u8_def
  by unfold_locales (rule codec_intro; simp add: two64_def)+

interpretation u16: codec 2 NetUnparser_u16 NetParser_u16 "\<lambda>bs. of_nat (be_nat bs)" 0
  unfolding NetUnparser_u16_def NetParser_u16_def
  by unfold_locales (rule codec_intro; simp add: two64_def)+

interpretation u32: codec 4 NetUnparser_u32 NetParser_u32 "\<lambda>bs. of_nat (be_nat bs)" 0
  unfolding NetUnparser_u32_def NetParser_u32_def
  by unfold_locales (rule codec_intro; simp add: two64_def)+

section \<open>Fields at an offset\<close>

text \<open>The number that \<open>n\<close> bytes at offset \<open>k\<close> stand for, and decoding it after \<open>k\<close> bytes were taken.\<close>

definition field :: "nat \<Rightarrow> nat \<Rightarrow> bytes \<Rightarrow> 'a::len word" where
  "field n k xs = of_nat (be_nat (take n (drop k xs)))"

lemma skip_parser_ok': "parser_ok p \<Longrightarrow> k + n \<le> length (left p) \<Longrightarrow>
    parser_ok (skip p k) \<and> n \<le> length (left (skip p k)) \<and> left (skip p k) = drop k (left p)
    \<and> skip (skip p k) n = skip p (k + n)"
  by (simp add: skip_parser_ok skip_skip) (simp add: parser_ok_def skip_ok skip_skip)

lemma dec_at:
  assumes "parser_ok p"
  shows "k + 1 \<le> length (left p) \<Longrightarrow> NetParser_u8 (skip p k) = Inr (field 1 k (left p), skip p (k + 1))"
    and "k + 2 \<le> length (left p) \<Longrightarrow> NetParser_u16 (skip p k) = Inr (field 2 k (left p), skip p (k + 2))"
    and "k + 4 \<le> length (left p) \<Longrightarrow> NetParser_u32 (skip p k) = Inr (field 4 k (left p), skip p (k + 4))"
  using skip_parser_ok' [OF assms, of k 1] skip_parser_ok' [OF assms, of k 2]
    skip_parser_ok' [OF assms, of k 4]
  by (simp_all add: u8.dec_ok u16.dec_ok u32.dec_ok field_def)

lemma dec_first:
  assumes "parser_ok p"
  shows "1 \<le> length (left p) \<Longrightarrow> NetParser_u8 p = Inr (field 1 0 (left p), skip p 1)"
    and "2 \<le> length (left p) \<Longrightarrow> NetParser_u16 p = Inr (field 2 0 (left p), skip p 2)"
  using assms u8.dec_ok [of p] u16.dec_ok [of p] by (simp_all add: field_def)

text \<open>A field that was written is read back.\<close>

lemma field_skip: "length s \<le> k \<Longrightarrow> field n k (s @ r) = field n (k - length s) r"
  by (simp add: field_def)

lemma field_enc [simp]:
  "field (Suc 0) 0 (NetUnparser_u8 [] a @ r) = a"
  "field 2 0 (NetUnparser_u16 [] b @ r) = b"
  "field 4 0 (NetUnparser_u32 [] c @ r) = c"
  using u8.of_bytes_enc [of a] u16.of_bytes_enc [of b] u32.of_bytes_enc [of c]
  by (simp_all add: field_def u8.enc_length u16.enc_length u32.enc_length)

lemmas enc_length [simp] = u8.enc_length u16.enc_length u32.enc_length

lemma enc_chain: 
  "NetUnparser_u8 (b # s) x = (b # s) @ NetUnparser_u8 [] x"
  "NetUnparser_u16 (b # s) y = (b # s) @ NetUnparser_u16 [] y"
  "NetUnparser_u32 (b # s) z = (b # s) @ NetUnparser_u32 [] z"
  "NetUnparser_u8 (t @ s) x = (t @ s) @ NetUnparser_u8 [] x"
  "NetUnparser_u16 (t @ s) y = (t @ s) @ NetUnparser_u16 [] y"
  "NetUnparser_u32 (t @ s) z = (t @ s) @ NetUnparser_u32 [] z"
  by (rule u8.enc_append u16.enc_append u32.enc_append)+

end
