(* ===== verification/Checksum.thy ===== *)
theory Checksum
  imports Net_Parser
begin

text \<open>
  \<^verbatim>\<open>InternetChecksum\<close> of \<^verbatim>\<open>libsponge/util/util.hh\<close> and \<^verbatim>\<open>util.cc\<close>: a 32-bit sum of the 16-bit words of
  the data, byte by byte, folded to the complement of its ones'-complement sum.  The 32-bit sum is
  exact for less than 65536 bytes, so for every datagram; the lemmas say what \<^verbatim>\<open>value()\<close> computes
  then, and that inserting the computed value at an even offset makes the data check to zero.
\<close>

section \<open>The class\<close>

record InternetChecksum =
  ck_sum :: u32
  ck_parity :: bool

definition InternetChecksum_new :: "u32 \<Rightarrow> InternetChecksum" where
  "InternetChecksum_new initial_sum = \<lparr>ck_sum = initial_sum, ck_parity = False\<rparr>"

fun InternetChecksum_add :: "InternetChecksum \<Rightarrow> bytes \<Rightarrow> InternetChecksum" where
  "InternetChecksum_add c [] = c"
| "InternetChecksum_add c (b # data) =
     (let val = (ucast b :: u16); val = (if \<not> ck_parity c then push_bit 8 val else val) in
      InternetChecksum_add \<lparr>ck_sum = ck_sum c + ucast val, ck_parity = \<not> ck_parity c\<rparr> data)"

lemma unat_fold_step: "unat (drop_bit 16 ret + (ret AND 0xffff)) = unat ret div 65536 + unat (ret :: u32) mod 65536"
proof -
  have "ret AND 0xffff = take_bit 16 ret"
    by (simp add: take_bit_eq_mask mask_eq_exp_minus_1)
  then have low: "unat (ret AND 0xffff) = unat ret mod 65536"
    by (simp only: unsigned_take_bit_eq) (simp add: take_bit_eq_mod)
  have high: "unat (drop_bit 16 ret) = unat ret div 65536"
    unfolding unat_drop_bit_eq by (simp add: drop_bit_eq_div)
  have "unat ret < 2 ^ 32"
    using unsigned_less [of ret, where 'a = nat] by simp
  then have "unat ret div 65536 < 65536"
    by (simp add: less_mult_imp_div_less)
  then have "unat ret div 65536 + unat ret mod 65536 < 2 ^ 32"
    using mod_less_divisor [of 65536 "unat ret"] by simp
  then show ?thesis
    by (simp add: unat_word_ariths low high)
qed

lemma fold_decreases: "0xffff < ret \<Longrightarrow> unat (drop_bit 16 ret + (ret AND 0xffff)) < unat (ret :: u32)"
proof -
  assume "0xffff < ret"
  then have "65535 < unat ret" by (simp add: word_less_nat_alt)
  moreover have "unat ret = 65536 * (unat ret div 65536) + unat ret mod 65536" by simp
  ultimately have "unat ret div 65536 + unat ret mod 65536 < unat ret"
    using mod_less_divisor [of 65536 "unat ret"] by linarith
  then show ?thesis by (simp only: unat_fold_step)
qed

function fold_carries :: "u32 \<Rightarrow> u32" where
  "fold_carries ret = (if ret > 0xffff then fold_carries (drop_bit 16 ret + (ret AND 0xffff)) else ret)"
  by auto
termination by (relation "measure unat") (auto dest: fold_decreases)

declare fold_carries.simps [simp del]

definition InternetChecksum_value :: "InternetChecksum \<Rightarrow> u16" where
  "InternetChecksum_value c = ucast (NOT (fold_carries (ck_sum c)))"

section \<open>The sum\<close>

text \<open>The sum as a natural number; the flag says that the next byte is the low half of a word.\<close>

fun sum16 :: "bool \<Rightarrow> bytes \<Rightarrow> nat" where
  "sum16 low [] = 0"
| "sum16 low (b # bs) = (if low then unat b else 256 * unat b) + sum16 (\<not> low) bs"

lemma sum16_append: "sum16 low (xs @ ys) = sum16 low xs + sum16 (low \<noteq> odd (length xs)) ys"
proof (induction xs arbitrary: low)
  case (Cons x xs)
  show ?case by (cases low; cases "odd (length xs)") (simp_all add: Cons)
qed simp

lemma sum16_le: "sum16 low bs \<le> 65280 * length bs"
proof (induction bs arbitrary: low)
  case Nil
  then show ?case by simp
next
  case (Cons b bs)
  have "unat b < 256"
    using unsigned_less [of b, where 'a = nat] by simp
  then show ?case using Cons [of True] Cons [of False] by auto
qed

lemma InternetChecksum_add_parity: "ck_parity (InternetChecksum_add c bs) = (ck_parity c \<noteq> odd (length bs))"
  by (induction c bs rule: InternetChecksum_add.induct) (auto simp: Let_def)

lemma InternetChecksum_add_append:
  "InternetChecksum_add c (xs @ ys) = InternetChecksum_add (InternetChecksum_add c xs) ys"
  by (induction c xs rule: InternetChecksum_add.induct) (auto simp: Let_def)

lemma InternetChecksum_add_sum:
  "ck_sum (InternetChecksum_add c bs) = ck_sum c + of_nat (sum16 (ck_parity c) bs)"
proof (induction c bs rule: InternetChecksum_add.induct)
  case (1 c)
  then show ?case by simp
next
  case (2 c b bs)
  have b: "unat b < 256"
    using unsigned_less [of b, where 'a = nat] by simp
  have "unat (push_bit 8 (ucast b :: u16)) = 256 * unat b"
    using b by (simp add: push_bit_eq_mult unat_word_ariths unsigned_ucast_eq take_bit_nat_eq_self)
  moreover have "unat (ucast b :: u16) = unat b"
    using b by (simp add: unsigned_ucast_eq take_bit_nat_eq_self)
  moreover have "ucast x = (of_nat (unat x) :: u32)" for x :: u16
    by simp
  ultimately have "ucast (if \<not> ck_parity c then push_bit 8 (ucast b) else (ucast b :: u16))
      = (of_nat (if ck_parity c then unat b else 256 * unat b) :: u32)"
    by presburger
  then show ?case using 2 [OF refl refl] by (simp add: Let_def)
qed

text \<open>As a number, the sum is exact when the initial sum is small and the data shorter than \<^verbatim>\<open>2^16\<close>.\<close>

lemma unat_ck_sum:
  assumes "unat init + sum16 False bs < 2 ^ 32"
  shows "unat (ck_sum (InternetChecksum_add (InternetChecksum_new init) bs)) = unat init + sum16 False bs"
  using assms by (simp add: InternetChecksum_add_sum InternetChecksum_new_def unat_word_ariths unat_of_nat)

section \<open>The value\<close>

lemma fold_carries_mod:
  "unat (fold_carries r) < 65536 \<and> unat (fold_carries r) mod 65535 = unat r mod 65535
   \<and> (fold_carries r = 0 \<longleftrightarrow> r = 0)"
proof (induction r rule: fold_carries.induct)
  case (1 r)
  show ?case
  proof (cases "0xffff < r")
    case True
    let ?s = "drop_bit 16 r + (r AND 0xffff)"
    have f: "fold_carries r = fold_carries ?s"
      using True by (subst fold_carries.simps) simp
    have "unat r = 65535 * (unat r div 65536) + (unat r div 65536 + unat r mod 65536)"
      by simp
    then have "unat ?s mod 65535 = unat r mod 65535"
      unfolding unat_fold_step by (metis mod_mult_self4)
    moreover have "?s \<noteq> 0" "r \<noteq> 0"
    proof -
      from True have "65535 < unat r" by (simp add: word_less_nat_alt)
      then have "unat r div 65536 \<noteq> 0" "unat r \<noteq> 0" by auto
      then have "unat ?s \<noteq> 0" unfolding unat_fold_step by simp
      then show "?s \<noteq> 0" by (metis unsigned_0)
      show "r \<noteq> 0" using \<open>unat r \<noteq> 0\<close> by auto
    qed
    ultimately show ?thesis using 1 [OF True] f by simp
  next
    case False
    then have "fold_carries r = r" by (subst fold_carries.simps) simp
    then show ?thesis using False by (simp add: word_less_nat_alt not_less)
  qed
qed

lemma unat_not_u16: "unat (NOT y :: u16) = 65535 - unat y"
proof -
  have "NOT y = - 1 - y" by (simp add: not_eq_complement)
  moreover have "y \<le> - 1" by simp
  ultimately show ?thesis
    by (simp add: unat_sub) (simp add: unsigned_minus_1_eq_mask mask_eq_exp_minus_1)
qed

lemma unat_value: "unat (InternetChecksum_value c) = 65535 - unat (fold_carries (ck_sum c))"
proof -
  have "ucast (NOT x) = (NOT (ucast x) :: u16)" for x :: u32
    by (rule bit_word_eqI) (simp add: bit_simps)
  moreover have "unat (ucast (fold_carries (ck_sum c)) :: u16) = unat (fold_carries (ck_sum c))"
    using fold_carries_mod [of "ck_sum c"] by (simp add: unsigned_ucast_eq take_bit_nat_eq_self)
  ultimately show ?thesis
    by (simp add: InternetChecksum_value_def unat_not_u16)
qed

text \<open>Data checks to zero exactly when its sum is a positive multiple of 65535.\<close>

lemma value_zero_iff: "InternetChecksum_value c = 0 \<longleftrightarrow> ck_sum c \<noteq> 0 \<and> unat (ck_sum c) mod 65535 = 0"
proof -
  let ?f = "unat (fold_carries (ck_sum c))"
  note f = fold_carries_mod [of "ck_sum c"]
  have "InternetChecksum_value c = 0 \<longleftrightarrow> ?f = 65535"
    using unat_value [of c] f by (auto simp: word_unat_eq_iff)
  also have "\<dots> \<longleftrightarrow> ?f \<noteq> 0 \<and> ?f mod 65535 = 0"
    using f by (auto simp: mod_eq_0_iff_dvd elim!: dvdE)
  finally show ?thesis
    using f by (simp add: unat_eq_0)
qed

text \<open>Adding the computed value to the sum makes it a positive multiple of 65535.\<close>

lemma value_completes: "(n + unat (InternetChecksum_value c)) mod 65535 = 0 \<and> 0 < n + unat (InternetChecksum_value c)"
  if "unat (ck_sum c) = n"
proof -
  let ?f = "unat (fold_carries (ck_sum c))"
  note f = fold_carries_mod [of "ck_sum c"]
  have "(n + (65535 - ?f)) mod 65535 = (?f + (65535 - ?f)) mod 65535"
    using f that by (metis mod_add_left_eq)
  also have "\<dots> = 0" using f by simp
  finally have "(n + (65535 - ?f)) mod 65535 = 0" .
  moreover have "0 < n + (65535 - ?f)"
    using f that by (cases "n = 0") (auto simp: unat_eq_0)
  ultimately show ?thesis by (simp add: unat_value)
qed

text \<open>
  The verdict on data whose sum is exact.  \<open>checks_out init bs\<close> is the arithmetic meaning of
  \<^verbatim>\<open>value() == 0\<close>.
\<close>

definition checks_out :: "u32 \<Rightarrow> bytes \<Rightarrow> bool" where
  "checks_out init bs \<longleftrightarrow> 0 < unat init + sum16 False bs \<and> (unat init + sum16 False bs) mod 65535 = 0"

lemma value_zero_checks_out:
  assumes "unat init + sum16 False bs < 2 ^ 32"
  shows "InternetChecksum_value (InternetChecksum_add (InternetChecksum_new init) bs) = 0
         \<longleftrightarrow> checks_out init bs"
proof -
  let ?c = "InternetChecksum_add (InternetChecksum_new init) bs"
  have "ck_sum ?c \<noteq> 0 \<longleftrightarrow> 0 < unat init + sum16 False bs"
    using unat_ck_sum [OF assms] unat_eq_0 [of "ck_sum ?c"] by auto
  then show ?thesis
    using unat_ck_sum [OF assms] unfolding value_zero_iff checks_out_def by simp
qed

lemma sum16_bound:
  assumes "length bs \<le> 65535" and "unat (init :: u32) < 2 ^ 23"
  shows "unat init + sum16 False bs < 2 ^ 32"
  using sum16_le [of False bs] assms by simp

lemma sum16_u16: "sum16 False (NetUnparser_u16 [] c) = unat c"
proof -
  have "unat c < 65536"
    using unsigned_less [of c, where 'a = nat] by simp
  then have "unat c div 256 mod 256 = unat c div 256"
    by (simp add: less_mult_imp_div_less)
  moreover have "NetUnparser_u16 [] c = [of_nat (unat c div 256), of_nat (unat c)]"
    by (simp add: NetUnparser_u16_def unparse_int_be be_bytes_def upt_rec)
  ultimately show ?thesis
    by (simp only: sum16.simps unat_of_nat_u8) simp
qed

text \<open>Changing one byte changes the sum by less than 65535, so the change is noticed.\<close>

lemma sum16_update:
  "i < length bs \<Longrightarrow> \<exists>w. (w = 1 \<or> w = 256) \<and>
     sum16 low (bs[i := b]) + w * unat (bs ! i) = sum16 low bs + w * unat b"
proof (induction bs arbitrary: i low)
  case Nil
  then show ?case by simp
next
  case (Cons x bs)
  show ?case
  proof (cases i)
    case 0
    then show ?thesis by (intro exI [of _ "if low then 1 else 256"]) simp
  next
    case (Suc j)
    with Cons.IH [of j "\<not> low"] Cons.prems obtain w where "w = 1 \<or> w = 256"
      "sum16 (\<not> low) (bs[j := b]) + w * unat (bs ! j) = sum16 (\<not> low) bs + w * unat b" by auto
    with Suc show ?thesis by (intro exI [of _ w]) simp
  qed
qed

lemma checks_out_update:
  assumes "checks_out init bs" and "i < length bs" and "b \<noteq> bs ! i"
  shows "\<not> checks_out init (bs[i := b])"
proof
  assume "checks_out init (bs[i := b])"
  with assms(1) have mod: "(unat init + sum16 False (bs[i := b])) mod 65535 = (unat init + sum16 False bs) mod 65535"
    by (simp add: checks_out_def)
  obtain w where w: "w = 1 \<or> w = 256"
    and eq: "sum16 False (bs[i := b]) + w * unat (bs ! i) = sum16 False bs + w * unat b"
    using sum16_update [OF assms(2)] by blast
  let ?x = "int (unat b)" and ?y = "int (unat (bs ! i))"
  have "int 65535 dvd int (unat init + sum16 False (bs[i := b])) - int (unat init + sum16 False bs)"
    using mod by (metis mod_eq_dvd_iff zmod_int)
  moreover have "int (unat init + sum16 False (bs[i := b])) - int (unat init + sum16 False bs) = int w * (?x - ?y)"
    using arg_cong [OF eq, of int] by (simp add: algebra_simps)
  ultimately have dvd: "65535 dvd int w * (?x - ?y)" by simp
  have "unat b < 256" "unat (bs ! i) < 256"
    using unsigned_less [of b, where 'a = nat] unsigned_less [of "bs ! i", where 'a = nat] by simp_all
  then have "\<bar>?x - ?y\<bar> < 256" by linarith
  then have "\<bar>int w * (?x - ?y)\<bar> < 65535"
    using w by (auto simp: abs_mult)
  then have "int w * (?x - ?y) = 0"
    using dvd_imp_le_int [OF _ dvd] by linarith
  with w assms(3) show False by (auto simp: word_uint_eq_iff)
qed

end
