(* ===== verification/Wrapping_Integers.thy ===== *)
theory Wrapping_Integers
  imports Prelude
begin

text \<open>
  \<^verbatim>\<open>libsponge/wrapping_integers.hh\<close> and \<^verbatim>\<open>wrapping_integers.cc\<close>: 32-bit sequence numbers relative to an
  initial sequence number, and their translation from and to 64-bit absolute sequence numbers.
\<close>

section \<open>Definitions\<close>

record WrappingInt32 =
  raw_value :: u32

definition WrappingInt32_of :: "u32 \<Rightarrow> WrappingInt32" where
  "WrappingInt32_of v = \<lparr>raw_value = v\<rparr>"

definition WrappingInt32_minus :: "WrappingInt32 \<Rightarrow> WrappingInt32 \<Rightarrow> u32" where
  "WrappingInt32_minus a b = raw_value a - raw_value b"

definition WrappingInt32_plus :: "WrappingInt32 \<Rightarrow> u32 \<Rightarrow> WrappingInt32" where
  "WrappingInt32_plus a b = WrappingInt32_of (raw_value a + b)"

definition WrappingInt32_minus_u32 :: "WrappingInt32 \<Rightarrow> u32 \<Rightarrow> WrappingInt32" where
  "WrappingInt32_minus_u32 a b = WrappingInt32_plus a (- b)"

definition wrap :: "u64 \<Rightarrow> WrappingInt32 \<Rightarrow> WrappingInt32" where
  "wrap n isn = WrappingInt32_plus isn (ucast n)"

definition unwrap :: "WrappingInt32 \<Rightarrow> WrappingInt32 \<Rightarrow> u64 \<Rightarrow> u64" where
  "unwrap n isn checkpoint =
     (let checkpoint_mod = WrappingInt32_of (ucast checkpoint);
          index = WrappingInt32_of (WrappingInt32_minus n isn) in
      if index = checkpoint_mod then checkpoint
      else if WrappingInt32_minus checkpoint_mod index < WrappingInt32_minus index checkpoint_mod
              \<and> checkpoint \<ge> ucast (WrappingInt32_minus checkpoint_mod index)
      then checkpoint - ucast (WrappingInt32_minus checkpoint_mod index)
      else checkpoint + ucast (WrappingInt32_minus index checkpoint_mod))"

lemma raw_value_of [simp]: "raw_value (WrappingInt32_of v) = v"
  by (simp add: WrappingInt32_of_def)

lemma WrappingInt32_eq_iff: "a = b \<longleftrightarrow> raw_value a = raw_value (b :: WrappingInt32)"
  by (cases a; cases b) simp

lemma raw_value_wrap [simp]: "raw_value (wrap n isn) = raw_value isn + ucast n"
  by (simp add: wrap_def WrappingInt32_plus_def)

section \<open>Offsets\<close>

text \<open>The distance upwards from the checkpoint to the next number that wraps to \<open>n\<close>, and downwards.\<close>

definition up :: "WrappingInt32 \<Rightarrow> WrappingInt32 \<Rightarrow> u64 \<Rightarrow> u32" where
  "up n isn c = raw_value n - raw_value isn - ucast c"

definition down :: "WrappingInt32 \<Rightarrow> WrappingInt32 \<Rightarrow> u64 \<Rightarrow> u32" where
  "down n isn c = ucast c - (raw_value n - raw_value isn)"

lemma unwrap_eq:
  "unwrap n isn c =
     (if up n isn c = 0 then c
      else if down n isn c < up n isn c \<and> ucast (down n isn c) \<le> c then c - ucast (down n isn c)
      else c + ucast (up n isn c))"
  by (simp add: unwrap_def Let_def WrappingInt32_minus_def WrappingInt32_eq_iff up_def down_def)

lemma down_up: "down n isn c = - up n isn c"
  by (simp add: up_def down_def)

lemma uint_bound32: "0 \<le> uint (a :: u32)" "uint (a :: u32) < 4294967296"
  using unsigned_less [of a, where 'a = int] by simp_all

lemma uint_bound64: "0 \<le> uint (a :: u64)" "uint (a :: u64) < 18446744073709551616"
  using unsigned_less [of a, where 'a = int] by simp_all

lemma uint_ucast_u64 [simp]: "uint (ucast (a :: u32) :: u64) = uint a"
  using uint_bound32 [of a] by (simp add: unsigned_ucast_eq take_bit_eq_mod)

lemma uint_down: "up n isn c \<noteq> 0 \<Longrightarrow> uint (down n isn c) = 4294967296 - uint (up n isn c)"
proof -
  assume nz: "up n isn c \<noteq> 0"
  let ?u = "uint (up n isn c)"
  have "?u \<noteq> 0" using nz by (simp add: word_uint_eq_iff)
  then have "0 < ?u" "?u < 4294967296" using uint_bound32 [of "up n isn c"] by linarith+
  then have "(- ?u) mod 4294967296 = 4294967296 - ?u"
    by (simp add: zmod_zminus1_eq_if)
  then show ?thesis by (simp add: down_up uint_word_ariths)
qed

lemma uint_ucast_u32: "uint (ucast (a :: u64) :: u32) = uint a mod 4294967296"
  by (simp add: unsigned_ucast_eq take_bit_eq_mod)

lemma ucast_u32_plus: "(ucast (a + b :: u64) :: u32) = ucast a + ucast b"
  by (simp add: word_uint_eq_iff uint_word_ariths uint_ucast_u32 mod_mod_cancel mod_simps)

lemma ucast_u32_minus: "(ucast (a - b :: u64) :: u32) = ucast a - ucast b"
  by (simp add: word_uint_eq_iff uint_word_ariths uint_ucast_u32 mod_mod_cancel mod_simps)

lemma ucast_u32_u64 [simp]: "(ucast (ucast (a :: u32) :: u64) :: u32) = a"
  using uint_bound32 [of a] by (simp add: word_uint_eq_iff uint_ucast_u32)

lemma up_wrap: "up (wrap v isn) isn c = ucast v - ucast c"
  by (simp add: up_def)

lemma uint_up_wrap: "uint (up (wrap v isn) isn c) = (uint v - uint c) mod 4294967296"
  by (simp add: up_wrap uint_word_ariths uint_ucast_u32 mod_simps)

text \<open>Where the number that wraps to \<open>n\<close> lies relative to the checkpoint, as an integer.\<close>

lemma uint_unwrap:
  assumes "uint c \<le> 2 ^ 64 - 2 ^ 32"
  shows "uint (unwrap n isn c) =
     (if uint (up n isn c) = 0 then uint c
      else if 4294967296 - uint (up n isn c) < uint (up n isn c) \<and> 4294967296 - uint (up n isn c) \<le> uint c
      then uint c - (4294967296 - uint (up n isn c))
      else uint c + uint (up n isn c))"
proof (cases "up n isn c = 0")
  case True
  then show ?thesis by (simp add: unwrap_eq)
next
  case False
  let ?u = "up n isn c" and ?d = "down n isn c"
  have d: "uint ?d = 4294967296 - uint ?u" by (rule uint_down [OF False])
  have le: "(ucast ?d :: u64) \<le> c \<longleftrightarrow> uint ?d \<le> uint c" by (simp add: word_le_def)
  have lt: "?d < ?u \<longleftrightarrow> uint ?d < uint ?u" by (simp add: word_less_def)
  have sub: "uint (c - ucast ?d) = uint c - uint ?d" if "(ucast ?d :: u64) \<le> c"
    using uint_minus_simple_alt [of "ucast ?d :: u64" c] that by simp
  have "uint c + uint ?u < 2 ^ 64"
    using assms uint_bound32 [of ?u] by simp
  then have add: "uint (c + ucast ?u) = uint c + uint ?u"
    using uint_bound64 [of c] uint_bound32 [of ?u] by (simp add: uint_word_ariths)
  show ?thesis
    using False le lt sub add d by (simp add: unwrap_eq)
qed

lemma unwrap_near:
  assumes "uint checkpoint \<le> 2 ^ 64 - 2 ^ 32" and "\<bar>uint x - uint checkpoint\<bar> < 2 ^ 31"
  shows "unwrap (wrap x isn) isn checkpoint = x"
proof -
  let ?d = "uint x - uint checkpoint" and ?u = "uint (up (wrap x isn) isn checkpoint)"
  have u: "?u = (if 0 \<le> ?d then ?d else ?d + 4294967296)"
  proof (cases "0 \<le> ?d")
    case True
    with assms(2) show ?thesis by (simp add: uint_up_wrap)
  next
    case False
    have "?d mod 4294967296 = (?d + 4294967296) mod 4294967296" by simp
    also have "\<dots> = ?d + 4294967296" using False assms(2) by (intro mod_pos_pos_trivial) auto
    finally show ?thesis using False by (simp add: uint_up_wrap)
  qed
  have "uint (unwrap (wrap x isn) isn checkpoint) = uint x"
    using uint_unwrap [OF assms(1), of "wrap x isn" isn] u assms(2) uint_bound64 [of x]
    by (auto split: if_splits)
  then show ?thesis by (simp add: word_uint_eq_iff)
qed

text \<open>The same for numbers, and a 32-bit sequence number as a wrapped offset.\<close>

lemma unwrap_of_nat:
  assumes "unat c + 2 ^ 32 < two64" and "\<bar>int k - int (unat c)\<bar> < 2 ^ 31"
  shows "unwrap (wrap (of_nat k) isn) isn c = of_nat k"
proof -
  have p: "(2 :: nat) ^ 32 = 4294967296" "(2 :: int) ^ 31 = 2147483648" by simp_all
  have k: "k < two64"
    using assms unfolding p by linarith
  have "uint (of_nat k :: u64) = int k"
    using unat_of_nat64 [OF k] by (metis of_nat_unat unsigned_of_nat uint_nat)
  moreover have "unat c < 18446744069414584320"
    using assms(1) by (simp add: two64_def)
  then have "int (unat c) \<le> 18446744069414584320" by linarith
  then have "int (unat c) \<le> 2 ^ 64 - 2 ^ 32" by simp
  ultimately show ?thesis
    using assms(2) by (intro unwrap_near) simp_all
qed

lemma wrap_offset: "wrap (of_nat (unat (WrappingInt32_minus n isn))) isn = n"
proof -
  have "ucast (of_nat (unat x) :: u64) = x" for x :: u32
    by (rule bit_word_eqI) (simp add: bit_simps)
  then show ?thesis
    by (simp add: WrappingInt32_eq_iff WrappingInt32_minus_def)
qed

section \<open>Properties\<close>

text \<open>
  \<open>unwrap\<close> inverts \<open>wrap\<close>: whatever the checkpoint, the result wraps to the given sequence number.
\<close>

lemma wrap_unwrap: "wrap (unwrap n isn checkpoint) isn = n"
  by (auto simp: WrappingInt32_eq_iff unwrap_eq ucast_u32_plus ucast_u32_minus down_up up_def
      diff_eq_eq add.commute)

lemma unwrap_is_closest:
  assumes "uint checkpoint \<le> 2 ^ 64 - 2 ^ 32" and "wrap v isn = n"
  shows "\<bar>uint (unwrap n isn checkpoint) - uint checkpoint\<bar> \<le> \<bar>uint v - uint checkpoint\<bar>"
proof -
  let ?u = "uint (up n isn checkpoint)" and ?x = "uint v - uint checkpoint"
  have u: "?u = ?x mod 4294967296" using uint_up_wrap [of v isn checkpoint] assms(2) by simp
  define q where "q = ?x div 4294967296"
  have x: "?x = 4294967296 * q + ?u" using u by (simp add: q_def)
  have b: "0 \<le> ?u" "?u < 4294967296" "0 \<le> uint v" "0 \<le> uint checkpoint"
    using uint_bound32 uint_bound64 by blast+
  have r: "uint (unwrap n isn checkpoint) - uint checkpoint =
     (if ?u = 0 then 0
      else if 4294967296 - ?u < ?u \<and> 4294967296 - ?u \<le> uint checkpoint then ?u - 4294967296 else ?u)"
    using uint_unwrap [OF assms(1), of n isn] by simp
  have q: "?u \<le> ?x \<or> ?x \<le> ?u - 4294967296"
    using x b by (cases "0 \<le> q") linarith+
  consider "?u = 0" | "4294967296 - ?u < ?u" "4294967296 - ?u \<le> uint checkpoint" "?u \<noteq> 0"
    | "?u \<noteq> 0" "?u \<le> 4294967296 - ?u \<or> uint checkpoint < 4294967296 - ?u"
    by linarith
  then show ?thesis
  proof cases
    case 2
    then have "uint (unwrap n isn checkpoint) - uint checkpoint = ?u - 4294967296" using r by simp
    with q b 2 show ?thesis by linarith
  next
    case 3
    then have "uint (unwrap n isn checkpoint) - uint checkpoint = ?u" using r by auto
    with q b 3 show ?thesis by linarith
  qed (use r in simp)
qed

text \<open>
  C33: \<open>unwrap\<close> inverts \<open>wrap\<close>: its result wraps to the given sequence number, and among all 64-bit numbers that do so it is
  one that is closest to the checkpoint (for checkpoints that are not within \<open>2 ^ 32\<close> of the end of the 64-bit range).
\<close>

theorem unwrap_closest:
  assumes "uint checkpoint \<le> 2 ^ 64 - 2 ^ 32" and "wrap v isn = n"
  shows "wrap (unwrap n isn checkpoint) isn = n
     \<and> \<bar>uint (unwrap n isn checkpoint) - uint checkpoint\<bar> \<le> \<bar>uint v - uint checkpoint\<bar>"
  using unwrap_is_closest [OF assms] by (simp add: wrap_unwrap)

theorem unwrap_closest_witness:
  "wrap (unwrap (WrappingInt32_of 5) (WrappingInt32_of 0) 4294967290) (WrappingInt32_of 0) = WrappingInt32_of 5
     \<and> \<bar>uint (unwrap (WrappingInt32_of 5) (WrappingInt32_of 0) 4294967290) - uint (4294967290 :: u64)\<bar>
     \<le> \<bar>uint (5 :: u64) - uint (4294967290 :: u64)\<bar>"
  by (rule unwrap_closest) (simp_all add: WrappingInt32_eq_iff)

end
