(* ===== verification/TCP_Segment.thy ===== *)
theory TCP_Segment
  imports Checksum Wrapping_Integers
begin

text \<open>
  \<^verbatim>\<open>libsponge/tcp_helpers/tcp_header.hh\<close>, \<^verbatim>\<open>tcp_header.cc\<close>, \<^verbatim>\<open>tcp_segment.hh\<close> and \<^verbatim>\<open>tcp_segment.cc\<close>: the
  fields of a TCP header, parsing and serializing a header and a segment, and the length of a
  segment in sequence space.  \<open>parse\<close> changes the object it is called on, so the definitions take
  the old value and return the new one, together with the parser and the \<^verbatim>\<open>ParseResult\<close>.
\<close>

section \<open>TCPHeader\<close>

record TCPHeader =
  th_sport :: u16
  th_dport :: u16
  th_seqno :: WrappingInt32
  th_ackno :: WrappingInt32
  th_doff :: u8
  th_urg :: bool
  th_ack :: bool
  th_psh :: bool
  th_rst :: bool
  th_syn :: bool
  th_fin :: bool
  th_win :: u16
  th_cksum :: u16
  th_uptr :: u16

definition TCPHeader_LENGTH :: u64 where
  "TCPHeader_LENGTH = 20"

definition TCPHeader_default :: TCPHeader where
  "TCPHeader_default = \<lparr>th_sport = 0, th_dport = 0, th_seqno = WrappingInt32_of 0,
     th_ackno = WrappingInt32_of 0, th_doff = ucast (TCPHeader_LENGTH div 4), th_urg = False,
     th_ack = False, th_psh = False, th_rst = False, th_syn = False, th_fin = False, th_win = 0,
     th_cksum = 0, th_uptr = 0\<rparr>"

definition TCPHeader_parse :: "TCPHeader \<Rightarrow> NetParser \<Rightarrow> (TCPHeader \<times> NetParser \<times> ParseResult) result" where
  "TCPHeader_parse h p =
     bindE (NetParser_u16 p) (\<lambda>(sport, p).
     bindE (NetParser_u16 p) (\<lambda>(dport, p).
     bindE (NetParser_u32 p) (\<lambda>(seqno, p).
     bindE (NetParser_u32 p) (\<lambda>(ackno, p).
     bindE (NetParser_u8 p) (\<lambda>(doff_b, p).
     bindE (NetParser_u8 p) (\<lambda>(fl_b, p).
     bindE (NetParser_u16 p) (\<lambda>(win, p).
     bindE (NetParser_u16 p) (\<lambda>(cksum, p).
     bindE (NetParser_u16 p) (\<lambda>(uptr, p).
       let h = h\<lparr>th_sport := sport, th_dport := dport, th_seqno := WrappingInt32_of seqno,
                 th_ackno := WrappingInt32_of ackno, th_doff := drop_bit 4 doff_b,
                 th_urg := (fl_b AND 0x20 \<noteq> 0), th_ack := (fl_b AND 0x10 \<noteq> 0),
                 th_psh := (fl_b AND 0x08 \<noteq> 0), th_rst := (fl_b AND 0x04 \<noteq> 0),
                 th_syn := (fl_b AND 0x02 \<noteq> 0), th_fin := (fl_b AND 0x01 \<noteq> 0),
                 th_win := win, th_cksum := cksum, th_uptr := uptr\<rparr> in
       if th_doff h < 5 then Inr (h, p, HeaderTooShort)
       else bindE (NetParser_remove_prefix p (ucast (th_doff h) * 4 - TCPHeader_LENGTH)) (\<lambda>p.
         if NetParser_error p then Inr (h, p, np_error p) else Inr (h, p, NoError)))))))))))"

definition TCPHeader_flags :: "TCPHeader \<Rightarrow> u8" where
  "TCPHeader_flags h =
     (if th_urg h then 0x20 else 0) OR (if th_ack h then 0x10 else 0)
     OR (if th_psh h then 0x08 else 0) OR (if th_rst h then 0x04 else 0)
     OR (if th_syn h then 0x02 else 0) OR (if th_fin h then 0x01 else 0)"

definition TCPHeader_serialize :: "TCPHeader \<Rightarrow> bytes result" where
  "TCPHeader_serialize h =
     (if th_doff h < 5 then Inl (Runtime_error ''TCP header too short'')
      else
        let ret = [];
            ret = NetUnparser_u16 ret (th_sport h);
            ret = NetUnparser_u16 ret (th_dport h);
            ret = NetUnparser_u32 ret (raw_value (th_seqno h));
            ret = NetUnparser_u32 ret (raw_value (th_ackno h));
            ret = NetUnparser_u8 ret (push_bit 4 (th_doff h));
            ret = NetUnparser_u8 ret (TCPHeader_flags h);
            ret = NetUnparser_u16 ret (th_win h);
            ret = NetUnparser_u16 ret (th_cksum h);
            ret = NetUnparser_u16 ret (th_uptr h)
        in Inr (string_resize ret (4 * ucast (th_doff h))))"

definition TCPHeader_eq :: "TCPHeader \<Rightarrow> TCPHeader \<Rightarrow> bool" where
  "TCPHeader_eq h other \<longleftrightarrow>
     th_seqno h = th_seqno other \<and> th_ackno h = th_ackno other \<and> th_doff h = th_doff other
     \<and> th_urg h = th_urg other \<and> th_ack h = th_ack other \<and> th_psh h = th_psh other
     \<and> th_rst h = th_rst other \<and> th_syn h = th_syn other \<and> th_fin h = th_fin other
     \<and> th_win h = th_win other \<and> th_uptr h = th_uptr other"

section \<open>TCPSegment\<close>

record TCPSegment =
  sg_header :: TCPHeader
  sg_payload :: Buffer

definition TCPSegment_default :: TCPSegment where
  "TCPSegment_default = \<lparr>sg_header = TCPHeader_default, sg_payload = Buffer_default\<rparr>"

definition TCPSegment_parse :: "TCPSegment \<Rightarrow> Buffer \<Rightarrow> u32 \<Rightarrow> (TCPSegment \<times> ParseResult) result" where
  "TCPSegment_parse s buffer datagram_layer_checksum =
     (let check = InternetChecksum_add (InternetChecksum_new datagram_layer_checksum) (Buffer_str buffer) in
      if InternetChecksum_value check \<noteq> 0 then Inr (s, BadChecksum)
      else bindE (TCPHeader_parse (sg_header s) (NetParser_new buffer)) (\<lambda>(h, p, ignored).
        Inr (\<lparr>sg_header = h, sg_payload = np_buffer p\<rparr>, np_error p)))"

definition TCPSegment_length_in_sequence_space :: "TCPSegment \<Rightarrow> u64" where
  "TCPSegment_length_in_sequence_space s =
     Buffer_size (sg_payload s) + of_flag (th_syn (sg_header s)) + of_flag (th_fin (sg_header s))"

definition TCPSegment_serialize :: "TCPSegment \<Rightarrow> u32 \<Rightarrow> BufferList result" where
  "TCPSegment_serialize s datagram_layer_checksum =
     (let header_out = (sg_header s)\<lparr>th_cksum := 0\<rparr>;
          check = InternetChecksum_new datagram_layer_checksum in
      bindE (TCPHeader_serialize header_out) (\<lambda>zero.
        let check = InternetChecksum_add check zero;
            check = InternetChecksum_add check (Buffer_str (sg_payload s));
            header_out = header_out\<lparr>th_cksum := InternetChecksum_value check\<rparr> in
        bindE (TCPHeader_serialize header_out) (\<lambda>out.
          let ret = \<lparr>bl_buffers = []\<rparr>;
              ret = BufferList_append ret (BufferList_of_string out);
              ret = BufferList_append ret (BufferList_of_Buffer (sg_payload s))
          in Inr ret)))"

section \<open>Headers as bytes\<close>

definition TCPHeader_at :: "bytes \<Rightarrow> TCPHeader" where
  "TCPHeader_at xs = (let fl_b = field 1 13 xs :: u8 in
     \<lparr>th_sport = field 2 0 xs, th_dport = field 2 2 xs, th_seqno = WrappingInt32_of (field 4 4 xs),
      th_ackno = WrappingInt32_of (field 4 8 xs), th_doff = drop_bit 4 (field 1 12 xs),
      th_urg = (fl_b AND 0x20 \<noteq> 0), th_ack = (fl_b AND 0x10 \<noteq> 0), th_psh = (fl_b AND 0x08 \<noteq> 0),
      th_rst = (fl_b AND 0x04 \<noteq> 0), th_syn = (fl_b AND 0x02 \<noteq> 0), th_fin = (fl_b AND 0x01 \<noteq> 0),
      th_win = field 2 14 xs, th_cksum = field 2 16 xs, th_uptr = field 2 18 xs\<rparr>)"

lemma u8_bound: "unat (x :: u8) < 256"
  using unsigned_less [of x, where 'a = nat] by simp

lemma unat_doff_offset:
  assumes "\<not> (doff :: u8) < 5"
  shows "unat (ucast doff * 4 - TCPHeader_LENGTH) = 4 * unat doff - 20"
proof -
  have "unat (ucast doff * 4 :: u64) = 4 * unat doff"
    using u8_bound [of doff] by (simp add: unat_word_ariths)
  moreover have "20 \<le> (ucast doff * 4 :: u64)"
    using assms calculation by (simp add: word_le_nat_alt word_less_nat_alt)
  ultimately show ?thesis
    by (simp add: TCPHeader_LENGTH_def unat_sub)
qed

lemma TCPHeader_parse_ok:
  assumes "parser_ok p" and "20 \<le> length (left p)"
  defines "h' \<equiv> TCPHeader_at (left p)"
  shows "TCPHeader_parse h p =
     (if th_doff h' < 5 then Inr (h', skip p 20, HeaderTooShort)
      else if 4 * unat (th_doff h') \<le> length (left p) then Inr (h', skip p (4 * unat (th_doff h')), NoError)
      else Inr (h', (skip p 20)\<lparr>np_error := PacketTooShort\<rparr>, PacketTooShort))"
proof -
  let ?q = "skip p 20"
  have q: "parser_ok ?q" "left ?q = drop 20 (left p)"
    using skip_parser_ok' [OF assms(1), of 20 0] assms(2) by auto
  have fields: "TCPHeader_parse h p =
      (if th_doff h' < 5 then Inr (h', ?q, HeaderTooShort)
       else bindE (NetParser_remove_prefix ?q (ucast (th_doff h') * 4 - TCPHeader_LENGTH)) (\<lambda>p.
         if NetParser_error p then Inr (h', p, np_error p) else Inr (h', p, NoError)))"
    using assms(1,2) unfolding h'_def TCPHeader_at_def Let_def
    by (cases h) (simp add: TCPHeader_parse_def dec_first dec_at Let_def cong: if_cong)
  show ?thesis
  proof (cases "th_doff h' < 5")
    case False
    then have off: "unat (ucast (th_doff h') * 4 - TCPHeader_LENGTH) = 4 * unat (th_doff h') - 20"
      and ge: "20 \<le> 4 * unat (th_doff h')"
      by (simp add: unat_doff_offset, simp add: word_less_nat_alt)
    show ?thesis
    proof (cases "4 * unat (th_doff h') \<le> length (left p)")
      case True
      then have "NetParser_remove_prefix ?q (ucast (th_doff h') * 4 - TCPHeader_LENGTH)
          = Inr (skip ?q (4 * unat (th_doff h') - 20))"
        using q off by (subst remove_prefix_ok) auto
      moreover have "skip ?q (4 * unat (th_doff h') - 20) = skip p (4 * unat (th_doff h'))"
        using True ge assms(1) by (subst skip_skip) (auto simp: parser_ok_def)
      ultimately show ?thesis
        using fields False True assms(1) by (simp add: NetParser_error_def parser_ok_def)
    next
      case short: False
      then have "length (left ?q) < 4 * unat (th_doff h') - 20"
        using q assms(2) by simp
      then have "NetParser_remove_prefix ?q (ucast (th_doff h') * 4 - TCPHeader_LENGTH)
          = Inr (?q\<lparr>np_error := PacketTooShort\<rparr>)"
        using q(1) off by (subst remove_prefix_fail) (auto simp: parser_ok_def)
      then show ?thesis
        using fields False short by (simp add: NetParser_error_def)
    qed
  qed (use fields in simp)
qed

lemma TCPHeader_serialize_eq:
  assumes "\<not> th_doff h < 5"
  shows "TCPHeader_serialize h = Inr (NetUnparser_u16 [] (th_sport h) @ NetUnparser_u16 [] (th_dport h)
    @ NetUnparser_u32 [] (raw_value (th_seqno h)) @ NetUnparser_u32 [] (raw_value (th_ackno h))
    @ NetUnparser_u8 [] (push_bit 4 (th_doff h)) @ NetUnparser_u8 [] (TCPHeader_flags h)
    @ NetUnparser_u16 [] (th_win h) @ NetUnparser_u16 [] (th_cksum h) @ NetUnparser_u16 [] (th_uptr h)
    @ replicate (4 * unat (th_doff h) - 20) 0)" (is "_ = Inr ?s")
proof -
  let ?r = "NetUnparser_u16 [] (th_sport h) @ NetUnparser_u16 [] (th_dport h)
    @ NetUnparser_u32 [] (raw_value (th_seqno h)) @ NetUnparser_u32 [] (raw_value (th_ackno h))
    @ NetUnparser_u8 [] (push_bit 4 (th_doff h)) @ NetUnparser_u8 [] (TCPHeader_flags h)
    @ NetUnparser_u16 [] (th_win h) @ NetUnparser_u16 [] (th_cksum h) @ NetUnparser_u16 [] (th_uptr h)"
  have "unat (4 * ucast (th_doff h) :: u64) = 4 * unat (th_doff h)"
    using u8_bound [of "th_doff h"] by (simp add: unat_word_ariths)
  moreover have "length ?r = 20" by simp
  moreover have "20 \<le> 4 * unat (th_doff h)"
    using assms by (simp add: word_less_nat_alt)
  ultimately have "string_resize ?r (4 * ucast (th_doff h)) = ?r @ replicate (4 * unat (th_doff h) - 20) 0"
    by (simp add: string_resize_def)
  moreover have "TCPHeader_serialize h = Inr (string_resize ?r (4 * ucast (th_doff h)))"
    using assms enc_chain(4-6) [of "NetUnparser_u16 [] (th_sport h)"]
    by (simp add: TCPHeader_serialize_def Let_def u16.enc_append [of "NetUnparser_u16 [] (th_sport h)"] enc_chain)
  ultimately show ?thesis by simp
qed

lemma TCPHeader_flags_bits:
  "TCPHeader_flags h AND 0x20 \<noteq> 0 \<longleftrightarrow> th_urg h"
  "TCPHeader_flags h AND 0x10 \<noteq> 0 \<longleftrightarrow> th_ack h"
  "TCPHeader_flags h AND 0x08 \<noteq> 0 \<longleftrightarrow> th_psh h"
  "TCPHeader_flags h AND 0x04 \<noteq> 0 \<longleftrightarrow> th_rst h"
  "TCPHeader_flags h AND 0x02 \<noteq> 0 \<longleftrightarrow> th_syn h"
  "TCPHeader_flags h AND 0x01 \<noteq> 0 \<longleftrightarrow> th_fin h"
  by (cases "th_urg h"; cases "th_ack h"; cases "th_psh h"; cases "th_rst h"; cases "th_syn h";
      cases "th_fin h"; simp add: TCPHeader_flags_def)+

lemma doff_nibble: "(x :: u8) < 16 \<Longrightarrow> drop_bit 4 (push_bit 4 x) = x"
proof -
  assume "x < 16"
  then have "unat x < 16" by (simp add: word_less_nat_alt)
  then have "unat (push_bit 4 x) = 16 * unat x"
    by (simp add: push_bit_eq_mult unat_word_ariths)
  then have "unat (drop_bit 4 (push_bit 4 x)) = unat x"
    unfolding unat_drop_bit_eq by (simp add: drop_bit_eq_div)
  then show ?thesis by (simp add: word_unat_eq_iff)
qed

lemma TCPHeader_at_serialize:
  assumes "\<not> th_doff h < 5" and "th_doff h < 16" and "TCPHeader_serialize h = Inr s"
  shows "TCPHeader_at (s @ r) = h" and "length s = 4 * unat (th_doff h)"
proof -
  have s: "s = projr (TCPHeader_serialize h)" using assms(3) by simp
  have "20 \<le> 4 * unat (th_doff h)"
    using assms(1) by (simp add: word_less_nat_alt)
  then show "length s = 4 * unat (th_doff h)"
    by (simp add: s TCPHeader_serialize_eq [OF assms(1)])
  show "TCPHeader_at (s @ r) = h"
    using TCPHeader_flags_bits [of h] doff_nibble [OF assms(2)]
    by (intro TCPHeader.equality)
      (simp_all add: s TCPHeader_serialize_eq [OF assms(1)] TCPHeader_at_def Let_def field_skip WrappingInt32_of_def)
qed

text \<open>Serializing with a checksum adds exactly the checksum to the sum of the bytes.\<close>

lemma TCPHeader_serialize_cksum:
  assumes "\<not> th_doff h < 5"
  obtains z s where "TCPHeader_serialize (h\<lparr>th_cksum := 0\<rparr>) = Inr z"
    and "TCPHeader_serialize (h\<lparr>th_cksum := c\<rparr>) = Inr s" and "length z = length s"
    and "sum16 False (s @ r) = sum16 False (z @ r) + unat c"
proof -
  have flags: "TCPHeader_flags (h\<lparr>th_cksum := x\<rparr>) = TCPHeader_flags h" for x
    by (simp add: TCPHeader_flags_def)
  show ?thesis
    using assms
    by (intro that [OF TCPHeader_serialize_eq TCPHeader_serialize_eq])
      (simp_all add: flags sum16_append sum16_u16)
qed

lemma TCPSegment_serialize_ok:
  assumes "\<not> th_doff (sg_header s) < 5"
    and "4 * unat (th_doff (sg_header s)) + length (Buffer_str (sg_payload s)) \<le> 65535"
    and "th_doff (sg_header s) < 16" and "unat ck < 2 ^ 23"
  obtains bl c out where "TCPSegment_serialize s ck = Inr bl"
    and "TCPHeader_serialize ((sg_header s)\<lparr>th_cksum := c\<rparr>) = Inr out"
    and "BufferList_concatenate bl = out @ Buffer_str (sg_payload s)"
    and "checks_out ck (out @ Buffer_str (sg_payload s))"
proof -
  let ?h = "sg_header s" and ?pay = "Buffer_str (sg_payload s)"
  obtain z where z: "TCPHeader_serialize (?h\<lparr>th_cksum := 0\<rparr>) = Inr z"
    using TCPHeader_serialize_eq [of "?h\<lparr>th_cksum := 0\<rparr>"] assms(1) by simp
  let ?check = "InternetChecksum_add (InternetChecksum_new ck) (z @ ?pay)"
  define c where "c = InternetChecksum_value ?check"
  obtain out where out: "TCPHeader_serialize (?h\<lparr>th_cksum := c\<rparr>) = Inr out" "length z = length out"
    and sum: "sum16 False (out @ ?pay) = sum16 False (z @ ?pay) + unat c"
    using TCPHeader_serialize_cksum [OF assms(1), of c ?pay] z by auto
  have len: "length (out @ ?pay) \<le> 65535"
    using TCPHeader_at_serialize(2) [OF _ _ out(1)] assms(1-3) by simp
  have "unat ck + sum16 False (z @ ?pay) < 2 ^ 32"
    using len out(2) assms(4) by (intro sum16_bound) simp_all
  from value_completes [OF unat_ck_sum [OF this]] have good: "checks_out ck (out @ ?pay)"
    unfolding checks_out_def c_def [symmetric] by (simp only: sum add.assoc)
  have ser: "TCPSegment_serialize s ck = Inr (BufferList_append
      (BufferList_append \<lparr>bl_buffers = []\<rparr> (BufferList_of_string out)) (BufferList_of_Buffer (sg_payload s)))"
    using z out(1) by (simp add: TCPSegment_serialize_def Let_def c_def InternetChecksum_add_append)
  show ?thesis
    by (rule that [OF ser out(1)]) (simp_all add: good)
qed

lemma TCPSegment_parse_bad:
  assumes "unat ck + sum16 False (Buffer_str b) < 2 ^ 32" and "\<not> checks_out ck (Buffer_str b)"
  shows "TCPSegment_parse s b ck = Inr (s, BadChecksum)"
  using value_zero_checks_out [OF assms(1)] assms(2) by (simp add: TCPSegment_parse_def)

lemma TCPSegment_parse_good:
  assumes "unat ck + sum16 False (Buffer_str b) < 2 ^ 32" and "checks_out ck (Buffer_str b)"
  shows "TCPSegment_parse s b ck =
     bindE (TCPHeader_parse (sg_header s) (NetParser_new b)) (\<lambda>(h, p, ignored).
        Inr (\<lparr>sg_header = h, sg_payload = np_buffer p\<rparr>, np_error p))"
  using value_zero_checks_out [OF assms(1)] assms(2) by (simp add: TCPSegment_parse_def)

text \<open>What parsing does to a segment of at least 20 bytes whose checksum is right.\<close>

lemma TCPSegment_parse_fields:
  assumes "Buffer_wf b" and "20 \<le> length (Buffer_str b)" and "checks_out ck (Buffer_str b)"
    and "unat ck + sum16 False (Buffer_str b) < 2 ^ 32"
  defines "h \<equiv> TCPHeader_at (Buffer_str b)"
  obtains s' where "TCPSegment_parse s b ck = Inr (s', if 4 * unat (th_doff h) \<le> length (Buffer_str b)
      then NoError else PacketTooShort)" and "sg_header s' = h"
    and "Buffer_str (sg_payload s') = drop (if 4 * unat (th_doff h) \<le> length (Buffer_str b)
      then max 20 (4 * unat (th_doff h)) else 20) (Buffer_str b)"
proof -
  let ?p = "NetParser_new b" and ?k = "4 * unat (th_doff h)"
  note parse = TCPSegment_parse_good [OF assms(4,3), of s] TCPHeader_parse_ok [of ?p "sg_header s"]
  have skip: "Buffer_str (np_buffer (skip ?p n)) = drop n (Buffer_str b)" if "n \<le> length (Buffer_str b)" for n
    using skip_ok(3) [of ?p n] that assms(1) unfolding left_def [of "skip ?p n"] by simp
  have five: "th_doff h < 5 \<longleftrightarrow> ?k < 20"
    by (simp add: word_less_nat_alt)
  consider "?k < 20" | "20 \<le> ?k" "?k \<le> length (Buffer_str b)" | "length (Buffer_str b) < ?k"
    by linarith
  then show ?thesis
  proof cases
    case 1
    then show ?thesis
      using parse assms(1,2) five skip [of 20]
      by (intro that [of "\<lparr>sg_header = h, sg_payload = np_buffer (skip ?p 20)\<rparr>"]) (auto simp: h_def)
  next
    case 2
    then show ?thesis
      using parse assms(1,2) five skip [of ?k]
      by (intro that [of "\<lparr>sg_header = h, sg_payload = np_buffer (skip ?p ?k)\<rparr>"]) (auto simp: h_def)
  next
    case 3
    then show ?thesis
      using parse assms(1,2) five skip [of 20]
      by (intro that [of "\<lparr>sg_header = h, sg_payload = np_buffer (skip ?p 20)\<rparr>"]) (auto simp: h_def)
  qed
qed

text \<open>Parsing undoes serializing.\<close>

lemma segment_serialize_parse:
  assumes "5 \<le> th_doff (sg_header s)" and "th_doff (sg_header s) < 16"
    and "4 * unat (th_doff (sg_header s)) + length (Buffer_str (sg_payload s)) \<le> 65535"
    and "unat ck < 2 ^ 23"
  obtains bl c where "TCPSegment_serialize s ck = Inr bl" and "length (BufferList_concatenate bl) =
      4 * unat (th_doff (sg_header s)) + length (Buffer_str (sg_payload s))"
    and "\<forall>b s0. Buffer_wf b \<and> Buffer_str b = BufferList_concatenate bl \<longrightarrow>
      (\<exists>s'. TCPSegment_parse s0 b ck = Inr (s', NoError) \<and> sg_header s' = (sg_header s)\<lparr>th_cksum := c\<rparr>
        \<and> Buffer_str (sg_payload s') = Buffer_str (sg_payload s))"
proof -
  let ?pay = "Buffer_str (sg_payload s)" and ?doff = "th_doff (sg_header s)"
  from assms(1) have doff: "\<not> ?doff < 5" "20 \<le> 4 * unat ?doff"
    by (simp_all add: not_less word_le_nat_alt)
  obtain bl c out where ser: "TCPSegment_serialize s ck = Inr bl"
    and out: "TCPHeader_serialize ((sg_header s)\<lparr>th_cksum := c\<rparr>) = Inr out"
    and cat: "BufferList_concatenate bl = out @ ?pay" and good: "checks_out ck (out @ ?pay)"
    using TCPSegment_serialize_ok [OF doff(1) assms(3,2,4)] by metis
  have at: "TCPHeader_at (out @ ?pay) = (sg_header s)\<lparr>th_cksum := c\<rparr>" "length out = 4 * unat ?doff"
    using TCPHeader_at_serialize [OF _ _ out] doff(1) assms(2) by simp_all
  have len: "length (out @ ?pay) \<le> 65535" using at assms(3) by simp
  have "\<exists>s'. TCPSegment_parse s0 b ck = Inr (s', NoError) \<and> sg_header s' = (sg_header s)\<lparr>th_cksum := c\<rparr>
      \<and> Buffer_str (sg_payload s') = ?pay" if wf: "Buffer_wf b" and str: "Buffer_str b = out @ ?pay" for b s0
  proof -
    have sum: "unat ck + sum16 False (Buffer_str b) < 2 ^ 32"
      using len assms(4) unfolding str by (intro sum16_bound) simp_all
    have "20 \<le> length (Buffer_str b)" "checks_out ck (Buffer_str b)"
      using at(2) doff(2) good unfolding str by simp_all
    from TCPSegment_parse_fields [OF wf this sum, of s0] show ?thesis
      unfolding str at(1) using at(2) doff(2) by auto
  qed
  then have "\<forall>b s0. Buffer_wf b \<and> Buffer_str b = BufferList_concatenate bl \<longrightarrow>
      (\<exists>s'. TCPSegment_parse s0 b ck = Inr (s', NoError) \<and> sg_header s' = (sg_header s)\<lparr>th_cksum := c\<rparr>
        \<and> Buffer_str (sg_payload s') = ?pay)" unfolding cat by blast
  moreover have "length (BufferList_concatenate bl) = 4 * unat ?doff + length ?pay"
    using at(2) by (simp add: cat)
  ultimately show ?thesis using ser by (intro that)
qed

section \<open>Properties\<close>

text \<open>
  C23: A segment that is serialized and parsed again, with the same pseudo-header sum, is accepted and
  comes back with every header field and its payload; only the checksum field is filled in.
\<close>

theorem segment_roundtrip:
  assumes "5 \<le> th_doff (sg_header s)" and "th_doff (sg_header s) < 16"
    and "4 * unat (th_doff (sg_header s)) + length (Buffer_str (sg_payload s)) \<le> 65535"
    and "unat ck < 2 ^ 23"
  shows "\<exists>bl c s'. TCPSegment_serialize s ck = Inr bl
    \<and> TCPSegment_parse s0 (Buffer_of_string (BufferList_concatenate bl)) ck = Inr (s', NoError)
    \<and> sg_header s' = (sg_header s)\<lparr>th_cksum := c\<rparr>
    \<and> Buffer_str (sg_payload s') = Buffer_str (sg_payload s)"
proof -
  obtain bl c where bl: "TCPSegment_serialize s ck = Inr bl" "length (BufferList_concatenate bl) =
      4 * unat (th_doff (sg_header s)) + length (Buffer_str (sg_payload s))"
    "\<forall>b s0. Buffer_wf b \<and> Buffer_str b = BufferList_concatenate bl \<longrightarrow>
      (\<exists>s'. TCPSegment_parse s0 b ck = Inr (s', NoError) \<and> sg_header s' = (sg_header s)\<lparr>th_cksum := c\<rparr>
        \<and> Buffer_str (sg_payload s') = Buffer_str (sg_payload s))"
    by (rule segment_serialize_parse [OF assms])
  moreover have "Buffer_wf (Buffer_of_string (BufferList_concatenate bl))"
    using bl(2) assms(3) by (simp add: two64_def)
  ultimately show ?thesis by fastforce
qed

definition sample_segment :: TCPSegment where
  "sample_segment = \<lparr>sg_header = TCPHeader_default\<lparr>th_seqno := WrappingInt32_of 7, th_ack := True, th_win := 500\<rparr>,
     sg_payload = Buffer_of_string [104, 105]\<rparr>"

theorem segment_roundtrip_witness:
  "\<exists>bl c s'. TCPSegment_serialize sample_segment 1000 = Inr bl
    \<and> TCPSegment_parse TCPSegment_default (Buffer_of_string (BufferList_concatenate bl)) 1000 = Inr (s', NoError)
    \<and> sg_header s' = (sg_header sample_segment)\<lparr>th_cksum := c\<rparr>
    \<and> Buffer_str (sg_payload s') = [104, 105]"
  using segment_roundtrip [of sample_segment 1000 TCPSegment_default]
  by (simp add: sample_segment_def TCPHeader_default_def TCPHeader_LENGTH_def)

text \<open>
  C24: If any single byte of a segment that passes the checksum is changed on the way, \<^verbatim>\<open>TCPSegment::parse\<close>
  returns \<^verbatim>\<open>BadChecksum\<close> and leaves the segment object as it was.
\<close>

theorem segment_detects_corruption:
  assumes "length d \<le> 65535" and "unat ck < 2 ^ 23"
    and "TCPSegment_parse s0 (Buffer_of_string d) ck = Inr (s', NoError)"
    and "i < length d" and "b \<noteq> d ! i"
  shows "TCPSegment_parse s1 (Buffer_of_string (d[i := b])) ck = Inr (s1, BadChecksum)"
proof -
  have "checks_out ck d"
    using TCPSegment_parse_bad [of ck "Buffer_of_string d" s0] sum16_bound [OF assms(1,2)] assms(3) by auto
  then have "\<not> checks_out ck (d[i := b])"
    using assms(4,5) by (rule checks_out_update)
  moreover have "unat ck + sum16 False (d[i := b]) < 2 ^ 32"
    using assms(1,2) by (intro sum16_bound) simp_all
  ultimately show ?thesis
    by (intro TCPSegment_parse_bad) simp_all
qed

definition bare_segment :: "byte \<Rightarrow> byte \<Rightarrow> bytes" where
  "bare_segment doff hi = [0, 0, 0, 0, 0, 0, 0, 0, 0, 0, 0, 0, doff, 0, 0, 0, hi, 255, 0, 0]"

lemma bare_segment_ok:
  "checks_out 0 (bare_segment 80 175)" "th_doff (TCPHeader_at (bare_segment 80 175)) = 5"
  "checks_out 0 (bare_segment 64 191)" "th_doff (TCPHeader_at (bare_segment 64 191)) = 4"
  "length (bare_segment d hi) = 20"
  by (simp_all add: bare_segment_def checks_out_def TCPHeader_at_def field_def be_nat_def)

theorem segment_detects_corruption_witness:
  "\<exists>s'. TCPSegment_parse TCPSegment_default (Buffer_of_string (bare_segment 80 175)) 0 = Inr (s', NoError)
     \<and> TCPSegment_parse s' (Buffer_of_string ((bare_segment 80 175)[19 := 1])) 0 = Inr (s', BadChecksum)"
proof -
  let ?d = "bare_segment 80 175"
  have sum: "unat (0 :: u32) + sum16 False ?d < 2 ^ 32"
    by (rule sum16_bound) (simp_all add: bare_segment_ok)
  then obtain s' where "TCPSegment_parse TCPSegment_default (Buffer_of_string ?d) 0 = Inr (s', NoError)"
    using TCPSegment_parse_fields [of "Buffer_of_string ?d" 0 TCPSegment_default]
    by (auto simp: bare_segment_ok two64_def)
  moreover from this have "TCPSegment_parse s' (Buffer_of_string (?d[19 := 1])) 0 = Inr (s', BadChecksum)"
    by (rule segment_detects_corruption [rotated 2])
      (simp_all add: bare_segment_ok, simp add: bare_segment_def)
  ultimately show ?thesis by blast
qed

text \<open>
  \<^verbatim>\<open>TCPSegment::parse\<close> drops the result of the header parser.  On at least 20 bytes with a right
  checksum and a data offset below 5, the header parser answers \<^verbatim>\<open>HeaderTooShort\<close>; the segment
  parser answers \<^verbatim>\<open>NoError\<close>, with everything after byte 20 as payload.
\<close>

lemma segment_accepts_short_header:
  assumes "20 \<le> length d" and "length d \<le> 65535" and "unat ck < 2 ^ 23" and "checks_out ck d"
    and "th_doff (TCPHeader_at d) < 5"
  shows "(\<exists>h p. TCPHeader_parse h0 (NetParser_new (Buffer_of_string d)) = Inr (h, p, HeaderTooShort))
    \<and> (\<exists>s'. TCPSegment_parse s0 (Buffer_of_string d) ck = Inr (s', NoError)
            \<and> Buffer_str (sg_payload s') = drop 20 d)"
proof -
  have wf: "Buffer_wf (Buffer_of_string d)" using assms(2) by (simp add: two64_def)
  have k: "4 * unat (th_doff (TCPHeader_at d)) < 20"
    using assms(5) by (simp add: word_less_nat_alt)
  obtain s' where "TCPSegment_parse s0 (Buffer_of_string d) ck = Inr (s', NoError)"
    "Buffer_str (sg_payload s') = drop 20 d"
    using TCPSegment_parse_fields [OF wf, of ck s0] sum16_bound [OF assms(2,3)] assms(1,4) k
    by (auto simp: max_def)
  moreover have "TCPHeader_parse h0 (NetParser_new (Buffer_of_string d))
      = Inr (TCPHeader_at d, skip (NetParser_new (Buffer_of_string d)) 20, HeaderTooShort)"
    using TCPHeader_parse_ok [of "NetParser_new (Buffer_of_string d)" h0] wf assms(1,5) by simp
  ultimately show ?thesis by blast
qed

lemma short_header_example:
  "\<exists>s'. TCPSegment_parse TCPSegment_default (Buffer_of_string (bare_segment 64 191)) 0 = Inr (s', NoError)"
  using segment_accepts_short_header [of "bare_segment 64 191" 0 TCPHeader_default TCPSegment_default]
  by (auto simp: bare_segment_ok)

end
