(* ===== verification/TCP_Receiver.thy ===== *)
theory TCP_Receiver
  imports Stream_Reassembler TCP_Segment
begin

text \<open>
  \<^verbatim>\<open>libsponge/tcp_receiver.hh\<close> and \<^verbatim>\<open>tcp_receiver.cc\<close>: the receiver turns segments into substrings for the
  reassembler and computes the acknowledgment number and the window.  \<open>TCPReceiver_segment_received\<close>
  is the whole handler; it returns the new state and the Boolean that the connection looks at.
\<close>

section \<open>State and operations\<close>

record TCPReceiver =
  rv_reassembler :: StreamReassembler
  rv_capacity :: u64
  rv_ISN :: "WrappingInt32 option"

definition TCPReceiver_new :: "u64 \<Rightarrow> TCPReceiver" where
  "TCPReceiver_new capacity = \<lparr>rv_reassembler = StreamReassembler_new capacity, rv_capacity = capacity,
     rv_ISN = None\<rparr>"

definition TCPReceiver_stream_out :: "TCPReceiver \<Rightarrow> ByteStream" where
  "TCPReceiver_stream_out r = StreamReassembler_stream_out (rv_reassembler r)"

definition TCPReceiver_unassembled_bytes :: "TCPReceiver \<Rightarrow> u64" where
  "TCPReceiver_unassembled_bytes r = StreamReassembler_unassembled_bytes (rv_reassembler r)"

definition TCPReceiver_abs_ackno :: "TCPReceiver \<Rightarrow> u64" where
  "TCPReceiver_abs_ackno r = StreamReassembler_assembled_bytes (rv_reassembler r)
     + of_flag (rv_ISN r \<noteq> None) + of_flag (StreamReassembler_empty (rv_reassembler r))"

definition TCPReceiver_ackno :: "TCPReceiver \<Rightarrow> WrappingInt32 option" where
  "TCPReceiver_ackno r = (case rv_ISN r of Some isn \<Rightarrow> Some (wrap (TCPReceiver_abs_ackno r) isn) | None \<Rightarrow> None)"

definition TCPReceiver_window_size :: "TCPReceiver \<Rightarrow> u64" where
  "TCPReceiver_window_size r = ByteStream_remaining_capacity (TCPReceiver_stream_out r)"

definition TCPReceiver_LISTEN :: "TCPReceiver \<Rightarrow> bool" where
  "TCPReceiver_LISTEN r \<longleftrightarrow> TCPReceiver_ackno r = None"

definition TCPReceiver_SYN_RECV :: "TCPReceiver \<Rightarrow> bool" where
  "TCPReceiver_SYN_RECV r \<longleftrightarrow> TCPReceiver_ackno r \<noteq> None \<and> \<not> ByteStream_input_ended (TCPReceiver_stream_out r)"

definition TCPReceiver_FIN_RECV :: "TCPReceiver \<Rightarrow> bool" where
  "TCPReceiver_FIN_RECV r \<longleftrightarrow> ByteStream_input_ended (TCPReceiver_stream_out r)"

text \<open>The part of \<^verbatim>\<open>segment_received\<close> under \<^verbatim>\<open>SYN_RECV()\<close>.\<close>

definition TCPReceiver_accept :: "TCPReceiver \<Rightarrow> TCPSegment \<Rightarrow> (TCPReceiver \<times> bool) result" where
  "TCPReceiver_accept r seg =
     (let abs_seqno = unwrap (th_seqno (sg_header seg)) (the (rv_ISN r)) (TCPReceiver_abs_ackno r);
          index = abs_seqno - of_flag (\<not> th_syn (sg_header seg)) in
      if abs_seqno + Buffer_size (sg_payload seg) + of_flag (th_syn (sg_header seg)) < TCPReceiver_abs_ackno r
      then Inr (r, False)
      else if abs_seqno \<ge> TCPReceiver_abs_ackno r + TCPReceiver_window_size r
              \<and> \<not> (TCPReceiver_window_size r = 0 \<and> TCPSegment_length_in_sequence_space seg = 0)
      then Inr (r, False)
      else bindE (StreamReassembler_push_substring (rv_reassembler r) (Buffer_copy (sg_payload seg)) index
                    (th_fin (sg_header seg)))
             (\<lambda>a. Inr (r\<lparr>rv_reassembler := a\<rparr>, True)))"

definition TCPReceiver_after_syn :: "TCPReceiver \<Rightarrow> TCPSegment \<Rightarrow> (TCPReceiver \<times> bool) result" where
  "TCPReceiver_after_syn r seg =
     (if TCPReceiver_LISTEN r then Inr (r, False)
      else if th_fin (sg_header seg) \<and> TCPReceiver_FIN_RECV r then Inr (r, False)
      else if TCPReceiver_SYN_RECV r then TCPReceiver_accept r seg
      else Inr (r, True))"

definition TCPReceiver_segment_received :: "TCPReceiver \<Rightarrow> TCPSegment \<Rightarrow> (TCPReceiver \<times> bool) result" where
  "TCPReceiver_segment_received r seg =
     (if th_syn (sg_header seg) then
        if \<not> TCPReceiver_LISTEN r then Inr (r, False)
        else let r = r\<lparr>rv_ISN := Some (th_seqno (sg_header seg))\<rparr> in
          if TCPSegment_length_in_sequence_space seg = 1 then Inr (r, True)
          else TCPReceiver_after_syn r seg
      else TCPReceiver_after_syn r seg)"

section \<open>Acknowledgment number and window\<close>

lemma TCPReceiver_state_iff [simp]:
  "TCPReceiver_LISTEN r \<longleftrightarrow> rv_ISN r = None"
  "TCPReceiver_SYN_RECV r \<longleftrightarrow> rv_ISN r \<noteq> None \<and> \<not> bs_end (ra_output (rv_reassembler r))"
  "TCPReceiver_FIN_RECV r \<longleftrightarrow> bs_end (ra_output (rv_reassembler r))"
  by (auto simp: TCPReceiver_LISTEN_def TCPReceiver_SYN_RECV_def TCPReceiver_FIN_RECV_def TCPReceiver_ackno_def
      ByteStream_input_ended_def TCPReceiver_stream_out_def StreamReassembler_stream_out_def split: option.splits)

lemma unat_abs_ackno:
  assumes "unat (ra_assembled_bytes (rv_reassembler r)) + 2 < two64"
  shows "unat (TCPReceiver_abs_ackno r) = unat (ra_assembled_bytes (rv_reassembler r))
     + of_bool (rv_ISN r \<noteq> None) + of_bool (StreamReassembler_empty (rv_reassembler r))"
proof -
  let ?a = "ra_assembled_bytes (rv_reassembler r)" and ?i = "of_flag (rv_ISN r \<noteq> None)"
  have "unat (?a + ?i) = unat ?a + of_bool (rv_ISN r \<noteq> None)"
    using assms by (subst unat_add64) (auto simp: of_bool_def)
  then show ?thesis
    using assms unfolding TCPReceiver_abs_ackno_def StreamReassembler_assembled_bytes_def
    by (subst unat_add64) (auto simp: of_bool_def)
qed

lemma unat_window_size:
  assumes "ra_wf (rv_reassembler r)"
  shows "unat (TCPReceiver_window_size r) =
     window_end (rv_reassembler r) - unat (ra_assembled_bytes (rv_reassembler r))"
proof -
  let ?a = "rv_reassembler r"
  have ow: "out_wf (ra_capacity ?a) (ra_assembled_bytes ?a) (ra_output ?a)"
    using assms by (simp add: ra_wf_def)
  then have "unat (bs_byte_read (ra_output ?a)) \<le> unat (ra_assembled_bytes ?a)"
    "ByteStream_inv (ra_output ?a)" "bs_capacity (ra_output ?a) = ra_capacity ?a"
    by (simp_all add: out_wf_def word_nat)
  with out_wf_length [OF ow] show ?thesis
    by (simp add: TCPReceiver_window_size_def TCPReceiver_stream_out_def StreamReassembler_stream_out_def
        unat_remaining_capacity)
qed

section \<open>Segments of a stream\<close>

text \<open>
  The segments that a peer with initial sequence number \<open>isn\<close> sends of the stream \<open>S\<close>.  The offset of
  the sequence number from \<open>isn\<close> is the absolute sequence number; 0 is the SYN, and byte \<open>i\<close> of the
  stream has number \<open>i + 1\<close>.
\<close>

definition seg_offset :: "WrappingInt32 \<Rightarrow> TCPSegment \<Rightarrow> nat" where
  "seg_offset isn seg = unat (WrappingInt32_minus (th_seqno (sg_header seg)) isn)"

definition seg_index :: "WrappingInt32 \<Rightarrow> TCPSegment \<Rightarrow> nat" where
  "seg_index isn seg = (if th_syn (sg_header seg) then 0 else seg_offset isn seg - 1)"

definition seg_of_stream :: "bytes \<Rightarrow> WrappingInt32 \<Rightarrow> TCPSegment \<Rightarrow> bool" where
  "seg_of_stream S isn seg \<longleftrightarrow>
     Buffer_wf (sg_payload seg)
     \<and> (th_syn (sg_header seg) \<longleftrightarrow> seg_offset isn seg = 0)
     \<and> seg_index isn seg + length (Buffer_str (sg_payload seg)) \<le> length S
     \<and> Buffer_str (sg_payload seg) =
         take (length (Buffer_str (sg_payload seg))) (drop (seg_index isn seg) S)
     \<and> (th_fin (sg_header seg) \<longrightarrow> seg_index isn seg + length (Buffer_str (sg_payload seg)) = length S)"

section \<open>The handler on numbers\<close>

lemma unat_length_in_sequence_space:
  assumes "Buffer_wf (sg_payload seg)" and "length (Buffer_str (sg_payload seg)) + 2 < two64"
  shows "unat (TCPSegment_length_in_sequence_space seg) = length (Buffer_str (sg_payload seg))
     + of_bool (th_syn (sg_header seg)) + of_bool (th_fin (sg_header seg))"
proof -
  let ?n = "Buffer_size (sg_payload seg)" and ?s = "of_flag (th_syn (sg_header seg))"
  have n: "unat ?n = length (Buffer_str (sg_payload seg))" using assms(1) by (rule unat_Buffer_size)
  then have "unat (?n + ?s) = unat ?n + of_bool (th_syn (sg_header seg))"
    using assms(2) by (subst unat_add64) (auto simp: of_bool_def)
  then show ?thesis
    using assms(2) n unfolding TCPSegment_length_in_sequence_space_def
    by (subst unat_add64) (auto simp: of_bool_def)
qed

text \<open>
  The numbers in a wf receiver stay away from the end of the 64-bit range, and the segment's
  sequence number is within \<^verbatim>\<open>2^31\<close> of the acknowledgment number.
\<close>

definition rv_small :: "TCPReceiver \<Rightarrow> bool" where
  "rv_small r \<longleftrightarrow> ra_wf (rv_reassembler r) \<and> window_end (rv_reassembler r) + 2 ^ 33 < two64"

definition seg_near :: "TCPReceiver \<Rightarrow> WrappingInt32 \<Rightarrow> nat \<Rightarrow> TCPSegment \<Rightarrow> bool" where
  "seg_near r isn k seg \<longleftrightarrow> Buffer_wf (sg_payload seg) \<and> th_seqno (sg_header seg) = wrap (of_nat k) isn
     \<and> \<bar>int k - int (unat (TCPReceiver_abs_ackno r))\<bar> < 2 ^ 31
     \<and> (th_syn (sg_header seg) \<longleftrightarrow> k = 0)
     \<and> k + length (Buffer_str (sg_payload seg)) + 2 < two64"

lemma rv_small_bounds:
  assumes "rv_small r"
  shows "unat (TCPReceiver_abs_ackno r) = unat (ra_assembled_bytes (rv_reassembler r))
     + of_bool (rv_ISN r \<noteq> None) + of_bool (StreamReassembler_empty (rv_reassembler r))"
    and "unat (ra_assembled_bytes (rv_reassembler r)) \<le> window_end (rv_reassembler r)"
    and "unat (TCPReceiver_abs_ackno r) + 2 ^ 32 < two64"
    and "unat (TCPReceiver_abs_ackno r + TCPReceiver_window_size r)
           = unat (TCPReceiver_abs_ackno r) + unat (TCPReceiver_window_size r)"
    and "window_end (rv_reassembler r) < two64"
proof -
  let ?a = "rv_reassembler r"
  have p: "(2 :: nat) ^ 33 = 8589934592" "(2 :: nat) ^ 32 = 4294967296" by simp_all
  have "out_wf (ra_capacity ?a) (ra_assembled_bytes ?a) (ra_output ?a)"
    using assms by (simp add: rv_small_def ra_wf_def)
  then show le: "unat (ra_assembled_bytes ?a) \<le> window_end ?a" by (rule out_wf_window)
  have w: "window_end ?a + 8589934592 < two64" and wf: "ra_wf ?a"
    using assms by (simp_all add: rv_small_def)
  then show "window_end ?a < two64" by linarith
  have "unat (ra_assembled_bytes ?a) + 2 < two64" using le w by linarith
  then show ack: "unat (TCPReceiver_abs_ackno r) = unat (ra_assembled_bytes ?a)
     + of_bool (rv_ISN r \<noteq> None) + of_bool (StreamReassembler_empty ?a)"
    by (rule unat_abs_ackno)
  then have ub: "unat (TCPReceiver_abs_ackno r) \<le> unat (ra_assembled_bytes ?a) + 2"
    by (simp add: of_bool_def)
  then show "unat (TCPReceiver_abs_ackno r) + 2 ^ 32 < two64"
    unfolding p using le w by linarith
  show "unat (TCPReceiver_abs_ackno r + TCPReceiver_window_size r)
      = unat (TCPReceiver_abs_ackno r) + unat (TCPReceiver_window_size r)"
    using ub unat_window_size [OF wf] le w by (intro unat_add64) linarith
qed

lemma accept_cases:
  fixes r seg
  defines "ack \<equiv> unat (TCPReceiver_abs_ackno r)" and "win \<equiv> unat (TCPReceiver_window_size r)"
    and "len \<equiv> length (Buffer_str (sg_payload seg))" and "syn \<equiv> th_syn (sg_header seg)"
  assumes "rv_small r" and "rv_ISN r = Some isn" and "seg_near r isn k seg"
  shows "TCPReceiver_accept r seg =
     (if k + len + of_bool syn < ack then Inr (r, False)
      else if ack + win \<le> k \<and> \<not> (win = 0 \<and> len = 0 \<and> \<not> syn \<and> \<not> th_fin (sg_header seg)) then Inr (r, False)
      else bindE (StreamReassembler_push_substring (rv_reassembler r) (Buffer_str (sg_payload seg))
                    (of_nat (if syn then 0 else k - 1)) (th_fin (sg_header seg)))
             (\<lambda>a. Inr (r\<lparr>rv_reassembler := a\<rparr>, True)))"
proof -
  note b = rv_small_bounds [OF assms(5)]
  from assms(7) have s: "Buffer_wf (sg_payload seg)" "th_seqno (sg_header seg) = wrap (of_nat k) isn"
    "\<bar>int k - int (unat (TCPReceiver_abs_ackno r))\<bar> < 2 ^ 31" "syn \<longleftrightarrow> k = 0" "k + len + 2 < two64"
    by (simp_all add: seg_near_def syn_def len_def)
  have un: "unwrap (th_seqno (sg_header seg)) (the (rv_ISN r)) (TCPReceiver_abs_ackno r) = of_nat k"
    using unwrap_of_nat [OF b(3) s(3)] assms(6) s(2) by simp
  have k: "unat (of_nat k :: u64) = k" using s(5) by (simp add: unat_of_nat64)
  have size: "unat (Buffer_size (sg_payload seg)) = len" using s(1) by (simp add: unat_Buffer_size len_def)
  have "unat (of_nat k + Buffer_size (sg_payload seg)) = k + len"
    using s(5) k size by (subst unat_add64) simp_all
  then have end_: "unat (of_nat k + Buffer_size (sg_payload seg) + of_flag syn) = k + len + of_bool syn"
    using s(5) by (subst unat_add64) (auto simp: of_bool_def)
  have ls: "unat (TCPSegment_length_in_sequence_space seg) = len + of_bool syn + of_bool (th_fin (sg_header seg))"
    using s(1,5) by (subst unat_length_in_sequence_space) (simp_all add: len_def syn_def)
  then have z: "TCPSegment_length_in_sequence_space seg = 0 \<longleftrightarrow> len = 0 \<and> \<not> syn \<and> \<not> th_fin (sg_header seg)"
    unfolding word_unat_eq_iff by (simp add: of_bool_def)
  have ix: "of_nat k - of_flag (\<not> syn) = (of_nat (if syn then 0 else k - 1) :: u64)"
    using s(4) by (cases k) (simp_all add: of_flag_def)
  have c1: "of_nat k + Buffer_size (sg_payload seg) + of_flag syn < TCPReceiver_abs_ackno r \<longleftrightarrow> k + len + of_bool syn < ack"
    unfolding word_less_nat_alt end_ ack_def ..
  have c2: "of_nat k \<ge> TCPReceiver_abs_ackno r + TCPReceiver_window_size r \<longleftrightarrow> ack + win \<le> k"
    unfolding word_le_nat_alt b(4) k ack_def win_def ..
  have c3: "TCPReceiver_window_size r = 0 \<longleftrightarrow> win = 0"
    by (simp add: win_def unat_eq_0)
  show ?thesis
    unfolding TCPReceiver_accept_def Let_def un syn_def [symmetric] ix c1 c2 c3 z Buffer_copy_def by (rule refl)
qed

section \<open>A receiver delivers the peer's stream\<close>

datatype rv_op = Arrive TCPSegment | Read_app u64

fun rv_step :: "TCPReceiver \<Rightarrow> rv_op \<Rightarrow> (TCPReceiver \<times> bytes) result" where
  "rv_step r (Arrive seg) = bindE (TCPReceiver_segment_received r seg) (\<lambda>(r', accepted). Inr (r', []))"
| "rv_step r (Read_app n) =
     bindE (ByteStream_read (TCPReceiver_stream_out r) n)
       (\<lambda>(out, d). Inr (r\<lparr>rv_reassembler := (rv_reassembler r)\<lparr>ra_output := out\<rparr>\<rparr>, d))"

text \<open>A bare segment, such as an acknowledgment, has no data and no SYN or FIN; its number is free.\<close>

definition bare_seg :: "TCPSegment \<Rightarrow> bool" where
  "bare_seg seg \<longleftrightarrow> Buffer_wf (sg_payload seg) \<and> Buffer_str (sg_payload seg) = []
     \<and> \<not> th_syn (sg_header seg) \<and> \<not> th_fin (sg_header seg)"

fun rv_op_ok :: "bytes \<Rightarrow> WrappingInt32 \<Rightarrow> rv_op \<Rightarrow> bool" where
  "rv_op_ok S isn (Arrive seg) \<longleftrightarrow> seg_of_stream S isn seg \<or> bare_seg seg"
| "rv_op_ok S isn (Read_app n) \<longleftrightarrow> True"

definition rv_inv :: "bytes \<Rightarrow> WrappingInt32 \<Rightarrow> TCPReceiver \<Rightarrow> bool" where
  "rv_inv S isn r \<longleftrightarrow> ra_inv S (rv_reassembler r) \<and> (rv_ISN r = None \<or> rv_ISN r = Some isn)
     \<and> unat (ra_capacity (rv_reassembler r)) + length S + 2 ^ 33 < two64 \<and> length S + 2 < 2 ^ 31"

lemma rv_inv_small:
  assumes "rv_inv S isn r"
  shows "rv_small r" and "unat (TCPReceiver_abs_ackno r) \<le> length S + 2"
proof -
  let ?a = "rv_reassembler r"
  have a: "ra_wf ?a" "ra_stream S ?a" using assms by (simp_all add: rv_inv_def ra_inv_def)
  then have "unat (bs_byte_read (ra_output ?a)) \<le> unat (ra_assembled_bytes ?a)"
    "unat (ra_assembled_bytes ?a) \<le> length S"
    by (simp_all add: ra_wf_def out_wf_def ra_stream_def word_nat)
  moreover have "unat (ra_capacity ?a) + length S + 2 ^ 33 < two64"
    using assms by (simp add: rv_inv_def)
  ultimately show small: "rv_small r"
    using a(1) unfolding rv_small_def by linarith
  show "unat (TCPReceiver_abs_ackno r) \<le> length S + 2"
    using rv_small_bounds(1) [OF small] \<open>unat (ra_assembled_bytes ?a) \<le> length S\<close> by (simp add: of_bool_def)
qed

lemma seg_of_stream_near:
  assumes "rv_inv S isn r" and "seg_of_stream S isn seg"
  shows "seg_near r isn (seg_offset isn seg) seg"
    and "agrees S (of_nat (seg_index isn seg), Buffer_str (sg_payload seg))"
proof -
  let ?k = "seg_offset isn seg" and ?len = "length (Buffer_str (sg_payload seg))"
  have s: "Buffer_wf (sg_payload seg)" "th_syn (sg_header seg) \<longleftrightarrow> ?k = 0" "seg_index isn seg + ?len \<le> length S"
    "Buffer_str (sg_payload seg) = take ?len (drop (seg_index isn seg) S)"
    using assms(2) by (simp_all add: seg_of_stream_def)
  have S: "length S + 2 < 2147483648" "unat (ra_capacity (rv_reassembler r)) + length S + 8589934592 < two64"
    using assms(1) by (simp_all add: rv_inv_def)
  have kl: "?k + ?len \<le> length S + 1"
    using s(2,3) by (auto simp: seg_index_def split: if_splits)
  have "\<bar>int ?k - int (unat (TCPReceiver_abs_ackno r))\<bar> < 2147483648"
    using kl rv_inv_small(2) [OF assms(1)] S(1) by linarith
  moreover have "th_seqno (sg_header seg) = wrap (of_nat ?k) isn"
    by (simp only: seg_offset_def wrap_offset)
  moreover have "?k + ?len + 2 < two64" using kl S(2) by linarith
  ultimately show "seg_near r isn ?k seg"
    using s(1,2) unfolding seg_near_def by simp
  have "unat (of_nat (seg_index isn seg) :: u64) = seg_index isn seg"
    using s(3) S(2) by (intro unat_of_nat64) linarith
  then show "agrees S (of_nat (seg_index isn seg), Buffer_str (sg_payload seg))"
    using s(3,4) unfolding agrees_def by simp
qed

lemma accept_stream:
  assumes "rv_inv S isn r" and "rv_ISN r = Some isn" and "seg_of_stream S isn seg"
  obtains r' b where "TCPReceiver_accept r seg = Inr (r', b)" and "rv_inv S isn r'"
    and "ra_pos (rv_reassembler r') = ra_pos (rv_reassembler r)" and "rv_ISN r' = Some isn"
proof -
  note near = seg_of_stream_near [OF assms(1,3)] and small = rv_inv_small(1) [OF assms(1)]
  note cs = accept_cases [OF small assms(2) near(1)]
  let ?a = "rv_reassembler r" and ?i = "of_nat (seg_index isn seg) :: u64" and ?d = "Buffer_str (sg_payload seg)"
  have ix: "of_nat (if th_syn (sg_header seg) then 0 else seg_offset isn seg - 1) = ?i"
    by (simp add: seg_index_def)
  have a: "ra_wf ?a" "ra_stream S ?a" "ra_inv S ?a" using assms(1) by (simp_all add: rv_inv_def ra_inv_def)
  have "unat ?i + length ?d < two64"
    using near(2) a(3) by (cases "?d = []") (auto simp: agrees_def ra_inv_def unat_lt64)
  from push_substring_ok [OF a(1) rv_small_bounds(5) [OF small] this, of "th_fin (sg_header seg)"]
  obtain a' where a': "StreamReassembler_push_substring ?a ?d ?i (th_fin (sg_header seg)) = Inr a'"
    "ra_wf a'" "ra_capacity a' = ra_capacity ?a" "bs_byte_read (ra_output a') = bs_byte_read (ra_output ?a)"
    "ra_stream S a'"
    using a(2) near(2) by blast
  have inv': "rv_inv S isn (r\<lparr>rv_reassembler := a'\<rparr>)"
    using assms(1) a' by (simp add: rv_inv_def ra_inv_def)
  have "TCPReceiver_accept r seg = Inr (r, False) \<or> TCPReceiver_accept r seg = Inr (r\<lparr>rv_reassembler := a'\<rparr>, True)"
    unfolding cs ix a'(1) by simp
  then show ?thesis
    using that inv' assms(1,2) a'(4) by (auto simp: ra_pos_def)
qed

lemma syn_isn:
  assumes "seg_of_stream S isn seg" and "th_syn (sg_header seg)"
  shows "th_seqno (sg_header seg) = isn"
  using assms by (simp add: seg_of_stream_def seg_offset_def WrappingInt32_minus_def WrappingInt32_eq_iff unat_eq_0)

lemma segment_received_stream:
  assumes "rv_inv S isn r" and "seg_of_stream S isn seg"
  obtains r' b where "TCPReceiver_segment_received r seg = Inr (r', b)" and "rv_inv S isn r'"
    and "ra_pos (rv_reassembler r') = ra_pos (rv_reassembler r)"
proof -
  have after: "\<exists>r' b. TCPReceiver_after_syn q seg = Inr (r', b) \<and> rv_inv S isn r'
      \<and> ra_pos (rv_reassembler r') = ra_pos (rv_reassembler q)" if "rv_inv S isn q" for q
  proof (cases "rv_ISN q = Some isn")
    case True
    then show ?thesis
      using accept_stream [OF that True assms(2)] that
      by (metis TCPReceiver_after_syn_def TCPReceiver_state_iff(1) option.distinct(1))
  next
    case False
    with that have "rv_ISN q = None" by (simp add: rv_inv_def)
    then show ?thesis using that by (auto simp: TCPReceiver_after_syn_def intro: exI [of _ False])
  qed
  have syn: "rv_inv S isn (r\<lparr>rv_ISN := Some (th_seqno (sg_header seg))\<rparr>)" if "th_syn (sg_header seg)"
    using syn_isn [OF assms(2) that] assms(1) by (simp add: rv_inv_def)
  have "\<exists>r' b. TCPReceiver_segment_received r seg = Inr (r', b) \<and> rv_inv S isn r'
      \<and> ra_pos (rv_reassembler r') = ra_pos (rv_reassembler r)"
    using after [OF assms(1)] after [OF syn] syn assms(1)
    by (auto simp: TCPReceiver_segment_received_def Let_def simp del: TCPReceiver_state_iff)
  then show ?thesis using that by blast
qed

text \<open>
  Segments from anywhere: whatever the sequence number, the handler neither throws nor leaves the
  well-formed states.  A segment without data and flags, such as a bare acknowledgment, also leaves
  the stream as it is.
\<close>

lemma unwrap_bound: "unat c + 2 ^ 32 < two64 \<Longrightarrow> unat (unwrap n isn c) \<le> unat c + 2 ^ 32"
proof -
  assume c: "unat c + 2 ^ 32 < two64"
  have p: "unat (x - y) \<le> unat x" if "y \<le> x" for x y :: u64
    using that by (subst unat_sub64) simp_all
  have q: "unat (c + ucast (v :: u32)) \<le> unat c + 2 ^ 32" for v
  proof -
    have v: "unat (ucast v :: u64) < 2 ^ 32" using unsigned_less [of v, where 'a = nat] by simp
    with c show ?thesis by (subst unat_add64) (simp_all del: unat_ucast_u64)
  qed
  show ?thesis
    using p [THEN order_trans, of _ c "unat c + 2 ^ 32"] q by (auto simp: unwrap_def Let_def)
qed

lemma accept_any:
  assumes "rv_small r" and "Buffer_wf (sg_payload seg)" and "length (Buffer_str (sg_payload seg)) < 2 ^ 31"
  shows "\<exists>r' b. TCPReceiver_accept r seg = Inr (r', b) \<and> rv_small r' \<and> rv_ISN r' = rv_ISN r
     \<and> ra_capacity (rv_reassembler r') = ra_capacity (rv_reassembler r)
     \<and> bs_byte_read (ra_output (rv_reassembler r')) = bs_byte_read (ra_output (rv_reassembler r))
     \<and> bs_error (ra_output (rv_reassembler r')) = bs_error (ra_output (rv_reassembler r))
     \<and> (\<forall>S. ra_stream S (rv_reassembler r) \<and> Buffer_str (sg_payload seg) = [] \<longrightarrow> ra_stream S (rv_reassembler r'))"
proof -
  let ?a = "rv_reassembler r" and ?d = "Buffer_str (sg_payload seg)" and ?eof = "th_fin (sg_header seg)"
  let ?k = "unwrap (th_seqno (sg_header seg)) (the (rv_ISN r)) (TCPReceiver_abs_ackno r)"
  let ?i = "?k - of_flag (\<not> th_syn (sg_header seg))"
  have wf: "ra_wf ?a" and we: "window_end ?a + 2 ^ 33 < two64" using assms(1) by (simp_all add: rv_small_def)
  note b = rv_small_bounds [OF assms(1)]
  have "\<exists>a'. StreamReassembler_push_substring ?a ?d ?i ?eof = Inr a' \<and> ra_wf a' \<and> ra_capacity a' = ra_capacity ?a
      \<and> bs_byte_read (ra_output a') = bs_byte_read (ra_output ?a) \<and> bs_error (ra_output a') = bs_error (ra_output ?a)
      \<and> (\<forall>S. ra_stream S ?a \<and> ?d = [] \<longrightarrow> ra_stream S a')"
  proof (cases "?k = 0 \<and> \<not> th_syn (sg_header seg)")
    case True
    then have "?i = - 1" by (simp add: of_flag_def)
    then have "StreamReassembler_push_substring ?a ?d ?i ?eof = Inr ?a"
      by (simp add: StreamReassembler_push_substring_def Let_def)
    with wf show ?thesis by blast
  next
    case False
    have "unat ?i \<le> unat ?k"
      using False by (cases "th_syn (sg_header seg)") (simp_all add: of_flag_def unat_minus_one)
    moreover have "unat ?k \<le> unat (TCPReceiver_abs_ackno r) + 2 ^ 32" by (rule unwrap_bound [OF b(3)])
    moreover have "unat (TCPReceiver_abs_ackno r) \<le> window_end ?a + 2"
      using b(1,2) by (simp add: of_bool_def)
    ultimately have len: "unat ?i + length ?d < two64" using assms(3) we by simp
    have "agrees S (?i, [])" for S by (simp add: agrees_def)
    then show ?thesis
      using push_substring_ok [OF wf b(5) len, of ?eof] by (cases "?d = []") auto
  qed
  then obtain a' where a': "StreamReassembler_push_substring ?a ?d ?i ?eof = Inr a'" "ra_wf a'" "ra_capacity a' = ra_capacity ?a"
      "bs_byte_read (ra_output a') = bs_byte_read (ra_output ?a)" "bs_error (ra_output a') = bs_error (ra_output ?a)"
      "\<forall>S. ra_stream S ?a \<and> ?d = [] \<longrightarrow> ra_stream S a'" by blast
  have small: "rv_small (r\<lparr>rv_reassembler := a'\<rparr>)" using assms(1) a'(2-4) by (simp add: rv_small_def)
  have "TCPReceiver_accept r seg = Inr (r, False) \<or> TCPReceiver_accept r seg = Inr (r\<lparr>rv_reassembler := a'\<rparr>, True)"
    unfolding TCPReceiver_accept_def Let_def using a'(1) by (simp add: Buffer_copy_def)
  then show ?thesis
  proof
    assume "TCPReceiver_accept r seg = Inr (r, False)"
    then show ?thesis using assms(1) by (intro exI [of _ r] exI [of _ False]) simp
  next
    assume "TCPReceiver_accept r seg = Inr (r\<lparr>rv_reassembler := a'\<rparr>, True)"
    then show ?thesis using small a' by (intro exI [of _ "r\<lparr>rv_reassembler := a'\<rparr>"] exI [of _ True]) simp
  qed
qed

lemma after_syn_any:
  assumes "rv_small r" and "Buffer_wf (sg_payload seg)" and "length (Buffer_str (sg_payload seg)) < 2 ^ 31"
  shows "\<exists>r' b. TCPReceiver_after_syn r seg = Inr (r', b) \<and> rv_small r' \<and> rv_ISN r' = rv_ISN r
     \<and> ra_capacity (rv_reassembler r') = ra_capacity (rv_reassembler r)
     \<and> bs_byte_read (ra_output (rv_reassembler r')) = bs_byte_read (ra_output (rv_reassembler r))
     \<and> bs_error (ra_output (rv_reassembler r')) = bs_error (ra_output (rv_reassembler r))
     \<and> (\<forall>S. ra_stream S (rv_reassembler r) \<and> Buffer_str (sg_payload seg) = [] \<longrightarrow> ra_stream S (rv_reassembler r'))"
proof -
  consider "TCPReceiver_after_syn r seg = TCPReceiver_accept r seg" | b where "TCPReceiver_after_syn r seg = Inr (r, b)"
    unfolding TCPReceiver_after_syn_def by metis
  then show ?thesis using accept_any [OF assms] assms(1) by cases auto
qed

lemma segment_received_any:
  assumes "rv_small r" and "Buffer_wf (sg_payload seg)" and "length (Buffer_str (sg_payload seg)) < 2 ^ 31"
  obtains r' b where "TCPReceiver_segment_received r seg = Inr (r', b)" and "rv_small r'"
    and "ra_capacity (rv_reassembler r') = ra_capacity (rv_reassembler r)"
    and "bs_byte_read (ra_output (rv_reassembler r')) = bs_byte_read (ra_output (rv_reassembler r))"
    and "bs_error (ra_output (rv_reassembler r')) = bs_error (ra_output (rv_reassembler r))"
    and "rv_ISN r \<noteq> None \<or> \<not> th_syn (sg_header seg) \<longrightarrow> rv_ISN r' = rv_ISN r"
    and "th_syn (sg_header seg) \<longrightarrow> rv_ISN r' \<noteq> None"
    and "\<forall>S. ra_stream S (rv_reassembler r) \<and> Buffer_str (sg_payload seg) = [] \<longrightarrow> ra_stream S (rv_reassembler r')"
proof -
  let ?q = "r\<lparr>rv_ISN := Some (th_seqno (sg_header seg))\<rparr>"
  have small: "rv_small ?q" using assms(1) by (simp add: rv_small_def)
  obtain r1 b1 where one: "TCPReceiver_after_syn r seg = Inr (r1, b1)" "rv_small r1" "rv_ISN r1 = rv_ISN r"
    "ra_capacity (rv_reassembler r1) = ra_capacity (rv_reassembler r)"
    "bs_byte_read (ra_output (rv_reassembler r1)) = bs_byte_read (ra_output (rv_reassembler r))"
    "bs_error (ra_output (rv_reassembler r1)) = bs_error (ra_output (rv_reassembler r))"
    "\<And>S. ra_stream S (rv_reassembler r) \<Longrightarrow> Buffer_str (sg_payload seg) = [] \<Longrightarrow> ra_stream S (rv_reassembler r1)"
    using after_syn_any [OF assms] by blast
  obtain r2 b2 where two: "TCPReceiver_after_syn ?q seg = Inr (r2, b2)" "rv_small r2" "rv_ISN r2 = Some (th_seqno (sg_header seg))"
    "ra_capacity (rv_reassembler r2) = ra_capacity (rv_reassembler r)"
    "bs_byte_read (ra_output (rv_reassembler r2)) = bs_byte_read (ra_output (rv_reassembler r))"
    "bs_error (ra_output (rv_reassembler r2)) = bs_error (ra_output (rv_reassembler r))"
    "\<And>S. ra_stream S (rv_reassembler r) \<Longrightarrow> Buffer_str (sg_payload seg) = [] \<Longrightarrow> ra_stream S (rv_reassembler r2)"
    using after_syn_any [OF small assms(2,3)] by auto
  consider "\<not> th_syn (sg_header seg)" | "th_syn (sg_header seg)" "rv_ISN r \<noteq> None"
    | "th_syn (sg_header seg)" "rv_ISN r = None" "TCPSegment_length_in_sequence_space seg = 1"
    | "th_syn (sg_header seg)" "rv_ISN r = None" "TCPSegment_length_in_sequence_space seg \<noteq> 1" by blast
  then show ?thesis
  proof cases
    case 1
    then have "TCPReceiver_segment_received r seg = Inr (r1, b1)" using one(1) by (simp add: TCPReceiver_segment_received_def)
    from this one(2,4,5,6) show ?thesis by (rule that) (use 1 one in simp_all)
  next
    case 2
    then have "TCPReceiver_segment_received r seg = Inr (r, False)" by (simp add: TCPReceiver_segment_received_def)
    from this assms(1) refl refl refl show ?thesis by (rule that) (use 2 in simp_all)
  next
    case 3
    then have "TCPReceiver_segment_received r seg = Inr (?q, True)" by (simp add: TCPReceiver_segment_received_def)
    from this small show ?thesis by (rule that) (use 3 in simp_all)
  next
    case 4
    then have "TCPReceiver_segment_received r seg = Inr (r2, b2)"
      using two(1) by (simp add: TCPReceiver_segment_received_def)
    from this two(2,4,5,6) show ?thesis by (rule that) (use 4 two in simp_all)
  qed
qed

lemma segment_received_empty:
  assumes "rv_inv S isn r" and "Buffer_wf (sg_payload seg)" and "Buffer_str (sg_payload seg) = []" and "\<not> th_syn (sg_header seg)"
  obtains r' b where "TCPReceiver_segment_received r seg = Inr (r', b)" and "rv_inv S isn r'"
    and "ra_pos (rv_reassembler r') = ra_pos (rv_reassembler r)"
proof -
  have len: "length (Buffer_str (sg_payload seg)) < 2 ^ 31" using assms(3) by simp
  obtain r' b where s: "TCPReceiver_segment_received r seg = Inr (r', b)" "rv_small r'"
    "ra_capacity (rv_reassembler r') = ra_capacity (rv_reassembler r)"
    "bs_byte_read (ra_output (rv_reassembler r')) = bs_byte_read (ra_output (rv_reassembler r))"
    "bs_error (ra_output (rv_reassembler r')) = bs_error (ra_output (rv_reassembler r))"
    "rv_ISN r \<noteq> None \<or> \<not> th_syn (sg_header seg) \<longrightarrow> rv_ISN r' = rv_ISN r"
    "th_syn (sg_header seg) \<longrightarrow> rv_ISN r' \<noteq> None"
    "\<forall>S. ra_stream S (rv_reassembler r) \<and> Buffer_str (sg_payload seg) = [] \<longrightarrow> ra_stream S (rv_reassembler r')"
    by (rule segment_received_any [OF rv_inv_small(1) [OF assms(1)] assms(2) len])
  have "rv_inv S isn r'"
    using assms(1,3,4) s by (simp add: rv_inv_def ra_inv_def rv_small_def)
  with s(1,4) show ?thesis using that by (simp add: ra_pos_def)
qed

interpretation rv: prefix_reader rv_step "rv_inv S isn" "\<lambda>r. ra_pos (rv_reassembler r)" "rv_op_ok S isn" S for S isn
proof unfold_locales
  fix r op assume inv: "rv_inv S isn r" and ok: "rv_op_ok S isn op"
  show "\<exists>r' d. rv_step r op = Inr (r', d) \<and> rv_inv S isn r'
      \<and> ra_pos (rv_reassembler r') = ra_pos (rv_reassembler r) + length d
      \<and> d = take (length d) (drop (ra_pos (rv_reassembler r)) S)"
  proof (cases op)
    case (Arrive seg)
    with ok consider "seg_of_stream S isn seg" | "bare_seg seg" by auto
    then obtain r' b where "TCPReceiver_segment_received r seg = Inr (r', b)" "rv_inv S isn r'"
      "ra_pos (rv_reassembler r') = ra_pos (rv_reassembler r)"
      using segment_received_stream [OF inv] segment_received_empty [OF inv] unfolding bare_seg_def by metis
    with Arrive show ?thesis by fastforce
  next
    case (Read_app n)
    let ?a = "rv_reassembler r"
    from inv have ra: "ra_inv S ?a" by (simp add: rv_inv_def)
    then obtain a' d where a': "ra_step ?a (Read_out n) = Inr (a', d)" "ra_inv S a'" "ra_pos a' = ra_pos ?a + length d"
      "d = take (length d) (drop (ra_pos ?a) S)"
      using ra.step_law [of S ?a "Read_out n"] by auto
    from a'(1) obtain out where "ByteStream_read (ra_output ?a) n = Inr (out, d)" "a' = ?a\<lparr>ra_output := out\<rparr>"
      by (auto simp: bindE_Inr_iff StreamReassembler_stream_out_def)
    then have "rv_step r op = Inr (r\<lparr>rv_reassembler := a'\<rparr>, d)"
      by (simp add: Read_app TCPReceiver_stream_out_def StreamReassembler_stream_out_def)
    moreover have "rv_inv S isn (r\<lparr>rv_reassembler := a'\<rparr>)"
      using inv a'(2) \<open>a' = _\<close> by (simp add: rv_inv_def)
    ultimately show ?thesis using a'(3,4) by fastforce
  qed
qed

lemma TCPReceiver_new_inv:
  assumes "unat cap + length S + 2 ^ 33 < two64" and "length S + 2 < 2 ^ 31"
  shows "rv_inv S isn (TCPReceiver_new cap)" and "ra_pos (rv_reassembler (TCPReceiver_new cap)) = 0"
proof -
  have "ra_inv S (StreamReassembler_new cap)" "ra_pos (StreamReassembler_new cap) = 0"
    using assms(1) by (simp_all add: ra_inv_def ra_pos_def keeps_inv) (simp_all add: StreamReassembler_new_def)
  then show "rv_inv S isn (TCPReceiver_new cap)" and "ra_pos (rv_reassembler (TCPReceiver_new cap)) = 0"
    using assms by (simp_all add: rv_inv_def TCPReceiver_new_def) (simp add: StreamReassembler_new_def)
qed

section \<open>The end of the stream\<close>

text \<open>
  A FIN without data is in order when all of \<open>S\<close> is assembled.  The reassembler drops the position of
  a FIN without data that comes earlier, so the lemmas on the end of the stream leave that case out.
\<close>

fun fin_in_order :: "bytes \<Rightarrow> TCPReceiver \<Rightarrow> rv_op \<Rightarrow> bool" where
  "fin_in_order S r (Arrive seg) \<longleftrightarrow> (th_fin (sg_header seg) \<and> Buffer_str (sg_payload seg) = [] \<longrightarrow>
     unat (StreamReassembler_assembled_bytes (rv_reassembler r)) = length S)"
| "fin_in_order S r (Read_app n) \<longleftrightarrow> True"

fun fins_in_order :: "bytes \<Rightarrow> TCPReceiver \<Rightarrow> rv_op list \<Rightarrow> bool" where
  "fins_in_order S r [] \<longleftrightarrow> True"
| "fins_in_order S r (op # ops) \<longleftrightarrow> fin_in_order S r op
     \<and> (case rv_step r op of Inl e \<Rightarrow> True | Inr (r', d) \<Rightarrow> fins_in_order S r' ops)"

lemma accept_fin:
  assumes inv: "rv_inv S isn r" and isn: "rv_ISN r = Some isn" and ok: "rv_op_ok S isn (Arrive seg)"
    and fin: "ra_fin S (rv_reassembler r)" "fin_in_order S r (Arrive seg)"
    and step: "TCPReceiver_accept r seg = Inr (r', b)"
  shows "ra_fin S (rv_reassembler r')"
proof -
  let ?a = "rv_reassembler r" and ?d = "Buffer_str (sg_payload seg)" and ?eof = "th_fin (sg_header seg)"
  have a: "ra_wf ?a" "ra_stream S ?a" "window_end ?a < two64"
    using inv rv_small_bounds(5) [OF rv_inv_small(1) [OF inv]] by (simp_all add: rv_inv_def ra_inv_def)
  have push: "ra_fin S a'" if "StreamReassembler_push_substring ?a ?d i ?eof = Inr a'" "unat i + length ?d < two64"
    "agrees S (i, ?d)" "?eof \<longrightarrow> unat i + length ?d = length S" for i a'
    using that fin by (intro push_substring_fin [OF a(1,3) that(2) a(2) that(3) fin(1) _ that(1)])
      (auto simp: eof_with_data_def StreamReassembler_assembled_bytes_def)
  from ok consider "seg_of_stream S isn seg" | "bare_seg seg" by auto
  then show ?thesis
  proof cases
    case 1
    let ?i = "of_nat (seg_index isn seg) :: u64"
    note near = seg_of_stream_near [OF inv 1]
    have "seg_index isn seg + length ?d < two64" using 1 inv by (simp add: seg_of_stream_def rv_inv_def)
    then have "unat ?i = seg_index isn seg" "unat ?i + length ?d < two64"
      using unat_of_nat64 [of "seg_index isn seg"] by simp_all
    with push [of ?i] near(2) 1 step fin(1) show ?thesis
      unfolding accept_cases [OF rv_inv_small(1) [OF inv] isn near(1)] seg_index_def [symmetric]
      by (auto simp: seg_of_stream_def bindE_Inr_iff split: if_splits)
  next
    case 2
    then have "?d = []" "\<not> ?eof" by (simp_all add: bare_seg_def)
    with push step fin(1) show ?thesis
      by (auto simp: TCPReceiver_accept_def Let_def Buffer_copy_def bindE_Inr_iff agrees_def unat_lt64 split: if_splits)
  qed
qed

lemma segment_received_fin:
  assumes inv: "rv_inv S isn r" and ok: "rv_op_ok S isn (Arrive seg)"
    and fin: "ra_fin S (rv_reassembler r)" "fin_in_order S r (Arrive seg)"
    and step: "TCPReceiver_segment_received r seg = Inr (r', b)"
  shows "ra_fin S (rv_reassembler r')"
proof -
  have after: "ra_fin S (rv_reassembler q')" if "TCPReceiver_after_syn q seg = Inr (q', c)" "rv_inv S isn q"
    "rv_reassembler q = rv_reassembler r" for q q' c
    using that fin accept_fin [OF that(2) _ ok, of q' c] by (auto simp: TCPReceiver_after_syn_def rv_inv_def split: if_splits)
  have syn: "rv_inv S isn (r\<lparr>rv_ISN := Some (th_seqno (sg_header seg))\<rparr>)" if "th_syn (sg_header seg)"
    using syn_isn [OF _ that] ok that inv by (auto simp: bare_seg_def rv_inv_def)
  show ?thesis
    using step fin(1) after [OF _ inv] after [OF _ syn]
    by (auto simp: TCPReceiver_segment_received_def Let_def split: if_splits)
qed

lemma rv_step_fin:
  assumes "rv_inv S isn r" and "rv_op_ok S isn op" and "ra_fin S (rv_reassembler r)" and "fin_in_order S r op"
    and "rv_step r op = Inr (r', d)"
  shows "ra_fin S (rv_reassembler r')"
proof (cases op)
  case (Arrive seg)
  then show ?thesis using assms segment_received_fin [OF assms(1)] by (auto simp: bindE_Inr_iff simp del: rv_op_ok.simps fin_in_order.simps)
next
  case (Read_app n)
  then obtain out where "ByteStream_read (ra_output (rv_reassembler r)) n = Inr (out, d)"
    "r' = r\<lparr>rv_reassembler := (rv_reassembler r)\<lparr>ra_output := out\<rparr>\<rparr>"
    using assms(5) by (auto simp: bindE_Inr_iff TCPReceiver_stream_out_def StreamReassembler_stream_out_def)
  moreover from this(1) have "bs_end out = bs_end (ra_output (rv_reassembler r))"
    by (auto simp: ByteStream_read_def bindE_Inr_iff ByteStream_pop_output_def Let_def split: if_splits)
  ultimately show ?thesis using assms(3) by (simp add: ra_fin_def)
qed

lemma run_fin:
  "rv_inv S isn r \<Longrightarrow> list_all (rv_op_ok S isn) ops \<Longrightarrow> ra_fin S (rv_reassembler r) \<Longrightarrow> fins_in_order S r ops \<Longrightarrow>
   \<exists>r' d. run_ops rv_step r ops = Inr (r', d) \<and> rv_inv S isn r' \<and> ra_fin S (rv_reassembler r')"
proof (induction ops arbitrary: r)
  case (Cons op ops)
  then obtain r1 d1 where s: "rv_step r op = Inr (r1, d1)" "rv_inv S isn r1"
    using rv.step_law [of S isn r op] by auto
  moreover have "ra_fin S (rv_reassembler r1)" using rv_step_fin Cons.prems s(1) by auto
  ultimately obtain r2 d2 where "run_ops rv_step r1 ops = Inr (r2, d2)" "rv_inv S isn r2" "ra_fin S (rv_reassembler r2)"
    using Cons.IH [of r1] Cons.prems by auto
  with s(1) show ?case by simp
qed simp

lemma empty_at_end:
  assumes "ra_wf a" and "ra_stream S a" and "ra_fin S a"
  shows "StreamReassembler_empty a \<longleftrightarrow> ra_eof a \<and> unat (ra_assembled_bytes a) = length S"
proof -
  have "X \<subseteq> {i ..< j} \<Longrightarrow> X \<subseteq> {..< k} \<Longrightarrow> X \<subseteq> {i ..< k}" for X and i j k :: nat by (auto simp: subset_iff)
  from this [OF covered_window [OF assms(1)] covered_below_stream [OF assms(2)]]
  have c: "covered (entries a) \<subseteq> {unat (ra_assembled_bytes a) ..< length S}" .
  have "unat (StreamReassembler_unassembled_bytes a) = card (covered (entries a))"
    by (rule stored_minus_assembled(2) [OF assms(1)])
  then have "ra_stored_bytes a = ra_assembled_bytes a \<longleftrightarrow> covered (entries a) = {}"
    using finite_subset [OF c] unfolding StreamReassembler_unassembled_bytes_def
    by (metis card_eq_0_iff finite_atLeastLessThan right_minus_eq unat_eq_0)
  moreover have "covered (entries a) = {}" if "unat (ra_assembled_bytes a) = length S"
    using c that by simp
  ultimately show ?thesis
    using assms(3) unfolding StreamReassembler_empty_def ra_fin_def by blast
qed

section \<open>Properties\<close>

text \<open>
  C4: Take any stream \<open>S\<close> shorter than \<^verbatim>\<open>2^31 - 2\<close> bytes that a peer sends from any initial sequence
  number.  Whatever segments of it arrive, in any order, cut anywhere, repeated or lost, mixed with bare
  acknowledgments of any number, and however the application's reads interleave with them, no call throws, and what the application has read
  followed by what it can read is exactly the first \<^verbatim>\<open>assembled_bytes()\<close> bytes of \<open>S\<close>.
\<close>

theorem receiver_delivers_prefix:
  assumes "list_all (rv_op_ok S isn) ops" and "unat cap + length S + 2 ^ 33 < two64" and "length S + 2 < 2 ^ 31"
  shows "\<exists>r d. run_ops rv_step (TCPReceiver_new cap) ops = Inr (r, d)
     \<and> d @ ByteStream_contents (TCPReceiver_stream_out r) =
         take (unat (StreamReassembler_assembled_bytes (rv_reassembler r))) S"
proof -
  let ?r = "TCPReceiver_new cap"
  note inv = TCPReceiver_new_inv [OF assms(2,3)]
  from rv.run_law [OF inv(1) assms(1)] obtain r d where r: "run_ops rv_step ?r ops = Inr (r, d)"
    "rv_inv S isn r" "ra_pos (rv_reassembler r) = length d" "d = take (length d) S"
    unfolding inv(2) by (metis add_0 drop0)
  have "d @ ByteStream_contents (ra_output (rv_reassembler r)) = take (unat (ra_assembled_bytes (rv_reassembler r))) S"
    using r(2-4) by (intro delivered_prefix) (simp_all add: rv_inv_def ra_inv_def)
  with r(1) show ?thesis
    by (auto simp: TCPReceiver_stream_out_def StreamReassembler_stream_out_def StreamReassembler_assembled_bytes_def)
qed

definition sample_seg :: "u32 \<Rightarrow> bool \<Rightarrow> bool \<Rightarrow> bytes \<Rightarrow> TCPSegment" where
  "sample_seg seqno syn fin d = \<lparr>sg_header = TCPHeader_default\<lparr>th_seqno := WrappingInt32_of seqno, th_syn := syn,
     th_fin := fin\<rparr>, sg_payload = Buffer_of_string d\<rparr>"

lemma seg_of_stream_sample:
  "seg_of_stream [10, 11, 12] (WrappingInt32_of 4294967295) (sample_seg 4294967295 True False [])"
  "seg_of_stream [10, 11, 12] (WrappingInt32_of 4294967295) (sample_seg 1 False True [11, 12])"
  "seg_of_stream [10, 11, 12] (WrappingInt32_of 4294967295) (sample_seg 0 False False [10, 11])"
  by (simp_all add: seg_of_stream_def sample_seg_def seg_index_def seg_offset_def WrappingInt32_minus_def
      WrappingInt32_of_def two64_def)

theorem receiver_delivers_prefix_witness:
  "\<exists>r d. run_ops rv_step (TCPReceiver_new 4)
       [Arrive (sample_seg 4294967295 True False []), Arrive (sample_seg 1 False True [11, 12]),
        Arrive (sample_seg 0 False False [10, 11]), Read_app 2] = Inr (r, d)
     \<and> d @ ByteStream_contents (TCPReceiver_stream_out r) =
         take (unat (StreamReassembler_assembled_bytes (rv_reassembler r))) [10, 11, 12]"
  by (rule receiver_delivers_prefix [where isn = "WrappingInt32_of 4294967295"])
    (simp_all add: seg_of_stream_sample two64_def)

text \<open>
  C26: Take segments of a stream \<open>S\<close> in any order, cut anywhere and repeated, mixed with bare
  acknowledgments and reads, where a FIN without data does not come before the last byte (the case that
  loses data).  Then before the SYN \<^verbatim>\<open>ackno()\<close> is empty; from then on it is the wrapped number
  of the first byte that has not been received, and one further exactly when a FIN was taken and all of \<open>S\<close> has been received;
  and \<^verbatim>\<open>window_size()\<close> is the distance from the first missing byte to the first byte that
  the reassembler would discard.
\<close>

theorem receiver_ackno_window:
  assumes "list_all (rv_op_ok S isn) ops" and "unat cap + length S + 2 ^ 33 < two64" and "length S + 2 < 2 ^ 31"
    and "fins_in_order S (TCPReceiver_new cap) ops"
  shows "\<exists>r d. run_ops rv_step (TCPReceiver_new cap) ops = Inr (r, d)
     \<and> (let first = LEAST n. n \<notin> received (ra_used_byte (rv_reassembler r)) in
        TCPReceiver_ackno r = (if rv_ISN r = None then None
          else Some (wrap (of_nat (1 + first + of_bool (ra_eof (rv_reassembler r) \<and> first = length S))) isn))
        \<and> unat (TCPReceiver_window_size r) = window_end (rv_reassembler r) - first)"
proof -
  have "ra_fin S (rv_reassembler (TCPReceiver_new cap))"
    by (simp add: TCPReceiver_new_def StreamReassembler_new_def ra_fin_def ByteStream_new_def)
  then obtain r d where r: "run_ops rv_step (TCPReceiver_new cap) ops = Inr (r, d)" "rv_inv S isn r"
    "ra_fin S (rv_reassembler r)"
    using run_fin [OF TCPReceiver_new_inv(1) [OF assms(2,3)] assms(1) _ assms(4)] by blast
  let ?a = "rv_reassembler r"
  have a: "ra_wf ?a" "ra_stream S ?a" using r(2) by (simp_all add: rv_inv_def ra_inv_def)
  have least: "(LEAST n. n \<notin> received (ra_used_byte ?a)) = unat (ra_assembled_bytes ?a)"
    using first_missing [OF a(1)] by (intro Least_equality) (auto simp: subset_iff not_less [symmetric])
  have "TCPReceiver_abs_ackno r = of_nat (1 + unat (ra_assembled_bytes ?a)
      + of_bool (ra_eof ?a \<and> unat (ra_assembled_bytes ?a) = length S))" if "rv_ISN r = Some isn"
    using that empty_at_end [OF a r(3)] by (simp add: TCPReceiver_abs_ackno_def of_flag_def StreamReassembler_assembled_bytes_def)
  then have "TCPReceiver_ackno r = (if rv_ISN r = None then None else Some (wrap (of_nat (1 + unat (ra_assembled_bytes ?a)
      + of_bool (ra_eof ?a \<and> unat (ra_assembled_bytes ?a) = length S))) isn))"
    using r(2) by (auto simp: TCPReceiver_ackno_def rv_inv_def)
  then show ?thesis
    using r(1) unat_window_size [OF a(1)] unfolding Let_def by (intro exI [of _ r] exI [of _ d]) (simp only: least)
qed

definition listening :: TCPReceiver where
  "listening = (TCPReceiver_new 4)\<lparr>rv_ISN := Some (WrappingInt32_of 9)\<rparr>"

lemma listening_small: "rv_small listening" "rv_ISN listening = Some (WrappingInt32_of 9)"
  "window_end (rv_reassembler listening) = 4" "unat (TCPReceiver_abs_ackno listening) = 1"
  "unat (TCPReceiver_window_size listening) = 4"
proof -
  have a: "rv_reassembler listening = StreamReassembler_new 4"
    by (simp add: listening_def TCPReceiver_new_def)
  then show w: "window_end (rv_reassembler listening) = 4"
    by (simp add: StreamReassembler_new_def)
  show small: "rv_small listening"
    unfolding rv_small_def w unfolding a by (simp add: keeps_inv two64_def)
  show isn: "rv_ISN listening = Some (WrappingInt32_of 9)" by (simp add: listening_def)
  show "unat (TCPReceiver_abs_ackno listening) = 1"
    unfolding rv_small_bounds(1) [OF small] isn unfolding a
    by (simp add: StreamReassembler_new_def StreamReassembler_empty_def)
  show "unat (TCPReceiver_window_size listening) = 4"
    using unat_window_size [of listening] small w unfolding a by (simp add: rv_small_def a) (simp add: StreamReassembler_new_def)
qed

theorem receiver_ackno_window_witness:
  "\<exists>r d. run_ops rv_step (TCPReceiver_new 4)
       [Arrive (sample_seg 4294967295 True False []), Arrive (sample_seg 1 False True [11, 12]),
        Arrive (sample_seg 0 False False [10, 11])] = Inr (r, d)
     \<and> (let first = LEAST n. n \<notin> received (ra_used_byte (rv_reassembler r)) in
        TCPReceiver_ackno r = (if rv_ISN r = None then None
          else Some (wrap (of_nat (1 + first + of_bool (ra_eof (rv_reassembler r) \<and> first = length [10 :: byte, 11, 12])))
            (WrappingInt32_of 4294967295)))
        \<and> unat (TCPReceiver_window_size r) = window_end (rv_reassembler r) - first)"
proof (rule receiver_ackno_window)
  show "list_all (rv_op_ok [10, 11, 12] (WrappingInt32_of 4294967295))
      [Arrive (sample_seg 4294967295 True False []), Arrive (sample_seg 1 False True [11, 12]),
       Arrive (sample_seg 0 False False [10, 11])]"
    by (simp add: seg_of_stream_sample)
  show "fins_in_order [10, 11, 12] (TCPReceiver_new 4)
      [Arrive (sample_seg 4294967295 True False []), Arrive (sample_seg 1 False True [11, 12]),
       Arrive (sample_seg 0 False False [10, 11])]"
    by (auto simp: sample_seg_def split: sum.splits)
qed (simp_all add: two64_def)

text \<open>
  C27: The verdict on a data segment while the stream is open.  A segment that ends before the
  acknowledgment number, or starts at or beyond the end of the window, is refused and changes
  nothing; an empty one is tolerated when the window is closed.  Every other segment is accepted, and
  the receiver then holds, besides what it had, exactly the part of the payload inside its window.
\<close>

theorem receiver_segment_verdict:
  assumes "rv_small r" and "rv_ISN r = Some isn" and "\<not> TCPReceiver_FIN_RECV r"
    and "seg_near r isn k seg" and "\<not> th_syn (sg_header seg)"
  shows "let ack = unat (TCPReceiver_abs_ackno r); win = unat (TCPReceiver_window_size r);
             d = Buffer_str (sg_payload seg) in
     if k + length d < ack \<or> (ack + win \<le> k \<and> \<not> (win = 0 \<and> d = [] \<and> \<not> th_fin (sg_header seg)))
     then TCPReceiver_segment_received r seg = Inr (r, False)
     else \<exists>a'. TCPReceiver_segment_received r seg = Inr (r\<lparr>rv_reassembler := a'\<rparr>, True) \<and> ra_wf a'
          \<and> received (ra_used_byte a') = received (ra_used_byte (rv_reassembler r))
              \<union> ({k - 1 ..< k - 1 + length d} \<inter> {..< window_end (rv_reassembler r)})"
proof -
  let ?a = "rv_reassembler r" and ?d = "Buffer_str (sg_payload seg)"
  have rcv: "TCPReceiver_segment_received r seg = TCPReceiver_accept r seg"
    using assms(2,3,5) by (simp add: TCPReceiver_segment_received_def TCPReceiver_after_syn_def)
  have k: "k + length ?d + 2 < two64" "k \<noteq> 0"
    using assms(4,5) by (auto simp: seg_near_def)
  then have "unat (of_nat (k - 1) :: u64) = k - 1" by (intro unat_of_nat64) linarith
  moreover from this have "unat (of_nat (k - 1) :: u64) + length ?d < two64" using k by simp
  moreover have "ra_wf ?a" using assms(1) by (simp add: rv_small_def)
  ultimately obtain a' where "StreamReassembler_push_substring ?a ?d (of_nat (k - 1)) (th_fin (sg_header seg)) = Inr a'"
    "ra_wf a'" "received (ra_used_byte a') = received (ra_used_byte ?a)
      \<union> ({k - 1 ..< k - 1 + length ?d} \<inter> {..< window_end ?a})"
    using push_substring_ok [of ?a "of_nat (k - 1)" ?d "th_fin (sg_header seg)"] rv_small_bounds(5) [OF assms(1)]
    by (auto simp: span_def)
  then show ?thesis
    using accept_cases [OF assms(1,2,4)] assms(5) unfolding rcv Let_def by auto
qed

theorem receiver_segment_verdict_witness:
  "\<exists>a'. TCPReceiver_segment_received listening (sample_seg 12 False False [1, 2, 3]) = Inr (listening\<lparr>rv_reassembler := a'\<rparr>, True)
     \<and> ra_wf a' \<and> received (ra_used_byte a') = received (ra_used_byte (rv_reassembler listening)) \<union> {2, 3}"
proof -
  let ?seg = "sample_seg 12 False False [1, 2, 3]"
  have "\<not> TCPReceiver_FIN_RECV listening"
    by (simp add: listening_def TCPReceiver_new_def StreamReassembler_new_def)
  moreover have "seg_near listening (WrappingInt32_of 9) 3 ?seg"
    unfolding seg_near_def listening_small
    by (simp add: sample_seg_def two64_def WrappingInt32_eq_iff WrappingInt32_of_def)
  moreover have "\<not> th_syn (sg_header ?seg)" "Buffer_str (sg_payload ?seg) = [1, 2, 3]"
    by (simp_all add: sample_seg_def)
  moreover have "{2 ..< 2 + length [1, 2, 3 :: byte]} \<inter> {..< 4} = {2, 3 :: nat}" by auto
  ultimately show ?thesis
    using receiver_segment_verdict [OF listening_small(1,2)] unfolding Let_def
    by (fastforce simp: listening_small)
qed

text \<open>
  C39: A FIN without data that overtakes data makes the receiver lose that data: it acknowledges one number more,
  the number of a byte it has not received, it considers the stream ended, and every later data
  segment is dropped without effect.
\<close>

theorem bare_fin_loses_data:
  assumes "rv_small r" and "rv_ISN r = Some isn" and "\<not> TCPReceiver_FIN_RECV r"
    and "TCPReceiver_unassembled_bytes r = 0" and "seg_near r isn k seg"
    and "Buffer_str (sg_payload seg) = []" and "th_fin (sg_header seg)"
    and "unat (TCPReceiver_abs_ackno r) < k" and "k < unat (TCPReceiver_abs_ackno r) + unat (TCPReceiver_window_size r)"
    and "\<not> th_syn (sg_header late)" and "\<not> ra_eof (rv_reassembler r)"
  shows "\<exists>r' b. TCPReceiver_segment_received r seg = Inr (r', True)
     \<and> unat (TCPReceiver_abs_ackno r') = unat (TCPReceiver_abs_ackno r) + 1 \<and> TCPReceiver_FIN_RECV r'
     \<and> StreamReassembler_assembled_bytes (rv_reassembler r') = StreamReassembler_assembled_bytes (rv_reassembler r)
     \<and> TCPReceiver_segment_received r' late = Inr (r', b)"
proof -
  let ?a = "rv_reassembler r" and ?ack = "unat (TCPReceiver_abs_ackno r)"
  have wf: "ra_wf ?a" using assms(1) by (simp add: rv_small_def)
  note b = rv_small_bounds [OF assms(1)]
  have nosyn: "\<not> th_syn (sg_header seg)" using assms(5,8) by (simp add: seg_near_def)
  have noempty: "\<not> StreamReassembler_empty ?a" using assms(11) by (simp add: StreamReassembler_empty_def)
  then have ack: "?ack = unat (ra_assembled_bytes ?a) + 1" using b(1) assms(2) by simp
  have win: "unat (TCPReceiver_window_size r) = window_end ?a - unat (ra_assembled_bytes ?a)" by (rule unat_window_size [OF wf])
  have lt: "k - 1 < window_end ?a" using assms(8,9) ack win b(2) by linarith
  have ix: "unat (of_nat (k - 1) :: u64) = k - 1" using lt b(5) by (intro unat_of_nat64) linarith
  have un: "StreamReassembler_unassembled_bytes ?a = 0" using assms(4) by (simp add: TCPReceiver_unassembled_bytes_def)
  obtain a' where a': "StreamReassembler_push_substring ?a [] (of_nat (k - 1)) True = Inr a'" "bs_end (ra_output a')"
    "StreamReassembler_empty a'" "ra_assembled_bytes a' = ra_assembled_bytes ?a" "ra_wf a'"
    using push_bare_eof [OF wf b(5) un, of "of_nat (k - 1)"] lt ix by auto
  have "TCPReceiver_accept r seg = Inr (r\<lparr>rv_reassembler := a'\<rparr>, True)"
    using accept_cases [OF assms(1,2,5)] nosyn assms(6-9) a'(1) by simp
  then have run: "TCPReceiver_segment_received r seg = Inr (r\<lparr>rv_reassembler := a'\<rparr>, True)"
    using nosyn assms(2,3) by (simp add: TCPReceiver_segment_received_def TCPReceiver_after_syn_def)
  let ?r = "r\<lparr>rv_reassembler := a'\<rparr>"
  have "unat (TCPReceiver_abs_ackno ?r) = unat (ra_assembled_bytes ?a) + 2"
    using a'(3,4) assms(2) b(2) rv_small_def assms(1) by (subst unat_abs_ackno) auto
  moreover have "TCPReceiver_segment_received ?r late = Inr (?r, \<not> th_fin (sg_header late))"
    using assms(2,10) a'(2) by (simp add: TCPReceiver_segment_received_def TCPReceiver_after_syn_def)
  ultimately show ?thesis
    using run ack a'(2,4) by (intro exI [of _ ?r] exI [of _ "\<not> th_fin (sg_header late)"])
      (simp add: StreamReassembler_assembled_bytes_def)
qed

theorem bare_fin_loses_data_witness:
  "\<exists>r' b. TCPReceiver_segment_received listening (sample_seg 12 False True []) = Inr (r', True)
     \<and> unat (TCPReceiver_abs_ackno r') = 2 \<and> TCPReceiver_FIN_RECV r'
     \<and> StreamReassembler_assembled_bytes (rv_reassembler r') = 0
     \<and> TCPReceiver_segment_received r' (sample_seg 10 False False [1, 2]) = Inr (r', b)"
proof -
  let ?seg = "sample_seg 12 False True []" and ?late = "sample_seg 10 False False [1, 2]"
  have near: "seg_near listening (WrappingInt32_of 9) 3 ?seg"
    unfolding seg_near_def listening_small
    by (simp add: sample_seg_def two64_def WrappingInt32_eq_iff WrappingInt32_of_def)
  have l: "\<not> TCPReceiver_FIN_RECV listening" "TCPReceiver_unassembled_bytes listening = 0" "\<not> ra_eof (rv_reassembler listening)"
    "StreamReassembler_assembled_bytes (rv_reassembler listening) = 0"
    by (simp_all add: listening_def TCPReceiver_new_def StreamReassembler_new_def TCPReceiver_unassembled_bytes_def
        StreamReassembler_unassembled_bytes_def StreamReassembler_assembled_bytes_def)
  have "\<exists>r' b. TCPReceiver_segment_received listening ?seg = Inr (r', True)
     \<and> unat (TCPReceiver_abs_ackno r') = unat (TCPReceiver_abs_ackno listening) + 1 \<and> TCPReceiver_FIN_RECV r'
     \<and> StreamReassembler_assembled_bytes (rv_reassembler r') = StreamReassembler_assembled_bytes (rv_reassembler listening)
     \<and> TCPReceiver_segment_received r' ?late = Inr (r', b)"
    by (rule bare_fin_loses_data [OF listening_small(1,2) l(1,2) near])
      (use l(3) in \<open>simp_all add: listening_small(4,5) sample_seg_def\<close>)
  then show ?thesis by (simp add: listening_small(4) l(4) numeral_2_eq_2)
qed

end
