(* ===== verification/TCP_Sender.thy ===== *)
theory TCP_Sender
  imports Containers Byte_Stream TCP_Segment
begin

text \<open>
  \<^verbatim>\<open>libsponge/tcp_sender.hh\<close>, \<^verbatim>\<open>tcp_sender.cc\<close> and the constants of \<^verbatim>\<open>tcp_helpers/tcp_config.hh\<close>: the
  retransmission timer, the window of outstanding segments and the operations of \<^verbatim>\<open>TCPSender\<close>.  The
  set of outstanding segments is the ordered list of \<open>Containers\<close> keyed by the absolute sequence
  number.  The loop of \<^verbatim>\<open>fill_window\<close> has no bound of its own, so it is a partial function; that it
  returns is proved in \<open>Sender_Window\<close>.
\<close>

section \<open>Configuration\<close>

definition TCPConfig_DEFAULT_CAPACITY :: u64 where
  "TCPConfig_DEFAULT_CAPACITY = 64000"

definition TCPConfig_MAX_PAYLOAD_SIZE :: u64 where
  "TCPConfig_MAX_PAYLOAD_SIZE = 1452"

definition TCPConfig_TIMEOUT_DFLT :: u16 where
  "TCPConfig_TIMEOUT_DFLT = 1000"

definition TCPConfig_MAX_RETX_ATTEMPTS :: u32 where
  "TCPConfig_MAX_RETX_ATTEMPTS = 8"

record TCPConfig =
  cf_rt_timeout :: u16
  cf_recv_capacity :: u64
  cf_send_capacity :: u64
  cf_fixed_isn :: "WrappingInt32 option"

definition TCPConfig_default :: TCPConfig where
  "TCPConfig_default = \<lparr>cf_rt_timeout = TCPConfig_TIMEOUT_DFLT, cf_recv_capacity = TCPConfig_DEFAULT_CAPACITY,
     cf_send_capacity = TCPConfig_DEFAULT_CAPACITY, cf_fixed_isn = None\<rparr>"

section \<open>The retransmission timer\<close>

record RetransmissionTimer =
  rt_remaining_time :: u32
  rt_is_expired :: bool
  rt_is_stopped :: bool

definition RetransmissionTimer_new :: "u32 \<Rightarrow> bool \<Rightarrow> bool \<Rightarrow> RetransmissionTimer" where
  "RetransmissionTimer_new initial_time set_expired set_stopped =
     \<lparr>rt_remaining_time = initial_time, rt_is_expired = set_expired, rt_is_stopped = set_stopped\<rparr>"

definition RetransmissionTimer_time_expired :: "RetransmissionTimer \<Rightarrow> u32 \<Rightarrow> RetransmissionTimer" where
  "RetransmissionTimer_time_expired t time_to_expire =
     (if rt_is_stopped t then t
      else if time_to_expire \<ge> rt_remaining_time t then t\<lparr>rt_is_expired := True\<rparr>
      else t\<lparr>rt_remaining_time := rt_remaining_time t - time_to_expire\<rparr>)"

definition RetransmissionTimer_is_expired :: "RetransmissionTimer \<Rightarrow> bool" where
  "RetransmissionTimer_is_expired t \<longleftrightarrow> rt_is_expired t \<and> \<not> rt_is_stopped t"

definition RetransmissionTimer_is_stopped :: "RetransmissionTimer \<Rightarrow> bool" where
  "RetransmissionTimer_is_stopped t = rt_is_stopped t"

definition RetransmissionTimer_set_new_timer :: "RetransmissionTimer \<Rightarrow> u32 \<Rightarrow> RetransmissionTimer" where
  "RetransmissionTimer_set_new_timer t initial_time =
     t\<lparr>rt_remaining_time := initial_time, rt_is_expired := False, rt_is_stopped := False\<rparr>"

definition RetransmissionTimer_stop :: "RetransmissionTimer \<Rightarrow> RetransmissionTimer" where
  "RetransmissionTimer_stop t = t\<lparr>rt_is_stopped := True, rt_is_expired := False, rt_remaining_time := 0\<rparr>"

section \<open>TCPSender\<close>

type_synonym outstanding = "(u64 \<times> TCPSegment) list"

record TCPSender =
  ts_isn :: WrappingInt32
  ts_segments_out :: "TCPSegment list"
  ts_initial_retransmission_timeout :: u32
  ts_stream :: ByteStream
  ts_next_seqno :: u64
  ts_bytes_in_flight :: u64
  ts_consecutive_retransmissions :: u32
  ts_ackno :: u64
  ts_rto :: u32
  ts_outstanding_segment :: outstanding
  ts_timer :: RetransmissionTimer
  ts_window_size :: u16
  ts_syn :: bool
  ts_fin :: bool

text \<open>The number drawn from \<^verbatim>\<open>random_device\<close> is an argument of the constructor.\<close>

definition TCPSender_new :: "u64 \<Rightarrow> u16 \<Rightarrow> WrappingInt32 option \<Rightarrow> u32 \<Rightarrow> TCPSender" where
  "TCPSender_new capacity retx_timeout fixed_isn random =
     \<lparr>ts_isn = (case fixed_isn of Some isn \<Rightarrow> isn | None \<Rightarrow> WrappingInt32_of random), ts_segments_out = [],
      ts_initial_retransmission_timeout = ucast retx_timeout, ts_stream = ByteStream_new capacity,
      ts_next_seqno = 0, ts_bytes_in_flight = 0, ts_consecutive_retransmissions = 0, ts_ackno = 0,
      ts_rto = ucast retx_timeout, ts_outstanding_segment = [],
      ts_timer = RetransmissionTimer_new 0 False True, ts_window_size = 1, ts_syn = False, ts_fin = False\<rparr>"

definition TCPSender_CLOSED :: "TCPSender \<Rightarrow> bool" where
  "TCPSender_CLOSED s \<longleftrightarrow> ts_next_seqno s = 0"

definition TCPSender_SYN_SENT :: "TCPSender \<Rightarrow> bool" where
  "TCPSender_SYN_SENT s \<longleftrightarrow> ts_next_seqno s > 0 \<and> ts_next_seqno s = ts_bytes_in_flight s"

definition TCPSender_SYN_ACKED :: "TCPSender \<Rightarrow> bool" where
  "TCPSender_SYN_ACKED s \<longleftrightarrow> ts_next_seqno s > ts_bytes_in_flight s \<and> \<not> ByteStream_eof (ts_stream s)"

definition TCPSender_SYN_ACKED_FIN_TO_SEND :: "TCPSender \<Rightarrow> bool" where
  "TCPSender_SYN_ACKED_FIN_TO_SEND s \<longleftrightarrow>
     ts_next_seqno s < bs_byte_written (ts_stream s) + 2 \<and> ByteStream_eof (ts_stream s)"

definition TCPSender_FIN_SENT :: "TCPSender \<Rightarrow> bool" where
  "TCPSender_FIN_SENT s \<longleftrightarrow> ByteStream_eof (ts_stream s)
     \<and> ts_next_seqno s = bs_byte_written (ts_stream s) + 2 \<and> ts_bytes_in_flight s > 0"

definition TCPSender_FIN_ACKED :: "TCPSender \<Rightarrow> bool" where
  "TCPSender_FIN_ACKED s \<longleftrightarrow> ByteStream_eof (ts_stream s)
     \<and> ts_next_seqno s = bs_byte_written (ts_stream s) + 2 \<and> ts_bytes_in_flight s = 0"

definition TCPSender_next_seqno :: "TCPSender \<Rightarrow> WrappingInt32" where
  "TCPSender_next_seqno s = wrap (ts_next_seqno s) (ts_isn s)"

text \<open>\<^verbatim>\<open>pop_outstanding_segment\<close>: the loop on the set and the counter.\<close>

fun pop_acked :: "u64 \<Rightarrow> outstanding \<Rightarrow> u64 \<Rightarrow> outstanding \<times> u64" where
  "pop_acked ackno [] in_flight = ([], in_flight)"
| "pop_acked ackno ((first, seg) # rest) in_flight =
     (if first + TCPSegment_length_in_sequence_space seg \<le> ackno
      then pop_acked ackno rest (in_flight - TCPSegment_length_in_sequence_space seg)
      else ((first, seg) # rest, in_flight))"

definition TCPSender_pop_outstanding_segment :: "TCPSender \<Rightarrow> TCPSender" where
  "TCPSender_pop_outstanding_segment s =
     (let (o', n) = pop_acked (ts_ackno s) (ts_outstanding_segment s) (ts_bytes_in_flight s) in
      s\<lparr>ts_outstanding_segment := o', ts_bytes_in_flight := n\<rparr>)"

text \<open>The loop of \<^verbatim>\<open>fill_window\<close>: its condition, its body and the loop.\<close>

definition fill_window_guard :: "TCPSender \<Rightarrow> u64 \<Rightarrow> bool" where
  "fill_window_guard s window_size \<longleftrightarrow> window_size > 0 \<and>
     (TCPSender_CLOSED s
      \<or> ((TCPSender_SYN_SENT s \<or> TCPSender_SYN_ACKED s) \<and> \<not> ByteStream_buffer_empty (ts_stream s))
      \<or> TCPSender_SYN_ACKED_FIN_TO_SEND s)"

definition fill_window_body :: "TCPSender \<Rightarrow> u64 \<Rightarrow> (TCPSender \<times> u64) result" where
  "fill_window_body s window_size =
     (let first = of_flag (ts_syn s) + bs_byte_read (ts_stream s);
          set_syn = (0 + 1 \<le> window_size \<and> TCPSender_CLOSED s);
          s = (if set_syn then s\<lparr>ts_syn := True\<rparr> else s);
          used = (if set_syn then 1 else 0);
          h = TCPHeader_default\<lparr>th_syn := set_syn, th_seqno := wrap first (ts_isn s)\<rparr> in
      bindE (if window_size > used
             then bindE (ByteStream_read (ts_stream s) (min (window_size - used) TCPConfig_MAX_PAYLOAD_SIZE))
                    (\<lambda>(stream, d). Inr (s\<lparr>ts_stream := stream\<rparr>, Buffer_of_string d,
                                       used + Buffer_size (Buffer_of_string d)))
             else Inr (s, Buffer_default, used))
        (\<lambda>(s, payload, used).
           let set_fin = (used + 1 \<le> window_size \<and> TCPSender_SYN_ACKED_FIN_TO_SEND s);
               s = (if set_fin then s\<lparr>ts_fin := True\<rparr> else s);
               used = (if set_fin then used + 1 else used);
               seg = \<lparr>sg_header = h\<lparr>th_fin := set_fin\<rparr>, sg_payload = payload\<rparr>;
               window_size = window_size - used;
               s = s\<lparr>ts_segments_out := ts_segments_out s @ [seg],
                     ts_outstanding_segment := oinsert fst (first, seg) (ts_outstanding_segment s),
                     ts_bytes_in_flight := ts_bytes_in_flight s + TCPSegment_length_in_sequence_space seg,
                     ts_next_seqno := first + TCPSegment_length_in_sequence_space seg,
                     ts_timer := (if RetransmissionTimer_is_stopped (ts_timer s)
                                  then RetransmissionTimer_set_new_timer (ts_timer s) (ts_rto s)
                                  else ts_timer s)\<rparr>
           in Inr (s, window_size)))"

partial_function (option) fill_window_loop :: "TCPSender \<Rightarrow> u64 \<Rightarrow> TCPSender result option" where
  "fill_window_loop s window_size =
     (if fill_window_guard s window_size
      then (case fill_window_body s window_size of
              Inl e \<Rightarrow> Some (Inl e)
            | Inr (s', window_size') \<Rightarrow> fill_window_loop s' window_size')
      else Some (Inr s))"

definition TCPSender_fill_window :: "TCPSender \<Rightarrow> TCPSender result" where
  "TCPSender_fill_window s =
     (let window_size = ucast (ts_window_size s) :: u64;
          window_size = (if window_size = 0 then 1 else window_size) in
      if ts_ackno s + window_size \<le> ts_next_seqno s then Inr s
      else let window_size = ts_ackno s + window_size - ts_next_seqno s in
        (case fill_window_loop s window_size of Some r \<Rightarrow> r | None \<Rightarrow> Inl Does_not_return))"

definition TCPSender_ack_received :: "TCPSender \<Rightarrow> WrappingInt32 \<Rightarrow> u16 \<Rightarrow> (TCPSender \<times> bool) result" where
  "TCPSender_ack_received s ackno window_size =
     (let new_ackno = unwrap ackno (ts_isn s) (ts_ackno s) in
      if new_ackno > ts_next_seqno s then Inr (s, False)
      else
        let s = s\<lparr>ts_window_size := window_size\<rparr> in
        if new_ackno \<le> ts_ackno s then Inr (s, True)
        else
          let s = s\<lparr>ts_rto := ts_initial_retransmission_timeout s, ts_consecutive_retransmissions := 0,
                    ts_ackno := new_ackno\<rparr> in
          bindE (TCPSender_fill_window (TCPSender_pop_outstanding_segment s)) (\<lambda>s.
            Inr (s\<lparr>ts_timer := if ts_outstanding_segment s \<noteq> []
                    then RetransmissionTimer_set_new_timer (ts_timer s) (ts_rto s)
                    else RetransmissionTimer_stop (ts_timer s)\<rparr>, True)))"

text \<open>\<^verbatim>\<open>time_expired\<close> takes a \<^verbatim>\<open>uint32_t\<close>, so the milliseconds are cut to 32 bits on the way.\<close>

definition TCPSender_tick :: "TCPSender \<Rightarrow> u64 \<Rightarrow> TCPSender" where
  "TCPSender_tick s ms_since_last_tick =
     (let s = s\<lparr>ts_timer := RetransmissionTimer_time_expired (ts_timer s) (ucast ms_since_last_tick)\<rparr> in
      case ts_outstanding_segment s of
        [] \<Rightarrow> s
      | (first, seg) # rest \<Rightarrow>
          if RetransmissionTimer_is_expired (ts_timer s) then
            let s = (if ts_window_size s > 0
                     then s\<lparr>ts_consecutive_retransmissions := ts_consecutive_retransmissions s + 1,
                            ts_rto := push_bit 1 (ts_rto s)\<rparr>
                     else s);
                s = (if ts_consecutive_retransmissions s \<le> TCPConfig_MAX_RETX_ATTEMPTS
                     then s\<lparr>ts_segments_out := ts_segments_out s @ [seg]\<rparr> else s)
            in s\<lparr>ts_timer := RetransmissionTimer_set_new_timer (ts_timer s) (ts_rto s)\<rparr>
          else s)"

definition TCPSender_send_empty_segment :: "TCPSender \<Rightarrow> TCPSender" where
  "TCPSender_send_empty_segment s =
     (let tmp = \<lparr>sg_header = TCPHeader_default\<lparr>th_seqno := wrap (ts_next_seqno s) (ts_isn s)\<rparr>,
                 sg_payload = Buffer_default\<rparr> in
      s\<lparr>ts_segments_out := ts_segments_out s @ [tmp]\<rparr>)"

end
