(* ===== verification/TCP_State.thy ===== *)
theory TCP_State
  imports TCP_Receiver TCP_Sender
begin

text \<open>
  \<^verbatim>\<open>libsponge/tcp_helpers/tcp_state.hh\<close> and \<^verbatim>\<open>tcp_state.cc\<close>: the summary of a connection in words, and the
  summary each state of the TCP specification stands for.
\<close>

section \<open>The words\<close>

definition TCPReceiverStateSummary_ERROR :: string where
  "TCPReceiverStateSummary_ERROR = ''error (connection was reset)''"

definition TCPReceiverStateSummary_LISTEN :: string where
  "TCPReceiverStateSummary_LISTEN = ''waiting for SYN: ackno is empty''"

definition TCPReceiverStateSummary_SYN_RECV :: string where
  "TCPReceiverStateSummary_SYN_RECV = ''SYN received (ackno exists), and input to stream hasn't ended''"

definition TCPReceiverStateSummary_FIN_RECV :: string where
  "TCPReceiverStateSummary_FIN_RECV = ''input to stream has ended''"

definition TCPSenderStateSummary_ERROR :: string where
  "TCPSenderStateSummary_ERROR = ''error (connection was reset)''"

definition TCPSenderStateSummary_CLOSED :: string where
  "TCPSenderStateSummary_CLOSED = ''waiting for stream to begin (no SYN sent)''"

definition TCPSenderStateSummary_SYN_SENT :: string where
  "TCPSenderStateSummary_SYN_SENT = ''stream started but nothing acknowledged''"

definition TCPSenderStateSummary_SYN_ACKED :: string where
  "TCPSenderStateSummary_SYN_ACKED = ''stream ongoing''"

definition TCPSenderStateSummary_FIN_SENT :: string where
  "TCPSenderStateSummary_FIN_SENT = ''stream finished (FIN sent) but not fully acknowledged''"

definition TCPSenderStateSummary_FIN_ACKED :: string where
  "TCPSenderStateSummary_FIN_ACKED = ''stream finished and fully acknowledged''"

lemmas receiver_words = TCPReceiverStateSummary_ERROR_def TCPReceiverStateSummary_LISTEN_def
  TCPReceiverStateSummary_SYN_RECV_def TCPReceiverStateSummary_FIN_RECV_def

lemmas sender_words = TCPSenderStateSummary_ERROR_def TCPSenderStateSummary_CLOSED_def
  TCPSenderStateSummary_SYN_SENT_def TCPSenderStateSummary_SYN_ACKED_def TCPSenderStateSummary_FIN_SENT_def
  TCPSenderStateSummary_FIN_ACKED_def

section \<open>The summary\<close>

record TCPState =
  st_sender :: string
  st_receiver :: string
  st_active :: bool
  st_linger_after_streams_finish :: bool

datatype State = State_LISTEN | State_SYN_RCVD | State_SYN_SENT | State_ESTABLISHED | State_CLOSE_WAIT
  | State_LAST_ACK | State_FIN_WAIT_1 | State_FIN_WAIT_2 | State_CLOSING | State_TIME_WAIT | State_CLOSED
  | State_RESET

definition TCPState_eq :: "TCPState \<Rightarrow> TCPState \<Rightarrow> bool" where
  "TCPState_eq s t \<longleftrightarrow> st_active s = st_active t
     \<and> st_linger_after_streams_finish s = st_linger_after_streams_finish t
     \<and> st_sender s = st_sender t \<and> st_receiver s = st_receiver t"

definition to_string_bool :: "bool \<Rightarrow> string" where
  "to_string_bool b = (if b then ''1'' else ''0'')"

definition TCPState_name :: "TCPState \<Rightarrow> string" where
  "TCPState_name s = ''sender=`'' @ st_sender s @ ''`, receiver=`'' @ st_receiver s @ ''`, active=''
     @ to_string_bool (st_active s) @ '', linger_after_streams_finish=''
     @ to_string_bool (st_linger_after_streams_finish s)"

text \<open>The default members of the class, and the constructor from an official state.\<close>

definition TCPState_default :: TCPState where
  "TCPState_default = \<lparr>st_sender = [], st_receiver = [], st_active = True, st_linger_after_streams_finish = True\<rparr>"

fun TCPState_of_State :: "State \<Rightarrow> TCPState" where
  "TCPState_of_State State_LISTEN = TCPState_default\<lparr>st_receiver := TCPReceiverStateSummary_LISTEN,
     st_sender := TCPSenderStateSummary_CLOSED\<rparr>"
| "TCPState_of_State State_SYN_RCVD = TCPState_default\<lparr>st_receiver := TCPReceiverStateSummary_SYN_RECV,
     st_sender := TCPSenderStateSummary_SYN_SENT\<rparr>"
| "TCPState_of_State State_SYN_SENT = TCPState_default\<lparr>st_receiver := TCPReceiverStateSummary_LISTEN,
     st_sender := TCPSenderStateSummary_SYN_SENT\<rparr>"
| "TCPState_of_State State_ESTABLISHED = TCPState_default\<lparr>st_receiver := TCPReceiverStateSummary_SYN_RECV,
     st_sender := TCPSenderStateSummary_SYN_ACKED\<rparr>"
| "TCPState_of_State State_CLOSE_WAIT = TCPState_default\<lparr>st_receiver := TCPReceiverStateSummary_FIN_RECV,
     st_sender := TCPSenderStateSummary_SYN_ACKED, st_linger_after_streams_finish := False\<rparr>"
| "TCPState_of_State State_LAST_ACK = TCPState_default\<lparr>st_receiver := TCPReceiverStateSummary_FIN_RECV,
     st_sender := TCPSenderStateSummary_FIN_SENT, st_linger_after_streams_finish := False\<rparr>"
| "TCPState_of_State State_CLOSING = TCPState_default\<lparr>st_receiver := TCPReceiverStateSummary_FIN_RECV,
     st_sender := TCPSenderStateSummary_FIN_SENT\<rparr>"
| "TCPState_of_State State_FIN_WAIT_1 = TCPState_default\<lparr>st_receiver := TCPReceiverStateSummary_SYN_RECV,
     st_sender := TCPSenderStateSummary_FIN_SENT\<rparr>"
| "TCPState_of_State State_FIN_WAIT_2 = TCPState_default\<lparr>st_receiver := TCPReceiverStateSummary_SYN_RECV,
     st_sender := TCPSenderStateSummary_FIN_ACKED\<rparr>"
| "TCPState_of_State State_TIME_WAIT = TCPState_default\<lparr>st_receiver := TCPReceiverStateSummary_FIN_RECV,
     st_sender := TCPSenderStateSummary_FIN_ACKED\<rparr>"
| "TCPState_of_State State_RESET = TCPState_default\<lparr>st_receiver := TCPReceiverStateSummary_ERROR,
     st_sender := TCPSenderStateSummary_ERROR, st_linger_after_streams_finish := False, st_active := False\<rparr>"
| "TCPState_of_State State_CLOSED = TCPState_default\<lparr>st_receiver := TCPReceiverStateSummary_FIN_RECV,
     st_sender := TCPSenderStateSummary_FIN_ACKED, st_linger_after_streams_finish := False, st_active := False\<rparr>"

definition receiver_state_summary :: "TCPReceiver \<Rightarrow> string" where
  "receiver_state_summary receiver =
     (if bs_error (TCPReceiver_stream_out receiver) then TCPReceiverStateSummary_ERROR
      else if TCPReceiver_ackno receiver = None then TCPReceiverStateSummary_LISTEN
      else if ByteStream_input_ended (TCPReceiver_stream_out receiver) then TCPReceiverStateSummary_FIN_RECV
      else TCPReceiverStateSummary_SYN_RECV)"

definition sender_state_summary :: "TCPSender \<Rightarrow> string" where
  "sender_state_summary sender =
     (if bs_error (ts_stream sender) then TCPSenderStateSummary_ERROR
      else if ts_next_seqno sender = 0 then TCPSenderStateSummary_CLOSED
      else if ts_next_seqno sender = ts_bytes_in_flight sender then TCPSenderStateSummary_SYN_SENT
      else if \<not> ByteStream_eof (ts_stream sender) then TCPSenderStateSummary_SYN_ACKED
      else if ts_next_seqno sender < bs_byte_written (ts_stream sender) + 2 then TCPSenderStateSummary_SYN_ACKED
      else if ts_bytes_in_flight sender \<noteq> 0 then TCPSenderStateSummary_FIN_SENT
      else TCPSenderStateSummary_FIN_ACKED)"

definition TCPState_of :: "TCPSender \<Rightarrow> TCPReceiver \<Rightarrow> bool \<Rightarrow> bool \<Rightarrow> TCPState" where
  "TCPState_of sender receiver active linger =
     \<lparr>st_sender = sender_state_summary sender, st_receiver = receiver_state_summary receiver,
      st_active = active, st_linger_after_streams_finish = (if active then linger else False)\<rparr>"

end
