(* ===== verification/TCP_Connection.thy ===== *)
theory TCP_Connection
  imports TCP_State
begin

text \<open>
  \<^verbatim>\<open>libsponge/tcp_connection.hh\<close> and \<^verbatim>\<open>tcp_connection.cc\<close>: a sender and a receiver joined into an endpoint.
  Every public method is a function from the state to the new state, or to the exception it lets through.
  The debugger class, whose only call is commented out, is left out.
\<close>

section \<open>State\<close>

record TCPConnection =
  cn_cfg :: TCPConfig
  cn_receiver :: TCPReceiver
  cn_sender :: TCPSender
  cn_is_unclear_shutdown :: bool
  cn_is_clear_shutdown :: bool
  cn_now_time :: u64
  cn_time_when_last_segment_received :: u64
  cn_segments_out :: "TCPSegment list"
  cn_linger_after_streams_finish :: bool

definition TCPConnection_new :: "TCPConfig \<Rightarrow> u32 \<Rightarrow> TCPConnection" where
  "TCPConnection_new cfg random =
     \<lparr>cn_cfg = cfg, cn_receiver = TCPReceiver_new (cf_recv_capacity cfg),
      cn_sender = TCPSender_new (cf_send_capacity cfg) (cf_rt_timeout cfg) (cf_fixed_isn cfg) random,
      cn_is_unclear_shutdown = False, cn_is_clear_shutdown = False, cn_now_time = 0,
      cn_time_when_last_segment_received = 0, cn_segments_out = [], cn_linger_after_streams_finish = True\<rparr>"

section \<open>The states of the TCP specification\<close>

definition TCPConnection_LISTEN :: "TCPConnection \<Rightarrow> bool" where
  "TCPConnection_LISTEN c \<longleftrightarrow> TCPReceiver_LISTEN (cn_receiver c) \<and> TCPSender_CLOSED (cn_sender c)"

definition TCPConnection_SYN_RCVD :: "TCPConnection \<Rightarrow> bool" where
  "TCPConnection_SYN_RCVD c \<longleftrightarrow> TCPReceiver_SYN_RECV (cn_receiver c) \<and> TCPSender_SYN_SENT (cn_sender c)"

definition TCPConnection_SYN_SENT :: "TCPConnection \<Rightarrow> bool" where
  "TCPConnection_SYN_SENT c \<longleftrightarrow> TCPReceiver_LISTEN (cn_receiver c) \<and> TCPSender_SYN_SENT (cn_sender c)"

definition TCPConnection_ESTABLISHED :: "TCPConnection \<Rightarrow> bool" where
  "TCPConnection_ESTABLISHED c \<longleftrightarrow> TCPReceiver_SYN_RECV (cn_receiver c) \<and> TCPSender_SYN_ACKED (cn_sender c)"

definition TCPConnection_CLOSE_WAIT :: "TCPConnection \<Rightarrow> bool" where
  "TCPConnection_CLOSE_WAIT c \<longleftrightarrow> TCPReceiver_FIN_RECV (cn_receiver c) \<and> TCPSender_SYN_ACKED (cn_sender c)
     \<and> \<not> cn_linger_after_streams_finish c"

definition TCPConnection_LAST_ACK :: "TCPConnection \<Rightarrow> bool" where
  "TCPConnection_LAST_ACK c \<longleftrightarrow> TCPReceiver_FIN_RECV (cn_receiver c) \<and> TCPSender_FIN_SENT (cn_sender c)
     \<and> \<not> cn_linger_after_streams_finish c"

definition TCPConnection_CLOSING :: "TCPConnection \<Rightarrow> bool" where
  "TCPConnection_CLOSING c \<longleftrightarrow> TCPReceiver_FIN_RECV (cn_receiver c) \<and> TCPSender_FIN_SENT (cn_sender c)"

definition TCPConnection_FIN_WAIT_1 :: "TCPConnection \<Rightarrow> bool" where
  "TCPConnection_FIN_WAIT_1 c \<longleftrightarrow> TCPReceiver_SYN_RECV (cn_receiver c) \<and> TCPSender_FIN_SENT (cn_sender c)"

definition TCPConnection_FIN_WAIT_2 :: "TCPConnection \<Rightarrow> bool" where
  "TCPConnection_FIN_WAIT_2 c \<longleftrightarrow> TCPReceiver_SYN_RECV (cn_receiver c) \<and> TCPSender_FIN_ACKED (cn_sender c)"

definition TCPConnection_TIME_WAIT :: "TCPConnection \<Rightarrow> bool" where
  "TCPConnection_TIME_WAIT c \<longleftrightarrow> TCPReceiver_FIN_RECV (cn_receiver c) \<and> TCPSender_FIN_ACKED (cn_sender c)"

definition TCPConnection_active :: "TCPConnection \<Rightarrow> bool" where
  "TCPConnection_active c \<longleftrightarrow> \<not> (cn_is_unclear_shutdown c \<or> cn_is_clear_shutdown c)"

definition TCPConnection_state :: "TCPConnection \<Rightarrow> TCPState" where
  "TCPConnection_state c =
     TCPState_of (cn_sender c) (cn_receiver c) (TCPConnection_active c) (cn_linger_after_streams_finish c)"

section \<open>Accessors\<close>

definition TCPConnection_inbound_stream :: "TCPConnection \<Rightarrow> ByteStream" where
  "TCPConnection_inbound_stream c = TCPReceiver_stream_out (cn_receiver c)"

definition TCPConnection_remaining_outbound_capacity :: "TCPConnection \<Rightarrow> u64" where
  "TCPConnection_remaining_outbound_capacity c = ByteStream_remaining_capacity (ts_stream (cn_sender c))"

definition TCPConnection_bytes_in_flight :: "TCPConnection \<Rightarrow> u64" where
  "TCPConnection_bytes_in_flight c = ts_bytes_in_flight (cn_sender c)"

definition TCPConnection_unassembled_bytes :: "TCPConnection \<Rightarrow> u64" where
  "TCPConnection_unassembled_bytes c = TCPReceiver_unassembled_bytes (cn_receiver c)"

definition TCPConnection_time_since_last_segment_received :: "TCPConnection \<Rightarrow> u64" where
  "TCPConnection_time_since_last_segment_received c = cn_now_time c - cn_time_when_last_segment_received c"

section \<open>Private helpers\<close>

definition TCPConnection_set_segment :: "TCPConnection \<Rightarrow> TCPSegment \<Rightarrow> TCPSegment result" where
  "TCPConnection_set_segment c seg =
     (if cn_is_unclear_shutdown c then Inr (seg\<lparr>sg_header := (sg_header seg)\<lparr>th_rst := True\<rparr>\<rparr>)
      else if \<not> TCPReceiver_LISTEN (cn_receiver c) then
        (case TCPReceiver_ackno (cn_receiver c) of
           None \<Rightarrow> Inl Bad_optional_access
         | Some ackno \<Rightarrow>
             Inr (seg\<lparr>sg_header := (sg_header seg)\<lparr>th_ack := True, th_ackno := ackno,
               th_win := (if TCPReceiver_window_size (cn_receiver c) \<ge> ucast (- 1 :: u16) then - 1
                          else ucast (TCPReceiver_window_size (cn_receiver c)))\<rparr>\<rparr>))
      else Inr seg)"

text \<open>\<^verbatim>\<open>collect_output\<close>: the loop takes the front of the sender's queue until it is empty.\<close>

fun collect_loop :: "TCPConnection \<Rightarrow> TCPSegment list \<Rightarrow> TCPConnection result" where
  "collect_loop c [] = Inr c"
| "collect_loop c (front # rest) =
     bindE (TCPConnection_set_segment c front) (\<lambda>seg.
       collect_loop (c\<lparr>cn_segments_out := cn_segments_out c @ [seg],
                       cn_sender := (cn_sender c)\<lparr>ts_segments_out := rest\<rparr>\<rparr>) rest)"

definition TCPConnection_collect_output :: "TCPConnection \<Rightarrow> TCPConnection result" where
  "TCPConnection_collect_output c = collect_loop c (ts_segments_out (cn_sender c))"

definition TCPReceiver_set_error :: "TCPReceiver \<Rightarrow> TCPReceiver" where
  "TCPReceiver_set_error r =
     r\<lparr>rv_reassembler := (rv_reassembler r)\<lparr>ra_output := ByteStream_set_error (TCPReceiver_stream_out r)\<rparr>\<rparr>"

definition TCPConnection_unclear_shutdown :: "TCPConnection \<Rightarrow> TCPConnection" where
  "TCPConnection_unclear_shutdown c =
     c\<lparr>cn_sender := (cn_sender c)\<lparr>ts_stream := ByteStream_set_error (ts_stream (cn_sender c))\<rparr>,
       cn_receiver := TCPReceiver_set_error (cn_receiver c), cn_is_unclear_shutdown := True\<rparr>"

definition TCPConnection_send_empty_segment :: "TCPConnection \<Rightarrow> TCPConnection result" where
  "TCPConnection_send_empty_segment c =
     TCPConnection_collect_output (c\<lparr>cn_sender := TCPSender_send_empty_segment (cn_sender c)\<rparr>)"

definition TCPConnection_test_end :: "TCPConnection \<Rightarrow> TCPConnection result" where
  "TCPConnection_test_end c =
     bindE (if ts_consecutive_retransmissions (cn_sender c) > TCPConfig_MAX_RETX_ATTEMPTS
            then TCPConnection_send_empty_segment (TCPConnection_unclear_shutdown c)
            else Inr c) (\<lambda>c.
       let c = (if \<not> ByteStream_eof (ts_stream (cn_sender c)) \<and> TCPReceiver_FIN_RECV (cn_receiver c)
                then c\<lparr>cn_linger_after_streams_finish := False\<rparr> else c)
       in Inr (if TCPConnection_TIME_WAIT c
               then c\<lparr>cn_is_clear_shutdown := cn_is_clear_shutdown c \<or> \<not> cn_linger_after_streams_finish c
                      \<or> TCPConnection_time_since_last_segment_received c \<ge> 10 * ucast (cf_rt_timeout (cn_cfg c))\<rparr>
               else c))"

definition TCPConnection_segment_receive_route :: "TCPConnection \<Rightarrow> TCPSegment \<Rightarrow> TCPConnection result" where
  "TCPConnection_segment_receive_route c seg =
     (if TCPConnection_LISTEN c then
        if \<not> th_syn (sg_header seg) then Inr c
        else bindE (TCPReceiver_segment_received (cn_receiver c) seg) (\<lambda>(r, _).
          bindE (TCPSender_fill_window (cn_sender c)) (\<lambda>s.
            Inr (c\<lparr>cn_receiver := r, cn_sender := s\<rparr>)))
      else if th_rst (sg_header seg) then Inr (TCPConnection_unclear_shutdown c)
      else bindE (TCPReceiver_segment_received (cn_receiver c) seg) (\<lambda>(r, accepted).
        let should_send_empty_segment = \<not> accepted; c = c\<lparr>cn_receiver := r\<rparr> in
        if TCPConnection_SYN_SENT c \<and> should_send_empty_segment then Inr c
        else bindE (if th_ack (sg_header seg)
                    then bindE (TCPSender_ack_received (cn_sender c) (th_ackno (sg_header seg)) (th_win (sg_header seg)))
                           (\<lambda>(s, b). Inr (c\<lparr>cn_sender := s\<rparr>, should_send_empty_segment \<or> \<not> b))
                    else Inr (c, should_send_empty_segment)) (\<lambda>(c, should_send_empty_segment).
          let should_send_empty_segment =
                (should_send_empty_segment \<or> TCPSegment_length_in_sequence_space seg > 0) in
          Inr (if should_send_empty_segment \<and> ts_segments_out (cn_sender c) = []
               then c\<lparr>cn_sender := TCPSender_send_empty_segment (cn_sender c)\<rparr> else c))))"

section \<open>Operations\<close>

definition TCPConnection_segment_received :: "TCPConnection \<Rightarrow> TCPSegment \<Rightarrow> TCPConnection result" where
  "TCPConnection_segment_received c seg =
     bindE (TCPConnection_segment_receive_route (c\<lparr>cn_time_when_last_segment_received := cn_now_time c\<rparr>) seg) (\<lambda>c.
       bindE (TCPConnection_collect_output c) TCPConnection_test_end)"

definition TCPConnection_write :: "TCPConnection \<Rightarrow> bytes \<Rightarrow> (TCPConnection \<times> u64) result" where
  "TCPConnection_write c data =
     (let (stream, res) = ByteStream_write (ts_stream (cn_sender c)) data in
      bindE (TCPSender_fill_window ((cn_sender c)\<lparr>ts_stream := stream\<rparr>)) (\<lambda>s.
        bindE (TCPConnection_collect_output (c\<lparr>cn_sender := s\<rparr>)) (\<lambda>c.
          bindE (TCPConnection_test_end c) (\<lambda>c. Inr (c, res)))))"

definition TCPConnection_tick :: "TCPConnection \<Rightarrow> u64 \<Rightarrow> TCPConnection result" where
  "TCPConnection_tick c ms_since_last_tick =
     bindE (TCPConnection_collect_output (c\<lparr>cn_now_time := cn_now_time c + ms_since_last_tick,
              cn_sender := TCPSender_tick (cn_sender c) ms_since_last_tick\<rparr>)) TCPConnection_test_end"

definition TCPConnection_end_input_stream :: "TCPConnection \<Rightarrow> TCPConnection result" where
  "TCPConnection_end_input_stream c =
     bindE (TCPSender_fill_window ((cn_sender c)\<lparr>ts_stream := ByteStream_end_input (ts_stream (cn_sender c))\<rparr>)) (\<lambda>s.
       bindE (TCPConnection_collect_output (c\<lparr>cn_sender := s\<rparr>)) TCPConnection_test_end)"

definition TCPConnection_connect :: "TCPConnection \<Rightarrow> TCPConnection result" where
  "TCPConnection_connect c =
     (if TCPConnection_LISTEN c
      then bindE (TCPSender_fill_window (cn_sender c)) (\<lambda>s. TCPConnection_collect_output (c\<lparr>cn_sender := s\<rparr>))
      else Inr c)"

text \<open>The destructor; an exception is caught there, after which the object is gone.\<close>

definition TCPConnection_destroy :: "TCPConnection \<Rightarrow> TCPConnection" where
  "TCPConnection_destroy c =
     (if TCPConnection_active c
      then (case TCPConnection_send_empty_segment (TCPConnection_unclear_shutdown c) of Inr c' \<Rightarrow> c' | Inl _ \<Rightarrow> c)
      else c)"

end
