(* ===== verification/Sender_Window.thy ===== *)
theory Sender_Window
  imports TCP_Sender
begin

text \<open>
  The invariant of \<^verbatim>\<open>TCPSender\<close> and what its operations do under it.  \<open>W\<close> is everything that was ever
  written into the outgoing stream.  The outstanding segments form a gapless chain of sequence
  numbers that ends at \<^verbatim>\<open>next_seqno\<close>, each carries the right piece of \<open>W\<close>, and the timer runs exactly
  while something is outstanding.
\<close>

section \<open>Segments and chains of segments\<close>

definition seg_len :: "TCPSegment \<Rightarrow> nat" where
  "seg_len seg = length (Buffer_str (sg_payload seg)) + of_bool (th_syn (sg_header seg)) + of_bool (th_fin (sg_header seg))"

text \<open>\<open>seg\<close> carries the part of the stream \<open>W\<close> that starts at absolute sequence number \<open>f\<close>.\<close>

definition seg_at :: "bytes \<Rightarrow> WrappingInt32 \<Rightarrow> nat \<Rightarrow> TCPSegment \<Rightarrow> bool" where
  "seg_at W isn f seg \<longleftrightarrow>
     Buffer_wf (sg_payload seg) \<and> length (Buffer_str (sg_payload seg)) \<le> unat TCPConfig_MAX_PAYLOAD_SIZE
     \<and> th_seqno (sg_header seg) = wrap (of_nat f) isn
     \<and> (th_syn (sg_header seg) \<longleftrightarrow> f = 0)
     \<and> Buffer_str (sg_payload seg) = take (length (Buffer_str (sg_payload seg))) (drop (f - 1) W)
     \<and> (th_fin (sg_header seg) \<longrightarrow> f - 1 + length (Buffer_str (sg_payload seg)) = length W)"

definition empty_at :: "WrappingInt32 \<Rightarrow> nat \<Rightarrow> TCPSegment \<Rightarrow> bool" where
  "empty_at isn f seg \<longleftrightarrow> seg = \<lparr>sg_header = TCPHeader_default\<lparr>th_seqno := wrap (of_nat f) isn\<rparr>, sg_payload = Buffer_default\<rparr>"

fun chain :: "nat \<Rightarrow> outstanding \<Rightarrow> nat \<Rightarrow> bool" where
  "chain a [] b \<longleftrightarrow> a = b"
| "chain a ((f, seg) # rest) b \<longleftrightarrow> unat f = a \<and> 0 < seg_len seg \<and> chain (a + seg_len seg) rest b"

lemma chain_le: "chain a os b \<Longrightarrow> a \<le> b"
  by (induction a os b rule: chain.induct) auto

lemma chain_below: "chain a os b \<Longrightarrow> (f, seg) \<in> set os \<Longrightarrow> a \<le> unat f \<and> unat f + seg_len seg \<le> b"
  by (induction a os b rule: chain.induct) (auto dest: chain_le)

lemma chain_snoc:
  "chain a os b \<Longrightarrow> unat f = b \<Longrightarrow> 0 < seg_len seg \<Longrightarrow> chain a (os @ [(f, seg)]) (b + seg_len seg)"
  by (induction a os b rule: chain.induct) auto

lemma chain_insert:
  assumes "chain a os b" and "unat f = b" and "0 < seg_len seg"
  shows "oinsert fst (f, seg) os = os @ [(f, seg)]"
proof (rule oinsert_last, clarify)
  fix g sg assume "(g, sg) \<in> set os"
  moreover from chain_below [OF assms(1) this] have "unat g + seg_len sg \<le> b" by simp
  moreover have "0 < seg_len sg" using \<open>(g, sg) \<in> set os\<close> assms(1)
    by (induction a os b rule: chain.induct) auto
  ultimately show "fst (g, sg) < fst (f, seg)" using assms(2) by (simp add: word_less_nat_alt)
qed

lemma unat_seg_len:
  assumes "seg_at W isn f seg"
  shows "unat (TCPSegment_length_in_sequence_space seg) = seg_len seg" and "seg_len seg \<le> 1454"
proof -
  have n: "unat (Buffer_size (sg_payload seg)) = length (Buffer_str (sg_payload seg))"
    "length (Buffer_str (sg_payload seg)) \<le> 1452"
    using assms by (simp_all add: seg_at_def unat_Buffer_size TCPConfig_MAX_PAYLOAD_SIZE_def)
  then show le: "seg_len seg \<le> 1454" by (auto simp: seg_len_def of_bool_def)
  have two: "1454 < two64" by (simp add: two64_def)
  have "unat (Buffer_size (sg_payload seg) + of_flag (th_syn (sg_header seg)))
      = length (Buffer_str (sg_payload seg)) + of_bool (th_syn (sg_header seg))"
    using n two by (subst unat_add64) (auto simp: of_bool_def)
  then show "unat (TCPSegment_length_in_sequence_space seg) = seg_len seg"
    using n two unfolding TCPSegment_length_in_sequence_space_def seg_len_def
    by (subst unat_add64) (auto simp: of_bool_def)
qed

section \<open>The invariant\<close>

definition stream_of :: "bytes \<Rightarrow> ByteStream \<Rightarrow> bool" where
  "stream_of W st \<longleftrightarrow> ByteStream_inv st \<and> unat (bs_byte_written st) = length W
     \<and> unat (bs_byte_read st) \<le> length W \<and> ByteStream_contents st = drop (unat (bs_byte_read st)) W"

definition base :: "TCPSender \<Rightarrow> nat" where
  "base s = (case ts_outstanding_segment s of [] \<Rightarrow> unat (ts_next_seqno s) | (f, seg) # _ \<Rightarrow> unat f)"

definition numbers_ok :: "bytes \<Rightarrow> TCPSender \<Rightarrow> bool" where
  "numbers_ok W s \<longleftrightarrow> length W + 2 ^ 33 < two64
     \<and> unat (ts_next_seqno s) = of_bool (ts_syn s) + unat (bs_byte_read (ts_stream s)) + of_bool (ts_fin s)
     \<and> (\<not> ts_syn s \<longrightarrow> bs_byte_read (ts_stream s) = 0 \<and> \<not> ts_fin s)
     \<and> (ts_fin s \<longrightarrow> bs_end (ts_stream s) \<and> unat (bs_byte_read (ts_stream s)) = length W)"

definition window_ok :: "bytes \<Rightarrow> TCPSender \<Rightarrow> bool" where
  "window_ok W s \<longleftrightarrow> chain (base s) (ts_outstanding_segment s) (unat (ts_next_seqno s))
     \<and> base s \<le> unat (ts_ackno s) \<and> unat (ts_ackno s) \<le> unat (ts_next_seqno s)
     \<and> (\<forall>(f, seg) \<in> set (ts_outstanding_segment s). seg_at W (ts_isn s) (unat f) seg)
     \<and> (\<forall>(f, seg) \<in> set (ts_outstanding_segment s). unat (ts_ackno s) < unat f + seg_len seg)
     \<and> unat (ts_bytes_in_flight s) = unat (ts_next_seqno s) - base s"

definition queue_ok :: "bytes \<Rightarrow> TCPSender \<Rightarrow> bool" where
  "queue_ok W s \<longleftrightarrow> (\<forall>seg \<in> set (ts_segments_out s). \<exists>f. f + seg_len seg \<le> unat (ts_next_seqno s)
     \<and> (seg_at W (ts_isn s) f seg \<or> empty_at (ts_isn s) f seg))"

definition timer_ok :: "TCPSender \<Rightarrow> bool" where
  "timer_ok s \<longleftrightarrow> (ts_outstanding_segment s \<noteq> [] \<longrightarrow> \<not> rt_is_stopped (ts_timer s))"

text \<open>The timeout is the initial one, doubled once per retransmission since the last new acknowledgment.\<close>

definition backoff_ok :: "TCPSender \<Rightarrow> bool" where
  "backoff_ok s \<longleftrightarrow> ts_rto s = push_bit (unat (ts_consecutive_retransmissions s)) (ts_initial_retransmission_timeout s)"

text \<open>Between calls, the timer is also stopped when nothing is outstanding, and it is not expired.\<close>

definition idle_ok :: "TCPSender \<Rightarrow> bool" where
  "idle_ok s \<longleftrightarrow> (ts_outstanding_segment s = [] \<longrightarrow> rt_is_stopped (ts_timer s)) \<and> \<not> rt_is_expired (ts_timer s)"

definition sender_inv :: "bytes \<Rightarrow> TCPSender \<Rightarrow> bool" where
  "sender_inv W s \<longleftrightarrow> stream_of W (ts_stream s) \<and> numbers_ok W s \<and> window_ok W s \<and> queue_ok W s \<and> timer_ok s"

lemma sender_inv_new: "sender_inv [] (TCPSender_new cap timeout fixed_isn random)"
  by (simp add: sender_inv_def stream_of_def numbers_ok_def window_ok_def queue_ok_def timer_ok_def base_def
      TCPSender_new_def ByteStream_new_inv RetransmissionTimer_new_def two64_def)

lemmas sender_inv_parts = sender_inv_def stream_of_def numbers_ok_def window_ok_def queue_ok_def timer_ok_def

text \<open>
  The invariant reads these fields only, and tolerates in the queue again what is outstanding, and
  empty segments.
\<close>

definition same_core :: "TCPSender \<Rightarrow> TCPSender \<Rightarrow> bool" where
  "same_core s t \<longleftrightarrow> ts_isn t = ts_isn s \<and> ts_stream t = ts_stream s \<and> ts_next_seqno t = ts_next_seqno s
     \<and> ts_bytes_in_flight t = ts_bytes_in_flight s \<and> ts_ackno t = ts_ackno s
     \<and> ts_outstanding_segment t = ts_outstanding_segment s \<and> ts_syn t = ts_syn s \<and> ts_fin t = ts_fin s"

lemma same_core_inv:
  assumes "sender_inv W s" and core: "same_core s t"
    and queue: "\<forall>seg \<in> set (ts_segments_out t). seg \<in> set (ts_segments_out s) \<or> (\<exists>f. (f, seg) \<in> set (ts_outstanding_segment s))
           \<or> empty_at (ts_isn s) (unat (ts_next_seqno s)) seg"
    and timer: "ts_outstanding_segment s \<noteq> [] \<longrightarrow> \<not> rt_is_stopped (ts_timer t)"
  shows "sender_inv W t"
proof -
  let ?n = "unat (ts_next_seqno s)"
  have inv: "stream_of W (ts_stream s)" "numbers_ok W s" "window_ok W s" "queue_ok W s"
    using assms(1) by (simp_all add: sender_inv_def)
  have f: "ts_isn t = ts_isn s" "ts_stream t = ts_stream s" "ts_next_seqno t = ts_next_seqno s"
    "ts_bytes_in_flight t = ts_bytes_in_flight s" "ts_ackno t = ts_ackno s" "ts_syn t = ts_syn s" "ts_fin t = ts_fin s"
    "ts_outstanding_segment t = ts_outstanding_segment s"
    using core by (simp_all add: same_core_def)
  have b: "base t = base s" unfolding base_def f ..
  have "\<exists>g. g + seg_len seg \<le> ?n \<and> (seg_at W (ts_isn s) g seg \<or> empty_at (ts_isn s) g seg)"
    if "seg \<in> set (ts_segments_out t)" for seg
  proof -
    from that queue consider "seg \<in> set (ts_segments_out s)" | g where "(g, seg) \<in> set (ts_outstanding_segment s)"
      | "empty_at (ts_isn s) ?n seg" by blast
    then show ?thesis
    proof cases
      case 1
      with inv(4) show ?thesis by (simp add: queue_ok_def)
    next
      case 2
      then have "unat g + seg_len seg \<le> ?n" "seg_at W (ts_isn s) (unat g) seg"
        using inv(3) chain_below [of "base s" "ts_outstanding_segment s" ?n g seg] by (auto simp: window_ok_def)
      then show ?thesis by blast
    next
      case 3
      moreover from this have "seg_len seg = 0" by (simp add: empty_at_def seg_len_def TCPHeader_default_def)
      ultimately show ?thesis by (intro exI [of _ ?n]) simp
    qed
  qed
  then have "queue_ok W t" unfolding queue_ok_def f by blast
  moreover have "numbers_ok W t" using inv(2) unfolding numbers_ok_def f .
  moreover have "window_ok W t" using inv(3) unfolding window_ok_def b f .
  moreover have "timer_ok t" using timer unfolding timer_ok_def f .
  ultimately show ?thesis using inv(1) by (simp add: sender_inv_def f)
qed

section \<open>One round of \<^verbatim>\<open>fill_window\<close>\<close>

text \<open>What one round takes from the stream: \<open>n\<close> bytes at most, and the FIN when nothing is left.\<close>

definition emit :: "TCPSender \<Rightarrow> ByteStream \<Rightarrow> bool \<Rightarrow> TCPSegment \<Rightarrow> TCPSender" where
  "emit s st fin seg = s\<lparr>ts_syn := True, ts_stream := st, ts_fin := fin,
     ts_segments_out := ts_segments_out s @ [seg],
     ts_outstanding_segment := oinsert fst (ts_next_seqno s, seg) (ts_outstanding_segment s),
     ts_bytes_in_flight := ts_bytes_in_flight s + TCPSegment_length_in_sequence_space seg,
     ts_next_seqno := ts_next_seqno s + TCPSegment_length_in_sequence_space seg,
     ts_timer := (if rt_is_stopped (ts_timer s) then RetransmissionTimer_set_new_timer (ts_timer s) (ts_rto s)
                  else ts_timer s)\<rparr>"

lemma guard_facts:
  assumes "sender_inv W s" and "fill_window_guard s w"
  shows "\<not> ts_fin s" and "TCPSender_CLOSED s \<longleftrightarrow> \<not> ts_syn s"
    and "of_flag (ts_syn s) + bs_byte_read (ts_stream s) = ts_next_seqno s"
    and "unat (ts_next_seqno s) = of_bool (ts_syn s) + unat (bs_byte_read (ts_stream s))"
    and "\<not> ts_syn s \<or> ByteStream_contents (ts_stream s) \<noteq> [] \<or> bs_end (ts_stream s)" and "0 < unat w"
proof -
  let ?st = "ts_stream s"
  have st: "ByteStream_inv ?st" "unat (bs_byte_written ?st) = length W" "unat (bs_byte_read ?st) \<le> length W"
    "ByteStream_contents ?st = drop (unat (bs_byte_read ?st)) W" "length W + 8589934592 < two64"
    and n: "unat (ts_next_seqno s) = of_bool (ts_syn s) + unat (bs_byte_read ?st) + of_bool (ts_fin s)"
    "\<not> ts_syn s \<Longrightarrow> bs_byte_read ?st = 0 \<and> \<not> ts_fin s"
    "ts_fin s \<Longrightarrow> bs_end ?st \<and> unat (bs_byte_read ?st) = length W"
    using assms(1) by (simp_all add: sender_inv_parts)
  have "unat (bs_byte_written ?st + 2) = length W + 2"
    using st(2,5) by (subst unat_add64) simp_all
  then have fts: "TCPSender_SYN_ACKED_FIN_TO_SEND s \<longleftrightarrow> unat (ts_next_seqno s) < length W + 2
      \<and> bs_end ?st \<and> ByteStream_contents ?st = []"
    using st(1) by (simp add: TCPSender_SYN_ACKED_FIN_TO_SEND_def word_less_nat_alt ByteStream_eof_iff)
  have cl: "TCPSender_CLOSED s \<longleftrightarrow> unat (ts_next_seqno s) = 0"
    by (simp add: TCPSender_CLOSED_def unat_eq_0)
  have g: "TCPSender_CLOSED s \<or> ByteStream_contents ?st \<noteq> [] \<or> TCPSender_SYN_ACKED_FIN_TO_SEND s" "0 < w"
    using assms(2) st(1) by (auto simp: fill_window_guard_def ByteStream_buffer_empty_iff)
  show fin: "\<not> ts_fin s"
  proof
    assume fin: "ts_fin s"
    then have "ts_syn s" using n(2) by blast
    then have "unat (ts_next_seqno s) = length W + 2" "ByteStream_contents ?st = []"
      using n(1) n(3) [OF fin] fin st(4) by simp_all
    with g(1) cl fts show False by simp
  qed
  show "TCPSender_CLOSED s \<longleftrightarrow> \<not> ts_syn s" using cl n(1,2) fin by (cases "ts_syn s") auto
  show eq: "unat (ts_next_seqno s) = of_bool (ts_syn s) + unat (bs_byte_read ?st)" using n(1) fin by simp
  have "unat (of_flag (ts_syn s) + bs_byte_read ?st) = of_bool (ts_syn s) + unat (bs_byte_read ?st)"
    using st(3,5) by (subst unat_add64) (auto simp: of_bool_def)
  then show "of_flag (ts_syn s) + bs_byte_read ?st = ts_next_seqno s"
    using eq by (simp add: word_unat_eq_iff)
  show "\<not> ts_syn s \<or> ByteStream_contents ?st \<noteq> [] \<or> bs_end ?st"
    using g(1) fts cl eq by auto
  show "0 < unat w" using g(2) by (simp add: word_less_nat_alt)
qed

lemma read_stream_of:
  assumes "stream_of W st"
  obtains st' where "ByteStream_read st n = Inr (st', take (unat n) (ByteStream_contents st))" and "stream_of W st'"
    and "bs_end st' = bs_end st \<and> bs_error st' = bs_error st"
    and "unat (bs_byte_read st') = unat (bs_byte_read st) + length (take (unat n) (ByteStream_contents st))"
    and "bs_byte_written st' = bs_byte_written st"
proof -
  from assms have st: "ByteStream_inv st" "unat (bs_byte_written st) = length W" "unat (bs_byte_read st) \<le> length W"
    "ByteStream_contents st = drop (unat (bs_byte_read st)) W"
    by (simp_all add: stream_of_def)
  obtain st' where st': "ByteStream_read st n = Inr (st', take (unat n) (ByteStream_contents st))" "ByteStream_inv st'"
    "ByteStream_contents st' = drop (unat n) (ByteStream_contents st)" "bs_end st' = bs_end st \<and> bs_error st' = bs_error st"
    "bs_byte_written st' = bs_byte_written st"
    "bs_byte_read st' = bs_byte_read st + min n (ByteStream_buffer_size st)"
    using ByteStream_read_law [OF st(1), of n] by metis
  let ?m = "min (unat n) (length (ByteStream_contents st))"
  have m: "unat (min n (ByteStream_buffer_size st)) = ?m" using st(1) by (simp add: unat_buffer_size)
  have "unat (bs_byte_read st) + ?m \<le> length W" using st(3,4) by auto
  moreover from this have "unat (bs_byte_read st) + ?m < two64" using st(2) unat_lt64 [of "bs_byte_written st"] by linarith
  ultimately have r: "unat (bs_byte_read st') = unat (bs_byte_read st) + ?m" "unat (bs_byte_read st') \<le> length W"
    using st'(6) m by (simp_all add: unat_add64)
  have "drop (unat n) (ByteStream_contents st) = drop ?m (ByteStream_contents st)" by (simp add: min_def)
  then have "ByteStream_contents st' = drop (unat (bs_byte_read st')) W"
    using st'(3) st(4) r(1) by (simp add: add.commute)
  then have "stream_of W st'" using st'(2,5) st(2) r(2) by (simp add: stream_of_def)
  moreover have "unat (bs_byte_read st') = unat (bs_byte_read st) + length (take (unat n) (ByteStream_contents st))"
    using r(1) by (simp add: min.commute)
  ultimately show ?thesis using st'(1,4,5) that by blast
qed

text \<open>The payload of the round: what is read, or nothing when the SYN has used up the window.\<close>

lemma body_payload:
  fixes s :: TCPSender
  assumes "stream_of W (ts_stream s)" and "used = of_flag b" and "of_bool b \<le> unat w"
  obtains st p where "(if w > used
             then bindE (ByteStream_read (ts_stream s) (min (w - used) TCPConfig_MAX_PAYLOAD_SIZE))
                    (\<lambda>(stream, d). Inr (s\<lparr>ts_stream := stream\<rparr>, Buffer_of_string d, used + Buffer_size (Buffer_of_string d)))
             else Inr (s, Buffer_default, used)) = Inr (s\<lparr>ts_stream := st\<rparr>, p, of_nat (of_bool b + length (Buffer_str p)))"
    and "Buffer_wf p" and "Buffer_str p = take (min (unat w - of_bool b) 1452) (ByteStream_contents (ts_stream s))"
    and "stream_of W st" and "bs_end st = bs_end (ts_stream s) \<and> bs_error st = bs_error (ts_stream s)" and "bs_byte_written st = bs_byte_written (ts_stream s)"
    and "unat (bs_byte_read st) = unat (bs_byte_read (ts_stream s)) + length (Buffer_str p)"
proof (cases "w > used")
  case True
  let ?n = "min (w - used) TCPConfig_MAX_PAYLOAD_SIZE" and ?c = "ByteStream_contents (ts_stream s)"
  have "unat (w - used) = unat w - of_bool b" using True assms(2) by (subst unat_sub64) auto
  then have n: "unat ?n = min (unat w - of_bool b) 1452" by (simp add: TCPConfig_MAX_PAYLOAD_SIZE_def)
  obtain st where st: "ByteStream_read (ts_stream s) ?n = Inr (st, take (unat ?n) ?c)" "stream_of W st"
    "bs_end st = bs_end (ts_stream s) \<and> bs_error st = bs_error (ts_stream s)"
    "unat (bs_byte_read st) = unat (bs_byte_read (ts_stream s)) + length (take (unat ?n) ?c)"
    "bs_byte_written st = bs_byte_written (ts_stream s)"
    using read_stream_of [OF assms(1)] by metis
  let ?p = "Buffer_of_string (take (unat ?n) ?c)"
  have "length (take (unat ?n) ?c) \<le> 1452" unfolding n by simp
  moreover have "1452 < two64" by (simp add: two64_def)
  ultimately have wf: "Buffer_wf ?p" by (intro Buffer_wf_of_string) linarith
  have u: "used + Buffer_size ?p = of_nat (of_bool b + length (Buffer_str ?p))"
    using assms(2) by (simp add: Buffer_size_def size64_def of_flag_def)
  show ?thesis
  proof (rule that [OF _ wf _ st(2,3,5)])
    show "(if w > used
        then bindE (ByteStream_read (ts_stream s) ?n)
               (\<lambda>(stream, d). Inr (s\<lparr>ts_stream := stream\<rparr>, Buffer_of_string d, used + Buffer_size (Buffer_of_string d)))
        else Inr (s, Buffer_default, used)) = Inr (s\<lparr>ts_stream := st\<rparr>, ?p, of_nat (of_bool b + length (Buffer_str ?p)))"
      unfolding if_P [OF True] st(1) bindE_simps prod.case u ..
    show "Buffer_str ?p = take (min (unat w - of_bool b) 1452) ?c" unfolding n by simp
    show "unat (bs_byte_read st) = unat (bs_byte_read (ts_stream s)) + length (Buffer_str ?p)"
      unfolding st(4) by simp
  qed
next
  case False
  then have "unat w = of_bool b" using assms(2,3) by (simp add: word_less_nat_alt)
  with False assms show ?thesis
    by (intro that [of "ts_stream s" Buffer_default]) (simp_all add: of_flag_def)
qed

lemma body_emits:
  assumes "sender_inv W s" and "fill_window_guard s w" and "unat w \<le> 65536"
  obtains st seg where "fill_window_body s w = Inr (emit s st (th_fin (sg_header seg)) seg, w - of_nat (seg_len seg))"
    and "stream_of W st" and "bs_end st = bs_end (ts_stream s) \<and> bs_error st = bs_error (ts_stream s)"
    and "unat (bs_byte_read st) = unat (bs_byte_read (ts_stream s)) + length (Buffer_str (sg_payload seg))"
    and "seg_at W (ts_isn s) (unat (ts_next_seqno s)) seg" and "0 < seg_len seg" and "seg_len seg \<le> unat w"
    and "th_syn (sg_header seg) \<longleftrightarrow> \<not> ts_syn s"
    and "th_fin (sg_header seg) \<longrightarrow> bs_end st \<and> unat (bs_byte_read st) = length W"
proof -
  note g = guard_facts [OF assms(1,2)]
  define b where "b = (\<not> ts_syn s)"
  let ?s1 = "s\<lparr>ts_syn := True\<rparr>" and ?f = "ts_next_seqno s"
  have w1: "0 + 1 \<le> w" using g(6) by (simp add: word_le_nat_alt)
  have st0: "stream_of W (ts_stream ?s1)" and W: "length W + 8589934592 < two64"
    using assms(1) by (simp_all add: sender_inv_def numbers_ok_def)
  have b: "of_bool b \<le> unat w" using g(6) by (simp add: of_bool_def)
  obtain st p where rd: "(if w > of_flag b
             then bindE (ByteStream_read (ts_stream ?s1) (min (w - of_flag b) TCPConfig_MAX_PAYLOAD_SIZE))
                    (\<lambda>(stream, d). Inr (?s1\<lparr>ts_stream := stream\<rparr>, Buffer_of_string d, of_flag b + Buffer_size (Buffer_of_string d)))
             else Inr (?s1, Buffer_default, of_flag b)) = Inr (?s1\<lparr>ts_stream := st\<rparr>, p, of_nat (of_bool b + length (Buffer_str p)))"
    and p: "Buffer_wf p" "Buffer_str p = take (min (unat w - of_bool b) 1452) (ByteStream_contents (ts_stream ?s1))"
    and st: "stream_of W st" "bs_end st = bs_end (ts_stream ?s1) \<and> bs_error st = bs_error (ts_stream ?s1)" "bs_byte_written st = bs_byte_written (ts_stream ?s1)"
      "unat (bs_byte_read st) = unat (bs_byte_read (ts_stream ?s1)) + length (Buffer_str p)"
    by (rule body_payload [OF st0 refl b])
  define fin where "fin = (of_nat (of_bool b + length (Buffer_str p)) + 1 \<le> w
      \<and> TCPSender_SYN_ACKED_FIN_TO_SEND (?s1\<lparr>ts_stream := st\<rparr>))"
  define seg where "seg = \<lparr>sg_header = TCPHeader_default\<lparr>th_syn := b, th_seqno := wrap ?f (ts_isn s), th_fin := fin\<rparr>,
      sg_payload = p\<rparr>"
  have len: "seg_len seg = of_bool b + length (Buffer_str p) + of_bool fin"
    by (simp add: seg_len_def seg_def)
  have ifs: "(if b then s\<lparr>ts_syn := True\<rparr> else s) = ?s1" "(if b then 1 else 0) = (of_flag b :: u64)"
    by (simp_all add: b_def of_flag_def)
  have used: "(if fin then of_nat n + 1 else of_nat n) = (of_nat (n + of_bool fin) :: u64)" for n
    by simp
  have body: "fill_window_body s w = Inr (emit s st fin seg, w - of_nat (seg_len seg))"
  proof -
    have c: "(0 + 1 \<le> w \<and> TCPSender_CLOSED s) = b" using w1 g(2) by (simp add: b_def)
    have isn: "ts_isn ?s1 = ts_isn s" by simp
    show ?thesis
      unfolding fill_window_body_def Let_def c g(3) ifs rd bindE_simps prod.case fin_def [symmetric] isn
      using g(1) by (auto simp: emit_def seg_def seg_len_def RetransmissionTimer_is_stopped_def intro!: TCPSender.equality)
  qed
  let ?n = "length (Buffer_str p)" and ?c = "ByteStream_contents (ts_stream s)"
  have s0: "ByteStream_inv (ts_stream s)" "unat (bs_byte_written (ts_stream s)) = length W"
    "unat (bs_byte_read (ts_stream s)) \<le> length W" "?c = drop (unat (bs_byte_read (ts_stream s))) W"
    using st0 by (simp_all add: stream_of_def)
  have n: "?n = min (min (unat w - of_bool b) 1452) (length ?c)" using p(2) by simp
  then have n_le: "?n \<le> 1452" "of_bool b + ?n \<le> unat w" using b by auto
  have eof: "ByteStream_eof st \<longleftrightarrow> bs_end (ts_stream s) \<and> unat (bs_byte_read st) = length W"
    using st(1,2) by (auto simp: stream_of_def ByteStream_eof_iff)
  have "unat (bs_byte_written st + 2) = length W + 2"
    using st(3) s0(2) W by (subst unat_add64) simp_all
  moreover have "unat (ts_next_seqno s) < length W + 2"
    using g(4) s0(3) by (simp add: of_bool_def)
  ultimately have fts: "TCPSender_SYN_ACKED_FIN_TO_SEND (?s1\<lparr>ts_stream := st\<rparr>) \<longleftrightarrow> ByteStream_eof st"
    by (simp add: TCPSender_SYN_ACKED_FIN_TO_SEND_def word_less_nat_alt)
  have "of_bool b + ?n + 1 < two64" using n_le W by (simp add: of_bool_def)
  then have "unat (of_nat (of_bool b + ?n) + 1 :: u64) = of_bool b + ?n + 1"
    by (metis Suc_eq_plus1 of_nat_Suc add.commute unat_of_nat64)
  then have fin: "fin \<longleftrightarrow> of_bool b + ?n + 1 \<le> unat w \<and> ByteStream_eof st"
    unfolding fin_def fts word_le_nat_alt by simp
  have at: "seg_at W (ts_isn s) (unat ?f) seg"
  proof -
    have idx: "unat ?f - 1 = unat (bs_byte_read (ts_stream s))"
      using g(4) assms(1) by (cases "ts_syn s") (auto simp: sender_inv_parts)
    have "Buffer_str p = take ?n (drop (unat ?f - 1) W)"
      unfolding idx s0(4) [symmetric] p(2) by (simp add: take_length_take del: length_take)
    moreover have "fin \<longrightarrow> unat ?f - 1 + ?n = length W"
      unfolding idx using fin eof st(4) by simp
    moreover have "b \<longleftrightarrow> unat ?f = 0" using g(4) assms(1) by (cases "ts_syn s") (auto simp: b_def sender_inv_parts)
    ultimately show ?thesis
      using p(1) n_le(1) by (simp add: seg_at_def seg_def TCPConfig_MAX_PAYLOAD_SIZE_def)
  qed
  have pos: "0 < seg_len seg"
  proof (cases "b \<or> ?c \<noteq> []")
    case True
    then show ?thesis using n g(6) unfolding len by (auto simp: of_bool_def)
  next
    case False
    then have "bs_end (ts_stream s)" "?n = 0" "\<not> b" using g(5) n by (auto simp: b_def)
    moreover have "unat (bs_byte_read (ts_stream s)) = length W" using False s0(3,4) by simp
    ultimately have fin using fin eof g(6) st(4) by simp
    then show ?thesis unfolding len by simp
  qed
  have le: "seg_len seg \<le> unat w" using n_le(2) fin unfolding len by (cases fin) auto
  show ?thesis
  proof (rule that [OF _ st(1) _ _ at pos le])
    show "fill_window_body s w = Inr (emit s st (th_fin (sg_header seg)) seg, w - of_nat (seg_len seg))"
      using body by (simp add: seg_def)
    show "bs_end st = bs_end (ts_stream s) \<and> bs_error st = bs_error (ts_stream s)" using st(2) by simp
    show "unat (bs_byte_read st) = unat (bs_byte_read (ts_stream s)) + length (Buffer_str (sg_payload seg))"
      using st(4) by (simp add: seg_def)
    show "th_syn (sg_header seg) \<longleftrightarrow> \<not> ts_syn s" by (simp add: seg_def b_def)
    show "th_fin (sg_header seg) \<longrightarrow> bs_end st \<and> unat (bs_byte_read st) = length W"
      using fin eof st(2) by (simp add: seg_def)
  qed
qed

section \<open>Rounds keep the invariant\<close>

lemma next_seqno_bound:
  assumes "sender_inv W s"
  shows "unat (ts_next_seqno s) \<le> length W + 2" and "length W + 8589934592 < two64"
  using assms by (auto simp: sender_inv_parts of_bool_def)

lemma emit_next:
  assumes "sender_inv W s" and "seg_at W (ts_isn s) f seg"
  shows "unat (ts_next_seqno (emit s st fin seg)) = unat (ts_next_seqno s) + seg_len seg"
  using next_seqno_bound [OF assms(1)] unat_seg_len [OF assms(2)]
  by (simp add: emit_def unat_add64)

lemma emit_base:
  assumes "sender_inv W s" and "seg_at W (ts_isn s) (unat (ts_next_seqno s)) seg" and "0 < seg_len seg"
  shows "ts_outstanding_segment (emit s st fin seg) = ts_outstanding_segment s @ [(ts_next_seqno s, seg)]"
    and "base (emit s st fin seg) = base s"
proof -
  have "chain (base s) (ts_outstanding_segment s) (unat (ts_next_seqno s))"
    using assms(1) by (simp add: sender_inv_def window_ok_def)
  from chain_insert [OF this refl assms(3)]
  show os: "ts_outstanding_segment (emit s st fin seg) = ts_outstanding_segment s @ [(ts_next_seqno s, seg)]"
    by (simp add: emit_def)
  show "base (emit s st fin seg) = base s"
    unfolding base_def os by (simp split: list.split prod.split)
qed

lemma emit_inv:
  assumes inv: "sender_inv W s" and "\<not> ts_fin s" and "stream_of W st" and "bs_end st = bs_end (ts_stream s) \<and> bs_error st = bs_error (ts_stream s)"
    and "unat (bs_byte_read st) = unat (bs_byte_read (ts_stream s)) + length (Buffer_str (sg_payload seg))"
    and at: "seg_at W (ts_isn s) (unat (ts_next_seqno s)) seg" and pos: "0 < seg_len seg"
    and syn: "th_syn (sg_header seg) \<longleftrightarrow> \<not> ts_syn s"
    and fin: "th_fin (sg_header seg) \<longrightarrow> bs_end st \<and> unat (bs_byte_read st) = length W"
  shows "sender_inv W (emit s st (th_fin (sg_header seg)) seg)" (is "sender_inv W ?s'")
proof -
  note nx = emit_next [OF inv at, of st "th_fin (sg_header seg)"]
    and os = emit_base(1) [OF inv at pos, of st "th_fin (sg_header seg)"]
    and bs = emit_base(2) [OF inv at pos, of st "th_fin (sg_header seg)"]
    and bd = next_seqno_bound [OF inv] and ln = unat_seg_len [OF at]
  have numbers: "numbers_ok W ?s'"
    using inv assms(2,5) syn fin nx unfolding sender_inv_def numbers_ok_def
    by (simp add: emit_def seg_len_def of_bool_def split: if_splits)
  have w: "chain (base s) (ts_outstanding_segment s) (unat (ts_next_seqno s))" "base s \<le> unat (ts_ackno s)"
    "unat (ts_ackno s) \<le> unat (ts_next_seqno s)"
    "\<forall>(f, seg) \<in> set (ts_outstanding_segment s). seg_at W (ts_isn s) (unat f) seg"
    "\<forall>(f, seg) \<in> set (ts_outstanding_segment s). unat (ts_ackno s) < unat f + seg_len seg"
    "unat (ts_bytes_in_flight s) = unat (ts_next_seqno s) - base s"
    using inv unfolding sender_inv_def window_ok_def by blast+
  have frame: "ts_ackno ?s' = ts_ackno s" "ts_isn ?s' = ts_isn s"
    "ts_bytes_in_flight ?s' = ts_bytes_in_flight s + TCPSegment_length_in_sequence_space seg"
    "ts_segments_out ?s' = ts_segments_out s @ [seg]" "ts_stream ?s' = st"
    by (simp_all add: emit_def)
  have fl: "unat (ts_bytes_in_flight ?s') = unat (ts_next_seqno ?s') - base s"
    unfolding frame nx using w(2,3,6) bd ln by (subst unat_add64) simp_all
  have window: "window_ok W ?s'"
    unfolding window_ok_def bs os frame fl nx
    using w at pos chain_snoc [OF w(1) refl pos] fl [unfolded frame nx] by auto
  have "queue_ok W s" using inv by (simp add: sender_inv_def)
  then have queue: "queue_ok W ?s'"
    unfolding queue_ok_def frame nx using at by (auto intro: trans_le_add1)
  have "timer_ok s" using inv by (simp add: sender_inv_def)
  then have "timer_ok ?s'"
    unfolding timer_ok_def os by (simp add: emit_def RetransmissionTimer_set_new_timer_def)
  with numbers window queue assms(3) show ?thesis
    unfolding sender_inv_def frame by blast
qed

text \<open>The fields that \<^verbatim>\<open>fill_window\<close> leaves alone.\<close>

definition same_ack :: "TCPSender \<Rightarrow> TCPSender \<Rightarrow> bool" where
  "same_ack s s' \<longleftrightarrow> ts_isn s' = ts_isn s \<and> ts_ackno s' = ts_ackno s \<and> ts_window_size s' = ts_window_size s
     \<and> ts_rto s' = ts_rto s \<and> ts_initial_retransmission_timeout s' = ts_initial_retransmission_timeout s
     \<and> ts_consecutive_retransmissions s' = ts_consecutive_retransmissions s \<and> base s' = base s
     \<and> bs_end (ts_stream s') = bs_end (ts_stream s) \<and> bs_error (ts_stream s') = bs_error (ts_stream s) \<and> bs_byte_written (ts_stream s') = bs_byte_written (ts_stream s)
     \<and> (\<not> rt_is_expired (ts_timer s) \<longrightarrow> \<not> rt_is_expired (ts_timer s'))
     \<and> (\<exists>segs. ts_segments_out s' = ts_segments_out s @ segs \<and>
          map snd (ts_outstanding_segment s') = map snd (ts_outstanding_segment s) @ segs)"

lemma same_ack_refl: "same_ack s s"
  by (simp add: same_ack_def)

lemma same_ack_trans: "same_ack s t \<Longrightarrow> same_ack t u \<Longrightarrow> same_ack s u"
  unfolding same_ack_def by fastforce

lemma body_ok:
  assumes "sender_inv W s" and "fill_window_guard s w" and "unat w \<le> 65536"
  obtains s' w' where "fill_window_body s w = Inr (s', w')" and "sender_inv W s'" and "same_ack s s'"
    and "unat (ts_next_seqno s) < unat (ts_next_seqno s')"
    and "unat (ts_next_seqno s') + unat w' = unat (ts_next_seqno s) + unat w"
    and "ts_outstanding_segment s' \<noteq> []"
proof -
  obtain st seg where b: "fill_window_body s w = Inr (emit s st (th_fin (sg_header seg)) seg, w - of_nat (seg_len seg))"
    "stream_of W st" "bs_end st = bs_end (ts_stream s) \<and> bs_error st = bs_error (ts_stream s)"
    "unat (bs_byte_read st) = unat (bs_byte_read (ts_stream s)) + length (Buffer_str (sg_payload seg))"
    "seg_at W (ts_isn s) (unat (ts_next_seqno s)) seg" "0 < seg_len seg" "seg_len seg \<le> unat w"
    "th_syn (sg_header seg) \<longleftrightarrow> \<not> ts_syn s" "th_fin (sg_header seg) \<longrightarrow> bs_end st \<and> unat (bs_byte_read st) = length W"
    by (rule body_emits [OF assms])
  let ?s' = "emit s st (th_fin (sg_header seg)) seg"
  have "unat (bs_byte_written st) = unat (bs_byte_written (ts_stream s))"
    using b(2) assms(1) by (simp add: sender_inv_def stream_of_def)
  then have wr: "bs_byte_written st = bs_byte_written (ts_stream s)" by (simp add: word_unat_eq_iff)
  have same: "same_ack s ?s'"
    using emit_base [OF assms(1) b(5,6), of st "th_fin (sg_header seg)"] b(3) wr
    by (simp add: same_ack_def emit_def RetransmissionTimer_set_new_timer_def)
  have "seg_len seg < two64" using b(7) unat_lt64 [of w] by linarith
  then have "unat (w - of_nat (seg_len seg)) = unat w - seg_len seg"
    using b(7) by (subst unat_sub64) (simp_all add: word_le_nat_alt unat_of_nat64)
  then show ?thesis
    using emit_next [OF assms(1) b(5), of st "th_fin (sg_header seg)"] b(6,7)
      emit_base(1) [OF assms(1) b(5,6), of st "th_fin (sg_header seg)"]
    by (intro that [OF b(1) emit_inv [OF assms(1) guard_facts(1) [OF assms(1,2)] b(2-6,8,9)] same]) simp_all
qed

text \<open>The loop returns: every round uses up part of the window.\<close>

lemma fill_window_loop_ok:
  "sender_inv W s \<Longrightarrow> unat w \<le> 65536 \<Longrightarrow>
   \<exists>s' w'. fill_window_loop s w = Some (Inr s') \<and> sender_inv W s' \<and> same_ack s s'
     \<and> unat (ts_next_seqno s) \<le> unat (ts_next_seqno s')
     \<and> unat (ts_next_seqno s') + unat w' = unat (ts_next_seqno s) + unat w \<and> \<not> fill_window_guard s' w'
     \<and> (ts_outstanding_segment s' = [] \<longrightarrow> s' = s)"
proof (induction "unat w" arbitrary: s w rule: less_induct)
  case less
  show ?case
  proof (cases "fill_window_guard s w")
    case False
    with less.prems show ?thesis
      by (intro exI [of _ s] exI [of _ w]) (simp add: fill_window_loop.simps same_ack_refl)
  next
    case True
    obtain s1 w1 where b: "fill_window_body s w = Inr (s1, w1)" "sender_inv W s1" "same_ack s s1"
      "unat (ts_next_seqno s) < unat (ts_next_seqno s1)"
      "unat (ts_next_seqno s1) + unat w1 = unat (ts_next_seqno s) + unat w" "ts_outstanding_segment s1 \<noteq> []"
      by (rule body_ok [OF less.prems(1) True less.prems(2)])
    then have lt: "unat w1 < unat w" "unat w1 \<le> 65536" using less.prems(2) by linarith+
    from less.hyps [OF lt(1) b(2) lt(2)] obtain s' w' where l:
      "fill_window_loop s1 w1 = Some (Inr s')" "sender_inv W s'" "same_ack s1 s'"
      "unat (ts_next_seqno s1) \<le> unat (ts_next_seqno s')"
      "unat (ts_next_seqno s') + unat w' = unat (ts_next_seqno s1) + unat w1" "\<not> fill_window_guard s' w'"
      by blast
    have "ts_outstanding_segment s' \<noteq> []"
      using b(6) l(3) by (auto simp: same_ack_def)
    moreover have "fill_window_loop s w = Some (Inr s')"
      using True b(1) l(1) by (simp add: fill_window_loop.simps [of s w])
    ultimately show ?thesis
      using l b(4,5) same_ack_trans [OF b(3)] by (intro exI [of _ s'] exI [of _ w']) auto
  qed
qed

section \<open>\<^verbatim>\<open>fill_window\<close>\<close>

abbreviation window_limit :: "TCPSender \<Rightarrow> nat" where
  "window_limit s \<equiv> unat (ts_ackno s) + max 1 (unat (ts_window_size s))"

text \<open>Everything that was written has been sent, and the FIN if the input has ended.\<close>

definition all_sent :: "TCPSender \<Rightarrow> bool" where
  "all_sent s \<longleftrightarrow> ts_syn s \<and> ByteStream_contents (ts_stream s) = [] \<and> (bs_end (ts_stream s) \<longrightarrow> ts_fin s)"

lemma no_guard_all_sent:
  assumes "sender_inv W s" and "\<not> fill_window_guard s w" and "0 < unat w"
  shows "all_sent s"
proof -
  let ?st = "ts_stream s"
  have st: "ByteStream_inv ?st" "unat (bs_byte_written ?st) = length W" "unat (bs_byte_read ?st) \<le> length W"
    "ByteStream_contents ?st = drop (unat (bs_byte_read ?st)) W" "length W + 8589934592 < two64"
    and n: "unat (ts_next_seqno s) = of_bool (ts_syn s) + unat (bs_byte_read ?st) + of_bool (ts_fin s)"
    "\<not> ts_syn s \<Longrightarrow> bs_byte_read ?st = 0 \<and> \<not> ts_fin s"
    and fl: "unat (ts_bytes_in_flight s) = unat (ts_next_seqno s) - base s"
    using assms(1) by (simp_all add: sender_inv_parts)
  have w: "0 < w" using assms(3) by (simp add: word_less_nat_alt)
  have syn: "ts_syn s"
  proof (rule ccontr)
    assume no: "\<not> ts_syn s"
    then have "unat (ts_next_seqno s) = 0" using n(1) n(2) [OF no] by simp
    then have "TCPSender_CLOSED s" by (simp add: TCPSender_CLOSED_def unat_eq_0)
    with assms(2) w show False by (simp add: fill_window_guard_def)
  qed
  have empty: "ByteStream_contents ?st = []"
  proof (rule ccontr)
    assume ne: "ByteStream_contents ?st \<noteq> []"
    have "TCPSender_SYN_SENT s \<or> TCPSender_SYN_ACKED s"
      using fl n syn ne st(1) by (auto simp: TCPSender_SYN_SENT_def TCPSender_SYN_ACKED_def word_less_nat_alt
          ByteStream_eof_iff word_unat_eq_iff)
    with assms(2) w ne st(1) show False
      by (simp add: fill_window_guard_def ByteStream_buffer_empty_iff)
  qed
  have "unat (bs_byte_written ?st + 2) = length W + 2"
    using st(2,5) by (subst unat_add64) simp_all
  moreover have "\<not> TCPSender_SYN_ACKED_FIN_TO_SEND s" using assms(2) w by (simp add: fill_window_guard_def)
  ultimately have "bs_end ?st \<longrightarrow> length W + 2 \<le> unat (ts_next_seqno s)"
    using st(1) empty by (auto simp: TCPSender_SYN_ACKED_FIN_TO_SEND_def word_less_nat_alt ByteStream_eof_iff)
  moreover have "unat (bs_byte_read ?st) = length W" using empty st(3,4) by simp
  ultimately show ?thesis using n(1) syn empty by (auto simp: all_sent_def of_bool_def split: if_splits)
qed

lemma fill_window_ok:
  assumes "sender_inv W s"
  obtains s' where "TCPSender_fill_window s = Inr s'" and "sender_inv W s'" and "same_ack s s'"
    and "unat (ts_next_seqno s) \<le> unat (ts_next_seqno s')"
    and "unat (ts_next_seqno s') \<le> max (unat (ts_next_seqno s)) (window_limit s)"
    and "window_limit s \<le> unat (ts_next_seqno s') \<or> all_sent s'"
    and "ts_outstanding_segment s' = [] \<longrightarrow> s' = s"
proof -
  let ?v = "ucast (ts_window_size s) :: u64"
  let ?w = "if ?v = 0 then 1 else ?v"
  have win: "unat (ts_window_size s) < 65536"
    using unsigned_less [of "ts_window_size s", where 'a = nat] by simp
  have w: "unat ?w = max 1 (unat (ts_window_size s))"
  proof (cases "?v = 0")
    case True
    then have "unat (ts_window_size s) = 0" using unat_ucast_u64(2) [of "ts_window_size s"] by simp
    with True show ?thesis by simp
  next
    case False
    then have "ts_window_size s \<noteq> 0" by auto
    then have "1 \<le> unat (ts_window_size s)" by (simp add: Suc_le_eq unat_gt_0)
    with False show ?thesis by simp
  qed
  have a: "unat (ts_ackno s) \<le> unat (ts_next_seqno s)" using assms by (simp add: sender_inv_def window_ok_def)
  have sum: "unat (ts_ackno s + ?w) = window_limit s"
    using next_seqno_bound [OF assms] a win w by (subst unat_add64) (simp_all add: max_def)
  show ?thesis
  proof (cases "window_limit s \<le> unat (ts_next_seqno s)")
    case True
    then have "TCPSender_fill_window s = Inr s"
      using sum by (simp add: TCPSender_fill_window_def Let_def word_le_nat_alt)
    with True assms show ?thesis by (intro that [of s]) (simp_all add: same_ack_refl)
  next
    case False
    let ?n = "ts_ackno s + ?w - ts_next_seqno s"
    have n: "unat ?n = window_limit s - unat (ts_next_seqno s)"
      using False sum by (subst unat_sub64) (simp_all add: word_le_nat_alt)
    moreover have "window_limit s - unat (ts_next_seqno s) \<le> 65536" using a win by linarith
    ultimately obtain s' w' where l: "fill_window_loop s ?n = Some (Inr s')" "sender_inv W s'" "same_ack s s'"
      "unat (ts_next_seqno s) \<le> unat (ts_next_seqno s')"
      "unat (ts_next_seqno s') + unat w' = unat (ts_next_seqno s) + unat ?n" "\<not> fill_window_guard s' w'"
      "ts_outstanding_segment s' = [] \<longrightarrow> s' = s"
      using fill_window_loop_ok [OF assms, of ?n] by auto
    have "TCPSender_fill_window s = Inr s'"
      using False sum l(1) by (simp add: TCPSender_fill_window_def Let_def word_le_nat_alt)
    moreover have "unat (ts_next_seqno s') + unat w' = window_limit s"
      using l(5) n False by simp
    moreover from this have "window_limit s \<le> unat (ts_next_seqno s') \<or> all_sent s'"
      using no_guard_all_sent [OF l(2,6)] by (cases "unat w' = 0") auto
    ultimately show ?thesis using l by (intro that [of s']) simp_all
  qed
qed

section \<open>Acknowledgments\<close>

lemma pop_acked_ok:
  "chain a os b \<Longrightarrow> \<forall>(f, seg) \<in> set os. seg_at W isn (unat f) seg \<Longrightarrow> b < two64 \<Longrightarrow>
   a \<le> unat ack \<Longrightarrow> unat n = b - a \<Longrightarrow>
   \<exists>os' n' a'. pop_acked ack os n = (os', n') \<and> chain a' os' b \<and> a \<le> a' \<and> a' \<le> unat ack
     \<and> a' = (case os' of [] \<Rightarrow> b | (f, seg) # _ \<Rightarrow> unat f)
     \<and> set os' \<subseteq> set os \<and> (\<forall>(f, seg) \<in> set os'. unat ack < unat f + seg_len seg) \<and> unat n' = b - a'
     \<and> (\<exists>popped. os = popped @ os' \<and> (\<forall>(f, seg) \<in> set popped. unat f + seg_len seg \<le> unat ack))"
proof (induction a os b arbitrary: n rule: chain.induct)
  case (1 a b)
  then show ?case by simp
next
  case (2 a f seg rest b)
  let ?l = "seg_len seg"
  have c: "unat f = a" "0 < ?l" "chain (a + ?l) rest b" using 2(2) by auto
  have l: "unat (TCPSegment_length_in_sequence_space seg) = ?l"
    using 2(3) unat_seg_len(1) [of W isn "unat f" seg] by simp
  have le: "a + ?l \<le> b" using chain_le [OF c(3)] .
  then have "unat (f + TCPSegment_length_in_sequence_space seg) = a + ?l"
    using c(1) l 2(4) by (subst unat_add64) simp_all
  then have test: "f + TCPSegment_length_in_sequence_space seg \<le> ack \<longleftrightarrow> a + ?l \<le> unat ack"
    by (simp add: word_le_nat_alt)
  show ?case
  proof (cases "a + ?l \<le> unat ack")
    case True
    have un: "unat (n - TCPSegment_length_in_sequence_space seg) = b - (a + ?l)"
      using 2(6) l le by (subst unat_sub64) (simp_all add: word_le_nat_alt)
    have at: "\<forall>(f, seg) \<in> set rest. seg_at W isn (unat f) seg" using 2(3) by simp
    from 2(1) [OF c(3) at 2(4) True un] obtain os' n' a' popped where
      r: "pop_acked ack rest (n - TCPSegment_length_in_sequence_space seg) = (os', n')" "chain a' os' b" "a + ?l \<le> a'"
      "a' \<le> unat ack" "a' = (case os' of [] \<Rightarrow> b | (f, seg) # _ \<Rightarrow> unat f)"
      "set os' \<subseteq> set rest" "\<forall>(f, seg) \<in> set os'. unat ack < unat f + seg_len seg" "unat n' = b - a'"
      "rest = popped @ os'" "\<forall>(f, seg) \<in> set popped. unat f + seg_len seg \<le> unat ack"
      by blast
    show ?thesis
    proof (intro exI conjI)
      show "pop_acked ack ((f, seg) # rest) n = (os', n')" using test True r(1) by simp
      show "(f, seg) # rest = ((f, seg) # popped) @ os'" using r(9) by simp
      show "\<forall>(f, seg) \<in> set ((f, seg) # popped). unat f + seg_len seg \<le> unat ack" using r(10) c(1) True by simp
    qed (use r in auto)
  next
    case False
    have "unat ack < unat g + seg_len sg" if "(g, sg) \<in> set ((f, seg) # rest)" for g sg
      using that False c(1) chain_below [OF c(3), of g sg] by auto
    then have "\<forall>(g, sg) \<in> set ((f, seg) # rest). unat ack < unat g + seg_len sg" by blast
    moreover have "pop_acked ack ((f, seg) # rest) n = ((f, seg) # rest, n)" using test False by simp
    moreover have "(f, seg) # rest = [] @ ((f, seg) # rest)" by simp
    ultimately show ?thesis
      using 2(2,5,6) c(1) by (intro exI [of _ "(f, seg) # rest"] exI [of _ n] exI [of _ a]) auto
  qed
qed

lemma advance_ack_inv:
  fixes win :: u16
  assumes "sender_inv W s" and "ts_ackno s \<le> ack" and "ack \<le> ts_next_seqno s"
  defines "s1 \<equiv> s\<lparr>ts_window_size := win, ts_rto := ts_initial_retransmission_timeout s,
     ts_consecutive_retransmissions := 0, ts_ackno := ack\<rparr>"
  defines "s2 \<equiv> TCPSender_pop_outstanding_segment s1"
  shows "sender_inv W s2" and "s2 = s1\<lparr>ts_outstanding_segment := ts_outstanding_segment s2,
      ts_bytes_in_flight := ts_bytes_in_flight s2\<rparr>"
    and "\<exists>popped. ts_outstanding_segment s = popped @ ts_outstanding_segment s2
       \<and> (\<forall>(f, seg) \<in> set popped. unat f + seg_len seg \<le> unat ack)"
proof -
  let ?os = "ts_outstanding_segment s" and ?n = "unat (ts_next_seqno s)"
  have w: "chain (base s) ?os ?n" "base s \<le> unat (ts_ackno s)"
    "\<forall>(f, seg) \<in> set ?os. seg_at W (ts_isn s) (unat f) seg" "unat (ts_bytes_in_flight s) = ?n - base s"
    using assms(1) unfolding sender_inv_def window_ok_def by blast+
  have a: "base s \<le> unat ack" "unat ack \<le> ?n" using w(2) assms(2,3) by (auto simp: word_le_nat_alt)
  obtain os' n' a' where p: "pop_acked ack ?os (ts_bytes_in_flight s) = (os', n')" "chain a' os' ?n" "a' \<le> unat ack"
    "a' = (case os' of [] \<Rightarrow> ?n | (f, seg) # _ \<Rightarrow> unat f)" "set os' \<subseteq> set ?os"
    "\<forall>(f, seg) \<in> set os'. unat ack < unat f + seg_len seg" "unat n' = ?n - a'"
    and pop: "\<exists>popped. ?os = popped @ os' \<and> (\<forall>(f, seg) \<in> set popped. unat f + seg_len seg \<le> unat ack)"
    using pop_acked_ok [OF w(1,3) unat_lt64 a(1) w(4)] by metis
  have s2: "s2 = s1\<lparr>ts_outstanding_segment := os', ts_bytes_in_flight := n'\<rparr>"
    using p(1) by (simp add: s2_def s1_def TCPSender_pop_outstanding_segment_def)
  then show "s2 = s1\<lparr>ts_outstanding_segment := ts_outstanding_segment s2, ts_bytes_in_flight := ts_bytes_in_flight s2\<rparr>"
    by simp
  have base: "base s2 = a'" using p(4) by (cases os') (simp_all add: base_def s2 s1_def split: prod.split)
  have f: "ts_outstanding_segment s2 = os'" "ts_next_seqno s2 = ts_next_seqno s" "ts_ackno s2 = ack"
    "ts_isn s2 = ts_isn s" "ts_bytes_in_flight s2 = n'" "ts_stream s2 = ts_stream s" by (simp_all add: s2 s1_def)
  have win: "window_ok W s2"
    unfolding window_ok_def base f using p w(3) a(2) by auto
  have "os' \<noteq> [] \<longrightarrow> ?os \<noteq> []" using p(5) by auto
  then have "timer_ok s2" using assms(1) by (simp add: sender_inv_def timer_ok_def s2 s1_def)
  moreover have "numbers_ok W s2" using assms(1) by (simp add: sender_inv_def numbers_ok_def s2 s1_def)
  moreover have "queue_ok W s2" using assms(1) by (simp add: sender_inv_def queue_ok_def s2 s1_def)
  ultimately show "sender_inv W s2"
    using win assms(1) by (simp add: sender_inv_def f(6))
  show "\<exists>popped. ?os = popped @ ts_outstanding_segment s2 \<and> (\<forall>(f, seg) \<in> set popped. unat f + seg_len seg \<le> unat ack)"
    using pop by (simp add: s2)
qed

lemma ack_received_ok:
  fixes ackno :: WrappingInt32 and win :: u16
  assumes "sender_inv W s"
  defines "a \<equiv> unwrap ackno (ts_isn s) (ts_ackno s)"
  obtains (ignored) "ts_next_seqno s < a" and "TCPSender_ack_received s ackno win = Inr (s, False)"
  | (old) "a \<le> ts_ackno s" and "TCPSender_ack_received s ackno win = Inr (s\<lparr>ts_window_size := win\<rparr>, True)"
      and "sender_inv W (s\<lparr>ts_window_size := win\<rparr>)"
  | (fresh) s2 s3 s' popped where "ts_ackno s < a" and "a \<le> ts_next_seqno s"
      and "TCPSender_ack_received s ackno win = Inr (s', True)" and "sender_inv W s'" and "idle_ok s'"
      and "s2 = s\<lparr>ts_window_size := win, ts_rto := ts_initial_retransmission_timeout s,
             ts_consecutive_retransmissions := 0, ts_ackno := a,
             ts_outstanding_segment := ts_outstanding_segment s2, ts_bytes_in_flight := ts_bytes_in_flight s2\<rparr>"
      and "ts_outstanding_segment s = popped @ ts_outstanding_segment s2"
      and "\<forall>(f, seg) \<in> set popped. unat f + seg_len seg \<le> unat a"
      and "same_ack s2 s3" and "TCPSender_fill_window s2 = Inr s3"
      and "unat (ts_next_seqno s) \<le> unat (ts_next_seqno s3)"
      and "unat (ts_next_seqno s3) \<le> max (unat (ts_next_seqno s)) (unat a + max 1 (unat win))"
      and "s' = s3\<lparr>ts_timer := if ts_outstanding_segment s3 \<noteq> []
                    then RetransmissionTimer_set_new_timer (ts_timer s3) (ts_rto s3)
                    else RetransmissionTimer_stop (ts_timer s3)\<rparr>"
      and "sender_inv W s2"
proof -
  consider "ts_next_seqno s < a" | "a \<le> ts_ackno s" "a \<le> ts_next_seqno s" | "ts_ackno s < a" "a \<le> ts_next_seqno s"
    by fastforce
  then show ?thesis
  proof cases
    case 1
    then show ?thesis by (intro ignored) (simp_all add: TCPSender_ack_received_def a_def)
  next
    case 2
    have "sender_inv W (s\<lparr>ts_window_size := win\<rparr>)"
      using assms(1) by (intro same_core_inv [OF assms(1)]) (simp_all add: same_core_def sender_inv_def timer_ok_def)
    with 2 show ?thesis
      by (intro old) (simp_all add: TCPSender_ack_received_def a_def [symmetric] Let_def not_less)
  next
    case 3
    let ?s1 = "s\<lparr>ts_window_size := win, ts_rto := ts_initial_retransmission_timeout s,
             ts_consecutive_retransmissions := 0, ts_ackno := a\<rparr>"
    let ?s2 = "TCPSender_pop_outstanding_segment ?s1"
    note adv = advance_ack_inv [OF assms(1) less_imp_le [OF 3(1)] 3(2), of win]
    obtain popped where p: "ts_outstanding_segment s = popped @ ts_outstanding_segment ?s2"
      "\<forall>(f, seg) \<in> set popped. unat f + seg_len seg \<le> unat a" using adv(3) by blast
    obtain s3 where f: "TCPSender_fill_window ?s2 = Inr s3" "sender_inv W s3" "same_ack ?s2 s3"
      "unat (ts_next_seqno ?s2) \<le> unat (ts_next_seqno s3)"
      "unat (ts_next_seqno s3) \<le> max (unat (ts_next_seqno ?s2)) (window_limit ?s2)"
      by (rule fill_window_ok [OF adv(1)])
    let ?s' = "s3\<lparr>ts_timer := if ts_outstanding_segment s3 \<noteq> []
                    then RetransmissionTimer_set_new_timer (ts_timer s3) (ts_rto s3)
                    else RetransmissionTimer_stop (ts_timer s3)\<rparr>"
    have s2: "ts_next_seqno ?s2 = ts_next_seqno s" "ts_ackno ?s2 = a" "ts_window_size ?s2 = win"
      by (subst adv(2), simp)+
    have run: "TCPSender_ack_received s ackno win = Inr (?s', True)"
      using 3 f(1) by (simp add: TCPSender_ack_received_def a_def [symmetric] Let_def not_less not_le)
    have inv: "sender_inv W ?s'"
      by (intro same_core_inv [OF f(2)]) (simp_all add: same_core_def RetransmissionTimer_set_new_timer_def)
    have idle: "idle_ok ?s'" by (simp add: idle_ok_def RetransmissionTimer_stop_def RetransmissionTimer_set_new_timer_def)
    show ?thesis
      by (rule fresh [OF 3 run inv idle _ p f(3,1) f(4,5) [unfolded s2] refl adv(1)]) (subst adv(2), simp)
  qed
qed

section \<open>The other operations\<close>

text \<open>What \<^verbatim>\<open>tick\<close> does, case by case.\<close>

lemma tick_idle: "ts_outstanding_segment s = [] \<Longrightarrow>
    TCPSender_tick s ms = s\<lparr>ts_timer := RetransmissionTimer_time_expired (ts_timer s) (ucast ms)\<rparr>"
  by (simp add: TCPSender_tick_def)

lemma tick_waits: "\<not> RetransmissionTimer_is_expired (RetransmissionTimer_time_expired (ts_timer s) (ucast ms)) \<Longrightarrow>
    TCPSender_tick s ms = s\<lparr>ts_timer := RetransmissionTimer_time_expired (ts_timer s) (ucast ms)\<rparr>"
  by (cases "ts_outstanding_segment s") (auto simp: TCPSender_tick_def Let_def)

lemma tick_fires:
  assumes "ts_outstanding_segment s = (f, seg) # rest"
    and "RetransmissionTimer_is_expired (RetransmissionTimer_time_expired (ts_timer s) (ucast ms))"
  defines "c \<equiv> (if ts_window_size s > 0 then ts_consecutive_retransmissions s + 1 else ts_consecutive_retransmissions s)"
    and "r \<equiv> (if ts_window_size s > 0 then push_bit 1 (ts_rto s) else ts_rto s)"
  shows "TCPSender_tick s ms = s\<lparr>ts_consecutive_retransmissions := c, ts_rto := r,
     ts_segments_out := (if c \<le> TCPConfig_MAX_RETX_ATTEMPTS then ts_segments_out s @ [seg] else ts_segments_out s),
     ts_timer := RetransmissionTimer_set_new_timer (RetransmissionTimer_time_expired (ts_timer s) (ucast ms)) r\<rparr>"
  using assms(1,2) unfolding c_def r_def by (simp add: TCPSender_tick_def Let_def)

lemma tick_cases:
  obtains (quiet) "ts_outstanding_segment s = []
      \<or> \<not> RetransmissionTimer_is_expired (RetransmissionTimer_time_expired (ts_timer s) (ucast ms))"
    and "TCPSender_tick s ms = s\<lparr>ts_timer := RetransmissionTimer_time_expired (ts_timer s) (ucast ms)\<rparr>"
  | (fires) f seg rest where "ts_outstanding_segment s = (f, seg) # rest"
     "RetransmissionTimer_is_expired (RetransmissionTimer_time_expired (ts_timer s) (ucast ms))"
  using tick_idle tick_waits by (metis neq_Nil_conv surj_pair)

lemma time_expired_stopped [simp]:
  "rt_is_stopped (RetransmissionTimer_time_expired t ms) = rt_is_stopped t"
  by (simp add: RetransmissionTimer_time_expired_def)

lemma set_new_timer_stopped [simp]: "\<not> rt_is_stopped (RetransmissionTimer_set_new_timer t r)"
  by (simp add: RetransmissionTimer_set_new_timer_def)

lemma set_new_timer_expired [simp]: "\<not> rt_is_expired (RetransmissionTimer_set_new_timer t r)"
  by (simp add: RetransmissionTimer_set_new_timer_def)

lemma tick_ok:
  assumes "sender_inv W s"
  shows "sender_inv W (TCPSender_tick s ms)" and "idle_ok s \<Longrightarrow> idle_ok (TCPSender_tick s ms)"
    and "backoff_ok s \<Longrightarrow> ts_consecutive_retransmissions s \<noteq> - 1 \<Longrightarrow> backoff_ok (TCPSender_tick s ms)"
proof -
  have t: "ts_outstanding_segment s \<noteq> [] \<longrightarrow> \<not> rt_is_stopped (ts_timer s)"
    using assms by (simp add: sender_inv_def timer_ok_def)
  have "sender_inv W (TCPSender_tick s ms) \<and> (idle_ok s \<longrightarrow> idle_ok (TCPSender_tick s ms))
      \<and> (backoff_ok s \<and> ts_consecutive_retransmissions s \<noteq> - 1 \<longrightarrow> backoff_ok (TCPSender_tick s ms))"
  proof (cases rule: tick_cases [where s = s and ms = ms])
    case quiet
    have "idle_ok s \<longrightarrow> \<not> rt_is_expired (RetransmissionTimer_time_expired (ts_timer s) (ucast ms))"
      using quiet(1) t by (cases "ts_outstanding_segment s = []")
        (auto simp: idle_ok_def RetransmissionTimer_is_expired_def RetransmissionTimer_time_expired_def)
    then show ?thesis using t unfolding quiet(2)
      by (auto simp: idle_ok_def backoff_ok_def same_core_def intro!: same_core_inv [OF assms])
  next
    case (fires f seg rest)
    have "unat (c + 1) = Suc (unat c)" if "c \<noteq> - 1" for c :: u32
      using that unatSuc [of c] by (simp add: add.commute eq_neg_iff_add_eq_0)
    then show ?thesis
      unfolding tick_fires [OF fires] using fires(1)
      by (auto simp: idle_ok_def backoff_ok_def same_core_def push_bit_push_bit intro!: same_core_inv [OF assms])
  qed
  then show "sender_inv W (TCPSender_tick s ms)" and "idle_ok s \<Longrightarrow> idle_ok (TCPSender_tick s ms)"
    and "backoff_ok s \<Longrightarrow> ts_consecutive_retransmissions s \<noteq> - 1 \<Longrightarrow> backoff_ok (TCPSender_tick s ms)"
    by blast+
qed

lemma send_empty_ok:
  assumes "sender_inv W s"
  shows "sender_inv W (TCPSender_send_empty_segment s)"
proof -
  have "empty_at (ts_isn s) (unat (ts_next_seqno s))
     \<lparr>sg_header = TCPHeader_default\<lparr>th_seqno := wrap (ts_next_seqno s) (ts_isn s)\<rparr>, sg_payload = Buffer_default\<rparr>"
    by (simp add: empty_at_def)
  then show ?thesis
    using assms by (intro same_core_inv [OF assms])
      (auto simp: same_core_def TCPSender_send_empty_segment_def sender_inv_def timer_ok_def)
qed

lemma drain_ok:
  assumes "sender_inv W s" and "set segs \<subseteq> set (ts_segments_out s)"
  shows "sender_inv W (s\<lparr>ts_segments_out := segs\<rparr>)"
  using assms by (intro same_core_inv [OF assms(1)]) (auto simp: same_core_def sender_inv_def timer_ok_def)

text \<open>Bytes are written to the stream before its end only.\<close>

lemma seg_at_extend:
  assumes "seg_at W isn f seg" and "f + seg_len seg \<le> n" and "n \<le> 1 + length W"
  shows "seg_at (W @ d) isn f seg"
proof -
  let ?p = "Buffer_str (sg_payload seg)"
  have nofin: "\<not> th_fin (sg_header seg)"
    using assms by (auto simp: seg_at_def seg_len_def)
  have "length ?p \<le> length W - (f - 1)"
    using assms(1) by (metis length_drop length_take min.cobounded2 seg_at_def min.commute)
  then have "take (length ?p) (drop (f - 1) (W @ d)) = take (length ?p) (drop (f - 1) W)" by simp
  with assms(1) nofin show ?thesis unfolding seg_at_def by metis
qed

lemma write_ok:
  assumes "sender_inv W s" and "\<not> bs_end (ts_stream s)" and "length W + length d + 2 ^ 33 < two64"
    and "ByteStream_write (ts_stream s) d = (st, n)"
  shows "sender_inv (W @ take (unat n) d) (s\<lparr>ts_stream := st\<rparr>)"
proof -
  let ?W = "W @ take (unat n) d" and ?t = "s\<lparr>ts_stream := st\<rparr>" and ?n = "unat (ts_next_seqno s)"
  have st: "stream_of W (ts_stream s)" and num: "numbers_ok W s" and win: "window_ok W s" and q: "queue_ok W s"
    and ti: "timer_ok s" using assms(1) by (simp_all add: sender_inv_def)
  have d: "length d < two64" using assms(3) by simp
  have inv: "ByteStream_inv (ts_stream s)" using st by (simp add: stream_of_def)
  note w = ByteStream_write_law [OF inv d assms(4)]
  have fr: "bs_byte_read st = bs_byte_read (ts_stream s)" "bs_byte_written st = bs_byte_written (ts_stream s) + n"
    "bs_end st = bs_end (ts_stream s)"
    using ByteStream_write_frame [of "ts_stream s" d] assms(4) by simp_all
  have len: "length (take (unat n) d) = unat n" using w(2) by simp
  have "unat (bs_byte_written st) = length W + unat n"
    using fr(2) st w(2) assms(3) by (simp add: stream_of_def) (subst unat_add64, simp_all)
  then have stream: "stream_of ?W st"
    using st w(1,3) fr(1) len by (simp add: stream_of_def)
  have nofin: "\<not> ts_fin s" using num assms(2) by (auto simp: numbers_ok_def)
  have numbers: "numbers_ok ?W ?t"
    using num nofin fr len w(2) assms(3) by (auto simp: numbers_ok_def)
  have le: "?n \<le> 1 + length W"
    using num st nofin by (simp add: numbers_ok_def stream_of_def of_bool_def)
  have b: "base ?t = base s" by (simp add: base_def split: list.split)
  have "seg_at ?W (ts_isn s) (unat f) seg" if "(f, seg) \<in> set (ts_outstanding_segment s)" for f seg
    using that win chain_below [of "base s" "ts_outstanding_segment s" ?n f seg] seg_at_extend [OF _ _ le]
    by (auto simp: window_ok_def)
  then have window: "window_ok ?W ?t"
    using win by (auto simp: window_ok_def b)
  have "queue_ok ?W ?t"
    using q seg_at_extend [OF _ _ le] by (fastforce simp: queue_ok_def)
  moreover have "timer_ok ?t" using ti by (simp add: timer_ok_def)
  ultimately show ?thesis using stream numbers window by (simp add: sender_inv_def)
qed

lemma end_input_ok:
  assumes "sender_inv W s"
  shows "sender_inv W (s\<lparr>ts_stream := ByteStream_end_input (ts_stream s)\<rparr>)"
proof -
  let ?t = "s\<lparr>ts_stream := ByteStream_end_input (ts_stream s)\<rparr>"
  have b: "base ?t = base s" by (simp add: base_def split: list.split)
  have f: "bs_byte_written (ByteStream_end_input st) = bs_byte_written st"
    "bs_byte_read (ByteStream_end_input st) = bs_byte_read st" "bs_end (ByteStream_end_input st)" for st
    by (simp_all add: ByteStream_end_input_def)
  have "stream_of W (ts_stream ?t)" using assms by (simp add: sender_inv_def stream_of_def f)
  moreover have "numbers_ok W ?t" using assms by (auto simp: sender_inv_def numbers_ok_def f)
  moreover have "window_ok W ?t" using assms by (simp add: sender_inv_def window_ok_def b)
  moreover have "queue_ok W ?t" "timer_ok ?t" using assms by (auto simp: sender_inv_def queue_ok_def timer_ok_def)
  ultimately show ?thesis by (simp add: sender_inv_def)
qed

end
