(* ===== verification/Sender_Run.thy ===== *)
theory Sender_Run
  imports Sender_Window
begin

text \<open>
  The states a \<^verbatim>\<open>TCPSender\<close> can reach when its owner calls its operations in any order, and what holds in all
  of them.  The owner writes to the stream only before it ends it; the total written stays 2^33 bytes below
  2^64, so that no absolute sequence number wraps.
\<close>

section \<open>Reachable states\<close>

inductive sender_run :: "TCPSender \<Rightarrow> bytes \<Rightarrow> TCPSender \<Rightarrow> bool" for s0 where
  start: "sender_run s0 [] s0"
| writes: "sender_run s0 W s \<Longrightarrow> \<not> ByteStream_input_ended (ts_stream s) \<Longrightarrow> length W + length d + 2 ^ 33 < two64 \<Longrightarrow>
    ByteStream_write (ts_stream s) d = (st, n) \<Longrightarrow> sender_run s0 (W @ take (unat n) d) (s\<lparr>ts_stream := st\<rparr>)"
| ends: "sender_run s0 W s \<Longrightarrow> sender_run s0 W (s\<lparr>ts_stream := ByteStream_end_input (ts_stream s)\<rparr>)"
| fills: "sender_run s0 W s \<Longrightarrow> TCPSender_fill_window s = Inr s' \<Longrightarrow> sender_run s0 W s'"
| acks: "sender_run s0 W s \<Longrightarrow> TCPSender_ack_received s ackno win = Inr (s', b) \<Longrightarrow> sender_run s0 W s'"
| ticks: "sender_run s0 W s \<Longrightarrow> sender_run s0 W (TCPSender_tick s ms)"
| empties: "sender_run s0 W s \<Longrightarrow> sender_run s0 W (TCPSender_send_empty_segment s)"
| drains: "sender_run s0 W s \<Longrightarrow> ts_segments_out s = seg # rest \<Longrightarrow> sender_run s0 W (s\<lparr>ts_segments_out := rest\<rparr>)"

lemma fill_window_idle:
  assumes "sender_inv W s" and "idle_ok s" and "TCPSender_fill_window s = Inr s'"
  shows "idle_ok s'"
proof -
  obtain t where t: "TCPSender_fill_window s = Inr t" "same_ack s t" "ts_outstanding_segment t = [] \<longrightarrow> t = s"
    by (rule fill_window_ok [OF assms(1)])
  with assms(2,3) show ?thesis by (auto simp: idle_ok_def same_ack_def)
qed

lemma sender_run_inv:
  assumes "sender_run (TCPSender_new cap timeout fixed_isn random) W s"
  shows "sender_inv W s \<and> idle_ok s"
  using assms
proof (induction rule: sender_run.induct)
  case start
  show ?case by (intro conjI sender_inv_new) (simp add: idle_ok_def TCPSender_new_def RetransmissionTimer_new_def)
next
  case (writes W s d st n)
  then show ?case
    using write_ok [of W s d st n] by (simp add: ByteStream_input_ended_def idle_ok_def)
next
  case (ends W s)
  then show ?case using end_input_ok [of W s] by (simp add: idle_ok_def)
next
  case (fills W s s')
  moreover obtain t where "TCPSender_fill_window s = Inr t" "sender_inv W t"
    by (rule fill_window_ok [of W s]) (use fills in blast)
  ultimately show ?case using fill_window_idle by auto
next
  case (acks W s ackno win s' b)
  then have inv: "sender_inv W s" "idle_ok s" by simp_all
  from inv(1) show ?case
    by (cases rule: ack_received_ok [where ackno = ackno and win = win]) (use acks inv in \<open>auto simp: idle_ok_def\<close>)
next
  case (ticks W s ms)
  then show ?case using tick_ok by blast
next
  case (empties W s)
  then show ?case using send_empty_ok by (auto simp: idle_ok_def TCPSender_send_empty_segment_def)
next
  case (drains W s seg rest)
  then show ?case using drain_ok [of W s rest] by (auto simp: idle_ok_def)
qed

section \<open>A sample run\<close>

text \<open>A sender of six bytes, numbered from 2^32 - 1, that has sent its SYN and then, on an acknowledgment, four bytes.\<close>

definition sample_sender :: TCPSender where
  "sample_sender = TCPSender_new 6 1000 (Some (WrappingInt32_of 4294967295)) 0"

definition sample_syn :: TCPSegment where
  "sample_syn = \<lparr>sg_header = TCPHeader_default\<lparr>th_syn := True, th_seqno := WrappingInt32_of 4294967295\<rparr>,
     sg_payload = Buffer_default\<rparr>"

definition sample_opened :: TCPSender where
  "sample_opened = sample_sender\<lparr>ts_stream := fst (ByteStream_write (ts_stream sample_sender) [1, 2, 3, 4, 5]),
     ts_syn := True, ts_segments_out := [sample_syn], ts_outstanding_segment := [(0, sample_syn)],
     ts_bytes_in_flight := 1, ts_next_seqno := 1, ts_timer := RetransmissionTimer_set_new_timer (RetransmissionTimer_new 0 False True) 1000\<rparr>"

lemmas sender_eval = TCPSender_new_def TCPSender_fill_window_def fill_window_loop.simps fill_window_guard_def
  fill_window_body_def TCPSender_CLOSED_def TCPSender_SYN_SENT_def TCPSender_SYN_ACKED_def
  TCPSender_SYN_ACKED_FIN_TO_SEND_def ByteStream_write_def ByteStream_new_def ByteStream_eof_def
  ByteStream_buffer_empty_def ByteStream_buffer_size_def TCPSegment_length_in_sequence_space_def
  RetransmissionTimer_is_stopped_def RetransmissionTimer_new_def wrap_def WrappingInt32_of_def
  WrappingInt32_plus_def TCPHeader_default_def Buffer_default_def Buffer_size_def Buffer_str_def size64_def of_flag_def

lemma sample_opened_fill:
  "TCPSender_fill_window (sample_sender\<lparr>ts_stream := fst (ByteStream_write (ts_stream sample_sender) [1, 2, 3, 4, 5])\<rparr>)
     = Inr sample_opened"
  by (simp add: sample_opened_def sample_sender_def sample_syn_def sender_eval Let_def)

lemma sample_opened_run: "sender_run (TCPSender_new 6 1000 (Some (WrappingInt32_of 4294967295)) 0) [1, 2, 3, 4, 5] sample_opened"
proof -
  obtain st n where w: "ByteStream_write (ts_stream sample_sender) [1, 2, 3, 4, 5] = (st, n)" by fastforce
  have n: "unat n = 5" and open_in: "\<not> ByteStream_input_ended (ts_stream sample_sender)"
    using w by (auto simp: sample_sender_def sender_eval ByteStream_input_ended_def Let_def)
  have len: "length ([] :: bytes) + length [1, 2, 3, 4, 5 :: u8] + 2 ^ 33 < two64"
    by (simp add: two64_def)
  have "sender_run sample_sender ([] @ take (unat n) [1, 2, 3, 4, 5]) (sample_sender\<lparr>ts_stream := st\<rparr>)"
    by (rule writes [OF start open_in len w])
  moreover have "TCPSender_fill_window (sample_sender\<lparr>ts_stream := st\<rparr>) = Inr sample_opened"
    using sample_opened_fill w by simp
  ultimately have "sender_run sample_sender ([] @ take (unat n) [1, 2, 3, 4, 5]) sample_opened" by (rule fills)
  then have "sender_run sample_sender [1, 2, 3, 4, 5] sample_opened" unfolding n by simp
  then show ?thesis by (simp add: sample_sender_def)
qed

section \<open>Properties\<close>

lemma chain_sum: "chain a os b \<Longrightarrow> b = a + sum_list (map (seg_len \<circ> snd) os)"
  by (induction a os b rule: chain.induct) auto

lemma chain_seg_at:
  "chain a os b \<Longrightarrow> \<forall>(f, seg) \<in> set os. seg_at W isn (unat f) seg \<Longrightarrow> i < length os \<Longrightarrow>
   seg_at W isn (a + sum_list (map seg_len (take i (map snd os)))) (map snd os ! i)"
proof (induction a os b arbitrary: i rule: chain.induct)
  case (2 a f seg rest b)
  then show ?case by (cases i) (auto simp: add.assoc)
qed simp

lemma run_facts:
  assumes "sender_run (TCPSender_new cap timeout fixed_isn random) W s"
  shows "sender_inv W s" and "idle_ok s" and "chain (base s) (ts_outstanding_segment s) (unat (ts_next_seqno s))"
    and "unat (ts_next_seqno s) = base s + sum_list (map (seg_len \<circ> snd) (ts_outstanding_segment s))"
proof -
  show "sender_inv W s" and "idle_ok s" using sender_run_inv [OF assms] by simp_all
  then show c: "chain (base s) (ts_outstanding_segment s) (unat (ts_next_seqno s))"
    by (simp add: sender_inv_def window_ok_def)
  show "unat (ts_next_seqno s) = base s + sum_list (map (seg_len \<circ> snd) (ts_outstanding_segment s))"
    by (rule chain_sum [OF c])
qed

text \<open>
  C6: In every reachable state \<^verbatim>\<open>fill_window\<close> returns: its loop ends and nothing throws.  The
  segments that it queues follow each other from the next sequence number on: each carries the wrapped sequence
  number at which the one before it ends, the SYN exactly at number zero, the written bytes from that
  number on, at most \<^verbatim>\<open>MAX_PAYLOAD_SIZE\<close> of them, and a FIN only after the last one.  The new
  next sequence number is where the last one ends; it does not pass the
  acknowledged number plus the advertised window (a closed window counts as one); and the loop stops only
  when the window is full or the SYN, every written byte and, after the end of the input, the FIN
  have been sent.
\<close>

theorem fill_window_returns:
  assumes "sender_run (TCPSender_new cap timeout fixed_isn random) W s"
  shows "\<exists>s' segs. TCPSender_fill_window s = Inr s' \<and> ts_segments_out s' = ts_segments_out s @ segs
     \<and> (\<forall>i < length segs. seg_at W (ts_isn s)
          (unat (ts_next_seqno s) + sum_list (map seg_len (take i segs))) (segs ! i))
     \<and> unat (ts_next_seqno s') = unat (ts_next_seqno s) + sum_list (map seg_len segs)
     \<and> unat (ts_next_seqno s') \<le> max (unat (ts_next_seqno s)) (unat (ts_ackno s) + max 1 (unat (ts_window_size s)))
     \<and> (unat (ts_ackno s) + max 1 (unat (ts_window_size s)) \<le> unat (ts_next_seqno s') \<or> all_sent s')"
proof -
  note inv = run_facts [OF assms]
  let ?old = "map snd (ts_outstanding_segment s)"
  obtain s' where f: "TCPSender_fill_window s = Inr s'" "sender_inv W s'" "same_ack s s'"
    "unat (ts_next_seqno s') \<le> max (unat (ts_next_seqno s)) (window_limit s)"
    "window_limit s \<le> unat (ts_next_seqno s') \<or> all_sent s'"
    by (rule fill_window_ok [OF inv(1)])
  let ?os = "ts_outstanding_segment s'"
  obtain segs where segs: "ts_segments_out s' = ts_segments_out s @ segs" "map snd ?os = ?old @ segs"
    and b: "base s' = base s" "ts_isn s' = ts_isn s"
    using f(3) by (auto simp: same_ack_def)
  have len: "length ?os = length ?old + length segs" using arg_cong [OF segs(2), of length] by simp
  have c: "chain (base s') ?os (unat (ts_next_seqno s'))"
    and at: "\<forall>(f, seg) \<in> set ?os. seg_at W (ts_isn s') (unat f) seg"
    using f(2) by (auto simp: sender_inv_def window_ok_def)
  have n: "unat (ts_next_seqno s) = base s + sum_list (map seg_len ?old)" using inv(4) by simp
  have "unat (ts_next_seqno s') = unat (ts_next_seqno s) + sum_list (map seg_len segs)"
    using chain_sum [OF c] unfolding b n by (simp add: map_map [symmetric] segs(2) del: map_map)
  moreover have "seg_at W (ts_isn s) (unat (ts_next_seqno s) + sum_list (map seg_len (take i segs))) (segs ! i)"
    if "i < length segs" for i
    using chain_seg_at [OF c at, of "length ?old + i"] that len unfolding segs(2) b n
    by (simp add: nth_append add.assoc)
  ultimately show ?thesis using f segs by blast
qed

theorem fill_window_returns_witness:
  "\<exists>s' segs. TCPSender_fill_window sample_sender = Inr s' \<and> ts_segments_out s' = ts_segments_out sample_sender @ segs
     \<and> (\<forall>i < length segs. seg_at [] (ts_isn sample_sender)
          (unat (ts_next_seqno sample_sender) + sum_list (map seg_len (take i segs))) (segs ! i))
     \<and> unat (ts_next_seqno s') = unat (ts_next_seqno sample_sender) + sum_list (map seg_len segs)
     \<and> unat (ts_next_seqno s') \<le> max (unat (ts_next_seqno sample_sender))
         (unat (ts_ackno sample_sender) + max 1 (unat (ts_window_size sample_sender)))
     \<and> (unat (ts_ackno sample_sender) + max 1 (unat (ts_window_size sample_sender)) \<le> unat (ts_next_seqno s') \<or> all_sent s')"
  unfolding sample_sender_def by (rule fill_window_returns [OF start])

text \<open>
  C5: In every reachable state the counter \<^verbatim>\<open>bytes_in_flight\<close> is the length in sequence numbers of the
  outstanding segments; these lie one after the other, without gap or overlap, up to the next sequence number;
  each carries its part of the bytes written; none of them is fully acknowledged; and
  nothing is in flight exactly when everything sent has been acknowledged.  The timer runs exactly while
  something is in flight.
\<close>

theorem sender_in_flight:
  assumes "sender_run (TCPSender_new cap timeout fixed_isn random) W s"
  shows "unat (ts_bytes_in_flight s) = sum_list (map (seg_len \<circ> snd) (ts_outstanding_segment s))
     \<and> chain (unat (ts_next_seqno s) - unat (ts_bytes_in_flight s)) (ts_outstanding_segment s) (unat (ts_next_seqno s))
     \<and> (\<forall>(f, seg) \<in> set (ts_outstanding_segment s). seg_at W (ts_isn s) (unat f) seg \<and> unat (ts_ackno s) < unat f + seg_len seg)
     \<and> (ts_bytes_in_flight s = 0 \<longleftrightarrow> ts_ackno s = ts_next_seqno s)
     \<and> (RetransmissionTimer_is_stopped (ts_timer s) \<longleftrightarrow> ts_bytes_in_flight s = 0)"
proof -
  note inv = run_facts [OF assms]
  let ?os = "ts_outstanding_segment s" and ?n = "unat (ts_next_seqno s)"
  have w: "base s \<le> unat (ts_ackno s)" "unat (ts_ackno s) \<le> ?n" "unat (ts_bytes_in_flight s) = ?n - base s"
    "\<forall>(f, seg) \<in> set ?os. seg_at W (ts_isn s) (unat f) seg \<and> unat (ts_ackno s) < unat f + seg_len seg"
    using inv(1) by (auto simp: sender_inv_def window_ok_def)
  have le: "base s \<le> ?n" using w by simp
  have empty: "ts_bytes_in_flight s = 0 \<longleftrightarrow> ?os = []"
  proof
    assume "ts_bytes_in_flight s = 0"
    then have eq: "base s = ?n" using w(3) le by simp
    show "?os = []"
    proof (cases ?os)
      case (Cons p rest)
      then obtain f seg where "chain (base s + seg_len seg) rest ?n" "0 < seg_len seg"
        using inv(3) by (cases p) auto
      with eq chain_le show ?thesis by fastforce
    qed
  next
    assume "?os = []"
    then show "ts_bytes_in_flight s = 0" using w(3) inv(4) by (simp add: unat_eq_0)
  qed
  have "ts_bytes_in_flight s = 0 \<longleftrightarrow> ts_ackno s = ts_next_seqno s"
  proof
    assume "ts_bytes_in_flight s = 0"
    then show "ts_ackno s = ts_next_seqno s" using w le by (simp add: word_unat_eq_iff)
  next
    assume eq: "ts_ackno s = ts_next_seqno s"
    show "ts_bytes_in_flight s = 0"
    proof (rule ccontr)
      assume "ts_bytes_in_flight s \<noteq> 0"
      then obtain f seg rest where os: "?os = (f, seg) # rest" using empty by (cases ?os) auto
      then have "unat f + seg_len seg \<le> ?n" using chain_below [OF inv(3), of f seg] by simp
      moreover have "unat (ts_ackno s) < unat f + seg_len seg" using w(4) os by simp
      ultimately show False using eq by simp
    qed
  qed
  moreover have "RetransmissionTimer_is_stopped (ts_timer s) \<longleftrightarrow> ts_bytes_in_flight s = 0"
    using inv(1,2) empty by (auto simp: RetransmissionTimer_is_stopped_def sender_inv_def timer_ok_def idle_ok_def)
  moreover have "?n - unat (ts_bytes_in_flight s) = base s" using w(3) le by simp
  ultimately show ?thesis using w(3,4) inv(3,4) by simp
qed

theorem sender_in_flight_witness:
  "unat (ts_bytes_in_flight sample_opened) = sum_list (map (seg_len \<circ> snd) (ts_outstanding_segment sample_opened))
     \<and> \<not> RetransmissionTimer_is_stopped (ts_timer sample_opened)"
proof -
  have "ts_bytes_in_flight sample_opened \<noteq> 0" by (simp add: sample_opened_def)
  then have "\<not> (RetransmissionTimer_is_stopped (ts_timer sample_opened))"
    using sender_in_flight [OF sample_opened_run] by (elim conjE) (simp only: simp_thms)
  moreover have "unat (ts_bytes_in_flight sample_opened) = sum_list (map (seg_len \<circ> snd) (ts_outstanding_segment sample_opened))"
    using sender_in_flight [OF sample_opened_run] by (elim conjE)
  ultimately show ?thesis by (intro conjI)
qed

text \<open>
  C9: \<^verbatim>\<open>ack_received\<close> in a reachable state always returns.  An acknowledgment of something not
  sent is refused without effect; one that is not new only updates the window; a new one drops from the
  front of the outstanding segments exactly those it covers entirely, resets the timeout and the
  count of retransmissions, and restarts the timer, or stops it when nothing is outstanding any more.
\<close>

theorem sender_ack_received:
  assumes "sender_run (TCPSender_new cap timeout fixed_isn random) W s"
    and "a = unwrap ackno (ts_isn s) (ts_ackno s)"
  shows "(ts_next_seqno s < a \<longrightarrow> TCPSender_ack_received s ackno win = Inr (s, False))
     \<and> (a \<le> ts_ackno s \<longrightarrow> TCPSender_ack_received s ackno win = Inr (s\<lparr>ts_window_size := win\<rparr>, True))
     \<and> (ts_ackno s < a \<and> a \<le> ts_next_seqno s \<longrightarrow>
         (\<exists>s' popped kept segs. TCPSender_ack_received s ackno win = Inr (s', True)
           \<and> ts_ackno s' = a \<and> ts_window_size s' = win \<and> ts_rto s' = ts_initial_retransmission_timeout s
           \<and> ts_consecutive_retransmissions s' = 0
           \<and> ts_outstanding_segment s = popped @ kept
           \<and> (\<forall>(f, seg) \<in> set popped. unat f + seg_len seg \<le> unat a)
           \<and> (\<forall>(f, seg) \<in> set kept. unat a < unat f + seg_len seg)
           \<and> map snd (ts_outstanding_segment s') = map snd kept @ segs
           \<and> ts_segments_out s' = ts_segments_out s @ segs
           \<and> (if ts_outstanding_segment s' = [] then RetransmissionTimer_is_stopped (ts_timer s')
              else rt_remaining_time (ts_timer s') = ts_initial_retransmission_timeout s
                   \<and> \<not> RetransmissionTimer_is_stopped (ts_timer s'))))"
proof -
  have inv: "sender_inv W s" by (rule run_facts(1) [OF assms(1)])
  have le: "ts_ackno s \<le> ts_next_seqno s" using inv by (simp add: sender_inv_def window_ok_def word_le_nat_alt)
  from inv show ?thesis
  proof (cases rule: ack_received_ok [where ackno = ackno and win = win])
    case ignored
    with le show ?thesis unfolding assms(2) by auto
  next
    case old
    with le show ?thesis unfolding assms(2) by auto
  next
    case (fresh s2 s3 s' popped)
    let ?a = "unwrap ackno (ts_isn s) (ts_ackno s)"
    have two: "ts_ackno s2 = ?a" "ts_window_size s2 = win" "ts_rto s2 = ts_initial_retransmission_timeout s"
      "ts_consecutive_retransmissions s2 = 0" "ts_segments_out s2 = ts_segments_out s" "ts_next_seqno s2 = ts_next_seqno s"
      by (subst fresh(6), simp)+
    obtain segs where three: "ts_ackno s3 = ?a" "ts_window_size s3 = win" "ts_rto s3 = ts_initial_retransmission_timeout s"
      "ts_consecutive_retransmissions s3 = 0" "ts_segments_out s3 = ts_segments_out s @ segs"
      "map snd (ts_outstanding_segment s3) = map snd (ts_outstanding_segment s2) @ segs"
      using fresh(9) two unfolding same_ack_def by metis
    have kept: "\<forall>(f, seg) \<in> set (ts_outstanding_segment s2). unat ?a < unat f + seg_len seg"
      using fresh(14) two(1) by (simp add: sender_inv_def window_ok_def)
    have s': "ts_ackno s' = ?a" "ts_window_size s' = win" "ts_rto s' = ts_initial_retransmission_timeout s"
      "ts_consecutive_retransmissions s' = 0" "ts_segments_out s' = ts_segments_out s @ segs"
      "map snd (ts_outstanding_segment s') = map snd (ts_outstanding_segment s2) @ segs"
      "if ts_outstanding_segment s' = [] then RetransmissionTimer_is_stopped (ts_timer s')
       else rt_remaining_time (ts_timer s') = ts_initial_retransmission_timeout s
         \<and> \<not> RetransmissionTimer_is_stopped (ts_timer s')"
      using three by (simp_all add: fresh(13) RetransmissionTimer_is_stopped_def RetransmissionTimer_stop_def
          RetransmissionTimer_set_new_timer_def)
    have "\<not> ts_next_seqno s < ?a" "\<not> ?a \<le> ts_ackno s" using fresh(1,2) by simp_all
    then show ?thesis unfolding assms(2) using fresh(3,7,8) kept s' by blast
  qed
qed

theorem sender_ack_received_witness:
  "\<exists>s'. TCPSender_ack_received sample_opened (WrappingInt32_of 0) 4 = Inr (s', True) \<and> ts_ackno s' = 1
     \<and> ts_window_size s' = 4"
proof -
  have a: "1 = unwrap (WrappingInt32_of 0) (ts_isn sample_opened) (ts_ackno sample_opened)"
    by (simp add: sample_opened_def sample_sender_def TCPSender_new_def unwrap_def WrappingInt32_of_def
        WrappingInt32_minus_def wrap_def WrappingInt32_plus_def Let_def)
  have "ts_ackno sample_opened < 1 \<and> 1 \<le> ts_next_seqno sample_opened"
    by (simp add: sample_opened_def sample_sender_def TCPSender_new_def)
  with sender_ack_received [OF sample_opened_run a, of 4] show ?thesis by blast
qed

lemma expired_iff:
  "\<not> rt_is_expired t \<Longrightarrow> \<not> rt_is_stopped t \<Longrightarrow>
   RetransmissionTimer_is_expired (RetransmissionTimer_time_expired t ms) \<longleftrightarrow> rt_remaining_time t \<le> ms"
  by (simp add: RetransmissionTimer_is_expired_def RetransmissionTimer_time_expired_def)

lemma unat_ucast32: "unat (ms :: u64) < 2 ^ 32 \<Longrightarrow> unat (ucast ms :: u32) = unat ms"
  by (simp add: unsigned_ucast_eq take_bit_nat_eq_self)

lemma run_timer:
  assumes "sender_run (TCPSender_new cap timeout fixed_isn random) W s" and "ts_outstanding_segment s \<noteq> []"
  shows "\<not> rt_is_expired (ts_timer s)" and "\<not> rt_is_stopped (ts_timer s)"
  using run_facts(1,2) [OF assms(1)] assms(2) by (auto simp: idle_ok_def sender_inv_def timer_ok_def)

lemma tick_before:
  assumes "\<not> rt_is_expired (ts_timer s)" and "\<not> rt_is_stopped (ts_timer s)" and "unat ms < 2 ^ 32"
    and "unat ms < unat (rt_remaining_time (ts_timer s))"
  shows "TCPSender_tick s ms = s\<lparr>ts_timer := (ts_timer s)\<lparr>rt_remaining_time := rt_remaining_time (ts_timer s) - ucast ms\<rparr>\<rparr>"
proof -
  have "\<not> rt_remaining_time (ts_timer s) \<le> ucast ms"
    using assms(3,4) unat_ucast32 by (simp add: word_le_nat_alt)
  then show ?thesis
    using assms(1,2) tick_waits [of s ms] expired_iff [OF assms(1,2), of "ucast ms"]
    by (simp add: RetransmissionTimer_time_expired_def)
qed

lemma tick_after:
  fixes ms :: u64
  assumes "\<not> rt_is_expired (ts_timer s)" and "\<not> rt_is_stopped (ts_timer s)" and "unat ms < 2 ^ 32"
    and "unat (rt_remaining_time (ts_timer s)) \<le> unat ms"
  shows "RetransmissionTimer_is_expired (RetransmissionTimer_time_expired (ts_timer s) (ucast ms))"
  using assms(3,4) unat_ucast32 [of ms] unfolding expired_iff [OF assms(1,2)] by (simp add: word_le_nat_alt)

text \<open>
  C10: One \<^verbatim>\<open>tick\<close> of less than 2^32 ms in a reachable state with segments outstanding.  Before the timer
  runs out only the remaining time changes.  When it runs out, the segment sent again is the earliest
  one not fully acknowledged, unless the count of retransmissions has passed eight; the timeout
  doubles, and the count goes up, unless the window is closed; and the timer restarts with the new timeout.
\<close>

theorem sender_tick_retransmits:
  assumes "sender_run (TCPSender_new cap timeout fixed_isn random) W s"
    and "ts_outstanding_segment s = (f, seg) # rest" and "unat ms < 2 ^ 32"
    and "c = (if 0 < ts_window_size s then ts_consecutive_retransmissions s + 1 else ts_consecutive_retransmissions s)"
    and "rto = (if 0 < ts_window_size s then 2 * ts_rto s else ts_rto s)"
  shows "TCPSender_tick s ms =
     (if unat ms < unat (rt_remaining_time (ts_timer s))
      then s\<lparr>ts_timer := (ts_timer s)\<lparr>rt_remaining_time := rt_remaining_time (ts_timer s) - ucast ms\<rparr>\<rparr>
      else s\<lparr>ts_consecutive_retransmissions := c, ts_rto := rto,
             ts_segments_out := ts_segments_out s @ (if c \<le> 8 then [seg] else []),
             ts_timer := \<lparr>rt_remaining_time = rto, rt_is_expired = False, rt_is_stopped = False\<rparr>\<rparr>)
     \<and> seg_at W (ts_isn s) (unat (ts_next_seqno s) - unat (ts_bytes_in_flight s)) seg"
proof -
  have inv: "sender_inv W s" by (rule run_facts(1) [OF assms(1)])
  note t = run_timer [OF assms(1)] and os = assms(2)
  have "unat (ts_next_seqno s) - unat (ts_bytes_in_flight s) = base s"
    using inv by (simp add: sender_inv_def window_ok_def)
  moreover have "unat f = base s" using os by (simp add: base_def)
  moreover have "seg_at W (ts_isn s) (unat f) seg" using inv os by (auto simp: sender_inv_def window_ok_def)
  ultimately have at: "seg_at W (ts_isn s) (unat (ts_next_seqno s) - unat (ts_bytes_in_flight s)) seg" by simp
  have new: "RetransmissionTimer_set_new_timer tm r = \<lparr>rt_remaining_time = r, rt_is_expired = False, rt_is_stopped = False\<rparr>"
    for tm :: RetransmissionTimer and r by (simp add: RetransmissionTimer_set_new_timer_def)
  show ?thesis
  proof (cases "unat ms < unat (rt_remaining_time (ts_timer s))")
    case True
    then show ?thesis using at tick_before [OF t assms(3)] os by simp
  next
    case False
    then have ex: "RetransmissionTimer_is_expired (RetransmissionTimer_time_expired (ts_timer s) (ucast ms))"
      using os by (intro tick_after [OF t assms(3)]) simp_all
    show ?thesis
      using False at tick_fires [OF os ex]
      by (simp add: assms(4,5) new TCPConfig_MAX_RETX_ATTEMPTS_def push_bit_eq_mult mult.commute)
  qed
qed

lemma sample_opened_timer: "ts_outstanding_segment sample_opened = [(0, sample_syn)]"
  "rt_remaining_time (ts_timer sample_opened) = 1000" "ts_window_size sample_opened = 1" "ts_rto sample_opened = 1000"
  "ts_consecutive_retransmissions sample_opened = 0" "ts_segments_out sample_opened = [sample_syn]"
  by (simp_all add: sample_opened_def sample_sender_def TCPSender_new_def RetransmissionTimer_set_new_timer_def)

theorem sender_tick_retransmits_witness:
  "ts_segments_out (TCPSender_tick sample_opened 1500) = [sample_syn, sample_syn]"
proof -
  have c: "1 = (if 0 < ts_window_size sample_opened then ts_consecutive_retransmissions sample_opened + 1
      else ts_consecutive_retransmissions sample_opened)"
    and r: "2000 = (if 0 < ts_window_size sample_opened then 2 * ts_rto sample_opened else ts_rto sample_opened)"
    by (simp_all add: sample_opened_timer)
  have ms: "unat (1500 :: u64) < 2 ^ 32" by simp
  show ?thesis
    using sender_tick_retransmits [OF sample_opened_run sample_opened_timer(1) ms c r]
    by (simp add: sample_opened_timer)
qed

abbreviation ticks :: "u64 list \<Rightarrow> TCPSender \<Rightarrow> TCPSender" where
  "ticks mss s \<equiv> fold (\<lambda>ms s. TCPSender_tick s ms) mss s"






text \<open>
  \<^verbatim>\<open>tick\<close> hands its 64-bit argument to a timer that takes 32 bits: 2^32 ms, or any multiple of it, more or less
  make no difference, so a tick of 2^32 ms passes no time at all.
\<close>

lemma tick_drops_high_bits:
  "TCPSender_tick s (ms + 2 ^ 32 * k) = TCPSender_tick s ms"
proof -
  have "(ucast (ms + 2 ^ 32 * k) :: u32) = ucast ms"
    by transfer (simp add: take_bit_eq_mod mod_mod_cancel)
  then show ?thesis by (simp only: TCPSender_tick_def)
qed

end
