(* ===== verification/Connection_Run.thy ===== *)
theory Connection_Run
  imports TCP_Connection Sender_Run
begin

text \<open>
  The invariant of \<^verbatim>\<open>TCPConnection\<close>, the states it can reach whatever the application, the clock and
  the network do, and what holds in all of them.  \<open>W\<close> is everything the application has written.
\<close>

section \<open>Stamping and collecting segments\<close>

text \<open>What \<^verbatim>\<open>set_segment\<close> makes of a segment; it never throws.\<close>

definition stamp :: "TCPConnection \<Rightarrow> TCPSegment \<Rightarrow> TCPSegment" where
  "stamp c seg =
     (if cn_is_unclear_shutdown c then seg\<lparr>sg_header := (sg_header seg)\<lparr>th_rst := True\<rparr>\<rparr>
      else case rv_ISN (cn_receiver c) of
        None \<Rightarrow> seg
      | Some isn \<Rightarrow> seg\<lparr>sg_header := (sg_header seg)\<lparr>th_ack := True,
          th_ackno := wrap (TCPReceiver_abs_ackno (cn_receiver c)) isn,
          th_win := of_nat (min 65535 (unat (TCPReceiver_window_size (cn_receiver c))))\<rparr>\<rparr>)"

lemma set_segment_stamp: "TCPConnection_set_segment c seg = Inr (stamp c seg)"
proof -
  let ?w = "TCPReceiver_window_size (cn_receiver c)"
  have m: "unat (ucast (- 1 :: u16) :: u64) = 65535" by (simp add: unsigned_minus_1_eq_mask mask_eq_exp_minus_1)
  have "(if ?w \<ge> ucast (- 1 :: u16) then - 1 else ucast ?w :: u16) = of_nat (min 65535 (unat ?w))"
  proof (cases "?w \<ge> ucast (- 1 :: u16)")
    case True
    then have "65535 \<le> unat ?w" using m by (simp add: word_le_nat_alt)
    with True show ?thesis by (simp add: min_def)
  next
    case False
    then have "unat ?w < 65535" using m by (simp add: word_le_nat_alt)
    with False show ?thesis by (simp add: min_def)
  qed
  then show ?thesis
    by (auto simp: TCPConnection_set_segment_def stamp_def TCPReceiver_ackno_def split: option.splits)
qed

lemma stamp_keeps [simp]:
  "sg_payload (stamp c seg) = sg_payload seg" "th_seqno (sg_header (stamp c seg)) = th_seqno (sg_header seg)"
  "th_syn (sg_header (stamp c seg)) = th_syn (sg_header seg)" "th_fin (sg_header (stamp c seg)) = th_fin (sg_header seg)"
  "seg_len (stamp c seg) = seg_len seg" "seg_at W isn f (stamp c seg) = seg_at W isn f seg"
  by (auto simp: stamp_def seg_len_def seg_at_def split: option.split)

lemma stamp_cong:
  "cn_is_unclear_shutdown c' = cn_is_unclear_shutdown c \<Longrightarrow> cn_receiver c' = cn_receiver c \<Longrightarrow> stamp c' = stamp c"
  by (rule ext) (simp add: stamp_def split: option.split)

lemma collect_loop_stamp:
  "collect_loop c segs = Inr (if segs = [] then c
     else c\<lparr>cn_segments_out := cn_segments_out c @ map (stamp c) segs,
            cn_sender := (cn_sender c)\<lparr>ts_segments_out := []\<rparr>\<rparr>)"
proof (induction segs arbitrary: c)
  case (Cons seg segs)
  let ?c = "c\<lparr>cn_segments_out := cn_segments_out c @ [stamp c seg], cn_sender := (cn_sender c)\<lparr>ts_segments_out := segs\<rparr>\<rparr>"
  have "stamp ?c = stamp c" by (rule stamp_cong) simp_all
  then show ?case using Cons.IH [of ?c] by (cases "segs = []") (simp_all add: set_segment_stamp)
qed simp

lemma collect_output_stamp:
  "TCPConnection_collect_output c =
     Inr (c\<lparr>cn_segments_out := cn_segments_out c @ map (stamp c) (ts_segments_out (cn_sender c)),
            cn_sender := (cn_sender c)\<lparr>ts_segments_out := []\<rparr>\<rparr>)"
  by (cases "ts_segments_out (cn_sender c) = []")
    (simp_all add: TCPConnection_collect_output_def collect_loop_stamp)

section \<open>The invariant\<close>

text \<open>A segment for the network: a piece of \<open>W\<close> below the next sequence number, or a bare one.\<close>

definition conn_seg :: "bytes \<Rightarrow> TCPSender \<Rightarrow> TCPSegment \<Rightarrow> bool" where
  "conn_seg W s seg \<longleftrightarrow> (\<exists>f. f + seg_len seg \<le> unat (ts_next_seqno s) \<and> seg_at W (ts_isn s) f seg) \<or> bare_seg seg"

definition conn_pre :: "bytes \<Rightarrow> TCPConnection \<Rightarrow> bool" where
  "conn_pre W c \<longleftrightarrow> sender_inv W (cn_sender c) \<and> idle_ok (cn_sender c) \<and> rv_small (cn_receiver c)
     \<and> (\<forall>seg \<in> set (cn_segments_out c). conn_seg W (cn_sender c) seg)"

definition conn_inv :: "bytes \<Rightarrow> TCPConnection \<Rightarrow> bool" where
  "conn_inv W c \<longleftrightarrow> conn_pre W c \<and> ts_segments_out (cn_sender c) = []"

lemma conn_seg_stamp [simp]: "conn_seg W s (stamp c seg) = conn_seg W s seg"
  by (simp add: conn_seg_def bare_seg_def)

lemma conn_seg_of_queue:
  assumes "sender_inv W s" and "seg \<in> set (ts_segments_out s)"
  shows "conn_seg W s seg"
proof -
  from assms obtain f where f: "f + seg_len seg \<le> unat (ts_next_seqno s)"
    "seg_at W (ts_isn s) f seg \<or> empty_at (ts_isn s) f seg"
    by (auto simp: sender_inv_def queue_ok_def)
  then show ?thesis by (auto simp: conn_seg_def empty_at_def bare_seg_def TCPHeader_default_def)
qed

lemma conn_seg_later:
  "conn_seg W s seg \<Longrightarrow> ts_isn s' = ts_isn s \<Longrightarrow> unat (ts_next_seqno s) \<le> unat (ts_next_seqno s') \<Longrightarrow> conn_seg W s' seg"
  by (auto simp: conn_seg_def intro: order_trans)

lemma collect_output_ok:
  assumes "conn_pre W c"
  obtains c' where "TCPConnection_collect_output c = Inr c'" and "conn_inv W c'"
    and "c' = c\<lparr>cn_segments_out := cn_segments_out c @ map (stamp c) (ts_segments_out (cn_sender c)),
            cn_sender := (cn_sender c)\<lparr>ts_segments_out := []\<rparr>\<rparr>"
proof -
  let ?s = "(cn_sender c)\<lparr>ts_segments_out := []\<rparr>"
  have inv: "sender_inv W (cn_sender c)" using assms by (simp add: conn_pre_def)
  then have "sender_inv W ?s" by (intro drain_ok) simp_all
  moreover have "conn_seg W ?s seg" if "conn_seg W (cn_sender c) seg" for seg
    using that by (rule conn_seg_later) simp_all
  moreover have "idle_ok ?s" using assms by (simp add: conn_pre_def idle_ok_def)
  ultimately have "conn_inv W (c\<lparr>cn_segments_out := cn_segments_out c @ map (stamp c) (ts_segments_out (cn_sender c)),
            cn_sender := ?s\<rparr>)"
    using assms conn_seg_of_queue [OF inv] by (auto simp: conn_inv_def conn_pre_def)
  with collect_output_stamp show ?thesis by (rule that) simp
qed

text \<open>Marking a stream as failed touches one flag.\<close>

lemma set_error_simps [simp]:
  "bs_byte_written (ByteStream_set_error st) = bs_byte_written st" "bs_byte_read (ByteStream_set_error st) = bs_byte_read st"
  "bs_end (ByteStream_set_error st) = bs_end st" "bs_capacity (ByteStream_set_error st) = bs_capacity st"
  "bs_error (ByteStream_set_error st)" "ByteStream_eof (ByteStream_set_error st) = ByteStream_eof st"
  by (simp_all add: ByteStream_set_error_def ByteStream_eof_def ByteStream_buffer_empty_def ByteStream_buffer_size_def)

lemma sender_inv_set_error:
  assumes "sender_inv W s"
  shows "sender_inv W (s\<lparr>ts_stream := ByteStream_set_error (ts_stream s)\<rparr>)"
proof -
  let ?t = "s\<lparr>ts_stream := ByteStream_set_error (ts_stream s)\<rparr>"
  have b: "base ?t = base s" by (simp add: base_def split: list.split)
  have "stream_of W (ts_stream ?t)" using assms by (simp add: sender_inv_def stream_of_def)
  moreover have "numbers_ok W ?t" using assms by (auto simp: sender_inv_def numbers_ok_def)
  moreover have "window_ok W ?t" using assms by (simp add: sender_inv_def window_ok_def b)
  moreover have "queue_ok W ?t" "timer_ok ?t" using assms by (auto simp: sender_inv_def queue_ok_def timer_ok_def)
  ultimately show ?thesis by (simp add: sender_inv_def)
qed

lemma rv_small_output:
  assumes "rv_small r" and "out_wf (ra_capacity (rv_reassembler r)) (ra_assembled_bytes (rv_reassembler r)) out"
    and "unat (ra_capacity (rv_reassembler r)) + unat (bs_byte_read out) + 2 ^ 33 < two64"
    and "unat (bs_byte_read (ra_output (rv_reassembler r))) \<le> unat (bs_byte_read out)"
  shows "rv_small (r\<lparr>rv_reassembler := (rv_reassembler r)\<lparr>ra_output := out\<rparr>\<rparr>)"
  using assms unfolding rv_small_def ra_wf_def by (auto simp: within_def)

lemma rv_small_set_error: "rv_small r \<Longrightarrow> rv_small (TCPReceiver_set_error r)"
  unfolding TCPReceiver_set_error_def TCPReceiver_stream_out_def StreamReassembler_stream_out_def
  by (rule rv_small_output) (simp_all add: rv_small_def ra_wf_def out_wf_def)

lemma unclear_shutdown_ok:
  assumes "conn_pre W c"
  shows "conn_pre W (TCPConnection_unclear_shutdown c)"
    and "ts_segments_out (cn_sender (TCPConnection_unclear_shutdown c)) = ts_segments_out (cn_sender c)"
    and "cn_segments_out (TCPConnection_unclear_shutdown c) = cn_segments_out c"
proof -
  have "conn_seg W ((cn_sender c)\<lparr>ts_stream := ByteStream_set_error (ts_stream (cn_sender c))\<rparr>) seg"
    if "conn_seg W (cn_sender c) seg" for seg
    using that by (rule conn_seg_later) simp_all
  then show "conn_pre W (TCPConnection_unclear_shutdown c)"
    using assms sender_inv_set_error rv_small_set_error
    by (auto simp: conn_pre_def TCPConnection_unclear_shutdown_def idle_ok_def)
qed (simp_all add: TCPConnection_unclear_shutdown_def)

lemma send_empty_sender:
  assumes "conn_pre W c"
  shows "conn_pre W (c\<lparr>cn_sender := TCPSender_send_empty_segment (cn_sender c)\<rparr>)"
proof -
  have f: "ts_isn (TCPSender_send_empty_segment s) = ts_isn s" "ts_next_seqno (TCPSender_send_empty_segment s) = ts_next_seqno s"
    "idle_ok (TCPSender_send_empty_segment s) = idle_ok s" for s
    by (simp_all add: TCPSender_send_empty_segment_def idle_ok_def)
  have "conn_seg W (TCPSender_send_empty_segment (cn_sender c)) seg" if "conn_seg W (cn_sender c) seg" for seg
    using that by (rule conn_seg_later) (simp_all add: f)
  then show ?thesis
    using assms send_empty_ok by (auto simp: conn_pre_def f)
qed

section \<open>\<^verbatim>\<open>test_end\<close>\<close>

text \<open>The abort after too many retransmissions, and the flags.\<close>

definition too_many :: "TCPConnection \<Rightarrow> bool" where
  "too_many c \<longleftrightarrow> ts_consecutive_retransmissions (cn_sender c) > TCPConfig_MAX_RETX_ATTEMPTS"

definition reset_segment :: "TCPConnection \<Rightarrow> TCPSegment" where
  "reset_segment c = \<lparr>sg_header = TCPHeader_default\<lparr>th_seqno := TCPSender_next_seqno (cn_sender c), th_rst := True\<rparr>,
     sg_payload = Buffer_default\<rparr>"

definition aborted :: "TCPConnection \<Rightarrow> TCPConnection" where
  "aborted c = (TCPConnection_unclear_shutdown c)\<lparr>cn_segments_out := cn_segments_out c @ [reset_segment c]\<rparr>"

definition set_flags :: "TCPConnection \<Rightarrow> TCPConnection" where
  "set_flags c =
     (let c = (if \<not> ByteStream_eof (ts_stream (cn_sender c)) \<and> TCPReceiver_FIN_RECV (cn_receiver c)
               then c\<lparr>cn_linger_after_streams_finish := False\<rparr> else c)
      in if TCPConnection_TIME_WAIT c
         then c\<lparr>cn_is_clear_shutdown := cn_is_clear_shutdown c \<or> \<not> cn_linger_after_streams_finish c
                \<or> TCPConnection_time_since_last_segment_received c \<ge> 10 * ucast (cf_rt_timeout (cn_cfg c))\<rparr>
         else c)"

lemma abort_send:
  assumes "ts_segments_out (cn_sender c) = []"
  shows "TCPConnection_send_empty_segment (TCPConnection_unclear_shutdown c) = Inr (aborted c)"
  using assms by (simp add: TCPConnection_send_empty_segment_def collect_output_stamp aborted_def reset_segment_def
      TCPConnection_unclear_shutdown_def TCPSender_send_empty_segment_def TCPSender_next_seqno_def stamp_def)

lemma test_end_eq:
  assumes "ts_segments_out (cn_sender c) = []"
  shows "TCPConnection_test_end c = Inr (set_flags (if too_many c then aborted c else c))"
  using abort_send [OF assms] by (simp add: TCPConnection_test_end_def set_flags_def too_many_def Let_def)

lemma set_flags_simps [simp]:
  "cn_sender (set_flags c) = cn_sender c" "cn_receiver (set_flags c) = cn_receiver c"
  "cn_segments_out (set_flags c) = cn_segments_out c" "cn_is_unclear_shutdown (set_flags c) = cn_is_unclear_shutdown c"
  "cn_cfg (set_flags c) = cn_cfg c" "cn_now_time (set_flags c) = cn_now_time c"
  "cn_time_when_last_segment_received (set_flags c) = cn_time_when_last_segment_received c"
  by (simp_all add: set_flags_def Let_def)

lemma conn_inv_set_flags [simp]: "conn_inv W (set_flags c) = conn_inv W c"
  by (simp add: conn_inv_def conn_pre_def)

lemma aborted_ok:
  assumes "conn_inv W c"
  shows "conn_inv W (aborted c)"
proof -
  have "bare_seg (reset_segment c)" by (simp add: bare_seg_def reset_segment_def TCPHeader_default_def)
  then show ?thesis
    using assms unclear_shutdown_ok [of W c] by (auto simp: conn_inv_def conn_pre_def aborted_def conn_seg_def)
qed

lemma test_end_ok:
  assumes "conn_inv W c"
  obtains c' where "TCPConnection_test_end c = Inr c'" and "conn_inv W c'"
    and "c' = set_flags (if too_many c then aborted c else c)"
proof (rule that)
  show "TCPConnection_test_end c = Inr (set_flags (if too_many c then aborted c else c))"
    using assms by (intro test_end_eq) (simp add: conn_inv_def)
  show "conn_inv W (set_flags (if too_many c then aborted c else c))"
    using assms aborted_ok by simp
qed simp

section \<open>The operations\<close>

definition seg_ok :: "TCPSegment \<Rightarrow> bool" where
  "seg_ok seg \<longleftrightarrow> Buffer_wf (sg_payload seg) \<and> length (Buffer_str (sg_payload seg)) < 2 ^ 31"

lemma conn_pre_sender:
  assumes "conn_pre W c" and "sender_inv W s" and "idle_ok s" and "ts_isn s = ts_isn (cn_sender c)"
    and "unat (ts_next_seqno (cn_sender c)) \<le> unat (ts_next_seqno s)"
  shows "conn_pre W (c\<lparr>cn_sender := s\<rparr>)"
  using assms conn_seg_later [OF _ assms(4,5)] by (auto simp: conn_pre_def)

lemma conn_pre_receiver: "conn_pre W c \<Longrightarrow> rv_small r \<Longrightarrow> conn_pre W (c\<lparr>cn_receiver := r\<rparr>)"
  by (simp add: conn_pre_def)

lemma fill_window_conn:
  assumes "sender_inv W s" and "idle_ok s"
  obtains s' where "TCPSender_fill_window s = Inr s'" and "sender_inv W s'" and "idle_ok s'" and "same_ack s s'"
    and "unat (ts_next_seqno s) \<le> unat (ts_next_seqno s')"
proof -
  obtain s' where f: "TCPSender_fill_window s = Inr s'" "sender_inv W s'" "same_ack s s'"
    "unat (ts_next_seqno s) \<le> unat (ts_next_seqno s')"
    by (rule fill_window_ok [OF assms(1)])
  with fill_window_idle [OF assms f(1)] show ?thesis by (intro that) simp_all
qed

lemma same_ack_isn: "same_ack s s' \<Longrightarrow> ts_isn s' = ts_isn s"
  by (simp add: same_ack_def)

lemma ack_received_conn:
  assumes "sender_inv W s" and "idle_ok s"
  obtains s' b where "TCPSender_ack_received s ackno win = Inr (s', b)" and "sender_inv W s'" and "idle_ok s'"
    and "ts_isn s' = ts_isn s" and "unat (ts_next_seqno s) \<le> unat (ts_next_seqno s')"
    and "bs_error (ts_stream s') = bs_error (ts_stream s)"
    and "ts_consecutive_retransmissions s' = ts_consecutive_retransmissions s \<or> ts_consecutive_retransmissions s' = 0"
  using assms(1)
proof (cases rule: ack_received_ok [where ackno = ackno and win = win])
  case ignored
  with assms that show ?thesis by blast
next
  case old
  from old(2,3) show ?thesis by (rule that) (use assms(2) in \<open>simp_all add: idle_ok_def\<close>)
next
  case (fresh s2 s3 s' popped)
  have "ts_isn s3 = ts_isn s2" "bs_error (ts_stream s3) = bs_error (ts_stream s2)"
    "ts_consecutive_retransmissions s3 = ts_consecutive_retransmissions s2"
    using fresh(9) by (simp_all add: same_ack_def)
  moreover have "ts_isn s2 = ts_isn s" "ts_stream s2 = ts_stream s" "ts_consecutive_retransmissions s2 = 0"
    by (subst fresh(6), simp)+
  moreover have "unat (ts_next_seqno s) \<le> unat (ts_next_seqno s')" using fresh(11) by (simp add: fresh(13))
  ultimately show ?thesis by (intro that [OF fresh(3-5)]) (simp_all add: fresh(13))
qed

text \<open>The two streams are marked as failed exactly after an unclean shutdown.\<close>

definition error_ok :: "TCPConnection \<Rightarrow> bool" where
  "error_ok c \<longleftrightarrow> bs_error (ts_stream (cn_sender c)) = cn_is_unclear_shutdown c
     \<and> bs_error (ra_output (rv_reassembler (cn_receiver c))) = cn_is_unclear_shutdown c"

lemma error_ok_shutdown: "error_ok (TCPConnection_unclear_shutdown c)"
  by (simp add: error_ok_def TCPConnection_unclear_shutdown_def TCPReceiver_set_error_def)

text \<open>What the operations leave alone.\<close>

definition grown :: "TCPConnection \<Rightarrow> TCPConnection \<Rightarrow> bool" where
  "grown c c' \<longleftrightarrow> cn_cfg c' = cn_cfg c
     \<and> ra_capacity (rv_reassembler (cn_receiver c')) = ra_capacity (rv_reassembler (cn_receiver c))
     \<and> (cn_is_unclear_shutdown c \<longrightarrow> cn_is_unclear_shutdown c') \<and> (cn_is_clear_shutdown c \<longrightarrow> cn_is_clear_shutdown c')
     \<and> (\<exists>segs. cn_segments_out c' = cn_segments_out c @ segs)"

lemma grown_refl [simp]: "grown c c"
  by (simp add: grown_def)

lemma grown_trans: "grown a b \<Longrightarrow> grown b c \<Longrightarrow> grown a c"
  unfolding grown_def by fastforce

lemma grown_sender [simp]: "grown c (d\<lparr>cn_sender := s\<rparr>) = grown c d"
  by (simp add: grown_def)

lemma grown_shutdown: "grown c (TCPConnection_unclear_shutdown c)"
  by (simp add: grown_def TCPConnection_unclear_shutdown_def TCPReceiver_set_error_def)

lemma route_ok:
  assumes "conn_pre W c" and "error_ok c" and "seg_ok seg"
  shows "\<exists>c'. TCPConnection_segment_receive_route c seg = Inr c' \<and> conn_pre W c' \<and> error_ok c' \<and> grown c c'"
proof -
  have s: "sender_inv W (cn_sender c)" "idle_ok (cn_sender c)" "rv_small (cn_receiver c)"
    using assms(1) by (simp_all add: conn_pre_def)
  obtain r b where r: "TCPReceiver_segment_received (cn_receiver c) seg = Inr (r, b)" "rv_small r"
    "ra_capacity (rv_reassembler r) = ra_capacity (rv_reassembler (cn_receiver c))"
    "bs_error (ra_output (rv_reassembler r)) = bs_error (ra_output (rv_reassembler (cn_receiver c)))"
    by (rule segment_received_any [OF s(3)]) (use assms(3) in \<open>auto simp: seg_ok_def\<close>)
  let ?c = "c\<lparr>cn_receiver := r\<rparr>"
  have rc: "conn_pre W ?c" "error_ok ?c" and g: "grown c ?c"
    using conn_pre_receiver [OF assms(1) r(2)] assms(2) r(3,4) by (simp_all add: error_ok_def grown_def)
  obtain sf where f: "TCPSender_fill_window (cn_sender c) = Inr sf" "sender_inv W sf" "idle_ok sf"
    "same_ack (cn_sender c) sf" "unat (ts_next_seqno (cn_sender c)) \<le> unat (ts_next_seqno sf)"
    by (rule fill_window_conn [OF s(1,2)])
  obtain sa ba where a: "TCPSender_ack_received (cn_sender c) (th_ackno (sg_header seg)) (th_win (sg_header seg)) = Inr (sa, ba)"
    "sender_inv W sa" "idle_ok sa" "ts_isn sa = ts_isn (cn_sender c)"
    "unat (ts_next_seqno (cn_sender c)) \<le> unat (ts_next_seqno sa)"
    "bs_error (ts_stream sa) = bs_error (ts_stream (cn_sender c))"
    by (rule ack_received_conn [OF s(1,2)])
  have fc: "conn_pre W (?c\<lparr>cn_sender := sf\<rparr>)" "error_ok (?c\<lparr>cn_sender := sf\<rparr>)"
    using conn_pre_sender [OF rc(1) f(2,3)] f(4,5) rc(2) by (simp_all add: same_ack_def error_ok_def)
  have ac: "conn_pre W (?c\<lparr>cn_sender := sa\<rparr>)" "error_ok (?c\<lparr>cn_sender := sa\<rparr>)"
    using conn_pre_sender [OF rc(1) a(2,3)] a(4-6) rc(2) by (simp_all add: error_ok_def)
  have em: "conn_pre W (d\<lparr>cn_sender := TCPSender_send_empty_segment (cn_sender d)\<rparr>)
      \<and> error_ok (d\<lparr>cn_sender := TCPSender_send_empty_segment (cn_sender d)\<rparr>)"
    if "conn_pre W d" "error_ok d" for d
    using send_empty_sender [OF that(1)] that(2) by (simp add: error_ok_def TCPSender_send_empty_segment_def)
  show ?thesis
  proof (cases "TCPConnection_LISTEN c")
    case True
    then show ?thesis
      using assms(1,2) r(1) f(1) fc g by (auto simp: TCPConnection_segment_receive_route_def)
  next
    case False
    let ?d = "if th_ack (sg_header seg) then ?c\<lparr>cn_sender := sa\<rparr> else ?c"
    have d: "conn_pre W ?d" "error_ok ?d" and gd: "grown c ?d" using rc ac g by simp_all
    show ?thesis
    proof (cases "th_rst (sg_header seg)")
      case True
      then show ?thesis
        using False unclear_shutdown_ok(1) [OF assms(1)] error_ok_shutdown grown_shutdown
        by (simp add: TCPConnection_segment_receive_route_def)
    next
      case rst: False
      have "TCPConnection_segment_receive_route c seg
          \<in> Inr ` {?c, ?d, ?d\<lparr>cn_sender := TCPSender_send_empty_segment (cn_sender ?d)\<rparr>}"
        using False rst r(1) a(1) by (auto simp: TCPConnection_segment_receive_route_def Let_def)
      moreover have "grown c (?d\<lparr>cn_sender := TCPSender_send_empty_segment (cn_sender ?d)\<rparr>)" using gd by simp
      ultimately show ?thesis using rc d g gd em [OF d] by blast
    qed
  qed
qed

text \<open>Every public operation ends by collecting the segments and testing for the end.\<close>

definition collected :: "TCPConnection \<Rightarrow> TCPConnection" where
  "collected c = c\<lparr>cn_segments_out := cn_segments_out c @ map (stamp c) (ts_segments_out (cn_sender c)),
     cn_sender := (cn_sender c)\<lparr>ts_segments_out := []\<rparr>\<rparr>"

definition settled :: "TCPConnection \<Rightarrow> TCPConnection" where
  "settled c = set_flags (if too_many c then aborted (collected c) else collected c)"

lemma collect_eq: "TCPConnection_collect_output c = Inr (collected c)"
  by (simp add: collect_output_stamp collected_def)

lemma settle_eq: "bindE (TCPConnection_collect_output c) TCPConnection_test_end = Inr (settled c)"
  by (simp add: collect_eq test_end_eq settled_def too_many_def collected_def)

lemma collected_ok:
  assumes "conn_pre W c" and "error_ok c"
  shows "conn_inv W (collected c)" and "error_ok (collected c)"
  using collect_output_ok [OF assms(1)] assms(2) by (auto simp: collected_def error_ok_def)

lemma settled_ok:
  assumes "conn_pre W c" and "error_ok c"
  shows "conn_inv W (settled c) \<and> error_ok (settled c)"
  using collected_ok [OF assms] aborted_ok [of W "collected c"] error_ok_shutdown [of "collected c"]
  by (auto simp: settled_def error_ok_def aborted_def)

lemma grown_settled: "grown c (settled c)"
proof -
  have c: "grown c (collected c)" by (simp add: grown_def collected_def)
  have a: "grown d (aborted d)" for d
    by (simp add: grown_def aborted_def TCPConnection_unclear_shutdown_def TCPReceiver_set_error_def)
  have f: "grown d (set_flags d)" for d by (simp add: grown_def) (simp add: set_flags_def Let_def)
  show ?thesis
    unfolding settled_def by (rule grown_trans [OF _ f]) (simp add: c grown_trans [OF c a])
qed

lemma segment_received_eq:
  "TCPConnection_segment_received c seg =
     bindE (TCPConnection_segment_receive_route (c\<lparr>cn_time_when_last_segment_received := cn_now_time c\<rparr>) seg) (\<lambda>c. Inr (settled c))"
  by (simp add: TCPConnection_segment_received_def settle_eq)

lemma write_eq:
  "TCPConnection_write c d = (let (st, n) = ByteStream_write (ts_stream (cn_sender c)) d in
     bindE (TCPSender_fill_window ((cn_sender c)\<lparr>ts_stream := st\<rparr>)) (\<lambda>s. Inr (settled (c\<lparr>cn_sender := s\<rparr>), n)))"
proof -
  have "bindE (TCPConnection_collect_output c) (\<lambda>c. bindE (TCPConnection_test_end c) (\<lambda>c. Inr (c, n))) = Inr (settled c, n)"
    for c and n :: u64
    using settle_eq [of c] by (simp add: collect_eq)
  then show ?thesis by (simp add: TCPConnection_write_def)
qed

lemma tick_eq:
  "TCPConnection_tick c ms = Inr (settled (c\<lparr>cn_now_time := cn_now_time c + ms, cn_sender := TCPSender_tick (cn_sender c) ms\<rparr>))"
  by (simp add: TCPConnection_tick_def settle_eq)

lemma end_input_stream_eq:
  "TCPConnection_end_input_stream c =
     bindE (TCPSender_fill_window ((cn_sender c)\<lparr>ts_stream := ByteStream_end_input (ts_stream (cn_sender c))\<rparr>))
       (\<lambda>s. Inr (settled (c\<lparr>cn_sender := s\<rparr>)))"
  by (simp add: TCPConnection_end_input_stream_def settle_eq)

abbreviation conn_good :: "bytes \<Rightarrow> TCPConnection \<Rightarrow> bool" where
  "conn_good W c \<equiv> conn_inv W c \<and> error_ok c"

lemma segment_received_ok:
  assumes "conn_good W c" and "seg_ok seg"
  obtains c' where "TCPConnection_segment_received c seg = Inr c'" and "conn_good W c'" and "grown c c'"
proof -
  let ?c = "c\<lparr>cn_time_when_last_segment_received := cn_now_time c\<rparr>"
  have "conn_pre W ?c" "error_ok ?c" using assms(1) by (simp_all add: conn_inv_def conn_pre_def error_ok_def)
  from route_ok [OF this assms(2)] obtain d where d: "TCPConnection_segment_receive_route ?c seg = Inr d"
    "conn_pre W d" "error_ok d" "grown ?c d" by blast
  have "grown c ?c" by (simp add: grown_def)
  from grown_trans [OF this grown_trans [OF d(4) grown_settled]] d(1) settled_ok [OF d(2,3)] that
  show ?thesis by (simp add: segment_received_eq)
qed

lemma fill_then_settle:
  assumes "conn_pre W (c\<lparr>cn_sender := s\<rparr>)" and "error_ok (c\<lparr>cn_sender := s\<rparr>)"
  obtains s' where "TCPSender_fill_window s = Inr s'" and "conn_pre W (c\<lparr>cn_sender := s'\<rparr>)"
    and "error_ok (c\<lparr>cn_sender := s'\<rparr>)"
proof -
  have s: "sender_inv W s" "idle_ok s" using assms(1) by (simp_all add: conn_pre_def)
  obtain s' where f: "TCPSender_fill_window s = Inr s'" "sender_inv W s'" "idle_ok s'" "same_ack s s'"
    "unat (ts_next_seqno s) \<le> unat (ts_next_seqno s')"
    by (rule fill_window_conn [OF s])
  have "conn_pre W (c\<lparr>cn_sender := s'\<rparr>)"
    using conn_pre_sender [OF assms(1) f(2,3)] f(4,5) by (simp add: same_ack_def)
  moreover have "error_ok (c\<lparr>cn_sender := s'\<rparr>)" using assms(2) f(4) by (simp add: error_ok_def same_ack_def)
  ultimately show ?thesis using that f(1) by blast
qed

lemma grown_fill: "grown c (settled (c\<lparr>cn_sender := s\<rparr>))"
  using grown_trans [OF _ grown_settled, of c "c\<lparr>cn_sender := s\<rparr>"] by simp

lemma write_conn_ok:
  assumes "conn_good W c" and "\<not> ByteStream_input_ended (ts_stream (cn_sender c))" and "length W + length d + 2 ^ 33 < two64"
  obtains c' n where "TCPConnection_write c d = Inr (c', n)" and "conn_good (W @ take (unat n) d) c'" and "grown c c'"
proof -
  obtain st n where w: "ByteStream_write (ts_stream (cn_sender c)) d = (st, n)" by fastforce
  let ?s = "(cn_sender c)\<lparr>ts_stream := st\<rparr>" and ?W = "W @ take (unat n) d"
  have inv: "sender_inv W (cn_sender c)" using assms(1) by (simp add: conn_inv_def conn_pre_def)
  have op: "\<not> bs_end (ts_stream (cn_sender c))" using assms(2) by (simp add: ByteStream_input_ended_def)
  have s: "sender_inv ?W ?s" by (rule write_ok [OF inv op assms(3) w])
  have le: "unat (ts_next_seqno (cn_sender c)) \<le> 1 + length W"
    using inv op by (auto simp: sender_inv_def numbers_ok_def stream_of_def of_bool_def)
  have "conn_seg ?W ?s seg" if "conn_seg W (cn_sender c) seg" for seg
    using that seg_at_extend [OF _ _ le] by (auto simp: conn_seg_def)
  then have "conn_pre ?W (c\<lparr>cn_sender := ?s\<rparr>)"
    using assms(1) s by (auto simp: conn_inv_def conn_pre_def idle_ok_def)
  moreover have "bs_error st = bs_error (ts_stream (cn_sender c))"
    using ByteStream_write_frame [of "ts_stream (cn_sender c)" d] w by (simp add: ByteStream_write_def Let_def) auto
  then have "error_ok (c\<lparr>cn_sender := ?s\<rparr>)" using assms(1) by (simp add: error_ok_def)
  ultimately obtain s' where "TCPSender_fill_window ?s = Inr s'" "conn_pre ?W (c\<lparr>cn_sender := s'\<rparr>)"
    "error_ok (c\<lparr>cn_sender := s'\<rparr>)"
    by (rule fill_then_settle)
  with that w settled_ok grown_fill show ?thesis by (auto simp: write_eq)
qed

lemma write_amount:
  assumes "conn_good W c" and "\<not> ByteStream_input_ended (ts_stream (cn_sender c))" and "length W + length d + 2 ^ 33 < two64"
  obtains c' n where "TCPConnection_write c d = Inr (c', n)"
    and "unat n = min (length d) (unat (TCPConnection_remaining_outbound_capacity c))"
proof -
  obtain c' n where r: "TCPConnection_write c d = Inr (c', n)" by (rule write_conn_ok [OF assms])
  obtain st m where m: "ByteStream_write (ts_stream (cn_sender c)) d = (st, m)" by fastforce
  then have "n = m" using r by (auto simp: write_eq bindE_Inr_iff)
  moreover have inv: "ByteStream_inv (ts_stream (cn_sender c))"
    using assms(1) by (simp add: conn_inv_def conn_pre_def sender_inv_def stream_of_def)
  moreover have "unat m = min (length d) (unat (bs_capacity (ts_stream (cn_sender c))) - length (ByteStream_contents (ts_stream (cn_sender c))))"
    using assms(3) by (intro ByteStream_write_law(2) [OF inv _ m]) simp
  ultimately show ?thesis
    using that r unat_remaining_capacity [OF inv] by (simp add: TCPConnection_remaining_outbound_capacity_def)
qed

lemma end_input_stream_ok:
  assumes "conn_good W c"
  obtains c' where "TCPConnection_end_input_stream c = Inr c'" and "conn_good W c'" and "grown c c'"
proof -
  let ?s = "(cn_sender c)\<lparr>ts_stream := ByteStream_end_input (ts_stream (cn_sender c))\<rparr>"
  have "sender_inv W ?s" using assms by (intro end_input_ok) (simp add: conn_inv_def conn_pre_def)
  moreover have "idle_ok ?s" using assms by (simp add: conn_inv_def conn_pre_def idle_ok_def)
  ultimately have "conn_pre W (c\<lparr>cn_sender := ?s\<rparr>)"
    using assms by (intro conn_pre_sender) (simp_all add: conn_inv_def)
  moreover have "error_ok (c\<lparr>cn_sender := ?s\<rparr>)" using assms by (simp add: error_ok_def ByteStream_end_input_def)
  ultimately obtain s' where "TCPSender_fill_window ?s = Inr s'" "conn_pre W (c\<lparr>cn_sender := s'\<rparr>)"
    "error_ok (c\<lparr>cn_sender := s'\<rparr>)"
    by (rule fill_then_settle)
  with that settled_ok grown_fill show ?thesis by (auto simp: end_input_stream_eq)
qed

lemma tick_frame:
  "ts_isn (TCPSender_tick s ms) = ts_isn s" "ts_next_seqno (TCPSender_tick s ms) = ts_next_seqno s"
  "ts_stream (TCPSender_tick s ms) = ts_stream s"
  by (cases rule: tick_cases [where s = s and ms = ms]; simp add: tick_fires)+

lemma tick_conn_ok:
  assumes "conn_good W c"
  obtains c' where "TCPConnection_tick c ms = Inr c'" and "conn_good W c'" and "grown c c'"
proof -
  let ?s = "TCPSender_tick (cn_sender c) ms" and ?d = "c\<lparr>cn_now_time := cn_now_time c + ms\<rparr>"
  have d: "conn_pre W ?d" "error_ok ?d" using assms by (simp_all add: conn_inv_def conn_pre_def error_ok_def)
  then have "sender_inv W ?s" "idle_ok ?s"
    using tick_ok [of W "cn_sender c" ms] by (simp_all add: conn_pre_def)
  then have "conn_pre W (?d\<lparr>cn_sender := ?s\<rparr>)"
    by (intro conn_pre_sender [OF d(1)]) (simp_all add: tick_frame)
  moreover have "error_ok (?d\<lparr>cn_sender := ?s\<rparr>)" using d(2) by (simp add: error_ok_def tick_frame)
  moreover have "grown c ?d" by (simp add: grown_def)
  then have "grown c (settled (?d\<lparr>cn_sender := ?s\<rparr>))" using grown_fill by (rule grown_trans)
  ultimately show ?thesis using that settled_ok by (auto simp: tick_eq)
qed

lemma connect_ok:
  assumes "conn_good W c"
  obtains c' where "TCPConnection_connect c = Inr c'" and "conn_good W c'" and "grown c c'"
proof (cases "TCPConnection_LISTEN c")
  case True
  have c: "c\<lparr>cn_sender := cn_sender c\<rparr> = c" by simp
  obtain s' where "TCPSender_fill_window (cn_sender c) = Inr s'" "conn_pre W (c\<lparr>cn_sender := s'\<rparr>)"
    "error_ok (c\<lparr>cn_sender := s'\<rparr>)"
    by (rule fill_then_settle [where W = W and c = c and s = "cn_sender c"]) (use assms in \<open>simp_all add: conn_inv_def\<close>)
  moreover have "grown c (collected (c\<lparr>cn_sender := s'\<rparr>))" by (simp add: grown_def collected_def)
  ultimately show ?thesis using True that collected_ok by (auto simp: TCPConnection_connect_def collect_eq)
next
  case False
  with assms that show ?thesis by (simp add: TCPConnection_connect_def)
qed

lemma new_ok:
  assumes "unat (cf_recv_capacity cfg) + 2 ^ 33 < two64"
  shows "conn_good [] (TCPConnection_new cfg random)"
proof -
  have "rv_small (TCPReceiver_new (cf_recv_capacity cfg))"
    using assms by (simp add: rv_small_def TCPReceiver_new_def keeps_inv) (simp add: StreamReassembler_new_def)
  moreover have "idle_ok (TCPSender_new (cf_send_capacity cfg) (cf_rt_timeout cfg) (cf_fixed_isn cfg) random)"
    by (simp add: idle_ok_def TCPSender_new_def RetransmissionTimer_new_def)
  ultimately have "conn_pre [] (TCPConnection_new cfg random)"
    by (simp add: conn_pre_def TCPConnection_new_def sender_inv_new)
  then show ?thesis
    by (simp add: conn_inv_def) (simp add: TCPConnection_new_def error_ok_def TCPSender_new_def TCPReceiver_new_def
        StreamReassembler_new_def ByteStream_new_def)
qed

section \<open>Reachable states\<close>

text \<open>
  One step of a connection: \<open>W\<close> is what the application has written before, \<open>W'\<close> after the step, \<open>d\<close>
  what it reads in the step.  The segments that arrive satisfy \<open>P\<close>.
\<close>

inductive conn_step :: "(TCPSegment \<Rightarrow> bool) \<Rightarrow> bytes \<Rightarrow> TCPConnection \<Rightarrow> bytes \<Rightarrow> bytes \<Rightarrow> TCPConnection \<Rightarrow> bool"
  for P W c where
  connects: "TCPConnection_connect c = Inr c' \<Longrightarrow> conn_step P W c W [] c'"
| writes: "\<not> ByteStream_input_ended (ts_stream (cn_sender c)) \<Longrightarrow> length W + length x + 2 ^ 33 < two64 \<Longrightarrow>
    TCPConnection_write c x = Inr (c', n) \<Longrightarrow> conn_step P W c (W @ take (unat n) x) [] c'"
| ends: "TCPConnection_end_input_stream c = Inr c' \<Longrightarrow> conn_step P W c W [] c'"
| receives: "P seg \<Longrightarrow> TCPConnection_segment_received c seg = Inr c' \<Longrightarrow> conn_step P W c W [] c'"
| ticks: "TCPConnection_tick c ms = Inr c' \<Longrightarrow> conn_step P W c W [] c'"
| reads: "ByteStream_read (TCPConnection_inbound_stream c) n = Inr (st, d) \<Longrightarrow>
    unat (cf_recv_capacity (cn_cfg c)) + unat (bs_byte_read st) + 2 ^ 33 < two64 \<Longrightarrow>
    conn_step P W c W d (c\<lparr>cn_receiver := (cn_receiver c)\<lparr>rv_reassembler := (rv_reassembler (cn_receiver c))\<lparr>ra_output := st\<rparr>\<rparr>\<rparr>)"
| sends: "cn_segments_out c = seg # rest \<Longrightarrow> conn_step P W c W [] (c\<lparr>cn_segments_out := rest\<rparr>)"

inductive conn_run :: "TCPConnection \<Rightarrow> bytes \<Rightarrow> TCPConnection \<Rightarrow> bool" for c0 where
  begins: "conn_run c0 [] c0"
| steps: "conn_run c0 W c \<Longrightarrow> conn_step seg_ok W c W' d c' \<Longrightarrow> conn_run c0 W' c'"

definition cap_ok :: "TCPConnection \<Rightarrow> bool" where
  "cap_ok c \<longleftrightarrow> ra_capacity (rv_reassembler (cn_receiver c)) = cf_recv_capacity (cn_cfg c)"

lemma cap_ok_grown: "cap_ok c \<Longrightarrow> grown c c' \<Longrightarrow> cap_ok c'"
  by (simp add: cap_ok_def grown_def)

lemma read_conn_ok:
  assumes "conn_good W c" and "cap_ok c" and "ByteStream_read (TCPConnection_inbound_stream c) n = Inr (st, d)"
    and "unat (cf_recv_capacity (cn_cfg c)) + unat (bs_byte_read st) + 2 ^ 33 < two64"
  shows "conn_good W (c\<lparr>cn_receiver := (cn_receiver c)\<lparr>rv_reassembler := (rv_reassembler (cn_receiver c))\<lparr>ra_output := st\<rparr>\<rparr>\<rparr>)"
proof -
  let ?r = "cn_receiver c"
  have small: "rv_small ?r" using assms(1) by (simp add: conn_inv_def conn_pre_def)
  then have wf: "ra_wf (rv_reassembler ?r)" by (simp add: rv_small_def)
  obtain out where out: "ra_step (rv_reassembler ?r) (Read_out n) = Inr ((rv_reassembler ?r)\<lparr>ra_output := out\<rparr>,
      take (unat n) (ByteStream_contents (ra_output (rv_reassembler ?r))))"
    "ra_wf ((rv_reassembler ?r)\<lparr>ra_output := out\<rparr>)" "bs_error out = bs_error (ra_output (rv_reassembler ?r))"
    using read_out_ok [OF wf, of n] by blast
  have st: "st = out"
    using out(1) assms(3)
    by (auto simp: TCPConnection_inbound_stream_def TCPReceiver_stream_out_def StreamReassembler_stream_out_def bindE_Inr_iff
        dest!: arg_cong [where f = ra_output])
  have "rv_small (?r\<lparr>rv_reassembler := (rv_reassembler ?r)\<lparr>ra_output := st\<rparr>\<rparr>)"
    using out(2) assms(2,4) by (simp add: rv_small_def st cap_ok_def)
  then show ?thesis using assms(1) out(3) by (simp add: conn_inv_def conn_pre_def error_ok_def st)
qed

lemma conn_step_good:
  assumes "conn_step P W c W' d c'" and "\<And>seg. P seg \<Longrightarrow> seg_ok seg" and "conn_good W c" and "cap_ok c"
  shows "conn_good W' c' \<and> cap_ok c'"
  using assms(1)
proof cases
  case connects
  obtain e where "TCPConnection_connect c = Inr e" "conn_good W e" "grown c e" by (rule connect_ok [OF assms(3)])
  with connects assms(4) show ?thesis using cap_ok_grown [of c e] by simp
next
  case (writes x n)
  obtain e m where "TCPConnection_write c x = Inr (e, m)" "conn_good (W @ take (unat m) x) e" "grown c e"
    by (rule write_conn_ok [OF assms(3) writes(3,4)])
  with writes assms(4) show ?thesis using cap_ok_grown [of c e] by simp
next
  case ends
  obtain e where "TCPConnection_end_input_stream c = Inr e" "conn_good W e" "grown c e"
    by (rule end_input_stream_ok [OF assms(3)])
  with ends assms(4) show ?thesis using cap_ok_grown [of c e] by simp
next
  case (receives seg)
  obtain e where "TCPConnection_segment_received c seg = Inr e" "conn_good W e" "grown c e"
    by (rule segment_received_ok [OF assms(3) assms(2) [OF receives(3)]])
  with receives assms(4) show ?thesis using cap_ok_grown [of c e] by simp
next
  case (ticks ms)
  obtain e where "TCPConnection_tick c ms = Inr e" "conn_good W e" "grown c e" by (rule tick_conn_ok [OF assms(3)])
  with ticks assms(4) show ?thesis using cap_ok_grown [of c e] by simp
next
  case (reads n st)
  then show ?thesis using read_conn_ok [OF assms(3,4) reads(3,4)] assms(4) by (simp add: cap_ok_def)
next
  case (sends seg rest)
  then show ?thesis using assms(3,4) by (auto simp: conn_inv_def conn_pre_def error_ok_def cap_ok_def)
qed

lemma conn_new_good:
  "unat (cf_recv_capacity cfg) + 2 ^ 33 < two64 \<Longrightarrow> conn_good [] (TCPConnection_new cfg random) \<and> cap_ok (TCPConnection_new cfg random)"
  using new_ok by (simp add: cap_ok_def TCPConnection_new_def TCPReceiver_new_def StreamReassembler_new_def)

lemma conn_run_inv:
  assumes "conn_run (TCPConnection_new cfg random) W c" and "unat (cf_recv_capacity cfg) + 2 ^ 33 < two64"
  shows "conn_good W c \<and> cap_ok c"
  using assms(1)
proof (induction rule: conn_run.induct)
  case begins
  show ?case using assms(2) by (rule conn_new_good)
next
  case (steps W c W' d c')
  then show ?case using conn_step_good [OF steps(2)] by simp
qed

end
