(* ===== verification/Connection_Props.thy ===== *)
theory Connection_Props
  imports Connection_Run
begin

text \<open>
  Properties of \<^verbatim>\<open>TCPConnection\<close> in every reachable state: which flags go together, that no operation
  throws, and that a reset ends the connection for good.
\<close>


section \<open>Further invariants\<close>

abbreviation FIN_received :: "TCPConnection \<Rightarrow> bool" where
  "FIN_received c \<equiv> bs_end (ra_output (rv_reassembler (cn_receiver c)))"

definition flags_ok :: "TCPConnection \<Rightarrow> bool" where
  "flags_ok c \<longleftrightarrow> (too_many c \<longrightarrow> cn_is_unclear_shutdown c)
     \<and> (\<not> cn_linger_after_streams_finish c \<longrightarrow> FIN_received c)
     \<and> (FIN_received c \<longrightarrow> rv_ISN (cn_receiver c) \<noteq> None)"

lemma after_syn_flags:
  assumes "TCPReceiver_after_syn r seg = Inr (r', b)"
  shows "rv_ISN r' = rv_ISN r" and "bs_end (ra_output (rv_reassembler r)) \<Longrightarrow> r' = r"
    and "rv_ISN r = None \<Longrightarrow> r' = r"
  using assms by (auto simp: TCPReceiver_after_syn_def TCPReceiver_accept_def Let_def bindE_Inr_iff split: if_splits)

lemma receiver_flags:
  assumes "TCPReceiver_segment_received r seg = Inr (r', b)"
    and "bs_end (ra_output (rv_reassembler r)) \<longrightarrow> rv_ISN r \<noteq> None"
  shows "bs_end (ra_output (rv_reassembler r)) \<Longrightarrow> r' = r"
    and "bs_end (ra_output (rv_reassembler r')) \<Longrightarrow> rv_ISN r' \<noteq> None"
  using assms after_syn_flags [of r seg r' b] after_syn_flags [of "r\<lparr>rv_ISN := Some (th_seqno (sg_header seg))\<rparr>" seg r' b]
  by (auto simp: TCPReceiver_segment_received_def Let_def split: if_splits)

lemma too_many_settled: "too_many (settled c) \<Longrightarrow> cn_is_unclear_shutdown (settled c)"
  by (auto simp: settled_def too_many_def aborted_def collected_def TCPConnection_unclear_shutdown_def split: if_splits)

lemma linger_settled:
  "cn_linger_after_streams_finish (settled c) \<longleftrightarrow> cn_linger_after_streams_finish c
     \<and> (ByteStream_eof (ts_stream (cn_sender c)) \<or> \<not> FIN_received c)"
  by (simp add: settled_def set_flags_def Let_def aborted_def collected_def TCPConnection_unclear_shutdown_def
      TCPReceiver_set_error_def TCPReceiver_stream_out_def StreamReassembler_stream_out_def)

lemma receiver_settled:
  "FIN_received (settled c) = FIN_received c" "rv_ISN (cn_receiver (settled c)) = rv_ISN (cn_receiver c)"
  by (simp_all add: settled_def aborted_def collected_def TCPConnection_unclear_shutdown_def
      TCPReceiver_set_error_def TCPReceiver_stream_out_def StreamReassembler_stream_out_def)

text \<open>The part of \<open>flags_ok\<close> that an operation must bring along before it settles.\<close>

definition fin_ok :: "TCPConnection \<Rightarrow> bool" where
  "fin_ok c \<longleftrightarrow> (\<not> cn_linger_after_streams_finish c \<longrightarrow> FIN_received c) \<and> (FIN_received c \<longrightarrow> rv_ISN (cn_receiver c) \<noteq> None)"

lemma flags_settled: "fin_ok c \<Longrightarrow> flags_ok (settled c)"
  using too_many_settled [of c] by (auto simp: flags_ok_def fin_ok_def linger_settled receiver_settled)

lemma fin_of_flags: "flags_ok c \<Longrightarrow> fin_ok c"
  by (simp add: flags_ok_def fin_ok_def)

lemma fin_sender [simp]: "fin_ok (c\<lparr>cn_sender := s\<rparr>) = fin_ok c"
  by (simp add: fin_ok_def)

lemma fin_times [simp]: "fin_ok (c\<lparr>cn_now_time := t\<rparr>) = fin_ok c"
  "fin_ok (c\<lparr>cn_time_when_last_segment_received := t\<rparr>) = fin_ok c"
  by (simp_all add: fin_ok_def)

lemma fin_shutdown [simp]: "fin_ok (TCPConnection_unclear_shutdown c) = fin_ok c"
  by (simp add: fin_ok_def TCPConnection_unclear_shutdown_def TCPReceiver_set_error_def TCPReceiver_stream_out_def
      StreamReassembler_stream_out_def)

lemma route_parts:
  assumes "TCPConnection_segment_receive_route c seg = Inr c'"
  shows "c' = c \<or> c' = TCPConnection_unclear_shutdown c \<or>
    (\<exists>r b s. TCPReceiver_segment_received (cn_receiver c) seg = Inr (r, b)
       \<and> (c' = c\<lparr>cn_receiver := r\<rparr> \<or> c' = c\<lparr>cn_receiver := r, cn_sender := s\<rparr>))"
proof (cases "TCPReceiver_segment_received (cn_receiver c) seg")
  case (Inl e)
  then show ?thesis using assms by (simp add: TCPConnection_segment_receive_route_def split: if_splits)
next
  case (Inr p)
  obtain r b where p: "p = (r, b)" by fastforce
  show ?thesis
    using assms unfolding TCPConnection_segment_receive_route_def Inr p Let_def
    by (auto simp: bindE_Inr_iff split: if_splits)
qed

lemma route_fin: "TCPConnection_segment_receive_route c seg = Inr c' \<Longrightarrow> fin_ok c \<Longrightarrow> fin_ok c'"
proof -
  assume fin: "fin_ok c"
  then have isn: "FIN_received c \<longrightarrow> rv_ISN (cn_receiver c) \<noteq> None" by (simp add: fin_ok_def)
  have *: "fin_ok (c\<lparr>cn_receiver := r\<rparr>)" if "TCPReceiver_segment_received (cn_receiver c) seg = Inr (r, b)" for r b
    using receiver_flags [OF that isn] fin by (auto simp: fin_ok_def)
  assume "TCPConnection_segment_receive_route c seg = Inr c'"
  from route_parts [OF this] show "fin_ok c'" using fin * by auto
qed

lemma conn_step_flags:
  assumes "conn_step P W c W' d c'" and "conn_good W c" and "flags_ok c"
  shows "flags_ok c'"
  using assms(1)
proof cases
  case connects
  have "sender_inv W (cn_sender c)" using assms(2) by (simp add: conn_inv_def conn_pre_def)
  then obtain s where s: "TCPSender_fill_window (cn_sender c) = Inr s" "same_ack (cn_sender c) s" by (rule fill_window_ok)
  show ?thesis
    using connects s assms(3)
    by (auto simp: TCPConnection_connect_def collect_eq flags_ok_def too_many_def collected_def same_ack_def split: if_splits)
next
  case (writes x n)
  then show ?thesis using fin_of_flags [OF assms(3)] flags_settled by (auto simp: write_eq bindE_Inr_iff split: prod.splits)
next
  case ends
  then show ?thesis using fin_of_flags [OF assms(3)] flags_settled by (auto simp: end_input_stream_eq bindE_Inr_iff)
next
  case (receives seg)
  then show ?thesis using fin_of_flags [OF assms(3)] flags_settled route_fin by (fastforce simp: segment_received_eq bindE_Inr_iff)
next
  case (ticks ms)
  then show ?thesis using fin_of_flags [OF assms(3)] by (auto simp: tick_eq intro!: flags_settled)
next
  case (reads n st)
  have "ra_wf (rv_reassembler (cn_receiver c))" using assms(2) by (simp add: conn_inv_def conn_pre_def rv_small_def)
  then have inv: "ByteStream_inv (ra_output (rv_reassembler (cn_receiver c)))" by (simp add: ra_wf_def out_wf_def)
  obtain st' where "ByteStream_read (ra_output (rv_reassembler (cn_receiver c))) n
      = Inr (st', take (unat n) (ByteStream_contents (ra_output (rv_reassembler (cn_receiver c)))))"
    "bs_end st' = FIN_received c"
    by (rule ByteStream_read_law [OF inv])
  then have "bs_end st = FIN_received c"
    using reads(3) by (simp add: TCPConnection_inbound_stream_def TCPReceiver_stream_out_def StreamReassembler_stream_out_def)
  then show ?thesis using reads(2) assms(3) by (simp add: flags_ok_def too_many_def)
next
  case (sends seg rest)
  then show ?thesis using assms(3) by (simp add: flags_ok_def too_many_def)
qed

lemma flags_ok_run:
  assumes "conn_run (TCPConnection_new cfg random) W c" and "unat (cf_recv_capacity cfg) + 2 ^ 33 < two64"
  shows "flags_ok c"
  using assms(1)
proof (induction rule: conn_run.induct)
  case begins
  show ?case
    by (simp add: flags_ok_def too_many_def TCPConnection_new_def TCPSender_new_def TCPReceiver_new_def
        StreamReassembler_new_def TCPConfig_MAX_RETX_ATTEMPTS_def)
next
  case (steps W c W' d c')
  then show ?case using conn_step_flags [OF steps(2)] conn_run_inv [OF steps(1) assms(2)] by simp
qed

section \<open>A sample run\<close>

definition sample_cfg :: TCPConfig where
  "sample_cfg = TCPConfig_default\<lparr>cf_fixed_isn := Some (WrappingInt32_of 4294967295)\<rparr>"

definition sample_conn :: TCPConnection where
  "sample_conn = TCPConnection_new sample_cfg 0"

lemma sample_cap: "unat (cf_recv_capacity sample_cfg) + 2 ^ 33 < two64"
  by (simp add: sample_cfg_def TCPConfig_default_def TCPConfig_DEFAULT_CAPACITY_def two64_def)

lemma sample_begins: "conn_run (TCPConnection_new sample_cfg 0) [] sample_conn"
  unfolding sample_conn_def by (rule begins)

definition sample_syn_sent :: TCPConnection where
  "sample_syn_sent = sample_conn\<lparr>cn_segments_out := [sample_syn],
     cn_sender := (cn_sender sample_conn)\<lparr>ts_syn := True, ts_outstanding_segment := [(0, sample_syn)],
       ts_bytes_in_flight := 1, ts_next_seqno := 1,
       ts_timer := RetransmissionTimer_set_new_timer (RetransmissionTimer_new 0 False True) 1000\<rparr>\<rparr>"

lemma sample_connect: "TCPConnection_connect sample_conn = Inr sample_syn_sent"
  by (simp add: TCPConnection_connect_def TCPConnection_LISTEN_def sample_conn_def sample_cfg_def TCPConnection_new_def
      TCPReceiver_new_def TCPConfig_default_def TCPConfig_TIMEOUT_DFLT_def sample_syn_sent_def sample_syn_def
      collect_eq collected_def stamp_def sender_eval Let_def)

lemma sample_syn_sent_run: "conn_run (TCPConnection_new sample_cfg 0) [] sample_syn_sent"
  by (rule steps [OF sample_begins connects [OF sample_connect]])

section \<open>Properties\<close>

text \<open>
  C7: In every reachable state every operation returns: nothing throws, no loop runs forever and no
  undefined behaviour is met, whatever segment arrives, with whatever numbers and flags, and whatever
  the clock and the application do.  A write takes as many bytes as \<^verbatim>\<open>remaining_outbound_capacity\<close> allows.
\<close>

theorem connection_never_raises:
  assumes "conn_run (TCPConnection_new cfg random) W c" and "unat (cf_recv_capacity cfg) + 2 ^ 33 < two64"
    and "seg_ok seg"
  shows "(\<exists>c'. TCPConnection_segment_received c seg = Inr c') \<and> (\<exists>c'. TCPConnection_tick c ms = Inr c')
     \<and> (\<exists>c'. TCPConnection_connect c = Inr c') \<and> (\<exists>c'. TCPConnection_end_input_stream c = Inr c')
     \<and> (\<not> ByteStream_input_ended (ts_stream (cn_sender c)) \<and> length W + length d + 2 ^ 33 < two64 \<longrightarrow>
         (\<exists>c' n. TCPConnection_write c d = Inr (c', n)
           \<and> unat n = min (length d) (unat (TCPConnection_remaining_outbound_capacity c))))"
proof -
  have good: "conn_good W c" using conn_run_inv [OF assms(1,2)] by simp
  have "\<exists>c' n. TCPConnection_write c d = Inr (c', n) \<and> unat n = min (length d) (unat (TCPConnection_remaining_outbound_capacity c))"
    if "\<not> ByteStream_input_ended (ts_stream (cn_sender c))" and "length W + length d + 2 ^ 33 < two64"
    using write_amount [OF good that] by blast
  moreover obtain c1 where "TCPConnection_segment_received c seg = Inr c1" by (rule segment_received_ok [OF good assms(3)])
  moreover obtain c2 where "TCPConnection_tick c ms = Inr c2" by (rule tick_conn_ok [OF good])
  moreover obtain c3 where "TCPConnection_connect c = Inr c3" by (rule connect_ok [OF good])
  moreover obtain c4 where "TCPConnection_end_input_stream c = Inr c4" by (rule end_input_stream_ok [OF good])
  ultimately show ?thesis by blast
qed

theorem connection_never_raises_witness:
  "\<exists>c'. TCPConnection_segment_received sample_syn_sent sample_syn = Inr c'"
proof -
  have "seg_ok sample_syn" by (simp add: seg_ok_def sample_syn_def)
  from connection_never_raises [OF sample_syn_sent_run sample_cap this] show ?thesis by blast
qed

lemma settled_quiet:
  assumes "ts_segments_out (cn_sender c) = []" and "\<not> too_many c"
  shows "settled c = set_flags c"
proof -
  have "collected c = c" using assms(1) by (simp add: collected_def)
  with assms(2) show ?thesis by (simp add: settled_def)
qed

lemma active_quiet:
  assumes "conn_run (TCPConnection_new cfg random) W c" and "unat (cf_recv_capacity cfg) + 2 ^ 33 < two64"
    and "TCPConnection_active c"
  shows "\<not> too_many c" and "ts_segments_out (cn_sender c) = []" and "\<not> cn_is_unclear_shutdown c"
    and "\<not> cn_is_clear_shutdown c"
  using conn_run_inv [OF assms(1,2)] flags_ok_run [OF assms(1,2)] assms(3)
  by (auto simp: TCPConnection_active_def flags_ok_def conn_inv_def)

text \<open>
  C29: A segment with the RST flag that reaches an active connection that is not waiting for its first SYN
  kills it at once: both streams are in error, the connection is not active, and nothing is sent in return.
\<close>

theorem reset_kills:
  assumes "conn_run (TCPConnection_new cfg random) W c" and "unat (cf_recv_capacity cfg) + 2 ^ 33 < two64"
    and "TCPConnection_active c" and "\<not> TCPConnection_LISTEN c" and "th_rst (sg_header seg)"
  shows "\<exists>c'. TCPConnection_segment_received c seg = Inr c' \<and> \<not> TCPConnection_active c'
     \<and> bs_error (TCPConnection_inbound_stream c') \<and> bs_error (ts_stream (cn_sender c'))
     \<and> cn_segments_out c' = cn_segments_out c"
proof -
  note q = active_quiet [OF assms(1-3)]
  let ?c = "c\<lparr>cn_time_when_last_segment_received := cn_now_time c\<rparr>"
  let ?d = "TCPConnection_unclear_shutdown ?c"
  have "\<not> TCPConnection_LISTEN ?c" using assms(4) by (simp add: TCPConnection_LISTEN_def)
  then have "TCPConnection_segment_receive_route ?c seg = Inr ?d"
    using assms(5) by (simp add: TCPConnection_segment_receive_route_def)
  moreover have "settled ?d = set_flags ?d"
    using q(1,2) by (intro settled_quiet) (simp_all add: too_many_def TCPConnection_unclear_shutdown_def)
  ultimately have "TCPConnection_segment_received c seg = Inr (set_flags ?d)" by (simp add: segment_received_eq)
  then show ?thesis
    by (simp add: TCPConnection_active_def TCPConnection_inbound_stream_def)
      (simp add: TCPConnection_unclear_shutdown_def TCPReceiver_set_error_def TCPReceiver_stream_out_def
        StreamReassembler_stream_out_def)
qed

definition sample_rst :: TCPSegment where
  "sample_rst = \<lparr>sg_header = TCPHeader_default\<lparr>th_rst := True\<rparr>, sg_payload = Buffer_default\<rparr>"

lemma sample_syn_sent_facts:
  "TCPConnection_active sample_syn_sent" "\<not> TCPConnection_LISTEN sample_syn_sent" "TCPConnection_SYN_SENT sample_syn_sent"
  "ts_consecutive_retransmissions (cn_sender sample_syn_sent) = 0" "cn_segments_out sample_syn_sent = [sample_syn]"
  by (simp_all add: TCPConnection_active_def TCPConnection_LISTEN_def TCPConnection_SYN_SENT_def TCPSender_SYN_SENT_def
      sample_syn_sent_def sample_conn_def TCPConnection_new_def TCPSender_CLOSED_def TCPSender_new_def TCPReceiver_new_def)

theorem reset_kills_witness:
  "\<exists>c'. TCPConnection_segment_received sample_syn_sent sample_rst = Inr c' \<and> \<not> TCPConnection_active c'
     \<and> cn_segments_out c' = [sample_syn]"
  using reset_kills [OF sample_syn_sent_run sample_cap sample_syn_sent_facts(1,2), of sample_rst]
  by (auto simp: sample_rst_def sample_syn_sent_facts(5))

lemma dead_grown: "grown c c' \<Longrightarrow> \<not> TCPConnection_active c \<Longrightarrow> \<not> TCPConnection_active c'"
  by (auto simp: grown_def TCPConnection_active_def)

lemma dead_settled: "\<not> TCPConnection_active c \<Longrightarrow> \<not> TCPConnection_active (settled c)"
  by (rule dead_grown [OF grown_settled])

lemma dead_route:
  assumes "TCPConnection_segment_receive_route c seg = Inr c'" and "\<not> TCPConnection_active c"
  shows "\<not> TCPConnection_active c'"
  using route_parts [OF assms(1)] assms(2)
  by (auto simp: TCPConnection_active_def TCPConnection_unclear_shutdown_def)

lemma dead_fields [simp]: "TCPConnection_active (c\<lparr>cn_sender := s\<rparr>) = TCPConnection_active c"
  "TCPConnection_active (c\<lparr>cn_receiver := r\<rparr>) = TCPConnection_active c"
  "TCPConnection_active (c\<lparr>cn_segments_out := q\<rparr>) = TCPConnection_active c"
  "TCPConnection_active (c\<lparr>cn_now_time := t\<rparr>) = TCPConnection_active c"
  "TCPConnection_active (c\<lparr>cn_time_when_last_segment_received := t\<rparr>) = TCPConnection_active c"
  by (simp_all add: TCPConnection_active_def)

lemma dead_step:
  assumes "conn_step P W c W' d c'" and "\<not> TCPConnection_active c"
  shows "\<not> TCPConnection_active c'"
  using assms(1)
proof cases
  case connects
  then show ?thesis using assms(2)
    by (auto simp: TCPConnection_connect_def collect_eq bindE_Inr_iff collected_def split: if_splits)
next
  case (writes x n)
  from writes(5) obtain s where "c' = settled (c\<lparr>cn_sender := s\<rparr>)"
    by (auto simp: write_eq bindE_Inr_iff split: prod.splits)
  with assms(2) dead_settled [of "c\<lparr>cn_sender := s\<rparr>"] show ?thesis by simp
next
  case ends
  from ends(3) obtain s where "c' = settled (c\<lparr>cn_sender := s\<rparr>)"
    by (auto simp: end_input_stream_eq bindE_Inr_iff)
  with assms(2) dead_settled [of "c\<lparr>cn_sender := s\<rparr>"] show ?thesis by simp
next
  case (receives seg)
  from receives(4) obtain e where
    e: "TCPConnection_segment_receive_route (c\<lparr>cn_time_when_last_segment_received := cn_now_time c\<rparr>) seg = Inr e" "c' = settled e"
    by (auto simp: segment_received_eq bindE_Inr_iff)
  with assms(2) dead_route [OF e(1)] dead_settled [of e] show ?thesis by simp
next
  case (ticks ms)
  then have "c' = settled (c\<lparr>cn_now_time := cn_now_time c + ms, cn_sender := TCPSender_tick (cn_sender c) ms\<rparr>)"
    by (simp add: tick_eq)
  with assms(2) dead_settled [of "c\<lparr>cn_now_time := cn_now_time c + ms, cn_sender := TCPSender_tick (cn_sender c) ms\<rparr>"]
  show ?thesis by simp
qed (use assms(2) in simp_all)

text \<open>
  C30: The end of a connection is final: no sequence of operations makes one that is not active, for
  whatever reason, active again.
\<close>

theorem death_is_final:
  assumes "conn_run c W c'" and "\<not> TCPConnection_active c"
  shows "\<not> TCPConnection_active c'"
  using assms by (induction rule: conn_run.induct) (use dead_step in blast)+

theorem death_is_final_witness:
  "\<exists>c'. TCPConnection_tick (TCPConnection_destroy sample_syn_sent) 5 = Inr c' \<and> \<not> TCPConnection_active c'"
proof -
  let ?c = "TCPConnection_destroy sample_syn_sent"
  have "ts_segments_out (cn_sender sample_syn_sent) = []"
    by (simp add: sample_syn_sent_def sample_conn_def TCPConnection_new_def TCPSender_new_def)
  then have dead: "\<not> TCPConnection_active ?c"
    by (simp add: TCPConnection_destroy_def sample_syn_sent_facts abort_send)
      (simp add: aborted_def TCPConnection_active_def TCPConnection_unclear_shutdown_def)
  obtain c' where t: "TCPConnection_tick ?c 5 = Inr c'" by (simp add: tick_eq)
  have "conn_run ?c [] c'" by (rule steps [OF begins ticks [OF t]])
  with dead t death_is_final show ?thesis by blast
qed

end
