(* ===== verification/Handshake.thy ===== *)
theory Handshake
  imports Connection_Props
begin

text \<open>
  The three-way handshake between two endpoints, for any configurations and any initial sequence numbers.
\<close>

section \<open>The sender before and after its SYN\<close>

definition syn_segment :: "WrappingInt32 \<Rightarrow> TCPSegment" where
  "syn_segment isn = \<lparr>sg_header = TCPHeader_default\<lparr>th_syn := True, th_seqno := isn\<rparr>, sg_payload = Buffer_default\<rparr>"

definition syn_sent :: "TCPSender \<Rightarrow> TCPSender" where
  "syn_sent s = s\<lparr>ts_syn := True, ts_outstanding_segment := [(0, syn_segment (ts_isn s))],
     ts_bytes_in_flight := 1, ts_next_seqno := 1,
     ts_timer := RetransmissionTimer_set_new_timer (ts_timer s) (ts_rto s)\<rparr>"

lemma fill_window_new:
  "TCPSender_fill_window (TCPSender_new cap timeout fixed_isn random)
     = Inr (let s = syn_sent (TCPSender_new cap timeout fixed_isn random) in s\<lparr>ts_segments_out := [syn_segment (ts_isn s)]\<rparr>)"
  by (simp add: syn_sent_def syn_segment_def sender_eval Let_def)

lemma unwrap_one: "unwrap (wrap 1 isn) isn 0 = 1" "unwrap (wrap 1 isn) isn 1 = 1"
  by (simp_all add: unwrap_def wrap_def WrappingInt32_plus_def WrappingInt32_minus_def WrappingInt32_of_def Let_def)

lemma fill_window_nothing:
  assumes "ts_next_seqno s \<noteq> 0" and "ByteStream_buffer_empty (ts_stream s)" and "\<not> ByteStream_eof (ts_stream s)"
  shows "TCPSender_fill_window s = Inr s"
proof -
  have "\<not> fill_window_guard s w" for w
    using assms by (simp add: fill_window_guard_def TCPSender_CLOSED_def TCPSender_SYN_ACKED_FIN_TO_SEND_def)
  then show ?thesis by (simp add: TCPSender_fill_window_def fill_window_loop.simps Let_def)
qed

text \<open>A sender that has sent its SYN and nothing else, and has been told of no acknowledgment.\<close>

definition only_syn :: "TCPSender \<Rightarrow> bool" where
  "only_syn s \<longleftrightarrow> ts_next_seqno s = 1 \<and> ts_ackno s = 0 \<and> ts_bytes_in_flight s = 1
     \<and> ts_outstanding_segment s = [(0, syn_segment (ts_isn s))] \<and> ts_segments_out s = []
     \<and> ByteStream_buffer_empty (ts_stream s) \<and> \<not> ByteStream_eof (ts_stream s)
     \<and> ts_consecutive_retransmissions s = 0"

definition syn_acked :: "TCPSender \<Rightarrow> bool" where
  "syn_acked s \<longleftrightarrow> ts_next_seqno s = 1 \<and> ts_ackno s = 1 \<and> ts_bytes_in_flight s = 0 \<and> ts_outstanding_segment s = []
     \<and> ts_segments_out s = [] \<and> ByteStream_buffer_empty (ts_stream s) \<and> \<not> ByteStream_eof (ts_stream s)
     \<and> ts_consecutive_retransmissions s = 0"

lemma only_syn_new: "only_syn (syn_sent (TCPSender_new cap timeout fixed_isn random))"
  by (simp add: only_syn_def syn_sent_def TCPSender_new_def ByteStream_new_def ByteStream_buffer_empty_def
      ByteStream_eof_def ByteStream_buffer_size_def)

lemma ack_only_syn:
  assumes "only_syn s"
  obtains s' where "TCPSender_ack_received s (wrap 1 (ts_isn s)) win = Inr (s', True)" and "syn_acked s'"
    and "ts_isn s' = ts_isn s"
proof -
  let ?q = "s\<lparr>ts_window_size := win, ts_rto := ts_initial_retransmission_timeout s, ts_consecutive_retransmissions := 0, ts_ackno := 1,
     ts_outstanding_segment := [], ts_bytes_in_flight := 0\<rparr>"
  have len: "TCPSegment_length_in_sequence_space (syn_segment isn) = 1" for isn
    by (simp add: syn_segment_def TCPSegment_length_in_sequence_space_def TCPHeader_default_def Buffer_default_def
        Buffer_size_def Buffer_str_def of_flag_def size64_def)
  have pop: "TCPSender_pop_outstanding_segment (s\<lparr>ts_window_size := win, ts_rto := ts_initial_retransmission_timeout s,
     ts_consecutive_retransmissions := 0, ts_ackno := 1\<rparr>) = ?q"
    using assms by (simp add: TCPSender_pop_outstanding_segment_def only_syn_def len)
  have fill: "TCPSender_fill_window ?q = Inr ?q"
    using assms by (intro fill_window_nothing) (simp_all add: only_syn_def)
  have s: "ts_next_seqno s = 1" "ts_ackno s = 0" using assms by (simp_all add: only_syn_def)
  have "TCPSender_ack_received s (wrap 1 (ts_isn s)) win = Inr (?q\<lparr>ts_timer := RetransmissionTimer_stop (ts_timer s)\<rparr>, True)"
    using pop fill by (simp add: TCPSender_ack_received_def unwrap_one s Let_def)
  then show ?thesis by (rule that) (use assms in \<open>simp_all add: only_syn_def syn_acked_def\<close>)
qed

section \<open>The receiver\<close>

text \<open>A receiver that has received a SYN and nothing else.\<close>

definition after_syn :: "WrappingInt32 \<Rightarrow> TCPReceiver \<Rightarrow> bool" where
  "after_syn isn r \<longleftrightarrow> (\<exists>cap. unat cap + 2 ^ 33 < two64 \<and> r = (TCPReceiver_new cap)\<lparr>rv_ISN := Some isn\<rparr>)"

lemma new_receives_syn:
  assumes "th_syn (sg_header seg)" and "TCPSegment_length_in_sequence_space seg = 1"
  shows "TCPReceiver_segment_received (TCPReceiver_new cap) seg =
     Inr ((TCPReceiver_new cap)\<lparr>rv_ISN := Some (th_seqno (sg_header seg))\<rparr>, True)"
  using assms by (simp add: TCPReceiver_segment_received_def TCPReceiver_new_def)

lemma after_syn_ackno:
  assumes "after_syn isn r"
  shows "TCPReceiver_abs_ackno r = 1" and "rv_ISN r = Some isn" and "\<not> TCPReceiver_FIN_RECV r"
  using assms by (auto simp: after_syn_def TCPReceiver_abs_ackno_def TCPReceiver_new_def StreamReassembler_new_def
      StreamReassembler_assembled_bytes_def StreamReassembler_empty_def of_flag_def)

lemma bare_seg_len: "bare_seg seg \<Longrightarrow> TCPSegment_length_in_sequence_space seg = 0"
  using unat_Buffer_size [of "sg_payload seg"]
  by (auto simp: bare_seg_def TCPSegment_length_in_sequence_space_def of_flag_def unat_eq_0)

lemma after_syn_bare:
  assumes "after_syn isn r" and "bare_seg seg" and "th_seqno (sg_header seg) = wrap 1 isn"
  shows "TCPReceiver_segment_received r seg = Inr (r, True)"
proof -
  note a = after_syn_ackno [OF assms(1)]
  obtain cap where cap: "unat cap + 2 ^ 33 < two64" and r: "r = (TCPReceiver_new cap)\<lparr>rv_ISN := Some isn\<rparr>" using assms(1) by (auto simp: after_syn_def)
  have seg: "Buffer_str (sg_payload seg) = []" "Buffer_size (sg_payload seg) = 0" "\<not> th_syn (sg_header seg)"
    "\<not> th_fin (sg_header seg)" "TCPSegment_length_in_sequence_space seg = 0"
    using assms(2) unat_Buffer_size [of "sg_payload seg"] bare_seg_len [OF assms(2)]
    by (auto simp: bare_seg_def unat_eq_0)
  have win: "TCPReceiver_window_size r = cap"
    by (simp add: r TCPReceiver_window_size_def TCPReceiver_stream_out_def TCPReceiver_new_def StreamReassembler_new_def
        StreamReassembler_stream_out_def ByteStream_remaining_capacity_def ByteStream_buffer_size_def ByteStream_new_def)
  have push: "StreamReassembler_push_substring (rv_reassembler r) [] 0 False = Inr (rv_reassembler r)"
    by (simp add: r TCPReceiver_new_def StreamReassembler_push_substring_def StreamReassembler_new_def Let_def
        end_if_empty_def StreamReassembler_empty_def size64_def)
  have "1 + cap \<le> 1 \<longrightarrow> cap = 0"
    using cap unat_add64 [of 1 cap] by (auto simp: word_le_nat_alt unat_eq_0)
  then have "TCPReceiver_accept r seg = Inr (r, True)"
    using push by (simp add: TCPReceiver_accept_def assms(3) a(1,2) unwrap_one seg win of_flag_def Buffer_copy_def Let_def)
  then show ?thesis
    using a(2,3) seg by (simp add: TCPReceiver_segment_received_def TCPReceiver_after_syn_def)
qed

section \<open>The three segments\<close>

abbreviation isn_of :: "TCPConnection \<Rightarrow> WrappingInt32" where
  "isn_of c \<equiv> ts_isn (cn_sender c)"

lemma settled_open:
  assumes "\<not> too_many c" and "\<not> FIN_received c"
  shows "settled c = collected c"
proof -
  have "settled c = set_flags (collected c)" using assms(1) by (simp add: settled_def)
  moreover have "\<not> FIN_received (collected c)" using assms(2) by (simp add: collected_def)
  ultimately show ?thesis by (simp add: set_flags_def TCPConnection_TIME_WAIT_def)
qed

lemma new_parts:
  "cn_sender (TCPConnection_new cfg random) = TCPSender_new (cf_send_capacity cfg) (cf_rt_timeout cfg) (cf_fixed_isn cfg) random"
  "cn_receiver (TCPConnection_new cfg random) = TCPReceiver_new (cf_recv_capacity cfg)"
  "cn_segments_out (TCPConnection_new cfg random) = []" "\<not> cn_is_unclear_shutdown (TCPConnection_new cfg random)"
  "\<not> cn_is_clear_shutdown (TCPConnection_new cfg random)" "TCPConnection_LISTEN (TCPConnection_new cfg random)"
  by (simp_all add: TCPConnection_new_def TCPConnection_LISTEN_def TCPReceiver_new_def TCPSender_CLOSED_def TCPSender_new_def)

text \<open>The SYN of \<^verbatim>\<open>connect\<close>.\<close>

lemma connect_sends_syn:
  obtains c where "TCPConnection_connect (TCPConnection_new cfg random) = Inr c" and "only_syn (cn_sender c)"
    and "cn_segments_out c = [syn_segment (isn_of c)]" and "cn_receiver c = TCPReceiver_new (cf_recv_capacity cfg)"
    and "TCPConnection_active c" and "isn_of c = isn_of (TCPConnection_new cfg random)"
proof -
  let ?c = "TCPConnection_new cfg random" and ?s = "syn_sent (cn_sender (TCPConnection_new cfg random))"
  have isn: "ts_isn ?s = isn_of ?c" by (simp add: syn_sent_def)
  have fill: "TCPSender_fill_window (cn_sender ?c) = Inr (?s\<lparr>ts_segments_out := [syn_segment (ts_isn ?s)]\<rparr>)"
    unfolding new_parts(1) by (simp add: fill_window_new Let_def)
  have only: "only_syn ?s" unfolding new_parts(1) by (rule only_syn_new)
  then have q: "?s\<lparr>ts_segments_out := []\<rparr> = ?s" by (simp add: only_syn_def)
  let ?d = "?c\<lparr>cn_sender := ?s, cn_segments_out := [syn_segment (isn_of ?c)]\<rparr>"
  have "stamp (?c\<lparr>cn_sender := s\<rparr>) seg = seg" for s seg
    by (simp add: stamp_def new_parts TCPReceiver_new_def)
  then have "TCPConnection_connect ?c = Inr ?d"
    using fill q by (simp add: TCPConnection_connect_def new_parts(6) collect_eq collected_def new_parts(3) isn)
  then show ?thesis
    by (rule that) (use only isn in \<open>simp_all add: new_parts(2) TCPConnection_active_def new_parts(4,5)\<close>)
qed

text \<open>The answer to it.\<close>

definition acking :: "WrappingInt32 \<Rightarrow> u16 \<Rightarrow> TCPSegment \<Rightarrow> TCPSegment" where
  "acking ackno win seg = seg\<lparr>sg_header := (sg_header seg)\<lparr>th_ack := True, th_ackno := ackno, th_win := win\<rparr>\<rparr>"

lemma stamp_acking:
  assumes "\<not> cn_is_unclear_shutdown c" and "after_syn isn (cn_receiver c)"
  shows "stamp c seg = acking (wrap 1 isn) (of_nat (min 65535 (unat (TCPReceiver_window_size (cn_receiver c))))) seg"
  using assms by (simp add: stamp_def acking_def after_syn_ackno)

lemma syn_segment_len: "TCPSegment_length_in_sequence_space (syn_segment isn) = 1" "th_syn (sg_header (syn_segment isn))"
  "th_seqno (sg_header (syn_segment isn)) = isn" "\<not> th_rst (sg_header (syn_segment isn))"
  by (simp_all add: syn_segment_def TCPSegment_length_in_sequence_space_def TCPHeader_default_def Buffer_default_def
      Buffer_size_def Buffer_str_def of_flag_def size64_def)

lemma acking_simps:
  "TCPSegment_length_in_sequence_space (acking a w seg) = TCPSegment_length_in_sequence_space seg"
  "th_syn (sg_header (acking a w seg)) = th_syn (sg_header seg)" "th_seqno (sg_header (acking a w seg)) = th_seqno (sg_header seg)"
  "th_rst (sg_header (acking a w seg)) = th_rst (sg_header seg)" "th_ack (sg_header (acking a w seg))"
  "th_ackno (sg_header (acking a w seg)) = a" "th_win (sg_header (acking a w seg)) = w"
  "bare_seg (acking a w seg) = bare_seg seg"
  by (simp_all add: acking_def TCPSegment_length_in_sequence_space_def bare_seg_def)

lemma listen_answers:
  assumes "unat (cf_recv_capacity cfg) + 2 ^ 33 < two64"
  obtains c win where "TCPConnection_segment_received (TCPConnection_new cfg random) (syn_segment isn) = Inr c"
    and "only_syn (cn_sender c)" and "after_syn isn (cn_receiver c)" and "TCPConnection_active c"
    and "cn_segments_out c = [acking (wrap 1 isn) win (syn_segment (isn_of c))]"
proof -
  let ?c = "TCPConnection_new cfg random"
  let ?s = "syn_sent (cn_sender ?c)" and ?r = "(TCPReceiver_new (cf_recv_capacity cfg))\<lparr>rv_ISN := Some isn\<rparr>"
  have time: "?c\<lparr>cn_time_when_last_segment_received := cn_now_time ?c\<rparr> = ?c" by (simp add: TCPConnection_new_def)
  have fill: "TCPSender_fill_window (cn_sender ?c) = Inr (?s\<lparr>ts_segments_out := [syn_segment (ts_isn ?s)]\<rparr>)"
    unfolding new_parts(1) by (simp add: fill_window_new Let_def)
  have only: "only_syn ?s" unfolding new_parts(1) by (rule only_syn_new)
  then have q: "?s\<lparr>ts_segments_out := []\<rparr> = ?s" and cons: "ts_consecutive_retransmissions ?s = 0"
    by (simp_all add: only_syn_def)
  have recv: "TCPReceiver_segment_received (cn_receiver ?c) (syn_segment isn) = Inr (?r, True)"
    using new_receives_syn [of "syn_segment isn" "cf_recv_capacity cfg"] by (simp add: syn_segment_len new_parts(2))
  have after: "after_syn isn ?r" using assms by (auto simp: after_syn_def)
  let ?d = "?c\<lparr>cn_receiver := ?r, cn_sender := ?s\<lparr>ts_segments_out := [syn_segment (ts_isn ?s)]\<rparr>\<rparr>"
  let ?w = "of_nat (min 65535 (unat (TCPReceiver_window_size ?r)))"
  have "TCPConnection_segment_receive_route ?c (syn_segment isn) = Inr ?d"
    using fill recv by (simp add: TCPConnection_segment_receive_route_def new_parts(6) syn_segment_len)
  moreover have "settled ?d = collected ?d"
    using cons after_syn_ackno(3) [OF after] by (intro settled_open) (simp_all add: too_many_def)
  moreover have "collected ?d = ?c\<lparr>cn_receiver := ?r, cn_sender := ?s, cn_segments_out := [acking (wrap 1 isn) ?w (syn_segment (ts_isn ?s))]\<rparr>"
    using stamp_acking [of ?d isn] after q by (simp add: collected_def new_parts(3,4))
  ultimately have "TCPConnection_segment_received ?c (syn_segment isn)
      = Inr (?c\<lparr>cn_receiver := ?r, cn_sender := ?s, cn_segments_out := [acking (wrap 1 isn) ?w (syn_segment (ts_isn ?s))]\<rparr>)"
    by (simp add: segment_received_eq time)
  then show ?thesis
    by (rule that) (use only after in \<open>simp_all add: TCPConnection_active_def new_parts(4,5)\<close>)
qed

text \<open>The third segment, and its arrival.\<close>

lemma syn_ack_answered:
  assumes "only_syn (cn_sender c)" and "cn_receiver c = TCPReceiver_new cap" and "unat cap + 2 ^ 33 < two64"
    and "TCPConnection_active c"
  obtains c' win' seg where
    "TCPConnection_segment_received c (acking (wrap 1 (isn_of c)) win (syn_segment isn)) = Inr c'"
    and "syn_acked (cn_sender c')" and "after_syn isn (cn_receiver c')" and "TCPConnection_active c'"
    and "cn_segments_out c' = cn_segments_out c @ [acking (wrap 1 isn) win' seg]"
    and "bare_seg seg" and "\<not> th_rst (sg_header seg)" and "th_seqno (sg_header seg) = wrap 1 (isn_of c)"
proof -
  let ?seg = "acking (wrap 1 (isn_of c)) win (syn_segment isn)"
  let ?r = "(TCPReceiver_new cap)\<lparr>rv_ISN := Some isn\<rparr>" and ?c = "c\<lparr>cn_time_when_last_segment_received := cn_now_time c\<rparr>"
  have after: "after_syn isn ?r" using assms(3) by (auto simp: after_syn_def)
  have recv: "TCPReceiver_segment_received (cn_receiver c) ?seg = Inr (?r, True)"
    using new_receives_syn [of ?seg cap] by (simp add: acking_simps syn_segment_len assms(2))
  obtain s where s: "TCPSender_ack_received (cn_sender c) (wrap 1 (isn_of c)) win = Inr (s, True)" "syn_acked s"
    "ts_isn s = isn_of c"
    by (rule ack_only_syn [OF assms(1)])
  have s0: "ts_next_seqno s = 1" "ts_segments_out s = []" "ts_consecutive_retransmissions s = 0" using s(2) by (simp_all add: syn_acked_def)
  let ?e = "\<lparr>sg_header = TCPHeader_default\<lparr>th_seqno := wrap 1 (isn_of c)\<rparr>, sg_payload = Buffer_default\<rparr>"
  let ?d = "?c\<lparr>cn_receiver := ?r, cn_sender := s\<lparr>ts_segments_out := [?e]\<rparr>\<rparr>"
  let ?w = "of_nat (min 65535 (unat (TCPReceiver_window_size ?r)))"
  have "\<not> TCPConnection_LISTEN ?c" using assms(1) by (simp add: TCPConnection_LISTEN_def TCPSender_CLOSED_def only_syn_def)
  then have "TCPConnection_segment_receive_route ?c ?seg = Inr ?d"
    using recv s s0 by (simp add: TCPConnection_segment_receive_route_def acking_simps syn_segment_len
        TCPConnection_SYN_SENT_def TCPSender_send_empty_segment_def Let_def)
  moreover have "settled ?d = collected ?d"
    using s0 after_syn_ackno(3) [OF after] by (intro settled_open) (simp_all add: too_many_def)
  moreover have "collected ?d = ?c\<lparr>cn_receiver := ?r, cn_sender := s, cn_segments_out := cn_segments_out c @ [acking (wrap 1 isn) ?w ?e]\<rparr>"
    using stamp_acking [of ?d isn] after s0 assms(4) by (simp add: collected_def TCPConnection_active_def)
  ultimately have run: "TCPConnection_segment_received c ?seg
      = Inr (?c\<lparr>cn_receiver := ?r, cn_sender := s, cn_segments_out := cn_segments_out c @ [acking (wrap 1 isn) ?w ?e]\<rparr>)"
    by (simp add: segment_received_eq)
  show ?thesis
    by (rule that [OF run, of ?w ?e]) (use s after assms(4) in \<open>simp_all add: TCPConnection_active_def bare_seg_def TCPHeader_default_def\<close>)
qed

lemma ack_completes:
  assumes "only_syn (cn_sender c)" and "after_syn isn (cn_receiver c)" and "TCPConnection_active c"
    and "bare_seg seg" and "\<not> th_rst (sg_header seg)" and "th_seqno (sg_header seg) = wrap 1 isn"
  obtains c' where "TCPConnection_segment_received c (acking (wrap 1 (isn_of c)) win seg) = Inr c'"
    and "syn_acked (cn_sender c')" and "cn_receiver c' = cn_receiver c" and "TCPConnection_active c'"
    and "cn_segments_out c' = cn_segments_out c"
proof -
  let ?seg = "acking (wrap 1 (isn_of c)) win seg" and ?c = "c\<lparr>cn_time_when_last_segment_received := cn_now_time c\<rparr>"
  have recv: "TCPReceiver_segment_received (cn_receiver c) ?seg = Inr (cn_receiver c, True)"
    using assms(4,6) by (intro after_syn_bare [OF assms(2)]) (simp_all add: acking_simps)
  obtain s where s: "TCPSender_ack_received (cn_sender c) (wrap 1 (isn_of c)) win = Inr (s, True)" "syn_acked s"
    by (rule ack_only_syn [OF assms(1)])
  have s0: "ts_segments_out s = []" "ts_consecutive_retransmissions s = 0" using s(2) by (simp_all add: syn_acked_def)
  have isn: "rv_ISN (cn_receiver c) = Some isn" "\<not> FIN_received c" using after_syn_ackno [OF assms(2)] by simp_all
  have len: "TCPSegment_length_in_sequence_space ?seg = 0"
    unfolding acking_simps by (rule bare_seg_len [OF assms(4)])
  let ?d = "?c\<lparr>cn_sender := s\<rparr>"
  have "TCPConnection_segment_receive_route ?c ?seg = Inr ?d"
    using recv s s0 isn len assms(5) by (simp add: TCPConnection_segment_receive_route_def acking_simps
        TCPConnection_SYN_SENT_def TCPConnection_LISTEN_def Let_def)
  moreover have "settled ?d = collected ?d" using s0 isn by (intro settled_open) (simp_all add: too_many_def)
  moreover have "collected ?d = ?d" using s0 by (simp add: collected_def)
  ultimately have "TCPConnection_segment_received c ?seg = Inr ?d" by (simp add: segment_received_eq)
  then show ?thesis by (rule that) (use s assms(3) in \<open>simp_all add: TCPConnection_active_def\<close>)
qed

lemma established:
  assumes "syn_acked (cn_sender c)" and "after_syn isn (cn_receiver c)"
  shows "TCPConnection_ESTABLISHED c"
  using assms after_syn_ackno [OF assms(2)]
  by (simp add: TCPConnection_ESTABLISHED_def TCPSender_SYN_ACKED_def syn_acked_def)

section \<open>Properties\<close>

text \<open>
  C8: The three-way handshake: when one fresh endpoint calls \<^verbatim>\<open>connect\<close> and each segment is handed to the other
  side, exactly three segments pass (a SYN, a SYN with an acknowledgment, an acknowledgment), and then both
  endpoints are \<^verbatim>\<open>ESTABLISHED\<close> and active with nothing in flight.  This holds for all configurations and
  initial sequence numbers.
\<close>

theorem three_way_handshake:
  assumes "unat (cf_recv_capacity cfga) + 2 ^ 33 < two64" and "unat (cf_recv_capacity cfgb) + 2 ^ 33 < two64"
  shows "\<exists>a1 a2 b1 b2 syn synack ack.
     TCPConnection_connect (TCPConnection_new cfga ra) = Inr a1 \<and> cn_segments_out a1 = [syn]
     \<and> TCPConnection_segment_received (TCPConnection_new cfgb rb) syn = Inr b1 \<and> cn_segments_out b1 = [synack]
     \<and> TCPConnection_segment_received a1 synack = Inr a2 \<and> cn_segments_out a2 = [syn, ack]
     \<and> TCPConnection_segment_received b1 ack = Inr b2 \<and> cn_segments_out b2 = [synack]
     \<and> TCPConnection_ESTABLISHED a2 \<and> TCPConnection_ESTABLISHED b2 \<and> TCPConnection_active a2 \<and> TCPConnection_active b2
     \<and> TCPConnection_bytes_in_flight a2 = 0 \<and> TCPConnection_bytes_in_flight b2 = 0"
proof -
  obtain a1 where a1: "TCPConnection_connect (TCPConnection_new cfga ra) = Inr a1" "only_syn (cn_sender a1)"
    "cn_segments_out a1 = [syn_segment (isn_of a1)]" "cn_receiver a1 = TCPReceiver_new (cf_recv_capacity cfga)"
    "TCPConnection_active a1" "isn_of a1 = isn_of (TCPConnection_new cfga ra)"
    by (rule connect_sends_syn)
  obtain b1 w where b1: "TCPConnection_segment_received (TCPConnection_new cfgb rb) (syn_segment (isn_of a1)) = Inr b1"
    "only_syn (cn_sender b1)" "after_syn (isn_of a1) (cn_receiver b1)" "TCPConnection_active b1"
    "cn_segments_out b1 = [acking (wrap 1 (isn_of a1)) w (syn_segment (isn_of b1))]"
    by (rule listen_answers [OF assms(2)])
  obtain a2 w2 seg where a2:
    "TCPConnection_segment_received a1 (acking (wrap 1 (isn_of a1)) w (syn_segment (isn_of b1))) = Inr a2"
    "syn_acked (cn_sender a2)" "after_syn (isn_of b1) (cn_receiver a2)" "TCPConnection_active a2"
    "cn_segments_out a2 = cn_segments_out a1 @ [acking (wrap 1 (isn_of b1)) w2 seg]"
    "bare_seg seg" "\<not> th_rst (sg_header seg)" "th_seqno (sg_header seg) = wrap 1 (isn_of a1)"
    by (rule syn_ack_answered [OF a1(2,4) assms(1) a1(5)])
  obtain b2 where b2: "TCPConnection_segment_received b1 (acking (wrap 1 (isn_of b1)) w2 seg) = Inr b2"
    "syn_acked (cn_sender b2)" "cn_receiver b2 = cn_receiver b1" "TCPConnection_active b2"
    "cn_segments_out b2 = cn_segments_out b1"
    by (rule ack_completes [OF b1(2-4) a2(6-8)])
  have "TCPConnection_ESTABLISHED a2" "TCPConnection_ESTABLISHED b2"
    using established a2(2,3) b2(2,3) b1(3) by auto
  moreover have "TCPConnection_bytes_in_flight a2 = 0" "TCPConnection_bytes_in_flight b2 = 0"
    using a2(2) b2(2) by (simp_all add: TCPConnection_bytes_in_flight_def syn_acked_def)
  moreover have "cn_segments_out a2 = [syn_segment (isn_of a1), acking (wrap 1 (isn_of b1)) w2 seg]"
    using a2(5) a1(3) by simp
  moreover have "cn_segments_out b2 = [acking (wrap 1 (isn_of a1)) w (syn_segment (isn_of b1))]"
    using b2(5) b1(5) by simp
  ultimately show ?thesis using a1(1,3) b1(1,5) a2(1,4) b2(1,4) by blast
qed

theorem three_way_handshake_witness:
  "\<exists>a1 a2 b1 b2 syn synack ack. TCPConnection_connect (TCPConnection_new sample_cfg 7) = Inr a1
     \<and> cn_segments_out a1 = [syn] \<and> TCPConnection_segment_received (TCPConnection_new TCPConfig_default 8) syn = Inr b1
     \<and> cn_segments_out b1 = [synack] \<and> TCPConnection_segment_received a1 synack = Inr a2 \<and> cn_segments_out a2 = [syn, ack]
     \<and> TCPConnection_segment_received b1 ack = Inr b2 \<and> TCPConnection_ESTABLISHED a2 \<and> TCPConnection_ESTABLISHED b2"
proof -
  have "unat (cf_recv_capacity TCPConfig_default) + 2 ^ 33 < two64"
    by (simp add: TCPConfig_default_def TCPConfig_DEFAULT_CAPACITY_def two64_def)
  from three_way_handshake [OF sample_cap this, of 7 8] show ?thesis by blast
qed

end
