(* ===== verification/Connection_Life.thy ===== *)
theory Connection_Life
  imports Handshake
begin

text \<open>
  Properties of \<^verbatim>\<open>TCPConnection\<close> over its life: what it answers, when it gives up or ends, and which state
  of the TCP specification it is in.
\<close>

section \<open>Answers\<close>

text \<open>
  C12: Once a connection has seen the SYN of its peer and is active, every segment without RST that occupies
  sequence numbers is answered at once, accepted or not: at least one segment is queued,
  and each of them carries the current acknowledgment number.
\<close>

theorem data_is_acknowledged:
  assumes "conn_run (TCPConnection_new cfg random) W c" and "unat (cf_recv_capacity cfg) + 2 ^ 33 < two64"
    and "TCPConnection_active c" and "seg_ok seg" and "\<not> th_rst (sg_header seg)" and "0 < seg_len seg"
    and "TCPReceiver_ackno (cn_receiver c) \<noteq> None"
  shows "\<exists>c' segs. TCPConnection_segment_received c seg = Inr c' \<and> cn_segments_out c' = cn_segments_out c @ segs
     \<and> segs \<noteq> [] \<and> (\<forall>s \<in> set segs. th_ack (sg_header s) \<and> TCPReceiver_ackno (cn_receiver c') = Some (th_ackno (sg_header s)))"
proof -
  note q = active_quiet [OF assms(1-3)]
  have good: "conn_good W c" using conn_run_inv [OF assms(1,2)] by simp
  obtain isn where isn: "rv_ISN (cn_receiver c) = Some isn" using assms(7) by (auto simp: TCPReceiver_ackno_def split: option.splits)
  let ?c = "c\<lparr>cn_time_when_last_segment_received := cn_now_time c\<rparr>"
  have s: "sender_inv W (cn_sender c)" "idle_ok (cn_sender c)" "rv_small (cn_receiver c)"
    using good by (simp_all add: conn_inv_def conn_pre_def)
  obtain r b where r: "TCPReceiver_segment_received (cn_receiver c) seg = Inr (r, b)"
    "rv_ISN (cn_receiver c) \<noteq> None \<or> \<not> th_syn (sg_header seg) \<longrightarrow> rv_ISN r = rv_ISN (cn_receiver c)"
    by (rule segment_received_any [OF s(3)]) (use assms(4) in \<open>auto simp: seg_ok_def\<close>)
  obtain sa ba where a: "TCPSender_ack_received (cn_sender c) (th_ackno (sg_header seg)) (th_win (sg_header seg)) = Inr (sa, ba)"
    "ts_consecutive_retransmissions sa = ts_consecutive_retransmissions (cn_sender c) \<or> ts_consecutive_retransmissions sa = 0"
    by (rule ack_received_conn [OF s(1,2)])
  let ?s = "if th_ack (sg_header seg) then sa else cn_sender c"
  let ?t = "if ts_segments_out ?s = [] then TCPSender_send_empty_segment ?s else ?s"
  let ?d = "?c\<lparr>cn_receiver := r, cn_sender := ?t\<rparr>"
  have "unat (TCPSegment_length_in_sequence_space seg) = seg_len seg"
    using assms(4) by (subst unat_length_in_sequence_space) (simp_all add: seg_ok_def seg_len_def two64_def)
  then have "TCPSegment_length_in_sequence_space seg > 0" using assms(6) by (simp add: word_less_nat_alt)
  then have "TCPConnection_segment_receive_route ?c seg = Inr ?d"
    using r isn a(1) assms(5)
    by (auto simp: TCPConnection_segment_receive_route_def TCPConnection_LISTEN_def TCPConnection_SYN_SENT_def Let_def)
  then have run: "TCPConnection_segment_received c seg = Inr (settled ?d)" by (simp add: segment_received_eq)
  have "\<not> too_many ?d"
    using q(1) a(2) by (auto simp: too_many_def TCPSender_send_empty_segment_def TCPConfig_MAX_RETX_ATTEMPTS_def)
  then have eq: "settled ?d = set_flags (collected ?d)" by (simp add: settled_def)
  have ne: "ts_segments_out ?t \<noteq> []" by (simp add: TCPSender_send_empty_segment_def)
  have st: "th_ack (sg_header (stamp ?d x)) \<and> TCPReceiver_ackno r = Some (th_ackno (sg_header (stamp ?d x)))" for x
    using q(3) r(2) isn by (simp add: stamp_def TCPReceiver_ackno_def)
  have rc: "cn_receiver (collected ?d) = r" and out: "cn_segments_out (collected ?d) = cn_segments_out c @ map (stamp ?d) (ts_segments_out ?t)"
    by (simp_all add: collected_def)
  show ?thesis
  proof (intro exI conjI)
    show "TCPConnection_segment_received c seg = Inr (settled ?d)" by (rule run)
    show "cn_segments_out (settled ?d) = cn_segments_out c @ map (stamp ?d) (ts_segments_out ?t)"
      unfolding eq by (simp only: set_flags_simps out)
    show "map (stamp ?d) (ts_segments_out ?t) \<noteq> []" using ne by simp
    show "\<forall>s \<in> set (map (stamp ?d) (ts_segments_out ?t)). th_ack (sg_header s)
        \<and> TCPReceiver_ackno (cn_receiver (settled ?d)) = Some (th_ackno (sg_header s))"
      using st unfolding eq by (simp only: set_flags_simps rc) auto
  qed
qed

theorem data_is_acknowledged_witness:
  "\<exists>c c' segs. TCPConnection_segment_received (TCPConnection_new sample_cfg 0) (syn_segment (WrappingInt32_of 9)) = Inr c
     \<and> TCPConnection_segment_received c (syn_segment (WrappingInt32_of 9)) = Inr c'
     \<and> cn_segments_out c' = cn_segments_out c @ segs \<and> segs \<noteq> []"
proof -
  let ?syn = "syn_segment (WrappingInt32_of 9)"
  obtain c win where c: "TCPConnection_segment_received (TCPConnection_new sample_cfg 0) ?syn = Inr c"
    "after_syn (WrappingInt32_of 9) (cn_receiver c)" "TCPConnection_active c"
    by (rule listen_answers [OF sample_cap])
  have ok: "seg_ok ?syn" by (simp add: seg_ok_def syn_segment_def)
  have run: "conn_run (TCPConnection_new sample_cfg 0) [] c" by (rule steps [OF begins receives [where P = seg_ok, OF ok c(1)]])
  have len: "0 < seg_len ?syn" by (simp add: seg_len_def syn_segment_def)
  have ack: "TCPReceiver_ackno (cn_receiver c) \<noteq> None"
    using after_syn_ackno(2) [OF c(2)] by (simp add: TCPReceiver_ackno_def)
  from data_is_acknowledged [OF run sample_cap c(3) ok syn_segment_len(4) len ack] c(1) show ?thesis by blast
qed

text \<open>The sample connection after \<open>k\<close> timeouts of its SYN.\<close>

definition retrying :: "nat \<Rightarrow> TCPConnection" where
  "retrying k = sample_syn_sent\<lparr>cn_segments_out := replicate (Suc k) sample_syn, cn_now_time := of_nat k * 300000,
     cn_sender := (cn_sender sample_syn_sent)\<lparr>ts_consecutive_retransmissions := of_nat k, ts_rto := push_bit k 1000,
       ts_timer := \<lparr>rt_remaining_time = push_bit k 1000, rt_is_expired = False, rt_is_stopped = False\<rparr>\<rparr>\<rparr>"

lemma retrying_0: "retrying 0 = sample_syn_sent"
  by (simp add: retrying_def sample_syn_sent_def sample_conn_def sample_cfg_def TCPConnection_new_def TCPSender_new_def
      TCPConfig_default_def TCPConfig_TIMEOUT_DFLT_def RetransmissionTimer_set_new_timer_def RetransmissionTimer_new_def)

lemma retrying_sender:
  "ts_outstanding_segment (cn_sender (retrying k)) = [(0, sample_syn)]"
  "ts_timer (cn_sender (retrying k)) = \<lparr>rt_remaining_time = push_bit k 1000, rt_is_expired = False, rt_is_stopped = False\<rparr>"
  "ts_window_size (cn_sender (retrying k)) = 1"
  by (simp_all add: retrying_def sample_syn_sent_def sample_conn_def TCPConnection_new_def TCPSender_new_def)

lemma retrying_tick:
  assumes "k < 8"
  shows "TCPConnection_tick (retrying k) 300000 = Inr (retrying (Suc k))"
proof -
  let ?c = "retrying k"
  let ?s = "cn_sender ?c"
  have k: "k \<in> {0, 1, 2, 3, 4, 5, 6, 7}" using assms by auto
  have le: "push_bit k 1000 \<le> (300000 :: u32)" and c8: "of_nat (Suc k) \<le> (8 :: u32)"
    using k by auto
  have ex: "RetransmissionTimer_is_expired (RetransmissionTimer_time_expired (ts_timer ?s) (ucast (300000 :: u64)))"
    using le by (simp add: retrying_sender RetransmissionTimer_time_expired_def RetransmissionTimer_is_expired_def)
  have one: "ts_consecutive_retransmissions ?s + 1 = of_nat (Suc k)" by (simp add: retrying_def add.commute)
  let ?t = "?s\<lparr>ts_consecutive_retransmissions := of_nat (Suc k), ts_rto := push_bit (Suc k) 1000,
     ts_segments_out := [sample_syn],
     ts_timer := \<lparr>rt_remaining_time = push_bit (Suc k) 1000, rt_is_expired = False, rt_is_stopped = False\<rparr>\<rparr>"
  have rto: "push_bit 1 (ts_rto ?s) = push_bit (Suc k) 1000" by (simp add: retrying_def push_bit_push_bit)
  have q: "ts_segments_out ?s = []"
    by (simp add: retrying_def sample_syn_sent_def sample_conn_def TCPConnection_new_def TCPSender_new_def)
  have tick: "TCPSender_tick ?s 300000 = ?t"
    unfolding tick_fires [OF retrying_sender(1) ex] one rto retrying_sender(3)
    using c8 q by (simp add: TCPConfig_MAX_RETX_ATTEMPTS_def RetransmissionTimer_set_new_timer_def)
  let ?d = "?c\<lparr>cn_now_time := cn_now_time ?c + 300000, cn_sender := ?t\<rparr>"
  have "settled ?d = collected ?d"
    using c8 by (intro settled_open) (simp_all add: too_many_def TCPConfig_MAX_RETX_ATTEMPTS_def not_less,
      simp add: retrying_def sample_syn_sent_def sample_conn_def TCPConnection_new_def TCPReceiver_new_def StreamReassembler_new_def)
  moreover have "stamp ?d sample_syn = sample_syn"
    by (simp add: stamp_def retrying_def sample_syn_sent_def sample_conn_def TCPConnection_new_def TCPReceiver_new_def)
  then have "collected ?d = retrying (Suc k)"
    using q by (simp add: collected_def) (simp add: retrying_def replicate_append_same algebra_simps)
  ultimately show ?thesis using tick by (simp add: tick_eq)
qed

lemma retrying_run: "k \<le> 8 \<Longrightarrow> conn_run (TCPConnection_new sample_cfg 0) [] (retrying k)"
proof (induction k)
  case 0
  show ?case using sample_syn_sent_run by (simp add: retrying_0)
next
  case (Suc k)
  then show ?case using conn_run.steps [OF _ conn_step.ticks [OF retrying_tick]] by simp
qed

text \<open>
  C31: When a tick makes the count of consecutive retransmissions pass eight, the connection gives up: it
  queues a segment with RST and nothing else, both streams are in error and it is not active any more.
\<close>

theorem gives_up_after_retries:
  assumes "conn_run (TCPConnection_new cfg random) W c" and "unat (cf_recv_capacity cfg) + 2 ^ 33 < two64"
    and "TCPConnection_active c" and "TCPConnection_tick c ms = Inr c'"
    and "8 < ts_consecutive_retransmissions (cn_sender c')"
  shows "\<not> TCPConnection_active c' \<and> cn_segments_out c' = cn_segments_out c @ [reset_segment c]
     \<and> bs_error (TCPConnection_inbound_stream c') \<and> bs_error (ts_stream (cn_sender c'))"
proof -
  note q = active_quiet [OF assms(1-3)]
  let ?s = "TCPSender_tick (cn_sender c) ms"
  let ?d = "c\<lparr>cn_now_time := cn_now_time c + ms, cn_sender := ?s\<rparr>"
  have c': "c' = settled ?d" using assms(4) by (simp add: tick_eq)
  have "ts_consecutive_retransmissions (cn_sender (settled ?d)) = ts_consecutive_retransmissions ?s"
    by (simp add: settled_def aborted_def collected_def TCPConnection_unclear_shutdown_def)
  then have many: "8 < ts_consecutive_retransmissions ?s" using assms(5) c' by simp
  have quiet: "ts_segments_out ?s = []"
  proof (cases rule: tick_cases [where s = "cn_sender c" and ms = ms])
    case quiet
    then show ?thesis using q(2) by simp
  next
    case (fires f seg rest)
    with many q(2) show ?thesis by (simp add: tick_fires [OF fires] TCPConfig_MAX_RETX_ATTEMPTS_def not_le split: if_splits)
  qed
  then have col: "collected ?d = ?d" by (simp add: collected_def)
  have "too_many ?d" using many by (simp add: too_many_def TCPConfig_MAX_RETX_ATTEMPTS_def)
  then have "c' = set_flags (aborted ?d)" using c' col by (simp add: settled_def)
  moreover have "reset_segment ?d = reset_segment c"
    by (simp add: reset_segment_def TCPSender_next_seqno_def tick_frame)
  ultimately show ?thesis
    by (simp add: TCPConnection_active_def TCPConnection_inbound_stream_def aborted_def TCPConnection_unclear_shutdown_def
        TCPReceiver_set_error_def TCPReceiver_stream_out_def StreamReassembler_stream_out_def)
qed

theorem gives_up_after_retries_witness:
  "\<exists>c'. TCPConnection_tick (retrying 8) 300000 = Inr c' \<and> \<not> TCPConnection_active c'
     \<and> cn_segments_out c' = cn_segments_out (retrying 8) @ [reset_segment (retrying 8)]"
proof -
  let ?c = "retrying 8"
  have act: "TCPConnection_active ?c"
    using sample_syn_sent_facts(1) by (simp add: retrying_def TCPConnection_active_def)
  obtain c' where t: "TCPConnection_tick ?c 300000 = Inr c'" by (simp add: tick_eq)
  have run: "conn_run (TCPConnection_new sample_cfg 0) [] ?c" by (rule retrying_run) simp
  have ex: "RetransmissionTimer_is_expired (RetransmissionTimer_time_expired (ts_timer (cn_sender ?c)) (ucast (300000 :: u64)))"
    by (simp add: retrying_sender RetransmissionTimer_time_expired_def RetransmissionTimer_is_expired_def)
  have "ts_consecutive_retransmissions (TCPSender_tick (cn_sender ?c) 300000) = 9"
    unfolding tick_fires [OF retrying_sender(1) ex] by (simp add: retrying_sender) (simp add: retrying_def)
  then have "8 < ts_consecutive_retransmissions (cn_sender c')"
    using t by (auto simp: tick_eq settled_def aborted_def collected_def TCPConnection_unclear_shutdown_def)
  from gives_up_after_retries [OF run sample_cap act t this] t show ?thesis by blast
qed

text \<open>
  C32: Otherwise, what ends a connection when time passes is the end of \<^verbatim>\<open>TIME_WAIT\<close> only: it stays active
  until both streams are finished and, unless the peer finished first, ten timeouts have passed since the last segment.
\<close>

theorem lingers_in_time_wait:
  assumes "conn_run (TCPConnection_new cfg random) W c" and "unat (cf_recv_capacity cfg) + 2 ^ 33 < two64"
    and "TCPConnection_active c" and "TCPConnection_tick c ms = Inr c'"
    and "ts_consecutive_retransmissions (cn_sender c') \<le> 8"
  shows "TCPConnection_active c' \<longleftrightarrow> \<not> (TCPConnection_TIME_WAIT c' \<and> (\<not> cn_linger_after_streams_finish c'
     \<or> 10 * ucast (cf_rt_timeout (cn_cfg c)) \<le> cn_now_time c + ms - cn_time_when_last_segment_received c))"
proof -
  note q = active_quiet [OF assms(1-3)]
  let ?s = "TCPSender_tick (cn_sender c) ms"
  let ?d = "c\<lparr>cn_now_time := cn_now_time c + ms, cn_sender := ?s\<rparr>"
  have c': "c' = settled ?d" using assms(4) by (simp add: tick_eq)
  have "ts_consecutive_retransmissions (cn_sender (settled ?d)) = ts_consecutive_retransmissions ?s"
    by (simp add: settled_def aborted_def collected_def TCPConnection_unclear_shutdown_def)
  then have "\<not> too_many ?d"
    using assms(5) c' by (simp add: too_many_def TCPConfig_MAX_RETX_ATTEMPTS_def not_less)
  then have "c' = set_flags (collected ?d)" using c' by (simp add: settled_def)
  then show ?thesis
    using q(3,4) by (auto simp: set_flags_def Let_def collected_def TCPConnection_active_def TCPConnection_TIME_WAIT_def
        TCPConnection_time_since_last_segment_received_def)
qed

theorem lingers_in_time_wait_witness:
  "\<exists>c'. TCPConnection_tick sample_syn_sent 10 = Inr c'
     \<and> (TCPConnection_active c' \<longleftrightarrow> \<not> (TCPConnection_TIME_WAIT c' \<and> (\<not> cn_linger_after_streams_finish c'
       \<or> 10 * ucast (cf_rt_timeout (cn_cfg sample_syn_sent)) \<le> cn_now_time sample_syn_sent + 10
           - cn_time_when_last_segment_received sample_syn_sent)))"
proof -
  obtain c' where t: "TCPConnection_tick sample_syn_sent 10 = Inr c'" by (simp add: tick_eq)
  have "ts_consecutive_retransmissions (TCPSender_tick (cn_sender sample_syn_sent) 10) \<le> 1"
    by (cases rule: tick_cases [where s = "cn_sender sample_syn_sent" and ms = 10])
      (simp_all add: tick_fires sample_syn_sent_facts(4))
  then have "ts_consecutive_retransmissions (TCPSender_tick (cn_sender sample_syn_sent) 10) \<le> 8"
    by (rule order_trans) simp
  then have "ts_consecutive_retransmissions (cn_sender c') \<le> 8"
    using t by (auto simp: tick_eq settled_def aborted_def collected_def TCPConnection_unclear_shutdown_def)
  from lingers_in_time_wait [OF sample_syn_sent_run sample_cap sample_syn_sent_facts(1) t this] t show ?thesis by blast
qed

section \<open>The states of the specification\<close>

text \<open>What the predicates of the sender and the words of \<^verbatim>\<open>state_summary\<close> have to do with each other.\<close>

lemma sender_summary:
  assumes "sender_inv W s" and "\<not> bs_error (ts_stream s)"
  shows "sender_state_summary s = TCPSenderStateSummary_CLOSED \<longleftrightarrow> TCPSender_CLOSED s"
    and "sender_state_summary s = TCPSenderStateSummary_SYN_SENT \<longleftrightarrow> TCPSender_SYN_SENT s"
    and "sender_state_summary s = TCPSenderStateSummary_SYN_ACKED \<longleftrightarrow> TCPSender_SYN_ACKED s
      \<or> TCPSender_SYN_ACKED_FIN_TO_SEND s \<and> \<not> TCPSender_CLOSED s \<and> \<not> TCPSender_SYN_SENT s"
    and "sender_state_summary s = TCPSenderStateSummary_FIN_SENT \<longleftrightarrow> TCPSender_FIN_SENT s \<and> \<not> TCPSender_SYN_SENT s"
    and "sender_state_summary s = TCPSenderStateSummary_FIN_ACKED \<longleftrightarrow> TCPSender_FIN_ACKED s"
    and "sender_state_summary s \<noteq> TCPSenderStateSummary_ERROR"
proof -
  let ?st = "ts_stream s"
  have le: "ts_bytes_in_flight s \<le> ts_next_seqno s"
    using assms(1) by (simp add: sender_inv_def window_ok_def word_le_nat_alt)
  have st: "ByteStream_inv ?st" "unat (bs_byte_written ?st) = length W" "unat (bs_byte_read ?st) \<le> length W"
    "length W + 8589934592 < two64"
    and n: "unat (ts_next_seqno s) = of_bool (ts_syn s) + unat (bs_byte_read ?st) + of_bool (ts_fin s)"
    using assms(1) by (simp_all add: sender_inv_parts)
  have "unat (bs_byte_written ?st + 2) = length W + 2" using st by (subst unat_add64) simp_all
  then have fin: "ts_next_seqno s \<le> bs_byte_written ?st + 2" using n st(3) by (simp add: word_le_nat_alt of_bool_def)
  then have fin': "ts_next_seqno s < bs_byte_written ?st + 2 \<or> ts_next_seqno s = bs_byte_written ?st + 2" by (rule order_le_imp_less_or_eq)
  have pos: "bs_byte_written ?st + 2 \<noteq> 0" using \<open>unat _ = length W + 2\<close> by (metis add_is_0 unat_0 zero_neq_numeral)
  have lt: "ts_next_seqno s > ts_bytes_in_flight s \<longleftrightarrow> ts_next_seqno s \<noteq> ts_bytes_in_flight s" using le by auto
  note defs = sender_state_summary_def TCPSender_CLOSED_def TCPSender_SYN_SENT_def TCPSender_SYN_ACKED_def
    TCPSender_SYN_ACKED_FIN_TO_SEND_def TCPSender_FIN_SENT_def TCPSender_FIN_ACKED_def
  have w: "TCPSenderStateSummary_CLOSED \<noteq> TCPSenderStateSummary_SYN_SENT" "TCPSenderStateSummary_CLOSED \<noteq> TCPSenderStateSummary_SYN_ACKED"
    "TCPSenderStateSummary_CLOSED \<noteq> TCPSenderStateSummary_FIN_SENT" "TCPSenderStateSummary_CLOSED \<noteq> TCPSenderStateSummary_FIN_ACKED"
    "TCPSenderStateSummary_SYN_SENT \<noteq> TCPSenderStateSummary_SYN_ACKED" "TCPSenderStateSummary_SYN_SENT \<noteq> TCPSenderStateSummary_FIN_SENT"
    "TCPSenderStateSummary_SYN_SENT \<noteq> TCPSenderStateSummary_FIN_ACKED" "TCPSenderStateSummary_SYN_ACKED \<noteq> TCPSenderStateSummary_FIN_SENT"
    "TCPSenderStateSummary_SYN_ACKED \<noteq> TCPSenderStateSummary_FIN_ACKED" "TCPSenderStateSummary_FIN_SENT \<noteq> TCPSenderStateSummary_FIN_ACKED"
    "TCPSenderStateSummary_CLOSED \<noteq> TCPSenderStateSummary_ERROR" "TCPSenderStateSummary_SYN_SENT \<noteq> TCPSenderStateSummary_ERROR"
    "TCPSenderStateSummary_SYN_ACKED \<noteq> TCPSenderStateSummary_ERROR" "TCPSenderStateSummary_FIN_SENT \<noteq> TCPSenderStateSummary_ERROR"
    "TCPSenderStateSummary_FIN_ACKED \<noteq> TCPSenderStateSummary_ERROR"
    by (simp_all add: sender_words)
  have z: "ts_next_seqno s = 0 \<Longrightarrow> ts_bytes_in_flight s = 0" using le by simp
  show "sender_state_summary s = TCPSenderStateSummary_CLOSED \<longleftrightarrow> TCPSender_CLOSED s"
    using assms(2) w w [symmetric] by (auto simp: defs)
  show "sender_state_summary s = TCPSenderStateSummary_SYN_SENT \<longleftrightarrow> TCPSender_SYN_SENT s"
    using assms(2) w w [symmetric] by (auto simp: defs word_gt_0)
  show "sender_state_summary s = TCPSenderStateSummary_SYN_ACKED \<longleftrightarrow> TCPSender_SYN_ACKED s
      \<or> TCPSender_SYN_ACKED_FIN_TO_SEND s \<and> \<not> TCPSender_CLOSED s \<and> \<not> TCPSender_SYN_SENT s"
    using assms(2) w w [symmetric] lt z by (auto simp: defs word_gt_0)
  show "sender_state_summary s = TCPSenderStateSummary_FIN_SENT \<longleftrightarrow> TCPSender_FIN_SENT s \<and> \<not> TCPSender_SYN_SENT s"
    using assms(2) w w [symmetric] fin' pos z by (auto simp: defs word_gt_0)
  show "sender_state_summary s = TCPSenderStateSummary_FIN_ACKED \<longleftrightarrow> TCPSender_FIN_ACKED s"
    using assms(2) w w [symmetric] fin' pos z by (auto simp: defs word_gt_0)
  show "sender_state_summary s \<noteq> TCPSenderStateSummary_ERROR"
    using assms(2) w by (auto simp: sender_state_summary_def)
qed

lemma receiver_summary:
  assumes "\<not> bs_error (TCPReceiver_stream_out r)" and "TCPReceiver_FIN_RECV r \<longrightarrow> rv_ISN r \<noteq> None"
  shows "receiver_state_summary r = TCPReceiverStateSummary_LISTEN \<longleftrightarrow> TCPReceiver_LISTEN r"
    and "receiver_state_summary r = TCPReceiverStateSummary_SYN_RECV \<longleftrightarrow> TCPReceiver_SYN_RECV r"
    and "receiver_state_summary r = TCPReceiverStateSummary_FIN_RECV \<longleftrightarrow> TCPReceiver_FIN_RECV r"
proof -
  have w: "TCPReceiverStateSummary_LISTEN \<noteq> TCPReceiverStateSummary_SYN_RECV" "TCPReceiverStateSummary_LISTEN \<noteq> TCPReceiverStateSummary_FIN_RECV"
    "TCPReceiverStateSummary_SYN_RECV \<noteq> TCPReceiverStateSummary_FIN_RECV"
    by (simp_all add: receiver_words)
  have a: "TCPReceiver_ackno r = None \<longleftrightarrow> rv_ISN r = None" by (simp add: TCPReceiver_ackno_def split: option.split)
  have e: "ByteStream_input_ended (TCPReceiver_stream_out r) \<longleftrightarrow> TCPReceiver_FIN_RECV r" by (simp add: TCPReceiver_FIN_RECV_def del: TCPReceiver_state_iff)
  note defs = receiver_state_summary_def a e
  show "receiver_state_summary r = TCPReceiverStateSummary_LISTEN \<longleftrightarrow> TCPReceiver_LISTEN r"
    using assms w w [symmetric] unfolding defs by auto
  show "receiver_state_summary r = TCPReceiverStateSummary_SYN_RECV \<longleftrightarrow> TCPReceiver_SYN_RECV r"
    using assms w w [symmetric] unfolding defs by auto
  show "receiver_state_summary r = TCPReceiverStateSummary_FIN_RECV \<longleftrightarrow> TCPReceiver_FIN_RECV r"
    using assms w w [symmetric] unfolding defs by auto
qed

lemma state_eq_iff:
  "TCPConnection_state c = t \<longleftrightarrow> sender_state_summary (cn_sender c) = st_sender t \<and> receiver_state_summary (cn_receiver c) = st_receiver t
     \<and> TCPConnection_active c = st_active t
     \<and> (TCPConnection_active c \<and> cn_linger_after_streams_finish c) = st_linger_after_streams_finish t"
  by (cases t) (auto simp: TCPConnection_state_def TCPState_of_def)

lemma error_summary:
  assumes "error_ok c" and "cn_is_unclear_shutdown c"
  shows "sender_state_summary (cn_sender c) = TCPSenderStateSummary_ERROR"
    and "receiver_state_summary (cn_receiver c) = TCPReceiverStateSummary_ERROR"
  using assms by (simp_all add: error_ok_def sender_state_summary_def receiver_state_summary_def TCPReceiver_stream_out_def
      StreamReassembler_stream_out_def)

text \<open>
  C11: \<^verbatim>\<open>state()\<close> of a reachable connection, state by state, against the predicates of \<^verbatim>\<open>TCPConnection\<close>.
  It is RESET exactly after an unclean shutdown, and CLOSED exactly after a clean one with both streams
  finished.  While the connection is active it is LISTEN, SYN_SENT, SYN_RCVD or FIN_WAIT_2 exactly when
  the predicate of that name holds.  The other states differ from the predicates in these points only.
  ESTABLISHED and CLOSE_WAIT are also reported, where \<^verbatim>\<open>ESTABLISHED()\<close> and \<^verbatim>\<open>CLOSE_WAIT()\<close> are false, when the SYN has been acknowledged and the
  output has ended but its FIN is not sent yet; LAST_ACK, FIN_WAIT_1 and CLOSING are not reported
  while the SYN is unacknowledged; and CLOSING and TIME_WAIT are reported only while the connection is
  to linger, which the predicates do not ask.
\<close>

theorem state_is_official:
  assumes "conn_run (TCPConnection_new cfg random) W c" and "unat (cf_recv_capacity cfg) + 2 ^ 33 < two64"
  shows "(TCPConnection_state c = TCPState_of_State State_RESET \<longleftrightarrow> cn_is_unclear_shutdown c)
     \<and> (TCPConnection_state c = TCPState_of_State State_CLOSED \<longleftrightarrow>
          cn_is_clear_shutdown c \<and> \<not> cn_is_unclear_shutdown c \<and> TCPConnection_TIME_WAIT c)
     \<and> (TCPConnection_state c = TCPState_of_State State_LISTEN \<longleftrightarrow> TCPConnection_active c \<and> TCPConnection_LISTEN c)
     \<and> (TCPConnection_state c = TCPState_of_State State_SYN_SENT \<longleftrightarrow> TCPConnection_active c \<and> TCPConnection_SYN_SENT c)
     \<and> (TCPConnection_state c = TCPState_of_State State_SYN_RCVD \<longleftrightarrow> TCPConnection_active c \<and> TCPConnection_SYN_RCVD c)
     \<and> (TCPConnection_state c = TCPState_of_State State_ESTABLISHED \<longleftrightarrow> TCPConnection_active c \<and>
          (TCPConnection_ESTABLISHED c
           \<or> TCPReceiver_SYN_RECV (cn_receiver c) \<and> TCPSender_SYN_ACKED_FIN_TO_SEND (cn_sender c)
             \<and> \<not> TCPSender_CLOSED (cn_sender c) \<and> \<not> TCPSender_SYN_SENT (cn_sender c)))
     \<and> (TCPConnection_state c = TCPState_of_State State_CLOSE_WAIT \<longleftrightarrow> TCPConnection_active c \<and>
          (TCPConnection_CLOSE_WAIT c
           \<or> TCPReceiver_FIN_RECV (cn_receiver c) \<and> TCPSender_SYN_ACKED_FIN_TO_SEND (cn_sender c)
             \<and> \<not> TCPSender_CLOSED (cn_sender c) \<and> \<not> TCPSender_SYN_SENT (cn_sender c) \<and> \<not> cn_linger_after_streams_finish c))
     \<and> (TCPConnection_state c = TCPState_of_State State_LAST_ACK \<longleftrightarrow>
          TCPConnection_active c \<and> TCPConnection_LAST_ACK c \<and> \<not> TCPSender_SYN_SENT (cn_sender c))
     \<and> (TCPConnection_state c = TCPState_of_State State_FIN_WAIT_1 \<longleftrightarrow>
          TCPConnection_active c \<and> TCPConnection_FIN_WAIT_1 c \<and> \<not> TCPSender_SYN_SENT (cn_sender c))
     \<and> (TCPConnection_state c = TCPState_of_State State_FIN_WAIT_2 \<longleftrightarrow> TCPConnection_active c \<and> TCPConnection_FIN_WAIT_2 c)
     \<and> (TCPConnection_state c = TCPState_of_State State_CLOSING \<longleftrightarrow> TCPConnection_active c \<and> TCPConnection_CLOSING c
          \<and> \<not> TCPSender_SYN_SENT (cn_sender c) \<and> cn_linger_after_streams_finish c)
     \<and> (TCPConnection_state c = TCPState_of_State State_TIME_WAIT \<longleftrightarrow>
          TCPConnection_active c \<and> TCPConnection_TIME_WAIT c \<and> cn_linger_after_streams_finish c)"
proof -
  have inv: "sender_inv W (cn_sender c)" "error_ok c" "flags_ok c"
    using conn_run_inv [OF assms] flags_ok_run [OF assms] by (simp_all add: conn_inv_def conn_pre_def)
  have fin: "TCPReceiver_FIN_RECV (cn_receiver c) \<longrightarrow> rv_ISN (cn_receiver c) \<noteq> None"
    and lin: "\<not> TCPReceiver_FIN_RECV (cn_receiver c) \<longrightarrow> cn_linger_after_streams_finish c"
    using inv(3) by (auto simp: flags_ok_def)
  have ln: "TCPReceiver_LISTEN (cn_receiver c) \<longrightarrow> cn_linger_after_streams_finish c"
    and sn: "TCPReceiver_SYN_RECV (cn_receiver c) \<longrightarrow> cn_linger_after_streams_finish c"
    using lin fin by auto
  show ?thesis
  proof (cases "cn_is_unclear_shutdown c")
    case True
    then have "\<not> TCPConnection_active c" by (simp add: TCPConnection_active_def)
    moreover have "TCPSenderStateSummary_ERROR \<noteq> TCPSenderStateSummary_FIN_ACKED" by (simp add: sender_words)
    ultimately show ?thesis
      using True error_summary [OF inv(2) True] by (simp add: state_eq_iff TCPState_default_def)
  next
    case False
    then have es: "\<not> bs_error (ts_stream (cn_sender c))" and er: "\<not> bs_error (TCPReceiver_stream_out (cn_receiver c))"
      using inv(2) by (simp_all add: error_ok_def TCPReceiver_stream_out_def StreamReassembler_stream_out_def)
    have act: "TCPConnection_active c \<longleftrightarrow> \<not> cn_is_clear_shutdown c" using False by (simp add: TCPConnection_active_def)
    note words = sender_summary [OF inv(1) es] receiver_summary [OF er fin]
    show ?thesis
      using False ln sn
      by (auto simp: act state_eq_iff TCPState_default_def words TCPConnection_LISTEN_def TCPConnection_SYN_SENT_def
          TCPConnection_SYN_RCVD_def TCPConnection_LAST_ACK_def TCPConnection_FIN_WAIT_1_def TCPConnection_FIN_WAIT_2_def
          TCPConnection_CLOSING_def TCPConnection_TIME_WAIT_def TCPConnection_ESTABLISHED_def TCPConnection_CLOSE_WAIT_def
          simp del: TCPReceiver_state_iff)
  qed
qed

theorem state_is_official_witness:
  "TCPConnection_state sample_syn_sent = TCPState_of_State State_SYN_SENT"
proof -
  have "TCPConnection_state sample_syn_sent = TCPState_of_State State_SYN_SENT
      \<longleftrightarrow> TCPConnection_active sample_syn_sent \<and> TCPConnection_SYN_SENT sample_syn_sent"
    using state_is_official [OF sample_syn_sent_run sample_cap] by (elim conjE)
  with sample_syn_sent_facts(1,3) show ?thesis by (simp only:)
qed

end
