(* ===== verification/Network.thy ===== *)
theory Network
  imports Connection_Life
begin

text \<open>
  Two endpoints and a network between them that may lose, duplicate and reorder segments: what one
  application reads is a prefix of what the other has written.
\<close>

section \<open>What a step does to the sending side\<close>

lemma settled_sender:
  "ts_isn (cn_sender (settled c)) = ts_isn (cn_sender c)" "ts_next_seqno (cn_sender (settled c)) = ts_next_seqno (cn_sender c)"
  by (simp_all add: settled_def aborted_def collected_def TCPConnection_unclear_shutdown_def)

definition sends_on :: "TCPSender \<Rightarrow> TCPSender \<Rightarrow> bool" where
  "sends_on s s' \<longleftrightarrow> ts_isn s' = ts_isn s \<and> unat (ts_next_seqno s) \<le> unat (ts_next_seqno s')"

lemma sends_on_refl [simp]: "sends_on s s"
  by (simp add: sends_on_def)

lemma sends_on_settled [simp]: "sends_on s (cn_sender (settled c)) = sends_on s (cn_sender c)"
  by (simp add: sends_on_def settled_sender)

lemma fill_sends_on:
  assumes "sender_inv W s" and "TCPSender_fill_window s = Inr s'"
  shows "sends_on s s'"
proof -
  obtain t where "TCPSender_fill_window s = Inr t" "same_ack s t" "unat (ts_next_seqno s) \<le> unat (ts_next_seqno t)"
    by (rule fill_window_ok [OF assms(1)])
  with assms(2) show ?thesis by (simp add: sends_on_def same_ack_def)
qed

lemma route_sends_on:
  assumes "sender_inv W (cn_sender c)" and "idle_ok (cn_sender c)" and "TCPConnection_segment_receive_route c seg = Inr c'"
  shows "sends_on (cn_sender c) (cn_sender c')"
proof -
  let ?s = "cn_sender c"
  obtain sa ba where a: "TCPSender_ack_received ?s (th_ackno (sg_header seg)) (th_win (sg_header seg)) = Inr (sa, ba)"
    "ts_isn sa = ts_isn ?s" "unat (ts_next_seqno ?s) \<le> unat (ts_next_seqno sa)"
    by (rule ack_received_conn [OF assms(1,2)])
  have e: "sends_on ?s (TCPSender_send_empty_segment t) = sends_on ?s t" for t
    by (simp add: sends_on_def TCPSender_send_empty_segment_def)
  have sa: "sends_on ?s sa" using a by (simp add: sends_on_def)
  have u: "sends_on ?s (cn_sender (TCPConnection_unclear_shutdown c))"
    by (simp add: sends_on_def TCPConnection_unclear_shutdown_def)
  show ?thesis
    using assms(3) a(1) sa u fill_sends_on [OF assms(1)] unfolding TCPConnection_segment_receive_route_def Let_def
    by (auto simp: bindE_Inr_iff e split: if_splits)
qed

lemma step_sends_on:
  assumes "conn_step P W c W' d c'" and "conn_good W c"
  shows "sends_on (cn_sender c) (cn_sender c')"
    and "W' = W \<or> (\<exists>x. W' = W @ x) \<and> unat (ts_next_seqno (cn_sender c)) \<le> 1 + length W"
proof -
  have s: "sender_inv W (cn_sender c)" "idle_ok (cn_sender c)" using assms(2) by (simp_all add: conn_inv_def conn_pre_def)
  show "sends_on (cn_sender c) (cn_sender c')"
    using assms(1)
  proof cases
    case connects
    then show ?thesis using fill_sends_on [OF s(1)]
      by (auto simp: TCPConnection_connect_def collect_eq bindE_Inr_iff collected_def sends_on_def split: if_splits)
  next
    case (writes x n)
    obtain st m where w: "ByteStream_write (ts_stream (cn_sender c)) x = (st, m)" by fastforce
    let ?s = "(cn_sender c)\<lparr>ts_stream := st\<rparr>"
    have "sender_inv (W @ take (unat m) x) ?s"
      using writes(3,4) by (intro write_ok [OF s(1) _ _ w]) (simp_all add: ByteStream_input_ended_def)
    moreover obtain s' where "TCPSender_fill_window ?s = Inr s'" "c' = settled (c\<lparr>cn_sender := s'\<rparr>)"
      using writes(5) w by (auto simp: write_eq bindE_Inr_iff)
    ultimately have "sends_on ?s (cn_sender c')" using fill_sends_on by simp
    then show ?thesis by (simp add: sends_on_def)
  next
    case ends
    let ?s = "(cn_sender c)\<lparr>ts_stream := ByteStream_end_input (ts_stream (cn_sender c))\<rparr>"
    obtain s' where "TCPSender_fill_window ?s = Inr s'" "c' = settled (c\<lparr>cn_sender := s'\<rparr>)"
      using ends(3) by (auto simp: end_input_stream_eq bindE_Inr_iff)
    then have "sends_on ?s (cn_sender c')" using fill_sends_on [OF end_input_ok [OF s(1)]] by simp
    then show ?thesis by (simp add: sends_on_def)
  next
    case (receives seg)
    then obtain e where "TCPConnection_segment_receive_route (c\<lparr>cn_time_when_last_segment_received := cn_now_time c\<rparr>) seg = Inr e"
      "c' = settled e" by (auto simp: segment_received_eq bindE_Inr_iff)
    then show ?thesis using route_sends_on [of W "c\<lparr>cn_time_when_last_segment_received := cn_now_time c\<rparr>" seg e] s by simp
  next
    case (ticks ms)
    then show ?thesis by (auto simp: tick_eq) (simp add: sends_on_def tick_frame)
  qed simp_all
  have "unat (ts_next_seqno (cn_sender c)) \<le> 1 + length W" if "\<not> ByteStream_input_ended (ts_stream (cn_sender c))"
    using s(1) that by (auto simp: sender_inv_def numbers_ok_def stream_of_def of_bool_def ByteStream_input_ended_def)
  with assms(1) show "W' = W \<or> (\<exists>x. W' = W @ x) \<and> unat (ts_next_seqno (cn_sender c)) \<le> 1 + length W"
    by cases auto
qed

lemma step_keeps_segs:
  assumes "conn_step P W c W' d c'" and "conn_good W c" and "conn_seg W (cn_sender c) seg"
  shows "conn_seg W' (cn_sender c') seg"
proof -
  have on: "sends_on (cn_sender c) (cn_sender c')" by (rule step_sends_on [OF assms(1,2)])
  from step_sends_on(2) [OF assms(1,2)] show ?thesis
  proof
    assume "W' = W"
    then show ?thesis using conn_seg_later [OF assms(3)] on by (simp add: sends_on_def)
  next
    assume "(\<exists>x. W' = W @ x) \<and> unat (ts_next_seqno (cn_sender c)) \<le> 1 + length W"
    then obtain x where x: "W' = W @ x" and le: "unat (ts_next_seqno (cn_sender c)) \<le> 1 + length W" by blast
    have "conn_seg W' (cn_sender c) seg" using assms(3) seg_at_extend [OF _ _ le] by (auto simp: conn_seg_def x)
    then show ?thesis using conn_seg_later on by (auto simp: sends_on_def)
  qed
qed

section \<open>What a step does to the receiving side\<close>

text \<open>The receiver of one step to the next: it takes a segment that satisfies \<open>P\<close>, is marked as failed, or is read.\<close>

lemma set_error_inv: "rv_inv S isn r \<Longrightarrow> rv_inv S isn (TCPReceiver_set_error r)"
proof -
  assume inv: "rv_inv S isn r"
  then have "rv_small (TCPReceiver_set_error r)" using rv_inv_small(1) rv_small_set_error by blast
  then have "ra_wf (rv_reassembler (TCPReceiver_set_error r))" by (simp add: rv_small_def)
  then show ?thesis
    using inv by (simp add: rv_inv_def ra_inv_def ra_stream_def TCPReceiver_set_error_def TCPReceiver_stream_out_def
        StreamReassembler_stream_out_def)
qed

lemma set_error_pos: "ra_pos (rv_reassembler (TCPReceiver_set_error r)) = ra_pos (rv_reassembler r)"
  by (simp add: ra_pos_def TCPReceiver_set_error_def TCPReceiver_stream_out_def StreamReassembler_stream_out_def)

lemma settled_receiver: "cn_receiver (settled c) = cn_receiver c \<or> cn_receiver (settled c) = TCPReceiver_set_error (cn_receiver c)"
  by (simp add: settled_def aborted_def collected_def TCPConnection_unclear_shutdown_def)

text \<open>Reading position and stream agree between two states of a receiver.\<close>

definition reads_on :: "bytes \<Rightarrow> WrappingInt32 \<Rightarrow> TCPReceiver \<Rightarrow> bytes \<Rightarrow> TCPReceiver \<Rightarrow> bool" where
  "reads_on S isn r d r' \<longleftrightarrow> rv_inv S isn r' \<and> ra_pos (rv_reassembler r') = ra_pos (rv_reassembler r) + length d
     \<and> d = take (length d) (drop (ra_pos (rv_reassembler r)) S)"

lemma reads_on_settled:
  assumes "reads_on S isn r d (cn_receiver c)"
  shows "reads_on S isn r d (cn_receiver (settled c))"
  using settled_receiver [of c] assms set_error_inv [of S isn "cn_receiver c"] set_error_pos [of "cn_receiver c"]
  by (auto simp: reads_on_def)

lemma reads_on_segment:
  assumes "rv_inv S isn r" and "seg_of_stream S isn seg \<or> bare_seg seg" and "TCPReceiver_segment_received r seg = Inr (r', b)"
  shows "reads_on S isn r [] r'"
  using rv.step_law [OF assms(1), of "Arrive seg"] assms(2,3) by (auto simp: reads_on_def)

lemma step_reads_on:
  assumes "conn_step P V c V' d c'" and "\<And>seg. P seg \<Longrightarrow> seg_of_stream S isn seg \<or> bare_seg seg"
    and "rv_inv S isn (cn_receiver c)"
  shows "reads_on S isn (cn_receiver c) d (cn_receiver c')"
proof -
  have refl: "reads_on S isn (cn_receiver c) [] (cn_receiver c)" using assms(3) by (simp add: reads_on_def)
  have set: "reads_on S isn (cn_receiver c) [] (cn_receiver (settled (c\<lparr>cn_sender := s\<rparr>)))" for s
    using refl by (intro reads_on_settled) simp
  from assms(1) show ?thesis
  proof cases
    case connects
    then show ?thesis using refl
      by (auto simp: TCPConnection_connect_def collect_eq bindE_Inr_iff collected_def split: if_splits)
  next
    case (writes x n)
    then show ?thesis using set by (auto simp: write_eq bindE_Inr_iff split: prod.splits)
  next
    case ends
    then show ?thesis using set by (auto simp: end_input_stream_eq bindE_Inr_iff)
  next
    case (receives seg)
    let ?c = "c\<lparr>cn_time_when_last_segment_received := cn_now_time c\<rparr>"
    obtain e where e: "TCPConnection_segment_receive_route ?c seg = Inr e" "c' = settled e"
      using receives(4) by (auto simp: segment_received_eq bindE_Inr_iff)
    have "reads_on S isn (cn_receiver c) [] (cn_receiver e)"
      using route_parts [OF e(1)] refl reads_on_segment [OF assms(3) assms(2) [OF receives(3)]]
        set_error_inv [OF assms(3)] set_error_pos [of "cn_receiver c"]
      by (auto simp: TCPConnection_unclear_shutdown_def reads_on_def)
    then show ?thesis using receives(2) e(2) reads_on_settled by simp
  next
    case (ticks ms)
    have "reads_on S isn (cn_receiver c) [] (cn_receiver (c\<lparr>cn_now_time := t, cn_sender := s\<rparr>))" for t s using refl by simp
    from reads_on_settled [OF this] show ?thesis using ticks by (auto simp: tick_eq)
  next
    case (reads n st)
    then have "rv_step (cn_receiver c) (Read_app n) = Inr (cn_receiver c', d)"
      by (simp add: TCPConnection_inbound_stream_def)
    then show ?thesis using rv.step_law [OF assms(3), of "Read_app n"] by (auto simp: reads_on_def)
  next
    case (sends seg rest)
    then show ?thesis using refl by simp
  qed
qed

section \<open>From one end to the other\<close>

lemma conn_seg_of_stream:
  assumes "conn_seg W s seg" and "unat (ts_next_seqno s) \<le> length W + 2" and "length W + 2 < 2 ^ 31"
  shows "seg_of_stream W (ts_isn s) seg \<or> bare_seg seg"
proof (cases "bare_seg seg")
  case False
  then obtain f where f: "f + seg_len seg \<le> unat (ts_next_seqno s)" "seg_at W (ts_isn s) f seg"
    using assms(1) by (auto simp: conn_seg_def)
  let ?d = "Buffer_str (sg_payload seg)"
  have lt: "f < 2 ^ 32" using f(1) assms(2,3) by simp
  have at: "Buffer_wf (sg_payload seg)" "th_seqno (sg_header seg) = wrap (of_nat f) (ts_isn s)"
    "th_syn (sg_header seg) \<longleftrightarrow> f = 0" "?d = take (length ?d) (drop (f - 1) W)"
    "th_fin (sg_header seg) \<longrightarrow> f - 1 + length ?d = length W"
    using f(2) by (auto simp: seg_at_def)
  have off: "seg_offset (ts_isn s) seg = f"
  proof -
    have "unat (of_nat f :: u64) = f" using lt by (intro unat_of_nat64) (simp add: two64_def)
    then have "unat (ucast (of_nat f :: u64) :: u32) = f" using lt by (subst unat_ucast32) simp_all
    then show ?thesis
      unfolding seg_offset_def at(2) by (simp add: wrap_def WrappingInt32_minus_def WrappingInt32_plus_def WrappingInt32_of_def)
  qed
  have ix: "seg_index (ts_isn s) seg = f - 1" using at(3) by (auto simp: seg_index_def off)
  have "length ?d = min (length ?d) (length W - (f - 1))" using arg_cong [OF at(4), of length] by simp
  then have "f - 1 + length ?d \<le> length W"
  proof (cases "?d = []")
    case True
    then show ?thesis using False at by (auto simp: bare_seg_def)
  next
    case ne: False
    then have "0 < length ?d" by simp
    with \<open>length ?d = _\<close> show ?thesis by linarith
  qed
  then have "seg_of_stream W (ts_isn s) seg"
    unfolding seg_of_stream_def off ix using at by blast
  then show ?thesis ..
qed simp

text \<open>
  The network \<open>N\<close> holds every segment that \<open>a\<close> ever sent; \<open>b\<close> receives any of them at any time, any number of times
  or never.  Whatever else reaches \<open>a\<close> is unconstrained.  \<open>W\<close> and \<open>V\<close> are what the applications at \<open>a\<close> and \<open>b\<close>
  have written, \<open>out\<close> what the one at \<open>b\<close> has read.
\<close>

inductive net :: "TCPConnection \<Rightarrow> TCPConnection \<Rightarrow> bytes \<Rightarrow> TCPConnection \<Rightarrow> TCPSegment set \<Rightarrow> bytes \<Rightarrow> TCPConnection \<Rightarrow> bytes \<Rightarrow> bool"
  for a0 b0 where
  net_start: "net a0 b0 [] a0 {} [] b0 []"
| a_moves: "net a0 b0 W a N V b out \<Longrightarrow> conn_step seg_ok W a W' d a' \<Longrightarrow> length W' + 2 < 2 ^ 31 \<Longrightarrow>
    net a0 b0 W' a' N V b out"
| a_sends: "net a0 b0 W a N V b out \<Longrightarrow> cn_segments_out a = seg # rest \<Longrightarrow>
    net a0 b0 W (a\<lparr>cn_segments_out := rest\<rparr>) (insert seg N) V b out"
| b_moves: "net a0 b0 W a N V b out \<Longrightarrow> conn_step (\<lambda>seg. seg \<in> N) V b V' d b' \<Longrightarrow> net a0 b0 W a N V' b' (out @ d)"

definition net_inv :: "bytes \<Rightarrow> TCPConnection \<Rightarrow> TCPSegment set \<Rightarrow> bytes \<Rightarrow> TCPConnection \<Rightarrow> bytes \<Rightarrow> bool" where
  "net_inv W a N V b out \<longleftrightarrow> conn_good W a \<and> cap_ok a \<and> conn_good V b \<and> cap_ok b \<and> length W + 2 < 2 ^ 31
     \<and> (\<forall>seg \<in> N. conn_seg W (cn_sender a) seg)
     \<and> rv_inv W (ts_isn (cn_sender a)) (cn_receiver b)
     \<and> unat (cf_recv_capacity (cn_cfg b)) + 2 ^ 34 < two64
     \<and> ra_pos (rv_reassembler (cn_receiver b)) = length out \<and> out = take (length out) W"

lemma rv_inv_extend:
  assumes "rv_inv W isn r" and "unat (ra_capacity (rv_reassembler r)) + length (W @ x) + 2 ^ 33 < two64" and "length (W @ x) + 2 < 2 ^ 31"
  shows "rv_inv (W @ x) isn r"
proof -
  have ag: "agrees (W @ x) e" if "agrees W e" for e
  proof (cases "snd e = []")
    case False
    then have "unat (fst e) + length (snd e) \<le> length W" using that by (simp add: agrees_def)
    then have "take (length (snd e)) (drop (unat (fst e)) (W @ x)) = take (length (snd e)) (drop (unat (fst e)) W)" by simp
    with that show ?thesis unfolding agrees_def by auto
  qed (simp add: agrees_def)
  have "ra_stream (W @ x) (rv_reassembler r)"
    using assms(1) ag by (auto simp: rv_inv_def ra_inv_def ra_stream_def)
  with assms show ?thesis by (auto simp: rv_inv_def ra_inv_def)
qed

lemma next_below: "sender_inv W s \<Longrightarrow> unat (ts_next_seqno s) \<le> length W + 2"
  by (simp add: sender_inv_def numbers_ok_def stream_of_def of_bool_def)

lemma conn_seg_ok: "conn_seg W s seg \<Longrightarrow> seg_ok seg"
  by (auto simp: conn_seg_def seg_ok_def bare_seg_def seg_at_def TCPConfig_MAX_PAYLOAD_SIZE_def)

lemma net_inv_start:
  assumes "unat (cf_recv_capacity cfga) + 2 ^ 33 < two64" and "unat (cf_recv_capacity cfgb) + 2 ^ 34 < two64"
  shows "net_inv [] (TCPConnection_new cfga ra) {} [] (TCPConnection_new cfgb rb) []"
proof -
  have b: "unat (cf_recv_capacity cfgb) + 2 ^ 33 < two64" using assms(2) by simp
  have "rv_inv [] isn (TCPReceiver_new (cf_recv_capacity cfgb))" for isn
    using b by (simp add: rv_inv_def ra_inv_def TCPReceiver_new_def keeps_inv) (simp add: StreamReassembler_new_def)
  moreover have "cn_receiver (TCPConnection_new cfgb rb) = TCPReceiver_new (cf_recv_capacity cfgb)"
    by (simp add: TCPConnection_new_def)
  ultimately show ?thesis
    using conn_new_good [OF assms(1)] conn_new_good [OF b]
    using assms(2) by (auto simp: net_inv_def ra_pos_def TCPReceiver_new_def StreamReassembler_new_def)
      (simp add: TCPConnection_new_def)
qed

lemma cfg_step:
  assumes "conn_step P W c W' d c'"
  shows "cn_cfg c' = cn_cfg c"
proof -
  have st: "cn_cfg (settled e) = cn_cfg e" for e
    by (simp add: settled_def aborted_def collected_def TCPConnection_unclear_shutdown_def)
  from assms show ?thesis
  proof cases
    case connects
    then show ?thesis by (auto simp: TCPConnection_connect_def collect_eq bindE_Inr_iff collected_def split: if_splits)
  next
    case (receives seg)
    let ?c = "c\<lparr>cn_time_when_last_segment_received := cn_now_time c\<rparr>"
    obtain e where e: "TCPConnection_segment_receive_route ?c seg = Inr e" "c' = settled e"
      using receives(4) by (auto simp: segment_received_eq bindE_Inr_iff)
    then show ?thesis
      using route_parts [OF e(1)] by (auto simp: st TCPConnection_unclear_shutdown_def)
  qed (auto simp: write_eq end_input_stream_eq tick_eq bindE_Inr_iff st split: prod.splits)
qed

lemma net_inv_a:
  assumes "net_inv W a N V b out" and "conn_step seg_ok W a W' d a'" and "length W' + 2 < 2 ^ 31"
  shows "net_inv W' a' N V b out"
proof -
  have a: "conn_good W a" "cap_ok a" and N: "\<forall>seg \<in> N. conn_seg W (cn_sender a) seg"
    and b: "rv_inv W (ts_isn (cn_sender a)) (cn_receiver b)" "cap_ok b" "unat (cf_recv_capacity (cn_cfg b)) + 2 ^ 34 < two64"
    and out: "out = take (length out) W"
    using assms(1) by (auto simp: net_inv_def)
  have good: "conn_good W' a'" "cap_ok a'" using conn_step_good [OF assms(2) _ a] by blast+
  have isn: "ts_isn (cn_sender a') = ts_isn (cn_sender a)"
    using step_sends_on(1) [OF assms(2) a(1)] by (simp add: sends_on_def)
  obtain x where x: "W' = W @ x" using step_sends_on(2) [OF assms(2) a(1)] by auto
  have "rv_inv W' (ts_isn (cn_sender a')) (cn_receiver b)"
    unfolding isn x using b assms(3) x by (intro rv_inv_extend) (simp_all add: cap_ok_def)
  moreover have "\<forall>seg \<in> N. conn_seg W' (cn_sender a') seg" using N step_keeps_segs [OF assms(2) a(1)] by blast
  moreover have "out = take (length out) W'"
  proof -
    have "length out \<le> length W" using arg_cong [OF out, of length] by simp
    with out show ?thesis by (simp add: x)
  qed
  ultimately show ?thesis using assms(1,3) good unfolding net_inv_def by blast
qed

lemma net_inv_b:
  assumes "net_inv W a N V b out" and "conn_step (\<lambda>seg. seg \<in> N) V b V' d b'"
  shows "net_inv W a N V' b' (out @ d)"
proof -
  let ?isn = "ts_isn (cn_sender a)"
  have N: "\<forall>seg \<in> N. conn_seg W (cn_sender a) seg" and a: "sender_inv W (cn_sender a)" "length W + 2 < 2 ^ 31"
    and b: "conn_good V b" "cap_ok b" "rv_inv W ?isn (cn_receiver b)"
    and out: "ra_pos (rv_reassembler (cn_receiver b)) = length out" "out = take (length out) W"
    using assms(1) by (auto simp: net_inv_def conn_inv_def conn_pre_def)
  have "conn_good V' b'" "cap_ok b'"
    using conn_step_good [OF assms(2) _ b(1,2)] N conn_seg_ok by blast+
  moreover have "reads_on W ?isn (cn_receiver b) d (cn_receiver b')"
    by (rule step_reads_on [OF assms(2) _ b(3)]) (use N conn_seg_of_stream [OF _ next_below [OF a(1)] a(2)] in blast)
  then have r: "rv_inv W ?isn (cn_receiver b')" "ra_pos (rv_reassembler (cn_receiver b')) = length (out @ d)"
    "d = take (length d) (drop (length out) W)"
    using out(1) by (simp_all add: reads_on_def)
  moreover have "out @ d = take (length (out @ d)) W"
    unfolding length_append take_add using out(2) r(3) by (rule arg_cong2 [where f = append])
  ultimately show ?thesis using assms(1) unfolding net_inv_def cfg_step [OF assms(2)] by blast
qed

lemma net_reaches:
  assumes "net (TCPConnection_new cfga ra) (TCPConnection_new cfgb rb) W a N V b out"
    and "unat (cf_recv_capacity cfga) + 2 ^ 33 < two64" and "unat (cf_recv_capacity cfgb) + 2 ^ 34 < two64"
  shows "net_inv W a N V b out"
  using assms(1)
proof (induction rule: net.induct)
  case net_start
  show ?case by (rule net_inv_start [OF assms(2,3)])
next
  case (a_moves W a N V b out W' d a')
  show ?case by (rule net_inv_a [OF a_moves.IH a_moves.hyps(2,3)])
next
  case (a_sends W a N V b out seg rest)
  let ?a = "a\<lparr>cn_segments_out := rest\<rparr>"
  have "net_inv W ?a N V b out"
    by (rule net_inv_a [OF a_sends.IH sends [OF a_sends.hyps(2)]]) (use a_sends.IH in \<open>simp add: net_inv_def\<close>)
  moreover have "conn_seg W (cn_sender a) seg"
    using a_sends.IH a_sends.hyps(2) by (simp add: net_inv_def conn_inv_def conn_pre_def)
  moreover have "cn_sender ?a = cn_sender a" by simp
  ultimately show ?case unfolding net_inv_def by (metis insert_iff)
next
  case (b_moves W a N V b out V' d b')
  show ?case by (rule net_inv_b [OF b_moves.IH b_moves.hyps(2)])
qed

lemma net_inv_prefix:
  assumes "net_inv W a N V b out"
  shows "out @ ByteStream_contents (TCPConnection_inbound_stream b)
     = take (unat (StreamReassembler_assembled_bytes (rv_reassembler (cn_receiver b)))) W"
proof -
  have inv: "rv_inv W (ts_isn (cn_sender a)) (cn_receiver b)" "ra_pos (rv_reassembler (cn_receiver b)) = length out"
    "out = take (length out) W"
    using assms unfolding net_inv_def by blast+
  then have "ra_wf (rv_reassembler (cn_receiver b))" "ra_stream W (rv_reassembler (cn_receiver b))"
    by (simp_all add: rv_inv_def ra_inv_def)
  from delivered_prefix [OF this inv(2,3)] show ?thesis
    by (simp add: TCPConnection_inbound_stream_def TCPReceiver_stream_out_def StreamReassembler_stream_out_def
        StreamReassembler_assembled_bytes_def)
qed

section \<open>Properties\<close>

text \<open>
  C1: From one end to the other: take two fresh endpoints and let segments of \<open>a\<close> be lost, repeated and delivered in any
  order to \<open>b\<close>, while anything at all is delivered to \<open>a\<close>, and timers, retransmissions, resets, writes and
  reads interleave freely.  What the application at \<open>b\<close> has read, followed by what it can read next, is always
  exactly the first \<^verbatim>\<open>assembled_bytes()\<close> bytes of what the application at \<open>a\<close> has written (up to 2^31 - 3 bytes).
\<close>

theorem end_to_end:
  assumes "net (TCPConnection_new cfga ra) (TCPConnection_new cfgb rb) W a N V b out"
    and "unat (cf_recv_capacity cfga) + 2 ^ 33 < two64" and "unat (cf_recv_capacity cfgb) + 2 ^ 34 < two64"
  shows "out @ ByteStream_contents (TCPConnection_inbound_stream b)
     = take (unat (StreamReassembler_assembled_bytes (rv_reassembler (cn_receiver b)))) W"
  by (rule net_inv_prefix [OF net_reaches [OF assms]])

theorem end_to_end_witness:
  "\<exists>a b seg. net (TCPConnection_new sample_cfg 0) (TCPConnection_new sample_cfg 0) [] a {seg} [] b []
     \<and> th_syn (sg_header seg) \<and> TCPReceiver_SYN_RECV (cn_receiver b)
     \<and> ByteStream_contents (TCPConnection_inbound_stream b) = []"
proof -
  let ?c = "TCPConnection_new sample_cfg 0"
  obtain a where a: "TCPConnection_connect ?c = Inr a" "cn_segments_out a = [syn_segment (isn_of a)]"
    by (rule connect_sends_syn)
  let ?syn = "syn_segment (isn_of a)" and ?a = "a\<lparr>cn_segments_out := []\<rparr>"
  obtain b win where b: "TCPConnection_segment_received ?c ?syn = Inr b" "after_syn (isn_of a) (cn_receiver b)"
    by (rule listen_answers [OF sample_cap])
  have "net ?c ?c [] a {} [] ?c []" by (rule a_moves [OF net_start connects [OF a(1)]]) simp
  then have "net ?c ?c [] ?a {?syn} [] ?c []" by (rule a_sends) (rule a(2))
  then have "net ?c ?c [] ?a {?syn} [] b ([] @ [])" by (rule b_moves) (rule receives [OF _ b(1)], simp)
  then have run: "net ?c ?c [] ?a {?syn} [] b []" by simp
  have cap: "unat (cf_recv_capacity sample_cfg) + 2 ^ 34 < two64"
    by (simp add: sample_cfg_def TCPConfig_default_def TCPConfig_DEFAULT_CAPACITY_def two64_def)
  have "ByteStream_contents (TCPConnection_inbound_stream b) = []"
    using end_to_end [OF run sample_cap cap] by simp
  moreover have "TCPReceiver_SYN_RECV (cn_receiver b)" using after_syn_ackno [OF b(2)] by simp
  ultimately show ?thesis using run syn_segment_len(2) by blast
qed

end
