(* ===== verification/Connection_Trace.thy ===== *)
theory Connection_Trace
  imports Network
begin

text \<open>
  Runs of a connection with everything that was written to it and everything that was read from it, and
  which of its operations touch the end of the outbound stream and the reading position of the inbound one.
\<close>

section \<open>What the operations leave alone\<close>

abbreviation out_ended :: "TCPConnection \<Rightarrow> bool" where
  "out_ended c \<equiv> bs_end (ts_stream (cn_sender c))"

abbreviation in_read :: "TCPConnection \<Rightarrow> u64" where
  "in_read c \<equiv> bs_byte_read (ra_output (rv_reassembler (cn_receiver c)))"

lemma settled_frame:
  "out_ended (settled c) = out_ended c" "in_read (settled c) = in_read c"
  using settled_receiver [of c]
  by (auto simp: settled_def aborted_def collected_def TCPConnection_unclear_shutdown_def TCPReceiver_set_error_def
      TCPReceiver_stream_out_def StreamReassembler_stream_out_def)

lemma fill_keeps_end:
  assumes "sender_inv W s" and "TCPSender_fill_window s = Inr s'"
  shows "bs_end (ts_stream s') = bs_end (ts_stream s)"
proof -
  obtain t where "TCPSender_fill_window s = Inr t" "same_ack s t" by (rule fill_window_ok [OF assms(1)])
  with assms(2) show ?thesis by (simp add: same_ack_def)
qed

lemma ack_keeps_end:
  assumes "sender_inv W s" and "TCPSender_ack_received s ackno win = Inr (s', b)"
  shows "bs_end (ts_stream s') = bs_end (ts_stream s)"
  using assms(1)
proof (cases rule: ack_received_ok [where ackno = ackno and win = win])
  case (fresh s2 s3 t popped)
  have "ts_stream s2 = ts_stream s" by (rule trans [OF arg_cong [where f = ts_stream, OF fresh(6)]]) simp
  moreover have "bs_end (ts_stream s3) = bs_end (ts_stream s2)" using fresh(9) by (simp add: same_ack_def)
  ultimately show ?thesis using assms(2) fresh(3,13) by auto
qed (use assms(2) in auto)

lemma route_frame:
  assumes "conn_pre W c" and "seg_ok seg" and "TCPConnection_segment_receive_route c seg = Inr c'"
  shows "out_ended c' = out_ended c" and "in_read c' = in_read c"
proof -
  let ?s = "cn_sender c"
  have s: "sender_inv W ?s" "idle_ok ?s" "rv_small (cn_receiver c)" using assms(1) by (simp_all add: conn_pre_def)
  obtain r b where r: "TCPReceiver_segment_received (cn_receiver c) seg = Inr (r, b)"
    "bs_byte_read (ra_output (rv_reassembler r)) = in_read c"
    by (rule segment_received_any [OF s(3)]) (use assms(2) in \<open>auto simp: seg_ok_def\<close>)
  have u: "in_read (TCPConnection_unclear_shutdown c) = in_read c" "out_ended (TCPConnection_unclear_shutdown c) = out_ended c"
    by (simp_all add: TCPConnection_unclear_shutdown_def TCPReceiver_set_error_def TCPReceiver_stream_out_def StreamReassembler_stream_out_def)
  show "in_read c' = in_read c"
    using route_parts [OF assms(3)] r u by auto
  have e: "bs_end (ts_stream (TCPSender_send_empty_segment t)) = bs_end (ts_stream t)" for t
    by (simp add: TCPSender_send_empty_segment_def)
  show "out_ended c' = out_ended c"
    using assms(3) u fill_keeps_end [OF s(1)] ack_keeps_end [OF s(1)] unfolding TCPConnection_segment_receive_route_def Let_def
    by (auto simp: bindE_Inr_iff e split: if_splits)
qed

lemma segment_received_frame:
  assumes "conn_good W c" and "seg_ok seg" and "TCPConnection_segment_received c seg = Inr c'"
  shows "out_ended c' = out_ended c" and "in_read c' = in_read c"
proof -
  let ?c = "c\<lparr>cn_time_when_last_segment_received := cn_now_time c\<rparr>"
  obtain e where e: "TCPConnection_segment_receive_route ?c seg = Inr e" "c' = settled e"
    using assms(3) by (auto simp: segment_received_eq bindE_Inr_iff)
  have "conn_pre W ?c" using assms(1) by (simp add: conn_inv_def conn_pre_def)
  from route_frame [OF this assms(2) e(1)] e(2) show "out_ended c' = out_ended c" "in_read c' = in_read c"
    by (simp_all add: settled_frame)
qed

lemma write_frame:
  assumes "conn_good W c" and "\<not> out_ended c" and "length W + length d + 2 ^ 33 < two64"
    and "TCPConnection_write c d = Inr (c', n)"
  shows "\<not> out_ended c'" and "in_read c' = in_read c"
proof -
  obtain st m where w: "ByteStream_write (ts_stream (cn_sender c)) d = (st, m)" by fastforce
  let ?s = "(cn_sender c)\<lparr>ts_stream := st\<rparr>"
  have "sender_inv (W @ take (unat m) d) ?s"
    using assms(1-3) by (intro write_ok [OF _ _ _ w]) (simp_all add: conn_inv_def conn_pre_def)
  moreover obtain s' where s': "TCPSender_fill_window ?s = Inr s'" "c' = settled (c\<lparr>cn_sender := s'\<rparr>)"
    using assms(4) w by (auto simp: write_eq bindE_Inr_iff)
  moreover have "bs_end st = out_ended c" using w by (auto simp: ByteStream_write_def Let_def)
  ultimately show "\<not> out_ended c'" "in_read c' = in_read c"
    using fill_keeps_end assms(2) by (fastforce simp: settled_frame)+
qed

lemma end_input_frame: "TCPConnection_end_input_stream c = Inr c' \<Longrightarrow> in_read c' = in_read c"
  by (auto simp: end_input_stream_eq bindE_Inr_iff settled_frame)

lemma tick_conn_frame:
  assumes "TCPConnection_tick c ms = Inr c'"
  shows "out_ended c' = out_ended c" and "in_read c' = in_read c"
  using assms by (auto simp: tick_eq settled_frame tick_frame)

lemma connect_frame:
  assumes "conn_good W c" and "TCPConnection_connect c = Inr c'"
  shows "out_ended c' = out_ended c" and "in_read c' = in_read c"
proof -
  have "sender_inv W (cn_sender c)" using assms(1) by (simp add: conn_inv_def conn_pre_def)
  from fill_keeps_end [OF this] assms(2) show "out_ended c' = out_ended c" "in_read c' = in_read c"
    by (auto simp: TCPConnection_connect_def collect_eq bindE_Inr_iff collected_def split: if_splits)
qed

section \<open>Runs with their input and output\<close>

text \<open>
  \<open>conn_trace P c0 W out c\<close>: from \<open>c0\<close> the connection has come to \<open>c\<close>, the segments that it was given were all in \<open>P\<close>,
  \<open>W\<close> is what was written to it and \<open>out\<close> what was read from it.
\<close>

inductive conn_trace :: "(TCPSegment \<Rightarrow> bool) \<Rightarrow> TCPConnection \<Rightarrow> bytes \<Rightarrow> bytes \<Rightarrow> TCPConnection \<Rightarrow> bool" for P c0 where
  trace_begin: "conn_trace P c0 [] [] c0"
| trace_step: "conn_trace P c0 W out c \<Longrightarrow> conn_step P W c W' d c' \<Longrightarrow> conn_trace P c0 W' (out @ d) c'"

lemma step_mono:
  assumes "conn_step P W c W' d c'" and "\<And>seg. P seg \<Longrightarrow> Q seg"
  shows "conn_step Q W c W' d c'"
  using assms(1) by cases (auto intro: conn_step.intros assms(2))

lemma trace_mono: "conn_trace P c0 W out c \<Longrightarrow> (\<And>seg. P seg \<Longrightarrow> Q seg) \<Longrightarrow> conn_trace Q c0 W out c"
  by (induction rule: conn_trace.induct) (auto intro: conn_trace.intros step_mono)

lemma trace_run:
  assumes "conn_trace P c0 W out c" and "\<And>seg. P seg \<Longrightarrow> seg_ok seg"
  shows "conn_run c0 W c"
  using assms(1) by (induction rule: conn_trace.induct) (auto intro: begins steps step_mono assms(2))

lemma read_position:
  assumes "conn_good W c" and "ByteStream_read (TCPConnection_inbound_stream c) n = Inr (st, d)"
  shows "unat (bs_byte_read st) = unat (in_read c) + length d"
proof -
  let ?st = "ra_output (rv_reassembler (cn_receiver c))"
  have "ra_wf (rv_reassembler (cn_receiver c))" using assms(1) by (simp add: conn_inv_def conn_pre_def rv_small_def)
  then have inv: "ByteStream_inv ?st" and le: "bs_byte_read ?st \<le> bs_byte_written ?st" by (simp_all add: ra_wf_def out_wf_def)
  obtain st' where st': "ByteStream_read ?st n = Inr (st', take (unat n) (ByteStream_contents ?st))"
    "bs_byte_read st' = bs_byte_read ?st + min n (ByteStream_buffer_size ?st)" by (rule ByteStream_read_law [OF inv])
  have size: "unat (min n (ByteStream_buffer_size ?st)) = min (unat n) (length (ByteStream_contents ?st))"
    using inv by (simp add: unat_buffer_size)
  have "unat (bs_byte_read ?st) + length (ByteStream_contents ?st) < two64"
    using unat_lt64 [of "bs_byte_written ?st"] unat_buffer_size [OF inv] unat_sub64 [OF le] le
    unfolding ByteStream_buffer_size_def word_le_nat_alt by linarith
  then have "unat (bs_byte_read st') = unat (bs_byte_read ?st) + min (unat n) (length (ByteStream_contents ?st))"
    unfolding st'(2) by (subst unat_add64) (simp_all add: size del: unat_min64)
  then show ?thesis
    using st'(1) assms(2) by (auto simp: TCPConnection_inbound_stream_def TCPReceiver_stream_out_def StreamReassembler_stream_out_def)
qed

lemma step_in_read:
  assumes "conn_step P W c W' d c'" and "\<And>seg. P seg \<Longrightarrow> seg_ok seg" and "conn_good W c"
  shows "unat (in_read c') = unat (in_read c) + length d"
  using assms(1)
proof cases
  case connects
  then show ?thesis using connect_frame [OF assms(3)] by simp
next
  case (writes x n)
  then show ?thesis using write_frame [OF assms(3) _ writes(4,5)] by (simp add: ByteStream_input_ended_def)
next
  case ends
  then show ?thesis using end_input_frame by simp
next
  case (receives seg)
  then show ?thesis using segment_received_frame [OF assms(3) assms(2)] by simp
next
  case (ticks ms)
  then show ?thesis using tick_conn_frame by simp
next
  case (reads n st)
  then show ?thesis using read_position [OF assms(3) reads(3)] by simp
qed simp

lemma trace_inv:
  assumes "conn_trace P (TCPConnection_new cfg random) W out c" and "\<And>seg. P seg \<Longrightarrow> seg_ok seg"
    and "unat (cf_recv_capacity cfg) + 2 ^ 33 < two64"
  shows "conn_good W c \<and> cap_ok c \<and> unat (in_read c) = length out \<and> cn_cfg c = cfg
     \<and> ts_isn (cn_sender c) = ts_isn (cn_sender (TCPConnection_new cfg random))"
  using assms(1)
proof (induction rule: conn_trace.induct)
  case trace_begin
  show ?case using conn_new_good [OF assms(3)]
    by (simp add: TCPConnection_new_def TCPReceiver_new_def StreamReassembler_new_def ByteStream_new_def)
next
  case (trace_step W out c W' d c')
  then show ?case
    using conn_step_good [OF trace_step(2) assms(2)] step_in_read [OF trace_step(2) assms(2)] cfg_step [OF trace_step(2)]
      step_sends_on(1) [OF trace_step(2)] by (simp add: sends_on_def)
qed

text \<open>If all that arrives is of one stream, what is read is a prefix of it.\<close>

lemma trace_prefix:
  assumes "conn_trace P (TCPConnection_new cfg random) W out c" and "\<And>seg. P seg \<Longrightarrow> seg_of_stream S isn seg \<or> bare_seg seg"
    and "unat (cf_recv_capacity cfg) + length S + 2 ^ 33 < two64" and "length S + 2 < 2 ^ 31"
  shows "rv_inv S isn (cn_receiver c) \<and> ra_pos (rv_reassembler (cn_receiver c)) = length out \<and> out = take (length out) S"
  using assms(1)
proof (induction rule: conn_trace.induct)
  case trace_begin
  then show ?case using TCPReceiver_new_inv [OF assms(3,4)] by (simp add: TCPConnection_new_def)
next
  case (trace_step W out c W' d c')
  then have "reads_on S isn (cn_receiver c) d (cn_receiver c')"
    using step_reads_on [OF trace_step(2) assms(2)] by blast
  then show ?case
    using trace_step.IH by (auto simp: reads_on_def take_add)
qed

end
