(* ===== verification/Benchmark.thy ===== *)
theory Benchmark
  imports Connection_Trace
begin

text \<open>
  \<^verbatim>\<open>apps/tcp_benchmark.cc\<close>: two connections joined in memory, one of which sends a string to the other while the segments
  arrive in the order they were sent or, batch by batch, in the reverse order.
\<close>

section \<open>The program\<close>

text \<open>The locals of \<^verbatim>\<open>main_loop\<close> that its lambda \<^verbatim>\<open>loop\<close> captures by reference.\<close>

record Benchmark =
  bm_x :: TCPConnection
  bm_y :: TCPConnection
  bm_bytes_to_send :: Buffer
  bm_x_closed :: bool
  bm_string_received :: bytes

text \<open>The first loop of \<^verbatim>\<open>move_segments\<close> empties the queue of \<open>x\<close>, whose contents are the second argument.\<close>

fun take_segments :: "TCPConnection \<Rightarrow> TCPSegment list \<Rightarrow> TCPSegment list \<Rightarrow> TCPConnection \<times> TCPSegment list" where
  "take_segments x [] segments = (x, segments)"
| "take_segments x (front # rest) segments = take_segments (x\<lparr>cn_segments_out := rest\<rparr>) rest (segments @ [front])"

fun receive_segments :: "TCPConnection \<Rightarrow> TCPSegment list \<Rightarrow> TCPConnection result" where
  "receive_segments y [] = Inr y"
| "receive_segments y (seg # segs) = bindE (TCPConnection_segment_received y seg) (\<lambda>y. receive_segments y segs)"

text \<open>The vector of segments is empty before and after.\<close>

definition move_segments :: "TCPConnection \<Rightarrow> TCPConnection \<Rightarrow> bool \<Rightarrow> (TCPConnection \<times> TCPConnection) result" where
  "move_segments x y reorder =
     (let (x, segments) = take_segments x (cn_segments_out x) [] in
      bindE (if reorder then receive_segments y (rev segments) else receive_segments y segments) (\<lambda>y. Inr (x, y)))"

text \<open>The loop that writes input into \<open>x\<close>; a value \<open>None\<close> would mean that it does not end.\<close>

definition write_chunk :: "TCPConnection \<Rightarrow> Buffer \<Rightarrow> (TCPConnection \<times> Buffer) result" where
  "write_chunk x bytes_to_send =
     (let want = min (TCPConnection_remaining_outbound_capacity x) (Buffer_size bytes_to_send) in
      bindE (TCPConnection_write x (take (unat want) (Buffer_str bytes_to_send))) (\<lambda>(x, written).
        if want \<noteq> written
        then Inl (Runtime_error (''want = '' @ dec_nat (unat want) @ '', written = '' @ dec_nat (unat written)))
        else bindE (Buffer_remove_prefix bytes_to_send written) (\<lambda>bytes_to_send. Inr (x, bytes_to_send))))"

partial_function (option) write_input :: "TCPConnection \<Rightarrow> Buffer \<Rightarrow> (TCPConnection \<times> Buffer) result option" where
  "write_input x bytes_to_send =
     (if Buffer_size bytes_to_send \<noteq> 0 \<and> TCPConnection_remaining_outbound_capacity x \<noteq> 0
      then (case write_chunk x bytes_to_send of
              Inl e \<Rightarrow> Some (Inl e)
            | Inr (x, bytes_to_send) \<Rightarrow> write_input x bytes_to_send)
      else Some (Inr (x, bytes_to_send)))"

declare write_input.simps [code] fill_window_loop.simps [code]

definition read_output :: "TCPConnection \<Rightarrow> bytes \<Rightarrow> (TCPConnection \<times> bytes) result" where
  "read_output y string_received =
     (let available_output = ByteStream_buffer_size (TCPConnection_inbound_stream y) in
      if available_output > 0
      then bindE (ByteStream_read (TCPConnection_inbound_stream y) available_output) (\<lambda>(st, data).
        Inr (y\<lparr>cn_receiver := (cn_receiver y)\<lparr>rv_reassembler := (rv_reassembler (cn_receiver y))\<lparr>ra_output := st\<rparr>\<rparr>\<rparr>,
             string_received @ data))
      else Inr (y, string_received))"

definition bm_loop :: "bool \<Rightarrow> Benchmark \<Rightarrow> Benchmark result" where
  "bm_loop reorder s =
     bindE (case write_input (bm_x s) (bm_bytes_to_send s) of Some r \<Rightarrow> r | None \<Rightarrow> Inl Does_not_return) (\<lambda>(x, bytes_to_send).
     bindE (if Buffer_size bytes_to_send = 0 \<and> \<not> bm_x_closed s
            then bindE (TCPConnection_end_input_stream x) (\<lambda>x. Inr (x, True))
            else Inr (x, bm_x_closed s)) (\<lambda>(x, x_closed).
     bindE (move_segments x (bm_y s) reorder) (\<lambda>(x, y).
     bindE (move_segments y x False) (\<lambda>(y, x).
     bindE (read_output y (bm_string_received s)) (\<lambda>(y, string_received).
     bindE (TCPConnection_tick x 1000) (\<lambda>x.
     bindE (TCPConnection_tick y 1000) (\<lambda>y.
       Inr \<lparr>bm_x = x, bm_y = y, bm_bytes_to_send = bytes_to_send, bm_x_closed = x_closed,
            bm_string_received = string_received\<rparr>)))))))"

text \<open>\<^verbatim>\<open>while (condition) loop()\<close>, for at most \<open>n\<close> rounds; \<open>None\<close> if the condition still holds then.\<close>

fun bm_while :: "(Benchmark \<Rightarrow> bool) \<Rightarrow> bool \<Rightarrow> nat \<Rightarrow> Benchmark \<Rightarrow> Benchmark result option" where
  "bm_while condition reorder n s =
     (if \<not> condition s then Some (Inr s)
      else case n of
        0 \<Rightarrow> None
      | Suc n \<Rightarrow> (case bm_loop reorder s of Inl e \<Rightarrow> Some (Inl e) | Inr s \<Rightarrow> bm_while condition reorder n s))"

definition bm_start :: "u32 \<Rightarrow> u32 \<Rightarrow> bytes \<Rightarrow> Benchmark result" where
  "bm_start random_x random_y string_to_send =
     (let config = TCPConfig_default in
      bindE (TCPConnection_connect (TCPConnection_new config random_x)) (\<lambda>x.
      bindE (TCPConnection_end_input_stream (TCPConnection_new config random_y)) (\<lambda>y.
        Inr \<lparr>bm_x = x, bm_y = y, bm_bytes_to_send = Buffer_of_string string_to_send, bm_x_closed = False,
             bm_string_received = []\<rparr>)))"

definition strings_differ :: exn where
  "strings_differ = Runtime_error ''strings sent vs. received don't match''"

definition main_loop :: "bool \<Rightarrow> nat \<Rightarrow> u32 \<Rightarrow> u32 \<Rightarrow> bytes \<Rightarrow> Benchmark result option" where
  "main_loop reorder n random_x random_y string_to_send =
     (case bm_start random_x random_y string_to_send of
        Inl e \<Rightarrow> Some (Inl e)
      | Inr s \<Rightarrow>
          (case bm_while (\<lambda>s. \<not> ByteStream_eof (TCPConnection_inbound_stream (bm_y s))) reorder n s of
             Some (Inr s) \<Rightarrow>
               if bm_string_received s \<noteq> string_to_send then Some (Inl strings_differ)
               else bm_while (\<lambda>s. TCPConnection_active (bm_x s) \<or> TCPConnection_active (bm_y s)) reorder n s
           | r \<Rightarrow> r))"

section \<open>Every round is a run of the network\<close>

text \<open>
  The state of the program, seen as a state of two endpoints with a network between them: \<open>W\<close> is the part of the string that
  has been written, \<open>N\<close> what \<open>x\<close> has sent.
\<close>

definition bm_net :: "u32 \<Rightarrow> u32 \<Rightarrow> bytes \<Rightarrow> TCPConnection \<Rightarrow> TCPSegment set \<Rightarrow> TCPConnection \<Rightarrow> bytes \<Rightarrow> bool" where
  "bm_net rx ry W x N y out \<longleftrightarrow>
     net (TCPConnection_new TCPConfig_default rx) (TCPConnection_new TCPConfig_default ry) W x N [] y out \<and> length W + 2 < 2 ^ 31"

lemma default_caps:
  "unat (cf_recv_capacity TCPConfig_default) + 2 ^ 33 < two64" "unat (cf_recv_capacity TCPConfig_default) + 2 ^ 34 < two64"
  by (simp_all add: TCPConfig_default_def TCPConfig_DEFAULT_CAPACITY_def two64_def)

lemma bm_net_inv: "bm_net rx ry W x N y out \<Longrightarrow> net_inv W x N [] y out"
  unfolding bm_net_def using net_reaches default_caps by blast

lemma bm_net_good:
  assumes "bm_net rx ry W x N y out"
  shows "conn_good W x" and "conn_good [] y" and "seg \<in> N \<Longrightarrow> seg_ok seg"
    and "seg \<in> set (cn_segments_out y) \<Longrightarrow> seg_ok seg"
  using bm_net_inv [OF assms] conn_seg_ok by (auto simp: net_inv_def conn_inv_def conn_pre_def)

lemma bm_net_x:
  assumes "bm_net rx ry W x N y out" and "conn_step seg_ok W x W' d x'" and "length W' + 2 < 2 ^ 31"
  shows "bm_net rx ry W' x' N y out"
  using assms by (auto simp: bm_net_def intro: a_moves)

lemma bm_net_y:
  assumes "bm_net rx ry W x N y out" and "conn_step (\<lambda>seg. seg \<in> N) [] y [] d y'"
  shows "bm_net rx ry W x N y' (out @ d)"
  using assms by (auto simp: bm_net_def intro: b_moves)

lemma take_segments_eq: "take_segments x (cn_segments_out x) segs = (x\<lparr>cn_segments_out := []\<rparr>, segs @ cn_segments_out x)"
proof -
  have "take_segments (x\<lparr>cn_segments_out := q\<rparr>) q segs = (x\<lparr>cn_segments_out := []\<rparr>, segs @ q)" for q segs
    by (induction q arbitrary: segs) simp_all
  from this [of "cn_segments_out x" segs] show ?thesis by simp
qed

lemma x_sends:
  assumes "bm_net rx ry W (x\<lparr>cn_segments_out := q\<rparr>) N y out"
  shows "bm_net rx ry W (x\<lparr>cn_segments_out := []\<rparr>) (N \<union> set q) y out"
  using assms
proof (induction q arbitrary: N)
  case (Cons seg q)
  have "bm_net rx ry W (x\<lparr>cn_segments_out := seg # q, cn_segments_out := q\<rparr>) (insert seg N) y out"
    using Cons.prems a_sends [where a = "x\<lparr>cn_segments_out := seg # q\<rparr>"] unfolding bm_net_def by simp
  from Cons.IH [of "insert seg N"] this show ?case by simp
qed simp

lemma y_sends:
  assumes "bm_net rx ry W x N (y\<lparr>cn_segments_out := q\<rparr>) out"
  shows "bm_net rx ry W x N (y\<lparr>cn_segments_out := []\<rparr>) out"
  using assms
proof (induction q)
  case (Cons seg q)
  from bm_net_y [OF Cons.prems sends [where seg = seg and rest = q]] show ?case using Cons.IH by simp
qed simp

lemma y_receives:
  assumes "bm_net rx ry W x N y out" and "set segs \<subseteq> N"
  shows "\<exists>y'. receive_segments y segs = Inr y' \<and> bm_net rx ry W x N y' out"
  using assms
proof (induction segs arbitrary: y)
  case (Cons seg segs)
  have "seg \<in> N" "set segs \<subseteq> N" using Cons.prems(2) by simp_all
  obtain y1 where y1: "TCPConnection_segment_received y seg = Inr y1"
    by (rule segment_received_ok [OF bm_net_good(2) [OF Cons.prems(1)] bm_net_good(3) [OF Cons.prems(1) \<open>seg \<in> N\<close>]])
  have "bm_net rx ry W x N y1 out"
    using bm_net_y [OF Cons.prems(1) receives [where P = "\<lambda>seg. seg \<in> N", OF \<open>seg \<in> N\<close> y1]] by simp
  from Cons.IH [OF this \<open>set segs \<subseteq> N\<close>] y1 show ?case by simp
qed simp

lemma x_receives:
  assumes "bm_net rx ry W x N y out" and "\<And>seg. seg \<in> set segs \<Longrightarrow> seg_ok seg"
  shows "\<exists>x'. receive_segments x segs = Inr x' \<and> bm_net rx ry W x' N y out \<and> out_ended x' = out_ended x"
  using assms
proof (induction segs arbitrary: x)
  case (Cons seg segs)
  have ok: "seg_ok seg" using Cons.prems(2) by simp
  have good: "conn_good W x" by (rule bm_net_good(1) [OF Cons.prems(1)])
  obtain x1 where x1: "TCPConnection_segment_received x seg = Inr x1" by (rule segment_received_ok [OF good ok])
  have "bm_net rx ry W x1 N y out"
    by (rule bm_net_x [OF Cons.prems(1) receives [where P = seg_ok, OF ok x1]]) (use Cons.prems(1) in \<open>simp add: bm_net_def\<close>)
  from Cons.IH [OF this Cons.prems(2)] x1 segment_received_frame(1) [OF good ok x1] show ?case by simp
qed simp

lemma move_to_y:
  assumes "bm_net rx ry W x N y out"
  obtains x' y' N' where "move_segments x y reorder = Inr (x', y')" and "bm_net rx ry W x' N' y' out" and "out_ended x' = out_ended x"
proof -
  let ?q = "cn_segments_out x" and ?x = "x\<lparr>cn_segments_out := []\<rparr>"
  have net: "bm_net rx ry W ?x (N \<union> set ?q) y out" using x_sends [where x = x and q = ?q] assms by simp
  have "set (if reorder then rev ?q else ?q) \<subseteq> N \<union> set ?q" by simp
  from y_receives [OF net this] obtain y' where "receive_segments y (if reorder then rev ?q else ?q) = Inr y'"
    "bm_net rx ry W ?x (N \<union> set ?q) y' out" by blast
  then show ?thesis
    by (intro that [of ?x y' "N \<union> set ?q"]) (simp_all add: move_segments_def take_segments_eq split: if_splits)
qed

lemma move_to_x:
  assumes "bm_net rx ry W x N y out"
  obtains x' y' where "move_segments y x False = Inr (y', x')" and "bm_net rx ry W x' N y' out" and "out_ended x' = out_ended x"
proof -
  let ?q = "cn_segments_out y" and ?y = "y\<lparr>cn_segments_out := []\<rparr>"
  have net: "bm_net rx ry W x N ?y out" using y_sends [where y = y and q = ?q] assms by simp
  obtain x' where "receive_segments x ?q = Inr x'" "bm_net rx ry W x' N ?y out" "out_ended x' = out_ended x"
    using x_receives [OF net bm_net_good(4) [OF assms]] by blast
  then show ?thesis by (intro that [of ?y x']) (simp_all add: move_segments_def take_segments_eq)
qed

lemma x_ticks:
  assumes "bm_net rx ry W x N y out"
  obtains x' where "TCPConnection_tick x ms = Inr x'" and "bm_net rx ry W x' N y out" and "out_ended x' = out_ended x"
proof -
  obtain x' where x': "TCPConnection_tick x ms = Inr x'" by (rule tick_conn_ok [OF bm_net_good(1) [OF assms]])
  moreover have "bm_net rx ry W x' N y out"
    by (rule bm_net_x [OF assms ticks [OF x']]) (use assms in \<open>simp add: bm_net_def\<close>)
  ultimately show ?thesis using that tick_conn_frame(1) by blast
qed

lemma y_ticks:
  assumes "bm_net rx ry W x N y out"
  obtains y' where "TCPConnection_tick y ms = Inr y'" and "bm_net rx ry W x N y' out"
proof -
  obtain y' where y': "TCPConnection_tick y ms = Inr y'" by (rule tick_conn_ok [OF bm_net_good(2) [OF assms]])
  with bm_net_y [OF assms ticks [OF y']] that show ?thesis by simp
qed

lemma x_ends:
  assumes "bm_net rx ry W x N y out"
  obtains x' where "TCPConnection_end_input_stream x = Inr x'" and "bm_net rx ry W x' N y out"
proof -
  obtain x' where x': "TCPConnection_end_input_stream x = Inr x'" by (rule end_input_stream_ok [OF bm_net_good(1) [OF assms]])
  moreover have "bm_net rx ry W x' N y out"
    by (rule bm_net_x [OF assms ends [OF x']]) (use assms in \<open>simp add: bm_net_def\<close>)
  ultimately show ?thesis using that by blast
qed


lemma write_chunk_ok:
  assumes "bm_net rx ry W x N y out" and "\<not> out_ended x" and "Buffer_wf b" and "length (W @ Buffer_str b) + 2 < 2 ^ 31"
    and "Buffer_size b \<noteq> 0" and "TCPConnection_remaining_outbound_capacity x \<noteq> 0"
  obtains x' b' W' where "write_chunk x b = Inr (x', b')" and "bm_net rx ry W' x' N y out" and "\<not> out_ended x'" and "Buffer_wf b'"
    and "W' @ Buffer_str b' = W @ Buffer_str b" and "length (Buffer_str b') < length (Buffer_str b)"
proof -
  let ?want = "min (TCPConnection_remaining_outbound_capacity x) (Buffer_size b)" and ?str = "Buffer_str b"
  let ?d = "take (unat ?want) ?str"
  have good: "conn_good W x" by (rule bm_net_good(1) [OF assms(1)])
  have size: "unat (Buffer_size b) = length ?str" by (rule unat_Buffer_size [OF assms(3)])
  have le: "unat ?want \<le> length ?str" "unat ?want \<le> unat (TCPConnection_remaining_outbound_capacity x)"
    using size by (simp_all add: min_def word_le_nat_alt)
  have pos: "0 < unat ?want" using assms(5,6) by (auto simp: min_def unat_gt_0)
  have lim: "length W + length ?d + 2 ^ 33 < two64" using assms(4) by (simp add: two64_def)
  have op: "\<not> ByteStream_input_ended (ts_stream (cn_sender x))" using assms(2) by (simp add: ByteStream_input_ended_def)
  obtain x' n where w: "TCPConnection_write x ?d = Inr (x', n)"
    and n: "unat n = min (length ?d) (unat (TCPConnection_remaining_outbound_capacity x))"
    by (rule write_amount [OF good op lim])
  have n: "n = ?want" using n le by (intro word_unat_eq_iff [THEN iffD2]) simp
  obtain b' where b': "Buffer_remove_prefix b ?want = Inr b'" "Buffer_wf b'" "Buffer_str b' = drop (unat ?want) ?str"
    using Buffer_remove_prefix_ok [OF assms(3), of ?want] le(1) by auto
  have "bm_net rx ry (W @ take (unat n) ?d) x' N y out"
    by (rule bm_net_x [OF assms(1) writes [OF op lim w]]) (use assms(4) in simp)
  then have "bm_net rx ry (W @ ?d) x' N y out" by (simp add: n)
  moreover have "length (Buffer_str b') < length ?str" using pos le(1) unfolding b'(3) length_drop by linarith
  ultimately show ?thesis
    using that [of x' b' "W @ ?d"] w b' write_frame(1) [OF good assms(2) lim w] by (simp add: write_chunk_def n)
qed

lemma write_input_ok:
  assumes "bm_net rx ry W x N y out" and "\<not> out_ended x" and "Buffer_wf b" and "length (W @ Buffer_str b) + 2 < 2 ^ 31"
  shows "\<exists>x' b' W'. write_input x b = Some (Inr (x', b')) \<and> bm_net rx ry W' x' N y out \<and> \<not> out_ended x' \<and> Buffer_wf b'
    \<and> W' @ Buffer_str b' = W @ Buffer_str b"
  using assms
proof (induction "length (Buffer_str b)" arbitrary: W x b rule: less_induct)
  case less
  show ?case
  proof (cases "Buffer_size b \<noteq> 0 \<and> TCPConnection_remaining_outbound_capacity x \<noteq> 0")
    case True
    obtain x1 b1 W1 where c: "write_chunk x b = Inr (x1, b1)" "bm_net rx ry W1 x1 N y out" "\<not> out_ended x1" "Buffer_wf b1"
      and eq: "W1 @ Buffer_str b1 = W @ Buffer_str b" and lt: "length (Buffer_str b1) < length (Buffer_str b)"
      using write_chunk_ok [OF less.prems] True by blast
    have "write_input x b = write_input x1 b1" using True c(1) by (subst write_input.simps) simp
    with less.hyps [OF lt c(2-4)] less.prems(4) eq show ?thesis by simp
  next
    case False
    then have "write_input x b = Some (Inr (x, b))" by (subst write_input.simps) auto
    with less.prems show ?thesis by blast
  qed
qed

lemma read_output_ok:
  assumes "bm_net rx ry W x N y out"
  obtains y' d where "read_output y out = Inr (y', out @ d)" and "bm_net rx ry W x N y' (out @ d)"
proof -
  let ?st = "TCPConnection_inbound_stream y"
  have inv: "net_inv W x N [] y out" and good: "conn_good [] y"
    by (rule bm_net_inv [OF assms], rule bm_net_good(2) [OF assms])
  have bs: "ByteStream_inv ?st"
    using good by (simp add: conn_inv_def conn_pre_def rv_small_def ra_wf_def out_wf_def TCPConnection_inbound_stream_def
        TCPReceiver_stream_out_def StreamReassembler_stream_out_def)
  obtain st d where r: "ByteStream_read ?st (ByteStream_buffer_size ?st) = Inr (st, d)"
    and d: "length d \<le> length (ByteStream_contents ?st)"
    by (rule ByteStream_read_law [OF bs, of "ByteStream_buffer_size ?st"]) simp
  have "length out + length d \<le> length W"
    using arg_cong [OF net_inv_prefix [OF inv], of length] d by simp
  moreover have "unat (in_read y) = length out" "unat (cf_recv_capacity (cn_cfg y)) + 2 ^ 34 < two64"
    using inv by (simp_all add: net_inv_def ra_pos_def)
  ultimately have lim: "unat (cf_recv_capacity (cn_cfg y)) + unat (bs_byte_read st) + 2 ^ 33 < two64"
    using read_position [OF good r] assms by (simp add: bm_net_def)
  show ?thesis
  proof (cases "ByteStream_buffer_size ?st > 0")
    case True
    with bm_net_y [OF assms reads [OF r lim]] that r show ?thesis by (simp add: read_output_def)
  next
    case False
    with that [of y "[]"] assms show ?thesis by (simp add: read_output_def)
  qed
qed

text \<open>The invariant of \<^verbatim>\<open>loop\<close>: what has been written and what is still to be written make up the string.\<close>

definition bm_inv :: "u32 \<Rightarrow> u32 \<Rightarrow> bytes \<Rightarrow> Benchmark \<Rightarrow> bool" where
  "bm_inv rx ry S s \<longleftrightarrow> (\<exists>W N. bm_net rx ry W (bm_x s) N (bm_y s) (bm_string_received s) \<and> W @ Buffer_str (bm_bytes_to_send s) = S)
     \<and> Buffer_wf (bm_bytes_to_send s) \<and> length S + 2 < 2 ^ 31
     \<and> (if bm_x_closed s then Buffer_size (bm_bytes_to_send s) = 0 else \<not> out_ended (bm_x s))"

lemma bm_loop_ok:
  assumes "bm_inv rx ry S s"
  obtains s' d where "bm_loop reorder s = Inr s'" and "bm_inv rx ry S s'" and "bm_string_received s' = bm_string_received s @ d"
proof -
  obtain W N where net: "bm_net rx ry W (bm_x s) N (bm_y s) (bm_string_received s)"
    and S: "W @ Buffer_str (bm_bytes_to_send s) = S" and wf: "Buffer_wf (bm_bytes_to_send s)" "length S + 2 < 2 ^ 31"
    and op: "if bm_x_closed s then Buffer_size (bm_bytes_to_send s) = 0 else \<not> out_ended (bm_x s)"
    using assms unfolding bm_inv_def by blast
  obtain x1 b1 W1 where w: "write_input (bm_x s) (bm_bytes_to_send s) = Some (Inr (x1, b1))"
    "bm_net rx ry W1 x1 N (bm_y s) (bm_string_received s)" "W1 @ Buffer_str b1 = S" "Buffer_wf b1"
    "if bm_x_closed s then Buffer_size b1 = 0 else \<not> out_ended x1"
  proof (cases "bm_x_closed s")
    case True
    then have "write_input (bm_x s) (bm_bytes_to_send s) = Some (Inr (bm_x s, bm_bytes_to_send s))"
      using op by (subst write_input.simps) simp
    with that net S wf op show ?thesis by blast
  next
    case False
    have "length (W @ Buffer_str (bm_bytes_to_send s)) + 2 < 2 ^ 31" using S wf(2) by simp
    with write_input_ok [OF net _ wf(1) this] False op S that show ?thesis by auto
  qed
  obtain x2 c2 where e: "(if Buffer_size b1 = 0 \<and> \<not> bm_x_closed s
       then bindE (TCPConnection_end_input_stream x1) (\<lambda>x. Inr (x, True)) else Inr (x1, bm_x_closed s)) = Inr (x2, c2)"
    "bm_net rx ry W1 x2 N (bm_y s) (bm_string_received s)" "if c2 then Buffer_size b1 = 0 else \<not> out_ended x2"
  proof (cases "Buffer_size b1 = 0 \<and> \<not> bm_x_closed s")
    case True
    obtain x' where "TCPConnection_end_input_stream x1 = Inr x'" "bm_net rx ry W1 x' N (bm_y s) (bm_string_received s)"
      by (rule x_ends [OF w(2)])
    with True that [of x' True] show ?thesis by simp
  next
    case False
    with that [of x1 "bm_x_closed s"] w show ?thesis by auto
  qed
  obtain x3 y3 N3 where m: "move_segments x2 (bm_y s) reorder = Inr (x3, y3)"
    "bm_net rx ry W1 x3 N3 y3 (bm_string_received s)" "out_ended x3 = out_ended x2"
    by (rule move_to_y [OF e(2)])
  obtain x4 y4 where m': "move_segments y3 x3 False = Inr (y4, x4)"
    "bm_net rx ry W1 x4 N3 y4 (bm_string_received s)" "out_ended x4 = out_ended x3"
    by (rule move_to_x [OF m(2)])
  obtain y5 d where r: "read_output y4 (bm_string_received s) = Inr (y5, bm_string_received s @ d)"
    "bm_net rx ry W1 x4 N3 y5 (bm_string_received s @ d)"
    by (rule read_output_ok [OF m'(2)])
  obtain x6 where t: "TCPConnection_tick x4 1000 = Inr x6" "bm_net rx ry W1 x6 N3 y5 (bm_string_received s @ d)"
    "out_ended x6 = out_ended x4"
    by (rule x_ticks [OF r(2)])
  obtain y6 where t': "TCPConnection_tick y5 1000 = Inr y6" "bm_net rx ry W1 x6 N3 y6 (bm_string_received s @ d)"
    by (rule y_ticks [OF t(2)])
  let ?s = "\<lparr>bm_x = x6, bm_y = y6, bm_bytes_to_send = b1, bm_x_closed = c2, bm_string_received = bm_string_received s @ d\<rparr>"
  have "bm_loop reorder s = Inr ?s"
    unfolding bm_loop_def w(1) option.case bindE_simps prod.case e(1) m(1) m'(1) r(1) t(1) t'(1) ..
  moreover have "bm_inv rx ry S ?s"
    using t'(2) w(3,4) wf(2) e(3) m(3) m'(3) t(3) unfolding bm_inv_def by auto
  ultimately show ?thesis using that by auto
qed


lemma bm_while_ok:
  assumes "bm_inv rx ry S s" and "bm_while condition reorder n s = Some r"
  shows "\<exists>s' d. r = Inr s' \<and> bm_inv rx ry S s' \<and> \<not> condition s' \<and> bm_string_received s' = bm_string_received s @ d"
  using assms
proof (induction n arbitrary: s)
  case 0
  then show ?case by (auto split: if_splits)
next
  case (Suc n)
  obtain s1 d where s1: "bm_loop reorder s = Inr s1" "bm_inv rx ry S s1" "bm_string_received s1 = bm_string_received s @ d"
    by (rule bm_loop_ok [OF Suc.prems(1)])
  show ?case
  proof (cases "condition s")
    case True
    then have "bm_while condition reorder n s1 = Some r" using Suc.prems(2) s1(1) by (simp add: bm_while.simps [of _ _ "Suc n"])
    from Suc.IH [OF s1(2) this] s1(3) show ?thesis by auto
  next
    case False
    then have "r = Inr s" using Suc.prems(2) by (simp add: bm_while.simps [of _ _ "Suc n"])
    with False Suc.prems(1) show ?thesis by auto
  qed
qed

lemma bm_start_ok:
  assumes "length S + 2 < 2 ^ 31"
  obtains s where "bm_start rx ry S = Inr s" and "bm_inv rx ry S s" and "bm_string_received s = []"
proof -
  let ?x = "TCPConnection_new TCPConfig_default rx" and ?y = "TCPConnection_new TCPConfig_default ry"
  have net: "bm_net rx ry [] ?x {} ?y []" by (simp add: bm_net_def net_start)
  obtain x where x: "TCPConnection_connect ?x = Inr x" by (rule connect_ok [OF bm_net_good(1) [OF net]])
  obtain y where y: "TCPConnection_end_input_stream ?y = Inr y" by (rule end_input_stream_ok [OF bm_net_good(2) [OF net]])
  have "bm_net rx ry [] x {} ?y []" by (rule bm_net_x [OF net connects [OF x]]) simp
  from bm_net_y [OF this ends [OF y]] have "bm_net rx ry [] x {} y []" by simp
  moreover have "\<not> out_ended ?x" by (simp add: TCPConnection_new_def TCPSender_new_def ByteStream_new_def)
  then have "\<not> out_ended x" using connect_frame(1) [OF bm_net_good(1) [OF net] x] by simp
  ultimately show ?thesis
    using that assms x y by (auto simp: bm_start_def bm_inv_def two64_def)
qed

lemma bm_inv_prefix:
  assumes "bm_inv rx ry S s"
  obtains rest where "S = bm_string_received s @ ByteStream_contents (TCPConnection_inbound_stream (bm_y s)) @ rest"
proof -
  obtain W N where net: "net_inv W (bm_x s) N [] (bm_y s) (bm_string_received s)" and S: "W @ Buffer_str (bm_bytes_to_send s) = S"
    using assms bm_net_inv unfolding bm_inv_def by blast
  have "\<exists>rest. W = (bm_string_received s @ ByteStream_contents (TCPConnection_inbound_stream (bm_y s))) @ rest"
    unfolding net_inv_prefix [OF net] by (metis append_take_drop_id)
  with S that show ?thesis by fastforce
qed

lemma bm_rounds_ok:
  assumes "length S + 2 < 2 ^ 31"
  obtains s where "((\<lambda>r. bindE r (bm_loop reorder)) ^^ n) (bm_start rx ry S) = Inr s" and "bm_inv rx ry S s"
proof (induction n arbitrary: thesis)
  case 0
  obtain s where "bm_start rx ry S = Inr s" "bm_inv rx ry S s" by (rule bm_start_ok [OF assms])
  with 0 show ?case by simp
next
  case (Suc n)
  obtain s where s: "((\<lambda>r. bindE r (bm_loop reorder)) ^^ n) (bm_start rx ry S) = Inr s" "bm_inv rx ry S s" by (rule Suc.IH)
  obtain s' where "bm_loop reorder s = Inr s'" "bm_inv rx ry S s'" by (rule bm_loop_ok [OF s(2)])
  with Suc.prems s(1) show ?case by simp
qed

lemma main_loop_results:
  assumes "length S + 2 < 2 ^ 31" and "main_loop reorder n rx ry S = Some r"
  shows "r = Inl strings_differ
    \<or> (\<exists>s. r = Inr s \<and> bm_string_received s = S \<and> \<not> TCPConnection_active (bm_x s) \<and> \<not> TCPConnection_active (bm_y s))"
proof -
  let ?reading = "\<lambda>s. \<not> ByteStream_eof (TCPConnection_inbound_stream (bm_y s))"
  let ?closing = "\<lambda>s. TCPConnection_active (bm_x s) \<or> TCPConnection_active (bm_y s)"
  obtain s0 where s0: "bm_start rx ry S = Inr s0" "bm_inv rx ry S s0" by (rule bm_start_ok [OF assms(1)])
  obtain r1 where r1: "bm_while ?reading reorder n s0 = Some r1"
    using assms(2) s0(1) by (cases "bm_while ?reading reorder n s0") (simp_all add: main_loop_def del: bm_while.simps)
  from bm_while_ok [OF s0(2) this] obtain s1 where s1: "r1 = Inr s1" "bm_inv rx ry S s1" by blast
  show ?thesis
  proof (cases "bm_string_received s1 = S")
    case True
    then have "bm_while ?closing reorder n s1 = Some r"
      using assms(2) s0(1) r1 s1(1) by (simp add: main_loop_def del: bm_while.simps)
    from bm_while_ok [OF s1(2) this] obtain s d where s: "r = Inr s" "bm_inv rx ry S s" "\<not> ?closing s" "bm_string_received s = S @ d"
      using True by auto
    obtain rest where "S = bm_string_received s @ ByteStream_contents (TCPConnection_inbound_stream (bm_y s)) @ rest"
      by (rule bm_inv_prefix [OF s(2)])
    then have "d = []" using s(4) by simp
    with s show ?thesis by simp
  next
    case False
    then show ?thesis using assms(2) s0(1) r1 s1(1) by (simp add: main_loop_def del: bm_while.simps)
  qed
qed

section \<open>The property\<close>

text \<open>
  C14: Every round of the benchmark is a run of two endpoints over a network, with either order of delivery and any initial
  sequence numbers.  After any number of rounds no call has thrown, and what has been received, followed by what can be read
  next, is the beginning of the string (of up to 2^31 - 3 bytes).  If \<^verbatim>\<open>main_loop\<close> ends, it either reports that the strings
  differ, or the whole string has arrived and neither connection is active any more.
\<close>

theorem benchmark_delivers:
  assumes "length S + 2 < 2 ^ 31"
  shows "(\<exists>s rest. ((\<lambda>r. bindE r (bm_loop reorder)) ^^ n) (bm_start rx ry S) = Inr s
        \<and> S = bm_string_received s @ ByteStream_contents (TCPConnection_inbound_stream (bm_y s)) @ rest)
     \<and> (main_loop reorder n rx ry S = None \<or> main_loop reorder n rx ry S = Some (Inl strings_differ)
        \<or> (\<exists>s. main_loop reorder n rx ry S = Some (Inr s) \<and> bm_string_received s = S
             \<and> \<not> TCPConnection_active (bm_x s) \<and> \<not> TCPConnection_active (bm_y s)))"
proof
  obtain s where s: "((\<lambda>r. bindE r (bm_loop reorder)) ^^ n) (bm_start rx ry S) = Inr s" "bm_inv rx ry S s"
    by (rule bm_rounds_ok [OF assms])
  with bm_inv_prefix [OF s(2)] show "\<exists>s rest. ((\<lambda>r. bindE r (bm_loop reorder)) ^^ n) (bm_start rx ry S) = Inr s
    \<and> S = bm_string_received s @ ByteStream_contents (TCPConnection_inbound_stream (bm_y s)) @ rest" by metis
qed (use main_loop_results [OF assms] in \<open>cases "main_loop reorder n rx ry S"; auto\<close>)

lemma benchmark_run:
  "case main_loop True 12 7 9 [1, 2, 3] of None \<Rightarrow> False | Some (Inl e) \<Rightarrow> False | Some (Inr s) \<Rightarrow> True"
  by code_simp

theorem benchmark_delivers_witness:
  "\<exists>s. main_loop True 12 7 9 [1, 2, 3] = Some (Inr s) \<and> bm_string_received s = [1, 2, 3]
     \<and> \<not> TCPConnection_active (bm_x s) \<and> \<not> TCPConnection_active (bm_y s)"
  using benchmark_delivers [where S = "[1, 2, 3]" and reorder = True and n = 12 and rx = 7 and ry = 9] benchmark_run by (auto split: option.splits sum.splits)

end
