(* ===== verification/File_Descriptor.thy ===== *)
theory File_Descriptor
  imports Buffers
begin

text \<open>
  \<^verbatim>\<open>libsponge/util/file_descriptor.hh\<close>, \<^verbatim>\<open>file_descriptor.cc\<close> and the \<^verbatim>\<open>SystemCall\<close> wrapper of
  \<^verbatim>\<open>util.cc\<close>.  The operating system is not part of the sources: its state is a type \<open>'k\<close> of which
  nothing is known, and its calls are the functions of a record that every operation takes as an argument.
  What a theorem relies on is stated as a hypothesis about those functions.
\<close>

section \<open>The operating system\<close>

text \<open>
  A system call returns its return value, \<^verbatim>\<open>errno\<close> and what it wrote into the memory of the caller.
  Socket addresses are the bytes of a \<^verbatim>\<open>sockaddr\<close>.
\<close>

record 'k os =
  os_close :: "int \<Rightarrow> 'k \<Rightarrow> (int \<times> int) \<times> 'k"
  os_read :: "int \<Rightarrow> u64 \<Rightarrow> 'k \<Rightarrow> (int \<times> int \<times> bytes) \<times> 'k"
  os_writev :: "int \<Rightarrow> (bytes \<times> u64) list \<Rightarrow> 'k \<Rightarrow> (int \<times> int) \<times> 'k"
  os_fcntl :: "int \<Rightarrow> int \<Rightarrow> int \<Rightarrow> 'k \<Rightarrow> (int \<times> int) \<times> 'k"
  os_poll :: "(int \<times> u16) list \<Rightarrow> int \<Rightarrow> 'k \<Rightarrow> (int \<times> int \<times> u16 list) \<times> 'k"
  os_socket :: "int \<Rightarrow> int \<Rightarrow> int \<Rightarrow> 'k \<Rightarrow> (int \<times> int) \<times> 'k"
  os_getsockopt :: "int \<Rightarrow> int \<Rightarrow> int \<Rightarrow> u32 \<Rightarrow> 'k \<Rightarrow> (int \<times> int \<times> int \<times> u32) \<times> 'k"
  os_setsockopt :: "int \<Rightarrow> int \<Rightarrow> int \<Rightarrow> int \<Rightarrow> 'k \<Rightarrow> (int \<times> int) \<times> 'k"
  os_getsockname :: "int \<Rightarrow> u32 \<Rightarrow> 'k \<Rightarrow> (int \<times> int \<times> bytes \<times> u32) \<times> 'k"
  os_getpeername :: "int \<Rightarrow> u32 \<Rightarrow> 'k \<Rightarrow> (int \<times> int \<times> bytes \<times> u32) \<times> 'k"
  os_bind :: "int \<Rightarrow> bytes \<Rightarrow> u32 \<Rightarrow> 'k \<Rightarrow> (int \<times> int) \<times> 'k"
  os_connect :: "int \<Rightarrow> bytes \<Rightarrow> u32 \<Rightarrow> 'k \<Rightarrow> (int \<times> int) \<times> 'k"
  os_listen :: "int \<Rightarrow> int \<Rightarrow> 'k \<Rightarrow> (int \<times> int) \<times> 'k"
  os_accept :: "int \<Rightarrow> 'k \<Rightarrow> (int \<times> int) \<times> 'k"
  os_shutdown :: "int \<Rightarrow> int \<Rightarrow> 'k \<Rightarrow> (int \<times> int) \<times> 'k"
  os_recvfrom :: "int \<Rightarrow> u64 \<Rightarrow> int \<Rightarrow> u32 \<Rightarrow> 'k \<Rightarrow> (int \<times> int \<times> bytes \<times> bytes \<times> u32) \<times> 'k"
  os_sendmsg :: "int \<Rightarrow> bytes option \<Rightarrow> u32 \<Rightarrow> (bytes \<times> u64) list \<Rightarrow> int \<Rightarrow> 'k \<Rightarrow> (int \<times> int) \<times> 'k"
  os_timestamp_ms :: "'k \<Rightarrow> u64 \<times> 'k"
  os_random :: "'k \<Rightarrow> u32 \<times> 'k"

section \<open>SystemCall\<close>

text \<open>The parameter of \<^verbatim>\<open>SystemCall\<close> is an \<^verbatim>\<open>int\<close>: a \<^verbatim>\<open>ssize_t\<close> is cut to 32 bits.\<close>

definition to_int :: "int \<Rightarrow> int" where
  "to_int x = signed_take_bit 31 x"

definition SystemCall :: "string \<Rightarrow> int \<Rightarrow> int \<Rightarrow> int \<Rightarrow> int result" where
  "SystemCall attempt return_value errno errno_mask =
     (if to_int return_value \<ge> 0 \<or> errno = errno_mask then Inr (to_int return_value)
      else Inl (Unix_error attempt errno))"

lemma to_int_bounds: "- (2 ^ 31) \<le> to_int x" "to_int x < 2 ^ 31"
  using signed_take_bit_int_greater_eq_minus_exp [of 31 x] signed_take_bit_int_less_exp [of 31 x]
  by (simp_all add: to_int_def)

lemma to_int_id: "- (2 ^ 31) \<le> x \<Longrightarrow> x < 2 ^ 31 \<Longrightarrow> to_int x = x"
  by (simp add: to_int_def signed_take_bit_int_eq_self)

lemma to_int_eqs [simp]: "to_int 0 = 0" "to_int (- 1) = - 1"
  by (simp_all add: to_int_def)

section \<open>FDWrapper and FileDescriptor\<close>

record FDWrapper =
  fd_fd :: int
  fd_eof :: bool
  fd_closed :: bool
  fd_read_count :: u32
  fd_write_count :: u32

text \<open>
  A \<^verbatim>\<open>FileDescriptor\<close> is a shared pointer to an \<^verbatim>\<open>FDWrapper\<close>: a number that names an object of the
  store \<open>wd_fds\<close>.  \<^verbatim>\<open>duplicate\<close> copies the pointer, so that both copies see the same flags and counts.
\<close>

type_synonym FileDescriptor = nat

record 'k world =
  wd_kernel :: 'k
  wd_fds :: "FileDescriptor \<Rightarrow> FDWrapper"

definition FDWrapper_new :: "int \<Rightarrow> FDWrapper result" where
  "FDWrapper_new fd =
     (if fd < 0 then Inl (Runtime_error (''invalid fd number:'' @ dec_int fd))
      else Inr \<lparr>fd_fd = fd, fd_eof = False, fd_closed = False, fd_read_count = 0, fd_write_count = 0\<rparr>)"

definition set_fd :: "FileDescriptor \<Rightarrow> (FDWrapper \<Rightarrow> FDWrapper) \<Rightarrow> 'k world \<Rightarrow> 'k world" where
  "set_fd f g w = w\<lparr>wd_fds := (wd_fds w)(f := g (wd_fds w f))\<rparr>"

text \<open>The constructor stores the new object under an unused name \<open>f\<close>.\<close>

definition FileDescriptor_new :: "FileDescriptor \<Rightarrow> int \<Rightarrow> 'k world \<Rightarrow> 'k world result" where
  "FileDescriptor_new f fd w = bindE (FDWrapper_new fd) (\<lambda>d. Inr (set_fd f (\<lambda>_. d) w))"

definition FileDescriptor_duplicate :: "FileDescriptor \<Rightarrow> FileDescriptor" where
  "FileDescriptor_duplicate f = f"

definition FileDescriptor_fd_num :: "'k world \<Rightarrow> FileDescriptor \<Rightarrow> int" where
  "FileDescriptor_fd_num w f = fd_fd (wd_fds w f)"

definition FileDescriptor_eof :: "'k world \<Rightarrow> FileDescriptor \<Rightarrow> bool" where
  "FileDescriptor_eof w f = fd_eof (wd_fds w f)"

definition FileDescriptor_closed :: "'k world \<Rightarrow> FileDescriptor \<Rightarrow> bool" where
  "FileDescriptor_closed w f = fd_closed (wd_fds w f)"

definition FileDescriptor_read_count :: "'k world \<Rightarrow> FileDescriptor \<Rightarrow> u32" where
  "FileDescriptor_read_count w f = fd_read_count (wd_fds w f)"

definition FileDescriptor_write_count :: "'k world \<Rightarrow> FileDescriptor \<Rightarrow> u32" where
  "FileDescriptor_write_count w f = fd_write_count (wd_fds w f)"

definition FileDescriptor_register_read :: "FileDescriptor \<Rightarrow> 'k world \<Rightarrow> 'k world" where
  "FileDescriptor_register_read f w = set_fd f (\<lambda>d. d\<lparr>fd_read_count := fd_read_count d + 1\<rparr>) w"

definition FileDescriptor_register_write :: "FileDescriptor \<Rightarrow> 'k world \<Rightarrow> 'k world" where
  "FileDescriptor_register_write f w = set_fd f (\<lambda>d. d\<lparr>fd_write_count := fd_write_count d + 1\<rparr>) w"

definition FileDescriptor_close :: "'k os \<Rightarrow> FileDescriptor \<Rightarrow> 'k world \<Rightarrow> 'k world result" where
  "FileDescriptor_close os f w =
     (let ((ret, errno), k) = os_close os (FileDescriptor_fd_num w f) (wd_kernel w) in
      bindE (SystemCall ''close'' ret errno 0) (\<lambda>_.
        Inr (set_fd f (\<lambda>d. d\<lparr>fd_eof := True, fd_closed := True\<rparr>) (w\<lparr>wd_kernel := k\<rparr>))))"

text \<open>The destructor, run when the last copy goes; it reports an exception of \<^verbatim>\<open>close\<close> and swallows it.\<close>

definition FDWrapper_destroy :: "'k os \<Rightarrow> FileDescriptor \<Rightarrow> 'k world \<Rightarrow> 'k world" where
  "FDWrapper_destroy os f w =
     (if FileDescriptor_closed w f then w
      else case FileDescriptor_close os f w of
        Inr w' \<Rightarrow> w'
      | Inl _ \<Rightarrow> w\<lparr>wd_kernel := snd (os_close os (FileDescriptor_fd_num w f) (wd_kernel w))\<rparr>)"

definition FileDescriptor_BUFFER_SIZE :: u64 where
  "FileDescriptor_BUFFER_SIZE = 1024 * 1024"

text \<open>
  \<^verbatim>\<open>read(str, limit)\<close>: the kernel overwrites the beginning of the resized string.  A negative size for
  \<^verbatim>\<open>resize\<close> exceeds \<^verbatim>\<open>max_size()\<close>.
\<close>

definition FileDescriptor_read_into
    :: "'k os \<Rightarrow> FileDescriptor \<Rightarrow> bytes \<Rightarrow> u64 \<Rightarrow> 'k world \<Rightarrow> (bytes \<times> 'k world) result" where
  "FileDescriptor_read_into os f str limit w =
     (let size_to_read = min FileDescriptor_BUFFER_SIZE limit;
          str = string_resize str size_to_read;
          ((ret, errno, data), k) = os_read os (FileDescriptor_fd_num w f) size_to_read (wd_kernel w) in
      bindE (SystemCall ''read'' ret errno 0) (\<lambda>bytes_read.
        let w = w\<lparr>wd_kernel := k\<rparr>;
            str = data @ drop (length data) str;
            w = (if limit > 0 \<and> bytes_read = 0 then set_fd f (\<lambda>d. d\<lparr>fd_eof := True\<rparr>) w else w) in
        if bytes_read > sint size_to_read then Inl (Runtime_error ''read() read more than requested'')
        else if bytes_read < 0 then Inl (Length_error ''basic_string::resize'')
        else Inr (string_resize str (of_int bytes_read), FileDescriptor_register_read f w)))"

definition FileDescriptor_read :: "'k os \<Rightarrow> FileDescriptor \<Rightarrow> u64 \<Rightarrow> 'k world \<Rightarrow> (bytes \<times> 'k world) result" where
  "FileDescriptor_read os f limit w = FileDescriptor_read_into os f [] limit w"

text \<open>\<^verbatim>\<open>flags ^= (flags & O_NONBLOCK)\<close> or \<^verbatim>\<open>flags |= O_NONBLOCK\<close>.\<close>

definition set_blocking_flags :: "int \<Rightarrow> bool \<Rightarrow> int" where
  "set_blocking_flags flags blocking_state =
     (if blocking_state then flags XOR (flags AND 0x800) else flags OR 0x800)"

definition FileDescriptor_set_blocking :: "'k os \<Rightarrow> FileDescriptor \<Rightarrow> bool \<Rightarrow> 'k world \<Rightarrow> 'k world result" where
  "FileDescriptor_set_blocking os f blocking_state w =
     (let F_GETFL = 3; F_SETFL = 4;
          ((ret, errno), k) = os_fcntl os (FileDescriptor_fd_num w f) F_GETFL 0 (wd_kernel w) in
      bindE (SystemCall ''fcntl'' ret errno 0) (\<lambda>flags.
        let ((ret, errno), k) =
              os_fcntl os (FileDescriptor_fd_num w f) F_SETFL (set_blocking_flags flags blocking_state) k in
        bindE (SystemCall ''fcntl'' ret errno 0) (\<lambda>_. Inr (w\<lparr>wd_kernel := k\<rparr>))))"

section \<open>Writing\<close>

text \<open>
  The loop of \<^verbatim>\<open>write\<close>.  It ends because every round either shortens the list of views or their contents:
  a round that wrote nothing is an exception unless nothing was left.
\<close>

definition views_measure :: "bytes list \<Rightarrow> nat" where
  "views_measure vs = sum_list (map (\<lambda>v. Suc (length v)) vs)"

lemma views_measure_remove:
  assumes "remove_prefix_loop size64 string_view_remove_prefix e n vs = Inr vs'"
  shows "n = 0 \<and> vs' = vs \<or> n \<noteq> 0 \<and> views_measure vs' < views_measure vs"
  using assms
proof (induction vs arbitrary: n vs')
  case Nil
  then show ?case by (auto split: if_splits simp: word_gt_0)
next
  case (Cons v vs)
  show ?case
  proof (cases "n = 0")
    case False
    then have n: "n > 0" "0 < unat n" by (simp_all add: word_gt_0 unat_gt_0)
    show ?thesis
    proof (cases "n < size64 v")
      case True
      then have "v \<noteq> []" by auto
      then show ?thesis using True n Cons.prems
        by (auto simp: string_view_remove_prefix_def views_measure_def bindE_Inr_iff split: if_splits)
    next
      case False
      then have "remove_prefix_loop size64 string_view_remove_prefix e (n - size64 v) vs = Inr vs'"
        using n Cons.prems by simp
      from Cons.IH [OF this] show ?thesis using n by (auto simp: views_measure_def word_gt_0)
    qed
  qed (use Cons.prems in simp)
qed

lemma of_int_eq_0_64: "- (2 ^ 31) \<le> i \<Longrightarrow> i < 2 ^ 31 \<Longrightarrow> (of_int i :: u64) = 0 \<Longrightarrow> i = 0"
  by (auto simp: word_of_int_eq_0_iff)

lemma SystemCall_bounds: "SystemCall a ret errno okay = Inr n \<Longrightarrow> - (2 ^ 31) \<le> n \<and> n < 2 ^ 31"
  using to_int_bounds [of ret] by (auto simp: SystemCall_def split: if_splits)

lemma write_round_decreases:
  assumes "SystemCall a ret errno okay = Inr n" and "\<not> (n = 0 \<and> BufferViewList_size b \<noteq> 0)"
    and "BufferViewList_remove_prefix b (of_int n) = Inr b'" and "BufferViewList_size b' \<noteq> 0"
  shows "views_measure (bv_views b') < views_measure (bv_views b)"
proof -
  have "of_int n = (0 :: u64) \<and> b' = b \<or> views_measure (bv_views b') < views_measure (bv_views b)"
    using assms(3) views_measure_remove by (fastforce simp: BufferViewList_remove_prefix_def bindE_Inr_iff)
  moreover have "of_int n \<noteq> (0 :: u64)" if "b' = b"
    using that assms(2,4) of_int_eq_0_64 [of n] SystemCall_bounds [OF assms(1)] by auto
  ultimately show ?thesis by blast
qed

function FileDescriptor_write_loop
    :: "'k os \<Rightarrow> FileDescriptor \<Rightarrow> bool \<Rightarrow> BufferViewList \<Rightarrow> u64 \<Rightarrow> 'k world \<Rightarrow> (u64 \<times> 'k world) result" where
  "FileDescriptor_write_loop os f write_all buffer total_bytes_written w =
     (let iovecs = BufferViewList_as_iovecs buffer;
          ((ret, errno), k) = os_writev os (FileDescriptor_fd_num w f) iovecs (wd_kernel w) in
      bindE (SystemCall ''writev'' ret errno 0) (\<lambda>bytes_written.
        if bytes_written = 0 \<and> BufferViewList_size buffer \<noteq> 0
        then Inl (Runtime_error ''write returned 0 given non-empty input buffer'')
        else if bytes_written > sint (BufferViewList_size buffer)
        then Inl (Runtime_error ''write wrote more than length of input buffer'')
        else
          let w = FileDescriptor_register_write f (w\<lparr>wd_kernel := k\<rparr>) in
          bindE (BufferViewList_remove_prefix buffer (of_int bytes_written)) (\<lambda>buffer.
            let total_bytes_written = total_bytes_written + of_int bytes_written in
            if write_all \<and> BufferViewList_size buffer \<noteq> 0
            then FileDescriptor_write_loop os f write_all buffer total_bytes_written w
            else Inr (total_bytes_written, w))))"
  by pat_completeness auto
termination
  by (relation "measure (\<lambda>(os, f, write_all, buffer, acc, w). views_measure (bv_views buffer))")
    (auto intro: write_round_decreases)

declare FileDescriptor_write_loop.simps [simp del]

definition FileDescriptor_write
    :: "'k os \<Rightarrow> FileDescriptor \<Rightarrow> BufferViewList \<Rightarrow> bool \<Rightarrow> 'k world \<Rightarrow> (u64 \<times> 'k world) result" where
  "FileDescriptor_write os f buffer write_all w = FileDescriptor_write_loop os f write_all buffer 0 w"

section \<open>Accessors after an operation\<close>

lemma set_fd_simps [simp]:
  "wd_kernel (set_fd f g w) = wd_kernel w" "wd_fds (set_fd f g w) f = g (wd_fds w f)"
  "f' \<noteq> f \<Longrightarrow> wd_fds (set_fd f g w) f' = wd_fds w f'"
  by (simp_all add: set_fd_def)

lemma register_simps [simp]:
  "wd_kernel (FileDescriptor_register_read f w) = wd_kernel w"
  "wd_kernel (FileDescriptor_register_write f w) = wd_kernel w"
  "fd_fd (wd_fds (FileDescriptor_register_read f w) f') = fd_fd (wd_fds w f')"
  "fd_fd (wd_fds (FileDescriptor_register_write f w) f') = fd_fd (wd_fds w f')"
  "fd_eof (wd_fds (FileDescriptor_register_read f w) f') = fd_eof (wd_fds w f')"
  "fd_eof (wd_fds (FileDescriptor_register_write f w) f') = fd_eof (wd_fds w f')"
  by (cases "f' = f"; simp add: FileDescriptor_register_read_def FileDescriptor_register_write_def)+

section \<open>What the calls promise\<close>

text \<open>
  \<^verbatim>\<open>writev(2)\<close> on descriptor \<open>fd\<close>, where \<open>sent k\<close> is everything the kernel has taken from that descriptor:
  it fails with a non-zero \<^verbatim>\<open>errno\<close> and takes nothing, or it takes as many bytes as it reports, at most all
  of them and less than 2 GiB.
\<close>

definition writev_law :: "'k os \<Rightarrow> int \<Rightarrow> ('k \<Rightarrow> bytes) \<Rightarrow> bool" where
  "writev_law os fd sent \<longleftrightarrow> (\<forall>iov k ret errno k'. os_writev os fd iov k = ((ret, errno), k') \<longrightarrow>
     (- (2 ^ 31) \<le> ret \<and> ret < 0 \<and> errno \<noteq> 0 \<and> sent k' = sent k)
     \<or> (0 \<le> ret \<and> ret < 2 ^ 31 \<and> ret \<le> int (length (concat (map fst iov)))
        \<and> sent k' = sent k @ take (nat ret) (concat (map fst iov))))"

lemma writev_law_cases:
  assumes "writev_law os fd sent" and "os_writev os fd iov k = ((ret, errno), k')"
  obtains "SystemCall a ret errno 0 = Inl (Unix_error a errno)"
  | n where "SystemCall a ret errno 0 = Inr (int n)" and "n < 2 ^ 31" and "n \<le> length (concat (map fst iov))"
    and "sent k' = sent k @ take n (concat (map fst iov))"
proof -
  from assms consider "- (2 ^ 31) \<le> ret" "ret < 0" "errno \<noteq> 0"
    | "0 \<le> ret" "ret < 2 ^ 31" "ret \<le> int (length (concat (map fst iov)))"
      "sent k' = sent k @ take (nat ret) (concat (map fst iov))"
    unfolding writev_law_def by blast
  then show ?thesis
  proof cases
    case 1
    then show ?thesis using that(1) to_int_id [of ret] by (simp add: SystemCall_def)
  next
    case 2
    then show ?thesis using that(2) [of "nat ret"] to_int_id [of ret] by (simp add: SystemCall_def nat_less_iff)
  qed
qed

text \<open>What \<^verbatim>\<open>write\<close> did: \<open>n\<close> bytes went to the kernel, and only the count of writes of \<open>f\<close> changed.\<close>

definition wrote :: "('k \<Rightarrow> bytes) \<Rightarrow> FileDescriptor \<Rightarrow> bytes \<Rightarrow> nat \<Rightarrow> 'k world \<Rightarrow> 'k world \<Rightarrow> bool" where
  "wrote sent f data n w w' \<longleftrightarrow> n \<le> length data \<and> sent (wd_kernel w') = sent (wd_kernel w) @ take n data
     \<and> (\<exists>c. wd_fds w' = (wd_fds w)(f := (wd_fds w f)\<lparr>fd_write_count := c\<rparr>))"

lemma wrote_more:
  assumes "wrote sent f data n w w'" and "wrote sent f (drop n data) m w' w''"
  shows "wrote sent f data (n + m) w w''"
  using assms by (auto simp: wrote_def take_add)

lemma write_loop_spec:
  assumes "writev_law os (FileDescriptor_fd_num w f) sent" and "list_all view_wf (bv_views buffer)"
    and "length (concat (bv_views buffer)) < 2 ^ 63"
  shows "case FileDescriptor_write_loop os f write_all buffer acc w of
      Inr (n, w') \<Rightarrow> (\<exists>m. n = acc + of_nat m \<and> wrote sent f (concat (bv_views buffer)) m w w'
        \<and> (write_all \<longrightarrow> m = length (concat (bv_views buffer))))
    | Inl e \<Rightarrow> (\<exists>errno. e = Unix_error ''writev'' errno)
        \<or> e = Runtime_error ''write returned 0 given non-empty input buffer''"
  using assms
proof (induction os f write_all buffer acc w rule: FileDescriptor_write_loop.induct)
  case (1 os f write_all buffer acc w)
  let ?fd = "FileDescriptor_fd_num w f" and ?data = "concat (bv_views buffer)"
  have iov: "concat (map fst (BufferViewList_as_iovecs buffer)) = ?data"
    by (simp add: BufferViewList_as_iovecs_def comp_def)
  have size: "BufferViewList_size buffer = size64 ?data" using 1(3) by (rule BufferViewList_size_concat)
  have "length ?data < two64" using 1(4) by (simp add: two64_def)
  then have usize: "unat (size64 ?data) = length ?data" by (rule unat_size64)
  have ssize: "sint (size64 ?data) = int (length ?data)"
    using 1(4) usize by (simp add: sint_uint uint_nat signed_take_bit_int_eq_self)
  obtain ret errno k where call: "os_writev os ?fd (BufferViewList_as_iovecs buffer) (wd_kernel w) = ((ret, errno), k)"
    by (metis surj_pair)
  show ?case
    using 1(2) call
  proof (cases rule: writev_law_cases [where a = "''writev''"])
    case 1
    then show ?thesis using call by (simp add: FileDescriptor_write_loop.simps [of os f])
  next
    case (2 n)
    let ?w = "FileDescriptor_register_write f (w\<lparr>wd_kernel := k\<rparr>)"
    have n: "n \<le> length ?data" "sent k = sent (wd_kernel w) @ take n ?data" "unat (of_nat n :: u64) = n"
      using 2 \<open>length ?data < two64\<close> by (simp_all add: iov unat_of_nat64)
    have step: "wrote sent f ?data n w ?w"
      using n by (auto simp: wrote_def FileDescriptor_register_write_def set_fd_def)
    obtain buffer' where b': "BufferViewList_remove_prefix buffer (of_nat n) = Inr buffer'"
      "list_all view_wf (bv_views buffer')" "concat (bv_views buffer') = drop n ?data"
      using BufferViewList_remove_prefix_spec [OF 1(3), of "of_nat n"] n(1,3) by auto
    consider (zero) "n = 0" "size64 ?data \<noteq> 0" | (last) "0 < n \<or> size64 ?data = 0" "\<not> (write_all \<and> BufferViewList_size buffer' \<noteq> 0)"
      | (more) "0 < n \<or> size64 ?data = 0" "write_all" "BufferViewList_size buffer' \<noteq> 0"
      by blast
    then show ?thesis
    proof cases
      case zero
      then show ?thesis using call 2(1) by (simp add: FileDescriptor_write_loop.simps [of os f] size)
    next
      case last
      have "length (drop n ?data) < two64" using \<open>length ?data < two64\<close> by simp
      from unat_size64 [OF this] have "write_all \<Longrightarrow> n = length ?data"
        using last(2) n(1) BufferViewList_size_concat [OF b'(2)] unfolding b'(3) by simp
      moreover have "FileDescriptor_write_loop os f write_all buffer acc w = Inr (acc + of_nat n, ?w)"
        using call 2(1) last n(1) b'(1) by (subst FileDescriptor_write_loop.simps) (auto simp: Let_def size ssize)
      ultimately show ?thesis using step by auto
    next
      case more
      have eq: "FileDescriptor_write_loop os f write_all buffer acc w
          = FileDescriptor_write_loop os f write_all buffer' (acc + of_nat n) ?w"
        using call 2(1) more n(1) b'(1) by (subst FileDescriptor_write_loop.simps) (auto simp: Let_def size ssize)
      have "writev_law os (FileDescriptor_fd_num ?w f) sent" "length (concat (bv_views buffer')) < 2 ^ 63"
        using 1(2,4) b'(3) by (simp_all add: FileDescriptor_fd_num_def)
      then have "case FileDescriptor_write_loop os f write_all buffer' (acc + of_int (int n)) ?w of
          Inr (r, w') \<Rightarrow> (\<exists>m. r = acc + of_int (int n) + of_nat m \<and> wrote sent f (concat (bv_views buffer')) m ?w w'
            \<and> (write_all \<longrightarrow> m = length (concat (bv_views buffer'))))
        | Inl e \<Rightarrow> (\<exists>errno. e = Unix_error ''writev'' errno)
            \<or> e = Runtime_error ''write returned 0 given non-empty input buffer''"
        using more b'(1,2) size ssize n(1) by (intro 1(1) [OF refl call [symmetric] refl refl 2(1) _ _ refl _ refl]) simp_all
      then show ?thesis
        unfolding eq b'(3) using wrote_more [OF step] n(1)
        by (auto simp: add.assoc split: sum.splits intro!: exI [of _ "n + _"])
    qed
  qed
qed

lemma write_spec:
  assumes "writev_law os (FileDescriptor_fd_num w f) sent" and "list_all view_wf (bv_views buffer)"
    and "length (concat (bv_views buffer)) < 2 ^ 63"
  shows "case FileDescriptor_write os f buffer write_all w of
      Inr (n, w') \<Rightarrow> wrote sent f (concat (bv_views buffer)) (unat n) w w'
        \<and> (write_all \<longrightarrow> unat n = length (concat (bv_views buffer)))
    | Inl e \<Rightarrow> (\<exists>errno. e = Unix_error ''writev'' errno)
        \<or> e = Runtime_error ''write returned 0 given non-empty input buffer''"
proof -
  have "unat (of_nat m :: u64) = m" if "m \<le> length (concat (bv_views buffer))" for m
    using that assms(3) by (simp add: unat_of_nat64 two64_def)
  then show ?thesis
    using write_loop_spec [OF assms, of 0 write_all]
    by (fastforce simp: FileDescriptor_write_def wrote_def split: sum.splits)
qed

text \<open>Without \<^verbatim>\<open>write_all\<close> there is a single \<^verbatim>\<open>writev\<close>.\<close>

lemma one_writev:
  assumes "FileDescriptor_write os f buffer False w = Inr (n, w')"
  shows "wd_kernel w' = snd (os_writev os (FileDescriptor_fd_num w f) (BufferViewList_as_iovecs buffer) (wd_kernel w))"
  using assms by (auto simp: FileDescriptor_write_def FileDescriptor_write_loop.simps [of os f] Let_def bindE_Inr_iff
    split: prod.splits if_splits)

text \<open>
  \<^verbatim>\<open>read(2)\<close>: it fails with a non-zero \<^verbatim>\<open>errno\<close>, or it returns the number of bytes it put into the
  buffer, at most as many as asked for.
\<close>

definition read_law :: "'k os \<Rightarrow> int \<Rightarrow> bool" where
  "read_law os fd \<longleftrightarrow> (\<forall>n k ret errno data k'. os_read os fd n k = ((ret, errno, data), k') \<longrightarrow>
     (- (2 ^ 31) \<le> ret \<and> ret < 0 \<and> errno \<noteq> 0) \<or> (ret = int (length data) \<and> length data \<le> unat n))"

lemma read_spec:
  assumes "read_law os (FileDescriptor_fd_num w f)"
  obtains errno where "FileDescriptor_read os f limit w = Inl (Unix_error ''read'' errno)"
  | data errno k where "FileDescriptor_read os f limit w = Inr (data, FileDescriptor_register_read f
      (if limit > 0 \<and> data = [] then set_fd f (\<lambda>d. d\<lparr>fd_eof := True\<rparr>) (w\<lparr>wd_kernel := k\<rparr>) else w\<lparr>wd_kernel := k\<rparr>))"
    and "os_read os (FileDescriptor_fd_num w f) (min FileDescriptor_BUFFER_SIZE limit) (wd_kernel w)
      = ((int (length data), errno, data), k)"
    and "length data \<le> unat limit"
proof -
  let ?n = "min FileDescriptor_BUFFER_SIZE limit"
  obtain ret errno data k where call: "os_read os (FileDescriptor_fd_num w f) ?n (wd_kernel w) = ((ret, errno, data), k)"
    by (metis surj_pair)
  with assms consider "- (2 ^ 31) \<le> ret" "ret < 0" "errno \<noteq> 0" | "ret = int (length data)" "length data \<le> unat ?n"
    unfolding read_law_def by blast
  then show ?thesis
  proof cases
    case 1
    then show ?thesis using that(1) call to_int_id [of ret]
      by (simp add: FileDescriptor_read_def FileDescriptor_read_into_def SystemCall_def Let_def)
  next
    case 2
    have n: "unat ?n \<le> 1048576" "unat ?n \<le> unat limit" by (simp_all add: FileDescriptor_BUFFER_SIZE_def)
    then have "length data \<le> 1048576" using 2(2) by linarith
    then have len: "length data < 2 ^ 31" by simp
    have sint: "sint ?n = int (unat ?n)"
      using n(1) unfolding sint_uint uint_nat by (intro signed_take_bit_int_eq_self) simp_all
    have call': "SystemCall ''read'' ret errno 0 = Inr (int (length data))"
      using 2(1) len to_int_id [of ret] by (simp add: SystemCall_def)
    have "unat (of_nat (length data) :: u64) = length data" using len by (simp add: unat_of_nat64 two64_def)
    then have "string_resize (data @ rest) (of_nat (length data)) = data" for rest
      by (simp add: string_resize_def)
    then have "FileDescriptor_read os f limit w = Inr (data, FileDescriptor_register_read f
      (if limit > 0 \<and> data = [] then set_fd f (\<lambda>d. d\<lparr>fd_eof := True\<rparr>) (w\<lparr>wd_kernel := k\<rparr>) else w\<lparr>wd_kernel := k\<rparr>))"
      using 2(2) call call' sint by (simp add: FileDescriptor_read_def FileDescriptor_read_into_def Let_def not_less)
    then show ?thesis using that(2) call 2 n(2) by simp
  qed
qed

section \<open>Properties\<close>

text \<open>
  C35: \<^verbatim>\<open>FileDescriptor::write\<close> returns for every list of buffers and every kernel that keeps to
  \<^verbatim>\<open>writev(2)\<close>, however small the pieces it takes.  The number it returns is the number of bytes the kernel
  took, which are the first ones, in order; with \<^verbatim>\<open>write_all\<close> they are all of them.  Nothing else changes
  but the count of writes.  The only exceptions are the error of \<^verbatim>\<open>writev\<close> and a \<^verbatim>\<open>writev\<close> that took nothing.
\<close>

theorem write_sends_prefix:
  assumes "writev_law os (FileDescriptor_fd_num w f) sent" and "list_all view_wf (bv_views buffer)"
    and "length (concat (bv_views buffer)) < 2 ^ 63"
  shows "case FileDescriptor_write os f buffer write_all w of
      Inr (n, w') \<Rightarrow> wrote sent f (concat (bv_views buffer)) (unat n) w w'
        \<and> (write_all \<longrightarrow> unat n = length (concat (bv_views buffer)))
    | Inl e \<Rightarrow> (\<exists>errno. e = Unix_error ''writev'' errno)
        \<or> e = Runtime_error ''write returned 0 given non-empty input buffer''"
  by (rule write_spec [OF assms])

definition no_os :: "'k os" where
  "no_os = (let ENOSYS = 38; err = (\<lambda>k. ((- 1, ENOSYS), k)) in
     \<lparr>os_close = (\<lambda>_. err), os_read = (\<lambda>_ _ k. ((- 1, ENOSYS, []), k)), os_writev = (\<lambda>_ _. err),
      os_fcntl = (\<lambda>_ _ _. err), os_poll = (\<lambda>_ _ k. ((- 1, ENOSYS, []), k)), os_socket = (\<lambda>_ _ _. err),
      os_getsockopt = (\<lambda>_ _ _ _ k. ((- 1, ENOSYS, 0, 0), k)), os_setsockopt = (\<lambda>_ _ _ _. err),
      os_getsockname = (\<lambda>_ _ k. ((- 1, ENOSYS, [], 0), k)), os_getpeername = (\<lambda>_ _ k. ((- 1, ENOSYS, [], 0), k)),
      os_bind = (\<lambda>_ _ _. err), os_connect = (\<lambda>_ _ _. err), os_listen = (\<lambda>_ _. err), os_accept = (\<lambda>_. err),
      os_shutdown = (\<lambda>_ _. err), os_recvfrom = (\<lambda>_ _ _ _ k. ((- 1, ENOSYS, [], [], 0), k)),
      os_sendmsg = (\<lambda>_ _ _ _ _. err), os_timestamp_ms = (\<lambda>k. (0, k)), os_random = (\<lambda>k. (0, k))\<rparr>)"

definition slow_os :: "bytes os" where
  "slow_os = no_os\<lparr>os_writev := (\<lambda>_ iov k. let d = take 2 (concat (map fst iov)) in ((int (length d), 0), k @ d))\<rparr>"

definition slow_world :: "bytes world" where
  "slow_world = \<lparr>wd_kernel = [9],
     wd_fds = (\<lambda>_. \<lparr>fd_fd = 3, fd_eof = False, fd_closed = False, fd_read_count = 0, fd_write_count = 0\<rparr>)\<rparr>"

lemma slow_os_law: "writev_law slow_os 3 (\<lambda>k. k)"
  by (auto simp: writev_law_def slow_os_def Let_def take_min_length min.commute)

lemma slow_write: "\<exists>w'. FileDescriptor_write slow_os 0 \<lparr>bv_views = [[1], [], [2, 3]]\<rparr> True slow_world = Inr (3, w')"
  by (simp add: FileDescriptor_write_def FileDescriptor_write_loop.simps slow_os_def slow_world_def Let_def SystemCall_def to_int_id
    BufferViewList_as_iovecs_def BufferViewList_size_def chunks_size_def BufferViewList_remove_prefix_def
    string_view_remove_prefix_def FileDescriptor_fd_num_def)

theorem write_sends_prefix_witness:
  "case FileDescriptor_write slow_os 0 \<lparr>bv_views = [[1], [], [2, 3]]\<rparr> True slow_world of
     Inr (n, w') \<Rightarrow> n = 3 \<and> wd_kernel w' = [9, 1, 2, 3] | Inl e \<Rightarrow> False"
proof -
  have "writev_law slow_os (FileDescriptor_fd_num slow_world 0) (\<lambda>k. k)"
    using slow_os_law by (simp add: FileDescriptor_fd_num_def slow_world_def)
  from write_sends_prefix [OF this, of "\<lparr>bv_views = [[1], [], [2, 3]]\<rparr>" True] slow_write show ?thesis
    by (auto simp: wrote_def view_wf_def two64_def slow_world_def)
qed

end
