(* ===== verification/Addresses.thy ===== *)
theory Addresses
  imports Net_Parser
begin

text \<open>
  \<^verbatim>\<open>libsponge/util/address.hh\<close> and \<^verbatim>\<open>address.cc\<close>: socket addresses.  An \<^verbatim>\<open>Address\<close> holds the bytes of a
  \<^verbatim>\<open>sockaddr_storage\<close> (128 bytes) and the number of them in use, in the layout of Linux on a
  little-endian machine.  The resolver functions of the C library are arguments.
\<close>

section \<open>The C library\<close>

text \<open>
  \<open>lc_getaddrinfo node service ai_flags ai_family\<close> gives the return value and the first entry of the
  result, a \<^verbatim>\<open>sockaddr\<close> and its length; \<open>lc_getnameinfo\<close> the return value, host and service strings;
  \<open>lc_inet_ntoa\<close> the text of an address given in host byte order.
\<close>

record libc =
  lc_getaddrinfo :: "string \<Rightarrow> string \<Rightarrow> int \<Rightarrow> int \<Rightarrow> int \<times> (bytes \<times> u32) option"
  lc_getnameinfo :: "bytes \<Rightarrow> u32 \<Rightarrow> int \<Rightarrow> int \<times> string \<times> string"
  lc_inet_ntoa :: "u32 \<Rightarrow> string"

definition AF_INET :: int where
  "AF_INET = 2"

definition AI_ALL :: int where
  "AI_ALL = 0x10"

definition AI_NUMERICHOST :: int where
  "AI_NUMERICHOST = 0x4"

definition AI_NUMERICSERV :: int where
  "AI_NUMERICSERV = 0x400"

definition NI_NUMERICHOST :: int where
  "NI_NUMERICHOST = 1"

definition NI_NUMERICSERV :: int where
  "NI_NUMERICSERV = 2"


text \<open>
  \<^verbatim>\<open>std::stoi\<close>: white space, an optional sign, then as many digits as there are.
\<close>

definition is_digit :: "char \<Rightarrow> bool" where
  "is_digit c \<longleftrightarrow> 48 \<le> (of_char c :: nat) \<and> (of_char c :: nat) \<le> 57"

definition is_space :: "char \<Rightarrow> bool" where
  "is_space c \<longleftrightarrow> (of_char c :: nat) = 32 \<or> 9 \<le> (of_char c :: nat) \<and> (of_char c :: nat) \<le> 13"

definition undec :: "string \<Rightarrow> nat" where
  "undec s = foldl (\<lambda>n c. 10 * n + (of_char c - 48)) 0 s"

definition stoi :: "string \<Rightarrow> int result" where
  "stoi s =
     (let s = dropWhile is_space s;
          negative = (s \<noteq> [] \<and> hd s = CHR ''-'');
          s = (if s \<noteq> [] \<and> (hd s = CHR ''-'' \<or> hd s = CHR ''+'') then tl s else s);
          ds = takeWhile is_digit s;
          n = (if negative then - int (undec ds) else int (undec ds)) in
      if ds = [] then Inl (Invalid_argument ''stoi'')
      else if n < - (2 ^ 31) \<or> n \<ge> 2 ^ 31 then Inl (Out_of_range ''stoi'')
      else Inr n)"

section \<open>Address\<close>

record Address =
  ad_size :: u32
  ad_storage :: bytes

definition sizeof_sockaddr_storage :: nat where
  "sizeof_sockaddr_storage = 128"

text \<open>
  \<^verbatim>\<open>Address(const sockaddr *, size_t)\<close>: \<open>addr\<close> is the memory behind the pointer.
\<close>

definition Address_of_sockaddr :: "bytes \<Rightarrow> u64 \<Rightarrow> Address result" where
  "Address_of_sockaddr addr sz =
     (if unat sz > sizeof_sockaddr_storage then Inl (Runtime_error ''invalid sockaddr size'')
      else if length addr < unat sz then Inl Undefined_behaviour
      else Inr \<lparr>ad_size = ucast sz,
                ad_storage = take (unat sz) addr @ replicate (sizeof_sockaddr_storage - unat sz) 0\<rparr>)"

definition make_hints :: "int \<Rightarrow> int \<Rightarrow> int \<times> int" where
  "make_hints ai_flags ai_family = (ai_flags, ai_family)"

definition Address_resolve :: "libc \<Rightarrow> string \<Rightarrow> string \<Rightarrow> int \<times> int \<Rightarrow> Address result" where
  "Address_resolve lc node service hints =
     (let (gai_ret, resolved_address) = lc_getaddrinfo lc node service (fst hints) (snd hints) in
      if gai_ret \<noteq> 0 then Inl (Gai_error (''getaddrinfo('' @ node @ '', '' @ service @ '')'') gai_ret)
      else case resolved_address of
        None \<Rightarrow> Inl (Runtime_error ''getaddrinfo returned successfully but with no results'')
      | Some (ai_addr, ai_addrlen) \<Rightarrow> Address_of_sockaddr ai_addr (ucast ai_addrlen))"

definition Address_of_hostname :: "libc \<Rightarrow> string \<Rightarrow> string \<Rightarrow> Address result" where
  "Address_of_hostname lc hostname service = Address_resolve lc hostname service (make_hints AI_ALL AF_INET)"

definition Address_of_ip :: "libc \<Rightarrow> string \<Rightarrow> u16 \<Rightarrow> Address result" where
  "Address_of_ip lc ip port =
     Address_resolve lc ip (dec_nat (unat port)) (make_hints (AI_NUMERICHOST OR AI_NUMERICSERV) AF_INET)"

definition Address_ip_port :: "libc \<Rightarrow> Address \<Rightarrow> (string \<times> u16) result" where
  "Address_ip_port lc a =
     (let (gni_ret, ip, port) = lc_getnameinfo lc (ad_storage a) (ad_size a) (NI_NUMERICHOST OR NI_NUMERICSERV) in
      if gni_ret \<noteq> 0 then Inl (Gai_error ''getnameinfo'' gni_ret)
      else bindE (stoi port) (\<lambda>n. Inr (ip, of_int n)))"

definition Address_ip :: "libc \<Rightarrow> Address \<Rightarrow> string result" where
  "Address_ip lc a = bindE (Address_ip_port lc a) (\<lambda>p. Inr (fst p))"

definition Address_port :: "libc \<Rightarrow> Address \<Rightarrow> u16 result" where
  "Address_port lc a = bindE (Address_ip_port lc a) (\<lambda>p. Inr (snd p))"

definition Address_to_string :: "libc \<Rightarrow> Address \<Rightarrow> string result" where
  "Address_to_string lc a =
     bindE (Address_ip_port lc a) (\<lambda>ip_and_port. Inr (fst ip_and_port @ '':'' @ dec_nat (unat (snd ip_and_port))))"

text \<open>
  A \<^verbatim>\<open>sockaddr_in\<close> is the family (in the byte order of the host), the port and the address (both in
  network byte order) and eight zero bytes.
\<close>

definition sockaddr_in :: "u32 \<Rightarrow> u16 \<Rightarrow> bytes" where
  "sockaddr_in ip port = [2, 0] @ NetUnparser_u16 [] port @ NetUnparser_u32 [] ip @ replicate 8 0"

definition Address_ipv4_numeric :: "Address \<Rightarrow> u32 result" where
  "Address_ipv4_numeric a =
     (if take 2 (ad_storage a) \<noteq> [2, 0] \<or> ad_size a \<noteq> 16
      then Inl (Runtime_error ''ipv4_numeric called on non-IPV4 address'')
      else Inr (field 4 4 (ad_storage a)))"

definition Address_from_ipv4_numeric :: "u32 \<Rightarrow> Address result" where
  "Address_from_ipv4_numeric ip_address = Address_of_sockaddr (sockaddr_in ip_address 0) 16"

definition Address_eq :: "Address \<Rightarrow> Address \<Rightarrow> bool" where
  "Address_eq a b \<longleftrightarrow> ad_size a = ad_size b
     \<and> take (unat (ad_size a)) (ad_storage a) = take (unat (ad_size a)) (ad_storage b)"

section \<open>Decimal numbers\<close>

lemma undec_dec_nat [simp]: "undec (dec_nat n) = n"
proof (induction n rule: dec_nat.induct)
  case (1 n)
  then show ?case by (subst dec_nat.simps) (auto simp: undec_def)
qed

lemma dec_nat_digits: "c \<in> set (dec_nat n) \<Longrightarrow> is_digit c"
proof (induction n rule: dec_nat.induct)
  case (1 n)
  then show ?case by (subst (asm) dec_nat.simps) (auto simp: is_digit_def split: if_splits)
qed

lemma dec_nat_nonempty [simp]: "dec_nat n \<noteq> []"
  by (subst dec_nat.simps) simp

lemma stoi_dec_nat:
  assumes "n < 2 ^ 31"
  shows "stoi (dec_nat n) = Inr (int n)"
proof -
  obtain c cs where dec: "dec_nat n = c # cs" by (cases "dec_nat n") auto
  then have c: "is_digit c" using dec_nat_digits [of c n] by simp
  then have "\<not> is_space c" "c \<noteq> CHR ''-''" "c \<noteq> CHR ''+''" by (auto simp: is_digit_def is_space_def)
  then have "dropWhile is_space (dec_nat n) = dec_nat n" "hd (dec_nat n) \<noteq> CHR ''-''" "hd (dec_nat n) \<noteq> CHR ''+''"
    using dec by simp_all
  moreover have "takeWhile is_digit (dec_nat n) = dec_nat n"
    using dec_nat_digits by (simp add: takeWhile_eq_all_conv)
  ultimately show ?thesis using assms by (simp add: stoi_def Let_def del: takeWhile_eq_all_conv)
qed

section \<open>IPv4 addresses\<close>

lemma length_sockaddr_in [simp]: "length (sockaddr_in ip port) = 16"
  by (simp add: sockaddr_in_def)

definition ipv4_Address :: "u32 \<Rightarrow> u16 \<Rightarrow> Address" where
  "ipv4_Address ip port = \<lparr>ad_size = 16, ad_storage = sockaddr_in ip port @ replicate 112 0\<rparr>"

lemma Address_of_sockaddr_in: "Address_of_sockaddr (sockaddr_in ip port) 16 = Inr (ipv4_Address ip port)"
  by (simp add: Address_of_sockaddr_def sizeof_sockaddr_storage_def ipv4_Address_def)

lemma field_sockaddr_in:
  "field 2 2 (sockaddr_in ip port @ rest) = port" "field 4 4 (sockaddr_in ip port @ rest) = ip"
  using field_skip [where 'a = 16, of "[2, 0]" 2 2 "NetUnparser_u16 [] port @ NetUnparser_u32 [] ip @ replicate 8 0 @ rest"]
    field_skip [where 'a = 32, of "[2, 0] @ NetUnparser_u16 [] port" 4 4 "NetUnparser_u32 [] ip @ replicate 8 0 @ rest"]
  by (simp_all add: sockaddr_in_def)

lemma ipv4_numeric_Address [simp]: "Address_ipv4_numeric (ipv4_Address ip port) = Inr ip"
  by (simp add: Address_ipv4_numeric_def ipv4_Address_def field_sockaddr_in) (simp add: sockaddr_in_def)

lemma from_ipv4_numeric_roundtrip:
  "bindE (Address_from_ipv4_numeric ip) Address_ipv4_numeric = Inr ip"
  by (simp add: Address_from_ipv4_numeric_def Address_of_sockaddr_in)

text \<open>
  What the C library documents about numeric addresses: \<^verbatim>\<open>getaddrinfo\<close> with the numeric flags reads what
  \<^verbatim>\<open>inet_ntoa\<close> and decimal ports print, and \<^verbatim>\<open>getnameinfo\<close> with the numeric flags prints them.
\<close>

definition numeric_libc :: "libc \<Rightarrow> bool" where
  "numeric_libc lc \<longleftrightarrow> (\<forall>ip port.
     lc_getaddrinfo lc (lc_inet_ntoa lc ip) (dec_nat (unat port)) (AI_NUMERICHOST OR AI_NUMERICSERV) AF_INET
       = (0, Some (sockaddr_in ip port, 16))
     \<and> lc_getnameinfo lc (sockaddr_in ip port @ replicate 112 0) 16 (NI_NUMERICHOST OR NI_NUMERICSERV)
       = (0, lc_inet_ntoa lc ip, dec_nat (unat port)))"

lemma Address_of_ip_numeric:
  assumes "numeric_libc lc"
  shows "Address_of_ip lc (lc_inet_ntoa lc ip) port = Inr (ipv4_Address ip port)"
  using assms by (simp add: numeric_libc_def Address_of_ip_def Address_resolve_def make_hints_def Address_of_sockaddr_in)

lemma Address_ip_port_numeric:
  assumes "numeric_libc lc"
  shows "Address_ip_port lc (ipv4_Address ip port) = Inr (lc_inet_ntoa lc ip, port)"
proof -
  have "unat port < 2 ^ 31" using unsigned_less [of port, where 'a = nat] by simp
  from stoi_dec_nat [OF this] show ?thesis
    using assms by (simp add: numeric_libc_def Address_ip_port_def ipv4_Address_def)
qed

lemma Address_port_numeric: "numeric_libc lc \<Longrightarrow> Address_port lc (ipv4_Address ip port) = Inr port"
  by (simp add: Address_port_def Address_ip_port_numeric)

text \<open>A C library with numeric addresses only: dotted quads, read digit by digit.\<close>

definition dotted_quad :: "u32 \<Rightarrow> string" where
  "dotted_quad ip = dec_nat (unat (drop_bit 24 ip)) @ ''.'' @ dec_nat (unat (drop_bit 16 ip) mod 256) @ ''.''
     @ dec_nat (unat (drop_bit 8 ip) mod 256) @ ''.'' @ dec_nat (unat ip mod 256)"

definition quad_step :: "nat \<times> nat \<Rightarrow> char \<Rightarrow> nat \<times> nat" where
  "quad_step = (\<lambda>(n, d) c. if c = CHR ''.'' then (256 * n + d, 0) else (n, 10 * d + (of_char c - 48)))"

definition read_quad :: "string \<Rightarrow> u32" where
  "read_quad s = (let (n, d) = foldl quad_step (0, 0) s in of_nat (256 * n + d))"

definition quad_libc :: libc where
  "quad_libc = \<lparr>lc_getaddrinfo = (\<lambda>node service _ _.
       (0, Some (sockaddr_in (read_quad node) (of_nat (undec service)), 16))),
     lc_getnameinfo = (\<lambda>sa _ _. (0, dotted_quad (field 4 4 sa), dec_nat (unat (field 2 2 sa :: u16)))),
     lc_inet_ntoa = dotted_quad\<rparr>"

lemma quad_step_digits:
  assumes "\<And>c. c \<in> set s \<Longrightarrow> is_digit c"
  shows "foldl quad_step (n, d) s = (n, foldl (\<lambda>n c. 10 * n + (of_char c - 48)) d s)"
  using assms
proof (induction s arbitrary: d)
  case (Cons c s)
  have "c \<noteq> CHR ''.''" using Cons.prems [of c] by (auto simp: is_digit_def)
  then show ?case using Cons by (simp add: quad_step_def)
qed simp

lemma quad_step_dec [simp]: "foldl quad_step (n, 0) (dec_nat m) = (n, m)"
  using quad_step_digits [of "dec_nat m" n 0] dec_nat_digits undec_dec_nat [of m] by (simp add: undec_def)

lemma quad_step_dot: "quad_step (n, d) CHR ''.'' = (256 * n + d, 0)"
  by (simp add: quad_step_def)

lemma read_dotted_quad [simp]: "read_quad (dotted_quad ip) = ip"
proof -
  let ?x = "unat ip"
  have d: "unat (drop_bit n ip) = ?x div 2 ^ n" for n by (simp add: unat_drop_bit_eq flip: drop_bit_eq_div)
  have "256 * (256 * (256 * (?x div 16777216) + ?x div 65536 mod 256) + ?x div 256 mod 256) + ?x mod 256 = ?x"
    using div_mult2_eq [of ?x 256 256] div_mult2_eq [of ?x 65536 256] by simp
  then show ?thesis
    by (simp add: read_quad_def dotted_quad_def d quad_step_dot del: of_nat_add of_nat_mult)
qed

lemma numeric_quad_libc: "numeric_libc quad_libc"
  by (simp add: numeric_libc_def quad_libc_def field_sockaddr_in)

end
