(* ===== verification/Sockets.thy ===== *)
theory Sockets
  imports File_Descriptor Addresses
begin

text \<open>
  \<^verbatim>\<open>libsponge/util/socket.hh\<close> and \<^verbatim>\<open>socket.cc\<close>: sockets are file descriptors with more system calls.
  A socket is the name of its file descriptor; the constants are those of Linux.
\<close>

section \<open>Constants\<close>

definition AF_UNIX :: int where
  "AF_UNIX = 1"

definition SOCK_STREAM :: int where
  "SOCK_STREAM = 1"

definition SOCK_DGRAM :: int where
  "SOCK_DGRAM = 2"

definition SOL_SOCKET :: int where
  "SOL_SOCKET = 1"

definition SO_REUSEADDR :: int where
  "SO_REUSEADDR = 2"

definition SO_TYPE :: int where
  "SO_TYPE = 3"

definition SO_DOMAIN :: int where
  "SO_DOMAIN = 39"

definition MSG_TRUNC :: int where
  "MSG_TRUNC = 0x20"

definition SHUT_RD :: int where
  "SHUT_RD = 0"

definition SHUT_WR :: int where
  "SHUT_WR = 1"

definition SHUT_RDWR :: int where
  "SHUT_RDWR = 2"

section \<open>Socket\<close>

text \<open>A call whose result is the return value only.\<close>

definition simple_call :: "string \<Rightarrow> (int \<Rightarrow> 'k \<Rightarrow> (int \<times> int) \<times> 'k) \<Rightarrow> FileDescriptor \<Rightarrow> 'k world
    \<Rightarrow> (int \<times> 'k world) result" where
  "simple_call attempt call f w =
     (let ((ret, errno), k) = call (FileDescriptor_fd_num w f) (wd_kernel w) in
      bindE (SystemCall attempt ret errno 0) (\<lambda>n. Inr (n, w\<lparr>wd_kernel := k\<rparr>)))"

definition Socket_new :: "'k os \<Rightarrow> FileDescriptor \<Rightarrow> int \<Rightarrow> int \<Rightarrow> 'k world \<Rightarrow> 'k world result" where
  "Socket_new os f domain type w =
     (let ((ret, errno), k) = os_socket os domain type 0 (wd_kernel w) in
      bindE (SystemCall ''socket'' ret errno 0) (\<lambda>fd. FileDescriptor_new f fd (w\<lparr>wd_kernel := k\<rparr>)))"

definition check_sockopt :: "'k os \<Rightarrow> FileDescriptor \<Rightarrow> int \<Rightarrow> int \<Rightarrow> string \<Rightarrow> 'k world \<Rightarrow> 'k world result" where
  "check_sockopt os f option expected message w =
     (let ((ret, errno, actual_value, len), k) =
            os_getsockopt os (FileDescriptor_fd_num w f) SOL_SOCKET option 4 (wd_kernel w) in
      bindE (SystemCall ''getsockopt'' ret errno 0) (\<lambda>_.
        if len \<noteq> 4 \<or> actual_value \<noteq> expected then Inl (Runtime_error message)
        else Inr (w\<lparr>wd_kernel := k\<rparr>)))"

definition Socket_of_fd :: "'k os \<Rightarrow> FileDescriptor \<Rightarrow> int \<Rightarrow> int \<Rightarrow> 'k world \<Rightarrow> 'k world result" where
  "Socket_of_fd os f domain type w =
     bindE (check_sockopt os f SO_DOMAIN domain ''socket domain mismatch'' w) (\<lambda>w.
       check_sockopt os f SO_TYPE type ''socket type mismatch'' w)"

definition Socket_get_address :: "string \<Rightarrow> (int \<Rightarrow> u32 \<Rightarrow> 'k \<Rightarrow> (int \<times> int \<times> bytes \<times> u32) \<times> 'k)
    \<Rightarrow> FileDescriptor \<Rightarrow> 'k world \<Rightarrow> (Address \<times> 'k world) result" where
  "Socket_get_address name_of_function function f w =
     (let ((ret, errno, address, sz), k) =
            function (FileDescriptor_fd_num w f) (of_nat sizeof_sockaddr_storage) (wd_kernel w) in
      bindE (SystemCall name_of_function ret errno 0) (\<lambda>_.
        bindE (Address_of_sockaddr (address @ replicate (sizeof_sockaddr_storage - length address) 0) (ucast sz)) (\<lambda>a.
          Inr (a, w\<lparr>wd_kernel := k\<rparr>))))"

definition Socket_local_address :: "'k os \<Rightarrow> FileDescriptor \<Rightarrow> 'k world \<Rightarrow> (Address \<times> 'k world) result" where
  "Socket_local_address os f w = Socket_get_address ''getsockname'' (os_getsockname os) f w"

definition Socket_peer_address :: "'k os \<Rightarrow> FileDescriptor \<Rightarrow> 'k world \<Rightarrow> (Address \<times> 'k world) result" where
  "Socket_peer_address os f w = Socket_get_address ''getpeername'' (os_getpeername os) f w"

definition Socket_bind :: "'k os \<Rightarrow> FileDescriptor \<Rightarrow> Address \<Rightarrow> 'k world \<Rightarrow> 'k world result" where
  "Socket_bind os f address w =
     bindE (simple_call ''bind'' (\<lambda>fd. os_bind os fd (ad_storage address) (ad_size address)) f w) (\<lambda>(_, w). Inr w)"

definition Socket_connect :: "'k os \<Rightarrow> FileDescriptor \<Rightarrow> Address \<Rightarrow> 'k world \<Rightarrow> 'k world result" where
  "Socket_connect os f address w =
     bindE (simple_call ''connect'' (\<lambda>fd. os_connect os fd (ad_storage address) (ad_size address)) f w) (\<lambda>(_, w). Inr w)"

definition Socket_shutdown :: "'k os \<Rightarrow> FileDescriptor \<Rightarrow> int \<Rightarrow> 'k world \<Rightarrow> 'k world result" where
  "Socket_shutdown os f how w =
     bindE (simple_call ''shutdown'' (\<lambda>fd. os_shutdown os fd how) f w) (\<lambda>(_, w).
       if how = SHUT_RD then Inr (FileDescriptor_register_read f w)
       else if how = SHUT_WR then Inr (FileDescriptor_register_write f w)
       else if how = SHUT_RDWR then Inr (FileDescriptor_register_write f (FileDescriptor_register_read f w))
       else Inl (Runtime_error ''Socket::shutdown() called with invalid `how`''))"

definition Socket_setsockopt :: "'k os \<Rightarrow> FileDescriptor \<Rightarrow> int \<Rightarrow> int \<Rightarrow> int \<Rightarrow> 'k world \<Rightarrow> 'k world result" where
  "Socket_setsockopt os f level option option_value w =
     bindE (simple_call ''setsockopt'' (\<lambda>fd. os_setsockopt os fd level option option_value) f w) (\<lambda>(_, w). Inr w)"

definition Socket_set_reuseaddr :: "'k os \<Rightarrow> FileDescriptor \<Rightarrow> 'k world \<Rightarrow> 'k world result" where
  "Socket_set_reuseaddr os f w = Socket_setsockopt os f SOL_SOCKET SO_REUSEADDR 1 w"

section \<open>UDPSocket\<close>

record received_datagram =
  rd_source_address :: Address
  rd_payload :: bytes

definition UDPSocket_recv_into
    :: "'k os \<Rightarrow> FileDescriptor \<Rightarrow> received_datagram \<Rightarrow> u64 \<Rightarrow> 'k world \<Rightarrow> (received_datagram \<times> 'k world) result" where
  "UDPSocket_recv_into os f datagram mtu w =
     (let payload = string_resize (rd_payload datagram) mtu;
          ((ret, errno, data, address, fromlen), k) =
            os_recvfrom os (FileDescriptor_fd_num w f) (size64 payload) MSG_TRUNC (of_nat sizeof_sockaddr_storage) (wd_kernel w) in
      bindE (SystemCall ''recvfrom'' ret errno 0) (\<lambda>recv_len.
        if recv_len > sint mtu then Inl (Runtime_error ''recvfrom (oversized datagram)'')
        else
          let w = FileDescriptor_register_read f (w\<lparr>wd_kernel := k\<rparr>);
              payload = data @ drop (length data) payload in
          bindE (Address_of_sockaddr (address @ replicate (sizeof_sockaddr_storage - length address) 0) (ucast fromlen)) (\<lambda>source.
            if recv_len < 0 then Inl (Length_error ''basic_string::resize'')
            else Inr (\<lparr>rd_source_address = source, rd_payload = string_resize payload (of_int recv_len)\<rparr>, w))))"

definition UDPSocket_recv :: "'k os \<Rightarrow> FileDescriptor \<Rightarrow> u64 \<Rightarrow> 'k world \<Rightarrow> (received_datagram \<times> 'k world) result" where
  "UDPSocket_recv os f mtu w =
     bindE (Address_of_sockaddr [] 0) (\<lambda>a.
       UDPSocket_recv_into os f \<lparr>rd_source_address = a, rd_payload = []\<rparr> mtu w)"

definition UDPSocket_default_mtu :: u64 where
  "UDPSocket_default_mtu = 65536"

definition sendmsg_helper
    :: "'k os \<Rightarrow> int \<Rightarrow> bytes option \<Rightarrow> u32 \<Rightarrow> BufferViewList \<Rightarrow> 'k world \<Rightarrow> 'k world result" where
  "sendmsg_helper os fd_num destination_address destination_address_len payload w =
     (let iovecs = BufferViewList_as_iovecs payload;
          ((ret, errno), k) = os_sendmsg os fd_num destination_address destination_address_len iovecs 0 (wd_kernel w) in
      bindE (SystemCall ''sendmsg'' ret errno 0) (\<lambda>bytes_sent.
        if of_int bytes_sent \<noteq> BufferViewList_size payload
        then Inl (Runtime_error ''datagram payload too big for sendmsg()'')
        else Inr (w\<lparr>wd_kernel := k\<rparr>)))"

definition UDPSocket_sendto
    :: "'k os \<Rightarrow> FileDescriptor \<Rightarrow> Address \<Rightarrow> BufferViewList \<Rightarrow> 'k world \<Rightarrow> 'k world result" where
  "UDPSocket_sendto os f destination payload w =
     bindE (sendmsg_helper os (FileDescriptor_fd_num w f) (Some (ad_storage destination)) (ad_size destination) payload w) (\<lambda>w.
       Inr (FileDescriptor_register_write f w))"

definition UDPSocket_send :: "'k os \<Rightarrow> FileDescriptor \<Rightarrow> BufferViewList \<Rightarrow> 'k world \<Rightarrow> 'k world result" where
  "UDPSocket_send os f payload w =
     bindE (sendmsg_helper os (FileDescriptor_fd_num w f) None 0 payload w) (\<lambda>w.
       Inr (FileDescriptor_register_write f w))"

definition UDPSocket_new :: "'k os \<Rightarrow> FileDescriptor \<Rightarrow> 'k world \<Rightarrow> 'k world result" where
  "UDPSocket_new os f w = Socket_new os f AF_INET SOCK_DGRAM w"

section \<open>TCPSocket and LocalStreamSocket\<close>

definition TCPSocket_new :: "'k os \<Rightarrow> FileDescriptor \<Rightarrow> 'k world \<Rightarrow> 'k world result" where
  "TCPSocket_new os f w = Socket_new os f AF_INET SOCK_STREAM w"

definition TCPSocket_listen :: "'k os \<Rightarrow> FileDescriptor \<Rightarrow> int \<Rightarrow> 'k world \<Rightarrow> 'k world result" where
  "TCPSocket_listen os f backlog w =
     bindE (simple_call ''listen'' (\<lambda>fd. os_listen os fd backlog) f w) (\<lambda>(_, w). Inr w)"

text \<open>\<^verbatim>\<open>accept\<close> makes a new socket, stored under the unused name \<open>f'\<close>.\<close>

definition TCPSocket_accept :: "'k os \<Rightarrow> FileDescriptor \<Rightarrow> FileDescriptor \<Rightarrow> 'k world \<Rightarrow> 'k world result" where
  "TCPSocket_accept os f f' w =
     bindE (simple_call ''accept'' (os_accept os) f (FileDescriptor_register_read f w)) (\<lambda>(fd, w).
       bindE (FileDescriptor_new f' fd w) (\<lambda>w. Socket_of_fd os f' AF_INET SOCK_STREAM w))"

definition LocalStreamSocket_of_fd :: "'k os \<Rightarrow> FileDescriptor \<Rightarrow> 'k world \<Rightarrow> 'k world result" where
  "LocalStreamSocket_of_fd os f w = Socket_of_fd os f AF_UNIX SOCK_STREAM w"

end
