(* ===== verification/IPv4.thy ===== *)
theory IPv4
  imports TCP_Segment
begin

text \<open>
  \<^verbatim>\<open>libsponge/tcp_helpers/ipv4_header.hh\<close>, \<^verbatim>\<open>ipv4_header.cc\<close>, \<^verbatim>\<open>ipv4_datagram.hh\<close> and \<^verbatim>\<open>ipv4_datagram.cc\<close>: the
  fields of an IPv4 header, parsing and serializing headers and datagrams, and the pseudo-header
  sum that the checksum of the encapsulated TCP segment starts from.
\<close>

section \<open>IPv4Header\<close>

record IPv4Header =
  ih_ver :: u8
  ih_hlen :: u8
  ih_tos :: u8
  ih_len :: u16
  ih_id :: u16
  ih_df :: bool
  ih_mf :: bool
  ih_offset :: u16
  ih_ttl :: u8
  ih_proto :: u8
  ih_cksum :: u16
  ih_src :: u32
  ih_dst :: u32

definition IPv4Header_LENGTH :: u64 where
  "IPv4Header_LENGTH = 20"

definition IPv4Header_DEFAULT_TTL :: u8 where
  "IPv4Header_DEFAULT_TTL = 128"

definition IPv4Header_PROTO_TCP :: u8 where
  "IPv4Header_PROTO_TCP = 6"

definition IPv4Header_default :: IPv4Header where
  "IPv4Header_default = \<lparr>ih_ver = 4, ih_hlen = ucast (IPv4Header_LENGTH div 4), ih_tos = 0, ih_len = 0,
     ih_id = 0, ih_df = True, ih_mf = False, ih_offset = 0, ih_ttl = IPv4Header_DEFAULT_TTL,
     ih_proto = IPv4Header_PROTO_TCP, ih_cksum = 0, ih_src = 0, ih_dst = 0\<rparr>"

text \<open>The checks of \<open>IPv4Header_parse\<close> after the fixed fields are read, in the order of the code.\<close>

definition IPv4Header_checks :: "IPv4Header \<Rightarrow> Buffer \<Rightarrow> u64 \<Rightarrow> NetParser \<Rightarrow> (NetParser \<times> ParseResult) result" where
  "IPv4Header_checks h original_serialized_version data_size p =
     (if data_size < 4 * ucast (ih_hlen h) then Inr (p, PacketTooShort)
      else if ih_ver h \<noteq> 4 then Inr (p, WrongIPVersion)
      else if ih_hlen h < 5 then Inr (p, HeaderTooShort)
      else if data_size \<noteq> ucast (ih_len h) then Inr (p, TruncatedPacket)
      else bindE (NetParser_remove_prefix p (ucast (ih_hlen h) * 4 - IPv4Header_LENGTH)) (\<lambda>p.
        if NetParser_error p then Inr (p, np_error p)
        else let check = InternetChecksum_add (InternetChecksum_new 0)
                   (take (unat (4 * ucast (ih_hlen h) :: u64)) (Buffer_str original_serialized_version)) in
          if InternetChecksum_value check \<noteq> 0 then Inr (p, BadChecksum) else Inr (p, NoError)))"

definition IPv4Header_parse :: "IPv4Header \<Rightarrow> NetParser \<Rightarrow> (IPv4Header \<times> NetParser \<times> ParseResult) result" where
  "IPv4Header_parse h p =
     (let original_serialized_version = np_buffer p; data_size = Buffer_size (np_buffer p) in
      if data_size < IPv4Header_LENGTH then Inr (h, p, PacketTooShort)
      else
        bindE (NetParser_u8 p) (\<lambda>(first_byte, p).
        bindE (NetParser_u8 p) (\<lambda>(tos, p).
        bindE (NetParser_u16 p) (\<lambda>(len, p).
        bindE (NetParser_u16 p) (\<lambda>(id, p).
        bindE (NetParser_u16 p) (\<lambda>(fo_val, p).
        bindE (NetParser_u8 p) (\<lambda>(ttl, p).
        bindE (NetParser_u8 p) (\<lambda>(proto, p).
        bindE (NetParser_u16 p) (\<lambda>(cksum, p).
        bindE (NetParser_u32 p) (\<lambda>(src, p).
        bindE (NetParser_u32 p) (\<lambda>(dst, p).
          let h = h\<lparr>ih_ver := drop_bit 4 first_byte, ih_hlen := first_byte AND 0x0f, ih_tos := tos,
                    ih_len := len, ih_id := id, ih_df := (fo_val AND 0x4000 \<noteq> 0),
                    ih_mf := (fo_val AND 0x2000 \<noteq> 0), ih_offset := fo_val AND 0x1fff, ih_ttl := ttl,
                    ih_proto := proto, ih_cksum := cksum, ih_src := src, ih_dst := dst\<rparr> in
          bindE (IPv4Header_checks h original_serialized_version data_size p) (\<lambda>(p, r).
            Inr (h, p, r)))))))))))))"

definition IPv4Header_fo_val :: "IPv4Header \<Rightarrow> u16" where
  "IPv4Header_fo_val h = (if ih_df h then 0x4000 else 0) OR (if ih_mf h then 0x2000 else 0)
     OR (ih_offset h AND 0x1fff)"

definition IPv4Header_serialize :: "IPv4Header \<Rightarrow> bytes result" where
  "IPv4Header_serialize h =
     (if ih_ver h \<noteq> 4 then Inl (Runtime_error ''wrong IP version'')
      else if 4 * ucast (ih_hlen h) < IPv4Header_LENGTH then Inl (Runtime_error ''IP header too short'')
      else
        let ret = [];
            first_byte = push_bit 4 (ih_ver h) OR (ih_hlen h AND 0xf);
            ret = NetUnparser_u8 ret first_byte;
            ret = NetUnparser_u8 ret (ih_tos h);
            ret = NetUnparser_u16 ret (ih_len h);
            ret = NetUnparser_u16 ret (ih_id h);
            ret = NetUnparser_u16 ret (IPv4Header_fo_val h);
            ret = NetUnparser_u8 ret (ih_ttl h);
            ret = NetUnparser_u8 ret (ih_proto h);
            ret = NetUnparser_u16 ret (ih_cksum h);
            ret = NetUnparser_u32 ret (ih_src h);
            ret = NetUnparser_u32 ret (ih_dst h)
        in Inr (string_resize ret (4 * ucast (ih_hlen h))))"

definition IPv4Header_payload_length :: "IPv4Header \<Rightarrow> u16" where
  "IPv4Header_payload_length h = ih_len h - 4 * ucast (ih_hlen h)"

definition IPv4Header_pseudo_cksum :: "IPv4Header \<Rightarrow> u32" where
  "IPv4Header_pseudo_cksum h =
     (let pcksum = drop_bit 16 (ih_src h) + (ih_src h AND 0xffff);
          pcksum = pcksum + (drop_bit 16 (ih_dst h) + (ih_dst h AND 0xffff));
          pcksum = pcksum + ucast (ih_proto h);
          pcksum = pcksum + ucast (IPv4Header_payload_length h)
      in pcksum)"

section \<open>IPv4Datagram\<close>

record IPv4Datagram =
  dg_header :: IPv4Header
  dg_payload :: BufferList

definition IPv4Datagram_default :: IPv4Datagram where
  "IPv4Datagram_default = \<lparr>dg_header = IPv4Header_default, dg_payload = \<lparr>bl_buffers = []\<rparr>\<rparr>"

definition IPv4Datagram_parse :: "IPv4Datagram \<Rightarrow> Buffer \<Rightarrow> (IPv4Datagram \<times> ParseResult) result" where
  "IPv4Datagram_parse d buffer =
     bindE (IPv4Header_parse (dg_header d) (NetParser_new buffer)) (\<lambda>(h, p, ignored).
       let d = \<lparr>dg_header = h, dg_payload = BufferList_of_Buffer (np_buffer p)\<rparr> in
       if BufferList_size (dg_payload d) \<noteq> ucast (IPv4Header_payload_length h) then Inr (d, PacketTooShort)
       else Inr (d, np_error p))"

definition IPv4Datagram_serialize :: "IPv4Datagram \<Rightarrow> BufferList result" where
  "IPv4Datagram_serialize d =
     (if BufferList_size (dg_payload d) \<noteq> ucast (IPv4Header_payload_length (dg_header d))
      then Inl (Runtime_error ''IPv4Datagram::serialize: payload is wrong size'')
      else
        let header_out = (dg_header d)\<lparr>ih_cksum := 0\<rparr> in
        bindE (IPv4Header_serialize header_out) (\<lambda>header_zero_checksum.
          let check = InternetChecksum_add (InternetChecksum_new 0) header_zero_checksum;
              header_out = header_out\<lparr>ih_cksum := InternetChecksum_value check\<rparr> in
          bindE (IPv4Header_serialize header_out) (\<lambda>out.
            let ret = \<lparr>bl_buffers = []\<rparr>;
                ret = BufferList_append ret (BufferList_of_string out);
                ret = BufferList_append ret (dg_payload d)
            in Inr ret)))"

section \<open>Headers as bytes\<close>

definition IPv4Header_at :: "bytes \<Rightarrow> IPv4Header" where
  "IPv4Header_at xs = (let first_byte = field 1 0 xs :: u8; fo_val = field 2 6 xs :: u16 in
     \<lparr>ih_ver = drop_bit 4 first_byte, ih_hlen = first_byte AND 0x0f, ih_tos = field 1 1 xs,
      ih_len = field 2 2 xs, ih_id = field 2 4 xs, ih_df = (fo_val AND 0x4000 \<noteq> 0),
      ih_mf = (fo_val AND 0x2000 \<noteq> 0), ih_offset = fo_val AND 0x1fff, ih_ttl = field 1 8 xs,
      ih_proto = field 1 9 xs, ih_cksum = field 2 10 xs, ih_src = field 4 12 xs, ih_dst = field 4 16 xs\<rparr>)"

lemma IPv4Header_parse_short:
  "parser_wf p \<Longrightarrow> length (left p) < 20 \<Longrightarrow> IPv4Header_parse h p = Inr (h, p, PacketTooShort)"
  by (simp add: IPv4Header_parse_def IPv4Header_LENGTH_def word_less_nat_alt parser_wf_def left_def
      unat_Buffer_size)

lemma IPv4Header_parse_fields:
  assumes "parser_ok p" and "20 \<le> length (left p)"
  shows "IPv4Header_parse h p = bindE (IPv4Header_checks (IPv4Header_at (left p)) (np_buffer p)
           (Buffer_size (np_buffer p)) (skip p 20)) (\<lambda>(q, r). Inr (IPv4Header_at (left p), q, r))"
proof -
  have "\<not> Buffer_size (np_buffer p) < IPv4Header_LENGTH"
    using assms by (simp add: IPv4Header_LENGTH_def word_less_nat_alt parser_ok_def parser_wf_def left_def
        unat_Buffer_size)
  then show ?thesis
    using assms unfolding IPv4Header_at_def Let_def
    by (cases h) (simp add: IPv4Header_parse_def dec_first dec_at Let_def del: One_nat_def)
qed

lemma unat_four_hlen: "unat (4 * ucast (x :: u8) :: u64) = 4 * unat x"
  using u8_bound [of x] by (simp add: unat_word_ariths)

text \<open>The verdict of the header parser on data whose header length is 20 bytes or more.\<close>

lemma IPv4Header_checks_ok:
  assumes "parser_ok p" and "length (left p) \<le> 65535" and "\<not> ih_hlen h < 5" and "4 * unat (ih_hlen h) \<le> length (left p)"
    and "unat (ih_len h) = length (left p)"
  shows "IPv4Header_checks h (np_buffer p) (Buffer_size (np_buffer p)) (skip p 20) =
    (if ih_ver h \<noteq> 4 then Inr (skip p 20, WrongIPVersion)
     else Inr (skip p (4 * unat (ih_hlen h)),
               if checks_out 0 (take (4 * unat (ih_hlen h)) (left p)) then NoError else BadChecksum))"
proof -
  let ?k = "4 * unat (ih_hlen h)"
  have size: "unat (Buffer_size (np_buffer p)) = length (left p)"
    using assms(1) by (simp add: parser_ok_def parser_wf_def left_def unat_Buffer_size)
  have k: "20 \<le> ?k" using assms(3) by (simp add: word_less_nat_alt)
  have q: "parser_ok (skip p 20)" "left (skip p 20) = drop 20 (left p)"
    "skip (skip p 20) (?k - 20) = skip p ?k"
    using skip_parser_ok' [OF assms(1), of 20 "?k - 20"] k assms(4) by auto
  have off: "unat (ucast (ih_hlen h) * 4 - IPv4Header_LENGTH) = ?k - 20"
    using unat_doff_offset [OF assms(3)] by (simp add: IPv4Header_LENGTH_def TCPHeader_LENGTH_def)
  have rem: "NetParser_remove_prefix (skip p 20) (ucast (ih_hlen h) * 4 - IPv4Header_LENGTH) = Inr (skip p ?k)"
    using q off assms(4) by (subst remove_prefix_ok) auto
  have "unat (0 :: u32) + sum16 False (take ?k (left p)) < 2 ^ 32"
    using assms(2,4) by (intro sum16_bound) simp_all
  note verdict = value_zero_checks_out [OF this]
  have "\<not> NetParser_error (skip p ?k)"
    using assms(1) by (simp add: NetParser_error_def parser_ok_def)
  moreover have "\<not> Buffer_size (np_buffer p) < 4 * ucast (ih_hlen h)"
    "Buffer_size (np_buffer p) = ucast (ih_len h)"
    using assms(4,5) size by (simp_all add: word_less_nat_alt unat_four_hlen word_unat_eq_iff)
  ultimately show ?thesis
    using assms(3) rem verdict by (simp add: IPv4Header_checks_def Let_def unat_four_hlen left_def)
qed

lemma IPv4Header_serialize_eq:
  assumes "ih_ver h = 4" and "\<not> ih_hlen h < 5"
  shows "IPv4Header_serialize h = Inr (NetUnparser_u8 [] (push_bit 4 (ih_ver h) OR (ih_hlen h AND 0xf))
    @ NetUnparser_u8 [] (ih_tos h) @ NetUnparser_u16 [] (ih_len h) @ NetUnparser_u16 [] (ih_id h)
    @ NetUnparser_u16 [] (IPv4Header_fo_val h) @ NetUnparser_u8 [] (ih_ttl h) @ NetUnparser_u8 [] (ih_proto h)
    @ NetUnparser_u16 [] (ih_cksum h) @ NetUnparser_u32 [] (ih_src h) @ NetUnparser_u32 [] (ih_dst h)
    @ replicate (4 * unat (ih_hlen h) - 20) 0)"
proof -
  let ?f = "NetUnparser_u8 [] (push_bit 4 (ih_ver h) OR (ih_hlen h AND 0xf))"
  let ?r = "?f @ NetUnparser_u8 [] (ih_tos h) @ NetUnparser_u16 [] (ih_len h) @ NetUnparser_u16 [] (ih_id h)
    @ NetUnparser_u16 [] (IPv4Header_fo_val h) @ NetUnparser_u8 [] (ih_ttl h) @ NetUnparser_u8 [] (ih_proto h)
    @ NetUnparser_u16 [] (ih_cksum h) @ NetUnparser_u32 [] (ih_src h) @ NetUnparser_u32 [] (ih_dst h)"
  have k: "20 \<le> 4 * unat (ih_hlen h)" using assms(2) by (simp add: word_less_nat_alt)
  moreover have "length ?r = 20" by simp
  ultimately have "string_resize ?r (4 * ucast (ih_hlen h)) = ?r @ replicate (4 * unat (ih_hlen h) - 20) 0"
    by (simp add: string_resize_def unat_four_hlen)
  moreover have "\<not> 4 * ucast (ih_hlen h) < IPv4Header_LENGTH"
    using k by (simp add: word_less_nat_alt unat_four_hlen IPv4Header_LENGTH_def)
  then have "IPv4Header_serialize h = Inr (string_resize ?r (4 * ucast (ih_hlen h)))"
    using assms(1) by (simp add: IPv4Header_serialize_def Let_def u8.enc_append [of "NetUnparser_u8 [] x" for x] enc_chain)
  ultimately show ?thesis by simp
qed

lemma fo_val_fields:
  "IPv4Header_fo_val h AND 0x4000 \<noteq> 0 \<longleftrightarrow> ih_df h"
  "IPv4Header_fo_val h AND 0x2000 \<noteq> 0 \<longleftrightarrow> ih_mf h"
  "IPv4Header_fo_val h AND 0x1fff = ih_offset h AND 0x1fff"
  by (simp_all add: IPv4Header_fo_val_def bit.conj_disj_distrib2 and.assoc)

lemma first_byte_fields:
  assumes "(x :: u8) < 16"
  shows "drop_bit 4 (push_bit 4 4 OR (x AND 0xf)) = (4 :: u8)" and "(push_bit 4 4 OR (x AND 0xf)) AND 0xf = x"
proof -
  have "x AND 0xf = take_bit 4 x"
    by (simp add: take_bit_eq_mask mask_eq_exp_minus_1)
  moreover have "unat (take_bit 4 x) = unat x"
    using assms by (simp only: unsigned_take_bit_eq) (simp add: word_less_nat_alt take_bit_nat_eq_self)
  ultimately have x: "x AND 0xf = x" by (simp add: word_unat_eq_iff)
  have "unat (drop_bit 4 x) = 0"
    unfolding unat_drop_bit_eq using assms by (simp add: drop_bit_eq_div word_less_nat_alt)
  then have "drop_bit 4 x = 0" by (simp only: unat_eq_0)
  then show "drop_bit 4 (push_bit 4 4 OR (x AND 0xf)) = (4 :: u8)"
    by (simp add: x drop_bit_or)
  show "(push_bit 4 4 OR (x AND 0xf)) AND 0xf = x"
    by (simp add: bit.conj_disj_distrib2 and.assoc x)
qed

lemma IPv4Header_at_serialize:
  assumes "ih_ver h = 4" and "\<not> ih_hlen h < 5" and "ih_hlen h < 16" and "ih_offset h AND 0x1fff = ih_offset h"
    and "IPv4Header_serialize h = Inr s"
  shows "IPv4Header_at (s @ r) = h" and "length s = 4 * unat (ih_hlen h)"
proof -
  have s: "s = projr (IPv4Header_serialize h)" using assms(5) by simp
  have "20 \<le> 4 * unat (ih_hlen h)"
    using assms(2) by (simp add: word_less_nat_alt)
  then show "length s = 4 * unat (ih_hlen h)"
    by (simp add: s IPv4Header_serialize_eq [OF assms(1,2)])
  show "IPv4Header_at (s @ r) = h"
    using fo_val_fields [of h] first_byte_fields [OF assms(3)] assms(1,4)
    by (intro IPv4Header.equality)
      (simp_all add: s IPv4Header_serialize_eq [OF assms(1,2)] IPv4Header_at_def Let_def field_skip)
qed

lemma IPv4Header_serialize_cksum:
  assumes "ih_ver h = 4" and "\<not> ih_hlen h < 5"
  obtains z s where "IPv4Header_serialize (h\<lparr>ih_cksum := 0\<rparr>) = Inr z"
    and "IPv4Header_serialize (h\<lparr>ih_cksum := c\<rparr>) = Inr s" and "length z = length s"
    and "sum16 False s = sum16 False z + unat c"
proof -
  have fo: "IPv4Header_fo_val (h\<lparr>ih_cksum := x\<rparr>) = IPv4Header_fo_val h" for x
    by (simp add: IPv4Header_fo_val_def)
  show ?thesis
    using assms
    by (intro that [OF IPv4Header_serialize_eq IPv4Header_serialize_eq])
      (simp_all add: fo sum16_append sum16_u16)
qed

lemma unat_payload_length:
  assumes "4 * unat (ih_hlen h) \<le> unat (ih_len h)"
  shows "unat (IPv4Header_payload_length h) = unat (ih_len h) - 4 * unat (ih_hlen h)"
proof -
  have "unat (4 * ucast (ih_hlen h) :: u16) = 4 * unat (ih_hlen h)"
    using u8_bound [of "ih_hlen h"] by (simp add: unat_word_ariths unsigned_ucast_eq take_bit_nat_eq_self)
  then show ?thesis
    using assms by (simp add: IPv4Header_payload_length_def unat_sub word_le_nat_alt)
qed

lemma IPv4Header_parse_ok:
  assumes "Buffer_wf b" and "length (Buffer_str b) \<le> 65535"
  defines "h \<equiv> IPv4Header_at (Buffer_str b)"
  assumes "5 \<le> ih_hlen h" and "4 * unat (ih_hlen h) \<le> length (Buffer_str b)"
    and "unat (ih_len h) = length (Buffer_str b)"
  shows "IPv4Header_parse h0 (NetParser_new b) = Inr (h,
     if ih_ver h \<noteq> 4 then (skip (NetParser_new b) 20, WrongIPVersion)
     else (skip (NetParser_new b) (4 * unat (ih_hlen h)),
           if checks_out 0 (take (4 * unat (ih_hlen h)) (Buffer_str b)) then NoError else BadChecksum))"
proof -
  have five: "\<not> ih_hlen h < 5" and ge: "20 \<le> length (Buffer_str b)"
    using assms(4,5) by (simp_all add: word_le_nat_alt word_less_nat_alt)
  have np: "np_buffer (NetParser_new b) = b" by (simp add: NetParser_new_def)
  show ?thesis
    using IPv4Header_parse_fields [of "NetParser_new b" h0] IPv4Header_checks_ok [of "NetParser_new b" h]
      assms(1,2,5,6) five ge by (simp add: h_def np)
qed

lemma IPv4Datagram_parse_ok:
  assumes "IPv4Header_parse (dg_header d0) (NetParser_new b) = Inr (h, skip (NetParser_new b) k, r)"
    and "Buffer_wf b" and "k \<le> length (Buffer_str b)" and "k = 4 * unat (ih_hlen h)"
    and "unat (ih_len h) = length (Buffer_str b)"
  obtains d' pay where "IPv4Datagram_parse d0 b = Inr (d', NoError)" and "dg_header d' = h"
    and "dg_payload d' = BufferList_of_Buffer pay" and "Buffer_wf pay" and "Buffer_str pay = drop k (Buffer_str b)"
proof -
  let ?q = "skip (NetParser_new b) k"
  have q: "Buffer_wf (np_buffer ?q)" "Buffer_str (np_buffer ?q) = drop k (Buffer_str b)"
    using skip_ok(2,3) [of "NetParser_new b" k] assms(2,3)
    unfolding parser_wf_def [of ?q] left_def [of ?q] by simp_all
  have "BufferList_wf (BufferList_of_Buffer (np_buffer ?q))"
    using q(1) by (simp add: BufferList_wf_def BufferList_of_Buffer_def)
  then have "unat (BufferList_size (BufferList_of_Buffer (np_buffer ?q))) = length (Buffer_str b) - k"
    using Buffer_str_bound [OF q(1)] q(2) by (simp add: BufferList_size_concatenate unat_size64)
  also have "\<dots> = unat (IPv4Header_payload_length h)"
    using assms(3-5) by (simp add: unat_payload_length)
  finally have "BufferList_size (BufferList_of_Buffer (np_buffer ?q)) = ucast (IPv4Header_payload_length h)"
    by (simp add: word_unat_eq_iff)
  with assms(1) q show ?thesis
    by (intro that [of "\<lparr>dg_header = h, dg_payload = BufferList_of_Buffer (np_buffer ?q)\<rparr>" "np_buffer ?q"])
      (simp_all add: IPv4Datagram_parse_def)
qed

lemma IPv4Datagram_serialize_ok:
  assumes "ih_ver (dg_header d) = 4" and "\<not> ih_hlen (dg_header d) < 5" and "BufferList_wf (dg_payload d)"
    and "unat (ih_len (dg_header d)) = 4 * unat (ih_hlen (dg_header d)) + length (BufferList_concatenate (dg_payload d))"
  obtains bl c out where "IPv4Datagram_serialize d = Inr bl"
    and "IPv4Header_serialize ((dg_header d)\<lparr>ih_cksum := c\<rparr>) = Inr out"
    and "BufferList_concatenate bl = out @ BufferList_concatenate (dg_payload d)" and "checks_out 0 out"
proof -
  let ?h = "dg_header d" and ?pay = "BufferList_concatenate (dg_payload d)"
  obtain z where z: "IPv4Header_serialize (?h\<lparr>ih_cksum := 0\<rparr>) = Inr z"
    using IPv4Header_serialize_eq [of "?h\<lparr>ih_cksum := 0\<rparr>"] assms(1,2) by simp
  let ?check = "InternetChecksum_add (InternetChecksum_new 0) z"
  define c where "c = InternetChecksum_value ?check"
  obtain out where out: "IPv4Header_serialize (?h\<lparr>ih_cksum := c\<rparr>) = Inr out"
    and sum: "sum16 False out = sum16 False z + unat c"
    using IPv4Header_serialize_cksum [OF assms(1,2), of c] z by auto
  have "length z \<le> 65535"
    using IPv4Header_serialize_eq [of "?h\<lparr>ih_cksum := 0\<rparr>"] assms(1,2) z u8_bound [of "ih_hlen ?h"] by auto
  then have "unat (0 :: u32) + sum16 False z < 2 ^ 32"
    by (intro sum16_bound) simp_all
  from value_completes [OF unat_ck_sum [OF this]] have good: "checks_out 0 out"
    unfolding checks_out_def c_def [symmetric] by (simp only: sum add.assoc)
  have "unat (ih_len ?h) < two64"
    using unsigned_less [of "ih_len ?h", where 'a = nat] by (simp add: two64_def)
  then have "length ?pay < two64" using assms(4) by simp
  then have "BufferList_size (dg_payload d) = ucast (IPv4Header_payload_length ?h)"
    using assms(3,4) by (simp add: word_unat_eq_iff BufferList_size_concatenate unat_size64 unat_payload_length)
  then have ser: "IPv4Datagram_serialize d = Inr (BufferList_append
      (BufferList_append \<lparr>bl_buffers = []\<rparr> (BufferList_of_string out)) (dg_payload d))"
    using z out by (simp add: IPv4Datagram_serialize_def Let_def c_def)
  show ?thesis
    by (rule that [OF ser out]) (simp_all add: good BufferList_concatenate_flat [of "\<lparr>bl_buffers = []\<rparr>"])
qed

text \<open>The pseudo-header sum is far below the bound that keeps the TCP checksum exact.\<close>

lemma unat_plus_le32: "unat (a + b :: u32) \<le> unat a + unat b"
  by (simp add: unat_word_ariths)

lemma unat_halves: "unat (drop_bit 16 x + (x AND 0xffff) :: u32) \<le> 131070"
proof -
  have "unat x < 65536 * 65536"
    using unsigned_less [of x, where 'a = nat] by simp
  then have "unat x div 65536 < 65536"
    by (rule less_mult_imp_div_less)
  moreover have "unat x mod 65536 < 65536" by simp
  ultimately show ?thesis unfolding unat_fold_step by linarith
qed

lemma pseudo_cksum_small: "unat (IPv4Header_pseudo_cksum h) < 2 ^ 23"
proof -
  let ?a = "drop_bit 16 (ih_src h) + (ih_src h AND 0xffff)"
  let ?b = "drop_bit 16 (ih_dst h) + (ih_dst h AND 0xffff)"
  let ?p = "ucast (ih_proto h) :: u32" and ?l = "ucast (IPv4Header_payload_length h) :: u32"
  have "unat ?p \<le> 255" "unat ?l \<le> 65535"
    using u8_bound [of "ih_proto h"] unsigned_less [of "IPv4Header_payload_length h", where 'a = nat]
    by (simp_all add: unsigned_ucast_eq take_bit_nat_eq_self)
  then have "unat (?a + ?b + ?p + ?l) \<le> 400000"
    using unat_plus_le32 [of "?a + ?b + ?p" ?l] unat_plus_le32 [of "?a + ?b" ?p] unat_plus_le32 [of ?a ?b]
      unat_halves [of "ih_src h"] unat_halves [of "ih_dst h"] by linarith
  then show ?thesis
    unfolding IPv4Header_pseudo_cksum_def Let_def by simp
qed

text \<open>Parsing undoes serializing.\<close>

lemma datagram_serialize_parse:
  assumes "ih_ver (dg_header d) = 4" and "5 \<le> ih_hlen (dg_header d)" and "ih_hlen (dg_header d) < 16"
    and "ih_offset (dg_header d) AND 0x1fff = ih_offset (dg_header d)" and "BufferList_wf (dg_payload d)"
    and "unat (ih_len (dg_header d)) = 4 * unat (ih_hlen (dg_header d)) + length (BufferList_concatenate (dg_payload d))"
  obtains bl c d' pay p where "IPv4Datagram_serialize d = Inr bl"
    and "IPv4Datagram_parse d0 (Buffer_of_string (BufferList_concatenate bl)) = Inr (d', NoError)"
    and "dg_header d' = (dg_header d)\<lparr>ih_cksum := c\<rparr>" and "dg_payload d' = BufferList_of_Buffer pay"
    and "Buffer_wf pay" and "Buffer_str pay = BufferList_concatenate (dg_payload d)"
    and "IPv4Header_parse h0 (NetParser_new (Buffer_of_string (BufferList_concatenate bl)))
        = Inr (dg_header d', p, NoError)" and "length (BufferList_concatenate bl) = unat (ih_len (dg_header d))"
proof -
  let ?h = "dg_header d" and ?pay = "BufferList_concatenate (dg_payload d)"
  have five: "\<not> ih_hlen ?h < 5" using assms(2) by (simp add: not_less)
  obtain bl c out where ser: "IPv4Datagram_serialize d = Inr bl"
    and out: "IPv4Header_serialize (?h\<lparr>ih_cksum := c\<rparr>) = Inr out"
    and cat: "BufferList_concatenate bl = out @ ?pay" and good: "checks_out 0 out"
    using IPv4Datagram_serialize_ok [OF assms(1) five assms(5,6)] by metis
  have at: "IPv4Header_at (out @ ?pay) = ?h\<lparr>ih_cksum := c\<rparr>" "length out = 4 * unat (ih_hlen ?h)"
    using IPv4Header_at_serialize [OF _ _ _ _ out] five assms(1,3,4) by simp_all
  let ?b = "Buffer_of_string (out @ ?pay)" and ?k = "4 * unat (ih_hlen ?h)"
  have len: "length (out @ ?pay) = unat (ih_len ?h)" using at(2) assms(6) by simp
  then have small: "length (out @ ?pay) \<le> 65535"
    using unsigned_less [of "ih_len ?h", where 'a = nat] by simp
  then have wf: "Buffer_wf ?b" by (simp add: two64_def)
  have parse: "IPv4Header_parse h (NetParser_new ?b) = Inr (?h\<lparr>ih_cksum := c\<rparr>, skip (NetParser_new ?b) ?k, NoError)" for h
    using IPv4Header_parse_ok [OF wf, of h] small len at good assms(1,2) by simp
  have k: "?k \<le> length (Buffer_str ?b)" "?k = 4 * unat (ih_hlen (?h\<lparr>ih_cksum := c\<rparr>))"
    "unat (ih_len (?h\<lparr>ih_cksum := c\<rparr>)) = length (Buffer_str ?b)"
    using at(2) len by simp_all
  obtain d' pay where d': "IPv4Datagram_parse d0 ?b = Inr (d', NoError)" "dg_header d' = ?h\<lparr>ih_cksum := c\<rparr>"
    "dg_payload d' = BufferList_of_Buffer pay" "Buffer_wf pay" "Buffer_str pay = drop ?k (Buffer_str ?b)"
    by (rule IPv4Datagram_parse_ok [OF parse wf k])
  then have "Buffer_str pay = ?pay"
    using at(2) by simp
  from that [OF ser _ d'(2-4) this _ len [folded cat], of "skip (NetParser_new ?b) ?k"] show ?thesis
    using d'(1,2) parse [of h0] unfolding cat by simp
qed

section \<open>Properties\<close>

text \<open>
  C25: A datagram whose \<^verbatim>\<open>len\<close> field matches its payload serializes without an exception; the bytes
  parse back to the same header, up to the computed checksum, and the same payload, and the header
  parser itself answers \<^verbatim>\<open>NoError\<close>: version, length and header checksum are right.
\<close>

theorem datagram_roundtrip:
  assumes "ih_ver (dg_header d) = 4" and "5 \<le> ih_hlen (dg_header d)" and "ih_hlen (dg_header d) < 16"
    and "ih_offset (dg_header d) AND 0x1fff = ih_offset (dg_header d)" and "BufferList_wf (dg_payload d)"
    and "unat (ih_len (dg_header d)) = 4 * unat (ih_hlen (dg_header d)) + length (BufferList_concatenate (dg_payload d))"
  shows "\<exists>bl c d' p. IPv4Datagram_serialize d = Inr bl
    \<and> IPv4Datagram_parse d0 (Buffer_of_string (BufferList_concatenate bl)) = Inr (d', NoError)
    \<and> dg_header d' = (dg_header d)\<lparr>ih_cksum := c\<rparr>
    \<and> BufferList_concatenate (dg_payload d') = BufferList_concatenate (dg_payload d)
    \<and> IPv4Header_parse h0 (NetParser_new (Buffer_of_string (BufferList_concatenate bl)))
        = Inr (dg_header d', p, NoError)"
proof -
  obtain bl c d' pay p where "IPv4Datagram_serialize d = Inr bl"
    "IPv4Datagram_parse d0 (Buffer_of_string (BufferList_concatenate bl)) = Inr (d', NoError)"
    "dg_header d' = (dg_header d)\<lparr>ih_cksum := c\<rparr>" "dg_payload d' = BufferList_of_Buffer pay"
    "Buffer_wf pay" "Buffer_str pay = BufferList_concatenate (dg_payload d)"
    "IPv4Header_parse h0 (NetParser_new (Buffer_of_string (BufferList_concatenate bl)))
        = Inr (dg_header d', p, NoError)" "length (BufferList_concatenate bl) = unat (ih_len (dg_header d))"
    by (rule datagram_serialize_parse [OF assms])
  then show ?thesis by (intro exI [of _ bl] exI [of _ c] exI [of _ d'] exI [of _ p]) simp
qed

definition sample_datagram :: IPv4Datagram where
  "sample_datagram = \<lparr>dg_header = IPv4Header_default\<lparr>ih_len := 23, ih_src := 5, ih_dst := 6\<rparr>,
     dg_payload = BufferList_of_string [1, 2, 3]\<rparr>"

theorem datagram_roundtrip_witness:
  "\<exists>bl c d' p. IPv4Datagram_serialize sample_datagram = Inr bl
    \<and> IPv4Datagram_parse IPv4Datagram_default (Buffer_of_string (BufferList_concatenate bl)) = Inr (d', NoError)
    \<and> dg_header d' = (dg_header sample_datagram)\<lparr>ih_cksum := c\<rparr>
    \<and> BufferList_concatenate (dg_payload d') = BufferList_concatenate (dg_payload sample_datagram)
    \<and> IPv4Header_parse IPv4Header_default (NetParser_new (Buffer_of_string (BufferList_concatenate bl)))
        = Inr (dg_header d', p, NoError)"
  by (rule datagram_roundtrip)
    (simp_all add: sample_datagram_def IPv4Header_default_def IPv4Header_LENGTH_def BufferList_wf_def
      BufferList_of_string_def BufferList_of_Buffer_def BufferList_concatenate_def two64_def)

text \<open>
  C40: \<^verbatim>\<open>IPv4Datagram::parse\<close> drops the verdict of the header parser.  On data with a 20-byte header and a
  right length field, it answers \<^verbatim>\<open>NoError\<close> whatever the version and the header checksum are, while
  the header parser answers \<^verbatim>\<open>WrongIPVersion\<close> or \<^verbatim>\<open>BadChecksum\<close>.
\<close>

theorem datagram_ignores_header_errors:
  assumes "length s \<le> 65535" and "ih_hlen (IPv4Header_at s) = 5" and "20 \<le> length s"
    and "unat (ih_len (IPv4Header_at s)) = length s"
  shows "(\<exists>d'. IPv4Datagram_parse d0 (Buffer_of_string s) = Inr (d', NoError)
              \<and> BufferList_concatenate (dg_payload d') = drop 20 s)
    \<and> (\<exists>p. IPv4Header_parse h0 (NetParser_new (Buffer_of_string s)) = Inr (IPv4Header_at s, p,
           if ih_ver (IPv4Header_at s) \<noteq> 4 then WrongIPVersion
           else if checks_out 0 (take 20 s) then NoError else BadChecksum))"
proof -
  let ?b = "Buffer_of_string s"
  have wf: "Buffer_wf ?b" using assms(1) by (simp add: two64_def)
  have parse: "\<exists>r. IPv4Header_parse h (NetParser_new ?b) = Inr (IPv4Header_at s, skip (NetParser_new ?b) 20, r)
      \<and> r = (if ih_ver (IPv4Header_at s) \<noteq> 4 then WrongIPVersion
           else if checks_out 0 (take 20 s) then NoError else BadChecksum)" for h
    using IPv4Header_parse_ok [OF wf, of h] assms by simp
  then obtain r where "IPv4Header_parse (dg_header d0) (NetParser_new ?b)
      = Inr (IPv4Header_at s, skip (NetParser_new ?b) 20, r)" by blast
  moreover have "20 \<le> length (Buffer_str ?b)" "20 = 4 * unat (ih_hlen (IPv4Header_at s))"
    "unat (ih_len (IPv4Header_at s)) = length (Buffer_str ?b)"
    using assms(2-4) by simp_all
  ultimately obtain d' pay where "IPv4Datagram_parse d0 ?b = Inr (d', NoError)"
    "dg_payload d' = BufferList_of_Buffer pay" "Buffer_str pay = drop 20 (Buffer_str ?b)"
    by (rule IPv4Datagram_parse_ok [OF _ wf])
  then have "\<exists>d'. IPv4Datagram_parse d0 ?b = Inr (d', NoError) \<and> BufferList_concatenate (dg_payload d') = drop 20 s"
    by simp
  with parse [of h0] show ?thesis by blast
qed

definition odd_datagram :: bytes where
  "odd_datagram = [0x65, 0, 0, 21, 0, 0, 0, 0, 0, 0, 0, 0, 0, 0, 0, 0, 0, 0, 0, 0, 9]"

theorem datagram_ignores_header_errors_witness:
  "(\<exists>d'. IPv4Datagram_parse IPv4Datagram_default (Buffer_of_string odd_datagram) = Inr (d', NoError)
        \<and> BufferList_concatenate (dg_payload d') = [9])
   \<and> (\<exists>h p. IPv4Header_parse IPv4Header_default (NetParser_new (Buffer_of_string odd_datagram))
        = Inr (h, p, WrongIPVersion))"
proof -
  have "ih_hlen (IPv4Header_at odd_datagram) = 5" "length odd_datagram = 21"
    "unat (ih_len (IPv4Header_at odd_datagram)) = 21" "ih_ver (IPv4Header_at odd_datagram) = 6"
    "drop 20 odd_datagram = [9]"
    by (simp_all add: odd_datagram_def IPv4Header_at_def field_def be_nat_def)
  then show ?thesis
    using datagram_ignores_header_errors [of odd_datagram IPv4Datagram_default IPv4Header_default] by auto
qed

end
