(* ===== verification/Adapters.thy ===== *)
theory Adapters
  imports Sockets IPv4
begin

text \<open>
  The classes that carry TCP segments in datagrams: \<^verbatim>\<open>FdAdapterConfig\<close> of \<^verbatim>\<open>tcp_config.hh\<close>,
  \<^verbatim>\<open>fd_adapter.hh\<close> and \<^verbatim>\<open>fd_adapter.cc\<close> (segments in UDP payloads), \<^verbatim>\<open>tcp_over_ip.cc\<close> and
  \<^verbatim>\<open>tuntap_adapter.hh\<close> (segments in IPv4 datagrams on a TUN device) and \<^verbatim>\<open>lossy_fd_adapter.hh\<close>, all in
  \<^verbatim>\<open>libsponge/tcp_helpers\<close>.
\<close>

section \<open>FdAdapterBase\<close>

record FdAdapterConfig =
  fc_source :: Address
  fc_destination :: Address
  fc_loss_rate_dn :: u16
  fc_loss_rate_up :: u16

text \<open>The default members are \<^verbatim>\<open>Address{"0", 0}\<close>, so that the constructor calls the resolver.\<close>

definition FdAdapterConfig_new :: "libc \<Rightarrow> FdAdapterConfig result" where
  "FdAdapterConfig_new lc =
     bindE (Address_of_ip lc ''0'' 0) (\<lambda>source.
       bindE (Address_of_ip lc ''0'' 0) (\<lambda>destination.
         Inr \<lparr>fc_source = source, fc_destination = destination, fc_loss_rate_dn = 0, fc_loss_rate_up = 0\<rparr>))"

record FdAdapterBase =
  fa_cfg :: FdAdapterConfig
  fa_listen :: bool

definition FdAdapterBase_set_listening :: "bool \<Rightarrow> 'z FdAdapterBase_scheme \<Rightarrow> 'z FdAdapterBase_scheme" where
  "FdAdapterBase_set_listening l a = a\<lparr>fa_listen := l\<rparr>"

definition FdAdapterBase_listening :: "'z FdAdapterBase_scheme \<Rightarrow> bool" where
  "FdAdapterBase_listening a = fa_listen a"

definition FdAdapterBase_config :: "'z FdAdapterBase_scheme \<Rightarrow> FdAdapterConfig" where
  "FdAdapterBase_config a = fa_cfg a"

text \<open>Assignment through the reference that \<^verbatim>\<open>config_mut\<close> and \<^verbatim>\<open>config_mutable\<close> return.\<close>

definition FdAdapterBase_config_mut :: "FdAdapterConfig \<Rightarrow> 'z FdAdapterBase_scheme \<Rightarrow> 'z FdAdapterBase_scheme" where
  "FdAdapterBase_config_mut cfg a = a\<lparr>fa_cfg := cfg\<rparr>"

definition FdAdapterBase_tick :: "u64 \<Rightarrow> 'z FdAdapterBase_scheme \<Rightarrow> 'z FdAdapterBase_scheme" where
  "FdAdapterBase_tick ms a = a"

section \<open>TCPOverIPv4Adapter\<close>

text \<open>The last test of \<^verbatim>\<open>unwrap_tcp_in_ip\<close>.\<close>

definition unwrap_from_peer :: "libc \<Rightarrow> 'z FdAdapterBase_scheme \<Rightarrow> TCPSegment
    \<Rightarrow> (TCPSegment option \<times> 'z FdAdapterBase_scheme) result" where
  "unwrap_from_peer lc a tcp_seg =
     bindE (Address_port lc (fc_destination (fa_cfg a))) (\<lambda>port.
       Inr (if th_sport (sg_header tcp_seg) \<noteq> port then None else Some tcp_seg, a))"

text \<open>Recording the sender of a SYN as the peer.\<close>

definition unwrap_adopt :: "libc \<Rightarrow> 'z FdAdapterBase_scheme \<Rightarrow> IPv4Header \<Rightarrow> TCPSegment
    \<Rightarrow> 'z FdAdapterBase_scheme result" where
  "unwrap_adopt lc a h tcp_seg =
     bindE (Address_port lc (fc_source (fa_cfg a))) (\<lambda>port.
     bindE (Address_of_ip lc (lc_inet_ntoa lc (ih_dst h)) port) (\<lambda>source.
     bindE (Address_of_ip lc (lc_inet_ntoa lc (ih_src h)) (th_sport (sg_header tcp_seg))) (\<lambda>destination.
       Inr (FdAdapterBase_set_listening False
         (FdAdapterBase_config_mut ((fa_cfg a)\<lparr>fc_source := source, fc_destination := destination\<rparr>) a)))))"

definition TCPOverIPv4Adapter_unwrap_tcp_in_ip :: "libc \<Rightarrow> 'z FdAdapterBase_scheme \<Rightarrow> IPv4Datagram
    \<Rightarrow> (TCPSegment option \<times> 'z FdAdapterBase_scheme) result" where
  "TCPOverIPv4Adapter_unwrap_tcp_in_ip lc a ip_dgram =
     (let h = dg_header ip_dgram in
      bindE (if FdAdapterBase_listening a then Inr False
             else bindE (Address_ipv4_numeric (fc_source (fa_cfg a))) (\<lambda>ip. Inr (ih_dst h \<noteq> ip))) (\<lambda>not_for_us.
      if not_for_us then Inr (None, a) else
      bindE (if FdAdapterBase_listening a then Inr False
             else bindE (Address_ipv4_numeric (fc_destination (fa_cfg a))) (\<lambda>ip. Inr (ih_src h \<noteq> ip))) (\<lambda>not_from_peer.
      if not_from_peer then Inr (None, a) else
      if ih_proto h \<noteq> IPv4Header_PROTO_TCP then Inr (None, a) else
      bindE (BufferList_to_Buffer (dg_payload ip_dgram)) (\<lambda>buffer.
      bindE (TCPSegment_parse TCPSegment_default buffer (IPv4Header_pseudo_cksum h)) (\<lambda>(tcp_seg, verdict).
      if verdict \<noteq> NoError then Inr (None, a) else
      bindE (Address_port lc (fc_source (fa_cfg a))) (\<lambda>port.
      if th_dport (sg_header tcp_seg) \<noteq> port then Inr (None, a) else
      if FdAdapterBase_listening a then
        if th_syn (sg_header tcp_seg) \<and> \<not> th_rst (sg_header tcp_seg)
        then bindE (unwrap_adopt lc a h tcp_seg) (\<lambda>a. unwrap_from_peer lc a tcp_seg)
        else Inr (None, a)
      else unwrap_from_peer lc a tcp_seg))))))"

text \<open>The segment is passed by reference: its ports are set.\<close>

definition TCPOverIPv4Adapter_wrap_tcp_in_ip :: "libc \<Rightarrow> 'z FdAdapterBase_scheme \<Rightarrow> TCPSegment
    \<Rightarrow> (TCPSegment \<times> IPv4Datagram) result" where
  "TCPOverIPv4Adapter_wrap_tcp_in_ip lc a seg =
     bindE (Address_port lc (fc_source (fa_cfg a))) (\<lambda>sport.
     bindE (Address_port lc (fc_destination (fa_cfg a))) (\<lambda>dport.
     let seg = seg\<lparr>sg_header := (sg_header seg)\<lparr>th_sport := sport, th_dport := dport\<rparr>\<rparr>;
         ip_dgram = IPv4Datagram_default in
     bindE (Address_ipv4_numeric (fc_source (fa_cfg a))) (\<lambda>src.
     bindE (Address_ipv4_numeric (fc_destination (fa_cfg a))) (\<lambda>dst.
     let h = (dg_header ip_dgram)\<lparr>ih_src := src, ih_dst := dst\<rparr>;
         h = h\<lparr>ih_len := ucast (ucast (ih_hlen h) * 4 + ucast (th_doff (sg_header seg)) * 4
                               + Buffer_size (sg_payload seg) :: u64)\<rparr> in
     bindE (TCPSegment_serialize seg (IPv4Header_pseudo_cksum h)) (\<lambda>payload.
       Inr (seg, \<lparr>dg_header = h, dg_payload = payload\<rparr>))))))"

section \<open>The adapters\<close>

text \<open>What \<^verbatim>\<open>TCPSpongeSocket\<close> requires of its template parameter \<^verbatim>\<open>AdaptT\<close>.\<close>

record ('a, 'k) adapter =
  da_read :: "'a \<Rightarrow> 'k world \<Rightarrow> (TCPSegment option \<times> 'a \<times> 'k world) result"
  da_write :: "'a \<Rightarrow> TCPSegment \<Rightarrow> 'k world \<Rightarrow> (TCPSegment \<times> 'a \<times> 'k world) result"
  da_set_listening :: "bool \<Rightarrow> 'a \<Rightarrow> 'a"
  da_config :: "'a \<Rightarrow> FdAdapterConfig"
  da_config_mut :: "FdAdapterConfig \<Rightarrow> 'a \<Rightarrow> 'a"
  da_tick :: "u64 \<Rightarrow> 'a \<Rightarrow> 'a"
  da_fd :: "'a \<Rightarrow> FileDescriptor"

record TCPOverUDPSocketAdapter = FdAdapterBase +
  ua_sock :: FileDescriptor

definition TCPOverUDPSocketAdapter_read :: "'k os \<Rightarrow> TCPOverUDPSocketAdapter \<Rightarrow> 'k world
    \<Rightarrow> (TCPSegment option \<times> TCPOverUDPSocketAdapter \<times> 'k world) result" where
  "TCPOverUDPSocketAdapter_read os a w =
     bindE (UDPSocket_recv os (ua_sock a) UDPSocket_default_mtu w) (\<lambda>(datagram, w).
       if \<not> FdAdapterBase_listening a \<and> \<not> Address_eq (rd_source_address datagram) (fc_destination (fa_cfg a))
       then Inr (None, a, w)
       else bindE (TCPSegment_parse TCPSegment_default (Buffer_of_string (rd_payload datagram)) 0) (\<lambda>(seg, verdict).
         if verdict \<noteq> NoError then Inr (None, a, w)
         else if FdAdapterBase_listening a then
           if th_syn (sg_header seg) \<and> \<not> th_rst (sg_header seg)
           then Inr (Some seg, FdAdapterBase_set_listening False
             (FdAdapterBase_config_mut ((fa_cfg a)\<lparr>fc_destination := rd_source_address datagram\<rparr>) a), w)
           else Inr (None, a, w)
         else Inr (Some seg, a, w)))"

definition TCPOverUDPSocketAdapter_write :: "'k os \<Rightarrow> libc \<Rightarrow> TCPOverUDPSocketAdapter \<Rightarrow> TCPSegment \<Rightarrow> 'k world
    \<Rightarrow> (TCPSegment \<times> TCPOverUDPSocketAdapter \<times> 'k world) result" where
  "TCPOverUDPSocketAdapter_write os lc a seg w =
     bindE (Address_port lc (fc_source (fa_cfg a))) (\<lambda>sport.
     bindE (Address_port lc (fc_destination (fa_cfg a))) (\<lambda>dport.
     let seg = seg\<lparr>sg_header := (sg_header seg)\<lparr>th_sport := sport, th_dport := dport\<rparr>\<rparr> in
     bindE (TCPSegment_serialize seg 0) (\<lambda>payload.
     bindE (UDPSocket_sendto os (ua_sock a) (fc_destination (fa_cfg a)) (BufferViewList_of_BufferList payload) w) (\<lambda>w.
       Inr (seg, a, w)))))"

definition UDP_adapter :: "'k os \<Rightarrow> libc \<Rightarrow> (TCPOverUDPSocketAdapter, 'k) adapter" where
  "UDP_adapter os lc = \<lparr>da_read = TCPOverUDPSocketAdapter_read os, da_write = TCPOverUDPSocketAdapter_write os lc,
     da_set_listening = FdAdapterBase_set_listening, da_config = FdAdapterBase_config,
     da_config_mut = FdAdapterBase_config_mut, da_tick = FdAdapterBase_tick, da_fd = ua_sock\<rparr>"

record TCPOverIPv4OverTunFdAdapter = FdAdapterBase +
  ta_tun :: FileDescriptor

text \<open>\<^verbatim>\<open>_tun.read()\<close> has the default limit \<^verbatim>\<open>numeric_limits<size_t>::max()\<close>.\<close>

definition TCPOverIPv4OverTunFdAdapter_read :: "'k os \<Rightarrow> libc \<Rightarrow> TCPOverIPv4OverTunFdAdapter \<Rightarrow> 'k world
    \<Rightarrow> (TCPSegment option \<times> TCPOverIPv4OverTunFdAdapter \<times> 'k world) result" where
  "TCPOverIPv4OverTunFdAdapter_read os lc a w =
     bindE (FileDescriptor_read os (ta_tun a) (- 1) w) (\<lambda>(data, w).
     bindE (IPv4Datagram_parse IPv4Datagram_default (Buffer_of_string data)) (\<lambda>(ip_dgram, verdict).
       if verdict \<noteq> NoError then Inr (None, a, w)
       else bindE (TCPOverIPv4Adapter_unwrap_tcp_in_ip lc a ip_dgram) (\<lambda>(seg, a). Inr (seg, a, w))))"

definition TCPOverIPv4OverTunFdAdapter_write :: "'k os \<Rightarrow> libc \<Rightarrow> TCPOverIPv4OverTunFdAdapter \<Rightarrow> TCPSegment \<Rightarrow> 'k world
    \<Rightarrow> (TCPSegment \<times> TCPOverIPv4OverTunFdAdapter \<times> 'k world) result" where
  "TCPOverIPv4OverTunFdAdapter_write os lc a seg w =
     bindE (TCPOverIPv4Adapter_wrap_tcp_in_ip lc a seg) (\<lambda>(seg, ip_dgram).
     bindE (IPv4Datagram_serialize ip_dgram) (\<lambda>packet.
     bindE (FileDescriptor_write os (ta_tun a) (BufferViewList_of_BufferList packet) True w) (\<lambda>(_, w).
       Inr (seg, a, w))))"

definition Tun_adapter :: "'k os \<Rightarrow> libc \<Rightarrow> (TCPOverIPv4OverTunFdAdapter, 'k) adapter" where
  "Tun_adapter os lc = \<lparr>da_read = TCPOverIPv4OverTunFdAdapter_read os lc, da_write = TCPOverIPv4OverTunFdAdapter_write os lc,
     da_set_listening = FdAdapterBase_set_listening, da_config = FdAdapterBase_config,
     da_config_mut = FdAdapterBase_config_mut, da_tick = FdAdapterBase_tick, da_fd = ta_tun\<rparr>"

section \<open>LossyFdAdapter\<close>

text \<open>
  The template wraps any adapter.  Its \<^verbatim>\<open>mt19937\<close> is \<^verbatim>\<open>os_random\<close>, which is drawn from only when the
  loss rate is not zero.
\<close>

definition LossyFdAdapter_should_drop :: "'k os \<Rightarrow> FdAdapterConfig \<Rightarrow> bool \<Rightarrow> 'k world \<Rightarrow> bool \<times> 'k world" where
  "LossyFdAdapter_should_drop os cfg uplink w =
     (let loss = (if uplink then fc_loss_rate_up cfg else fc_loss_rate_dn cfg) in
      if loss \<noteq> 0 then let (r, k) = os_random os (wd_kernel w) in ((ucast r :: u16) < loss, w\<lparr>wd_kernel := k\<rparr>)
      else (False, w))"

definition LossyFdAdapter_read :: "'k os \<Rightarrow> ('a, 'k) adapter \<Rightarrow> 'a \<Rightarrow> 'k world
    \<Rightarrow> (TCPSegment option \<times> 'a \<times> 'k world) result" where
  "LossyFdAdapter_read os ad a w =
     bindE (da_read ad a w) (\<lambda>(ret, a, w).
       let (drops, w) = LossyFdAdapter_should_drop os (da_config ad a) False w in
       if drops then Inr (None, a, w) else Inr (ret, a, w))"

definition LossyFdAdapter_write :: "'k os \<Rightarrow> ('a, 'k) adapter \<Rightarrow> 'a \<Rightarrow> TCPSegment \<Rightarrow> 'k world
    \<Rightarrow> (TCPSegment \<times> 'a \<times> 'k world) result" where
  "LossyFdAdapter_write os ad a seg w =
     (let (drops, w) = LossyFdAdapter_should_drop os (da_config ad a) True w in
      if drops then Inr (seg, a, w) else da_write ad a seg w)"

definition Lossy_adapter :: "'k os \<Rightarrow> ('a, 'k) adapter \<Rightarrow> ('a, 'k) adapter" where
  "Lossy_adapter os ad = \<lparr>da_read = LossyFdAdapter_read os ad, da_write = LossyFdAdapter_write os ad,
     da_set_listening = da_set_listening ad, da_config = da_config ad, da_config_mut = da_config_mut ad,
     da_tick = da_tick ad, da_fd = da_fd ad\<rparr>"

end
