(* ===== verification/Tunnel.thy ===== *)
theory Tunnel
  imports Adapters
begin

text \<open>
  What the adapters guarantee: a segment written by one TUN adapter is read back by the adapter of its
  peer, and an adapter lets through only what its peer sent.
\<close>

section \<open>Wrapping\<close>

lemma BufferList_wf_append [simp]:
  "BufferList_wf (BufferList_append l k) \<longleftrightarrow> BufferList_wf l \<and> BufferList_wf k"
  "BufferList_wf (BufferList_of_Buffer b) = Buffer_wf b"
  "length s < two64 \<Longrightarrow> BufferList_wf (BufferList_of_string s)"
  "BufferList_wf \<lparr>bl_buffers = []\<rparr>"
proof -
  have "foldl (\<lambda>acc buf. acc @ [buf]) xs ys = xs @ ys" for xs ys :: "Buffer list"
    by (induction ys arbitrary: xs) simp_all
  then show "BufferList_wf (BufferList_append l k) \<longleftrightarrow> BufferList_wf l \<and> BufferList_wf k"
    "length s < two64 \<Longrightarrow> BufferList_wf (BufferList_of_string s)"
    by (simp_all add: BufferList_wf_def BufferList_append_def BufferList_of_string_def BufferList_of_Buffer_def)
qed (simp_all add: BufferList_wf_def BufferList_of_Buffer_def)

lemma TCPSegment_serialize_wf:
  assumes "TCPSegment_serialize s ck = Inr bl" and "Buffer_wf (sg_payload s)" and "length (BufferList_concatenate bl) < two64"
  shows "BufferList_wf bl"
  using assms by (auto simp: TCPSegment_serialize_def Let_def bindE_Inr_iff)

text \<open>A segment that fits into an IPv4 datagram with the default header.\<close>

definition seg_fits :: "TCPSegment \<Rightarrow> bool" where
  "seg_fits seg \<longleftrightarrow> 5 \<le> th_doff (sg_header seg) \<and> th_doff (sg_header seg) < 16 \<and> Buffer_wf (sg_payload seg)
     \<and> 20 + 4 * unat (th_doff (sg_header seg)) + length (Buffer_str (sg_payload seg)) \<le> 65535"

lemma unat_wrap_len:
  assumes "seg_fits seg"
  shows "unat (ucast (ucast (5 :: u8) * 4 + ucast (th_doff (sg_header seg)) * 4 + Buffer_size (sg_payload seg) :: u64) :: u16)
    = 20 + 4 * unat (th_doff (sg_header seg)) + length (Buffer_str (sg_payload seg))"
proof -
  let ?d = "th_doff (sg_header seg)" and ?p = "length (Buffer_str (sg_payload seg))"
  have le: "20 + 4 * unat ?d + ?p \<le> 65535" using assms by (simp add: seg_fits_def)
  have "unat (Buffer_size (sg_payload seg)) = ?p" using assms by (simp add: seg_fits_def unat_Buffer_size)
  moreover have "unat (ucast ?d * 4 :: u64) = 4 * unat ?d"
    using u8_bound [of ?d] by (simp add: unat_word_ariths)
  ultimately have "unat (20 + ucast ?d * 4 + Buffer_size (sg_payload seg) :: u64) = 20 + 4 * unat ?d + ?p"
    using le by (simp add: unat_add64 two64_def)
  then show ?thesis using le by (simp add: unsigned_ucast_eq take_bit_nat_eq_self)
qed

definition aimed :: "FdAdapterConfig \<Rightarrow> u32 \<Rightarrow> u16 \<Rightarrow> u32 \<Rightarrow> u16 \<Rightarrow> bool" where
  "aimed cfg sip sport dip dport \<longleftrightarrow> fc_source cfg = ipv4_Address sip sport \<and> fc_destination cfg = ipv4_Address dip dport"

lemma wrap_ok:
  assumes "numeric_libc lc" and "aimed (fa_cfg a) sip sport dip dport" and "seg_fits seg"
  defines "seg' \<equiv> seg\<lparr>sg_header := (sg_header seg)\<lparr>th_sport := sport, th_dport := dport\<rparr>\<rparr>"
  obtains d c where "TCPOverIPv4Adapter_wrap_tcp_in_ip lc a seg = Inr (seg', d)"
    and "ih_ver (dg_header d) = 4" and "ih_hlen (dg_header d) = 5" and "ih_offset (dg_header d) = 0"
    and "ih_proto (dg_header d) = IPv4Header_PROTO_TCP"
    and "ih_src (dg_header d) = sip" and "ih_dst (dg_header d) = dip" and "BufferList_wf (dg_payload d)"
    and "unat (ih_len (dg_header d)) = 20 + length (BufferList_concatenate (dg_payload d))"
    and "\<forall>b s0. Buffer_wf b \<and> Buffer_str b = BufferList_concatenate (dg_payload d) \<longrightarrow>
      (\<exists>s'. TCPSegment_parse s0 b (IPv4Header_pseudo_cksum (dg_header d)) = Inr (s', NoError)
        \<and> sg_header s' = (sg_header seg')\<lparr>th_cksum := c\<rparr> \<and> Buffer_str (sg_payload s') = Buffer_str (sg_payload seg))"
proof -
  define h where "h = IPv4Header_default\<lparr>ih_src := sip, ih_dst := dip,
    ih_len := ucast (ucast (5 :: u8) * 4 + ucast (th_doff (sg_header seg)) * 4 + Buffer_size (sg_payload seg) :: u64)\<rparr>"
  have hlen: "ih_hlen IPv4Header_default = 5" by (simp add: IPv4Header_default_def IPv4Header_LENGTH_def)
  have fits: "5 \<le> th_doff (sg_header seg')" "th_doff (sg_header seg') < 16"
    "4 * unat (th_doff (sg_header seg')) + length (Buffer_str (sg_payload seg')) \<le> 65535"
    using assms(3) by (simp_all add: seg'_def seg_fits_def)
  obtain bl c where bl: "TCPSegment_serialize seg' (IPv4Header_pseudo_cksum h) = Inr bl"
    "length (BufferList_concatenate bl) = 4 * unat (th_doff (sg_header seg')) + length (Buffer_str (sg_payload seg'))"
    "\<forall>b s0. Buffer_wf b \<and> Buffer_str b = BufferList_concatenate bl \<longrightarrow>
      (\<exists>s'. TCPSegment_parse s0 b (IPv4Header_pseudo_cksum h) = Inr (s', NoError)
        \<and> sg_header s' = (sg_header seg')\<lparr>th_cksum := c\<rparr> \<and> Buffer_str (sg_payload s') = Buffer_str (sg_payload seg'))"
    by (rule segment_serialize_parse [OF fits pseudo_cksum_small])
  have "length (BufferList_concatenate bl) < two64" using bl(2) fits(3) by (simp add: two64_def)
  then have wf: "BufferList_wf bl"
    using TCPSegment_serialize_wf [OF bl(1)] assms(3) by (simp add: seg'_def seg_fits_def)
  have "unat (ih_len h) = 20 + length (BufferList_concatenate bl)"
    using unat_wrap_len [OF assms(3)] bl(2) by (simp add: h_def seg'_def)
  moreover have "TCPOverIPv4Adapter_wrap_tcp_in_ip lc a seg = Inr (seg', \<lparr>dg_header = h, dg_payload = bl\<rparr>)"
    using assms(2) bl(1)
    by (simp add: TCPOverIPv4Adapter_wrap_tcp_in_ip_def aimed_def Address_port_numeric [OF assms(1)] Let_def
        IPv4Datagram_default_def h_def seg'_def hlen)
  ultimately show ?thesis
    using wf bl(3) by (intro that [of "\<lparr>dg_header = h, dg_payload = bl\<rparr>" c])
      (simp_all add: h_def hlen seg'_def, simp_all add: IPv4Header_default_def)
qed

section \<open>Unwrapping\<close>

text \<open>An adapter that takes datagrams from \<open>sip:sport\<close> to \<open>dip:dport\<close>: connected to that peer, or listening for a SYN.\<close>

definition expects :: "'z FdAdapterBase_scheme \<Rightarrow> TCPSegment \<Rightarrow> u32 \<Rightarrow> u16 \<Rightarrow> u32 \<Rightarrow> u16 \<Rightarrow> bool" where
  "expects b seg sip sport dip dport \<longleftrightarrow>
     (if fa_listen b then th_syn (sg_header seg) \<and> \<not> th_rst (sg_header seg) \<and> (\<exists>ip. fc_source (fa_cfg b) = ipv4_Address ip dport)
      else aimed (fa_cfg b) dip dport sip sport)"

text \<open>The adapter once it is connected to the peer.\<close>

definition connected :: "'z FdAdapterBase_scheme \<Rightarrow> u32 \<Rightarrow> u16 \<Rightarrow> u32 \<Rightarrow> u16 \<Rightarrow> 'z FdAdapterBase_scheme" where
  "connected b sip sport dip dport =
     b\<lparr>fa_cfg := (fa_cfg b)\<lparr>fc_source := ipv4_Address dip dport, fc_destination := ipv4_Address sip sport\<rparr>, fa_listen := False\<rparr>"

lemma connected_id: "expects b seg sip sport dip dport \<Longrightarrow> \<not> fa_listen b \<Longrightarrow> connected b sip sport dip dport = b"
  by (simp add: expects_def connected_def aimed_def)

lemma unwrap_ok:
  assumes "numeric_libc lc" and "expects b seg sip sport dip dport"
    and "ih_src (dg_header d) = sip" and "ih_dst (dg_header d) = dip" and "ih_proto (dg_header d) = IPv4Header_PROTO_TCP"
    and "dg_payload d = BufferList_of_Buffer pay"
    and "TCPSegment_parse TCPSegment_default pay (IPv4Header_pseudo_cksum (dg_header d)) = Inr (seg', NoError)"
    and "th_sport (sg_header seg') = sport" and "th_dport (sg_header seg') = dport"
    and "th_syn (sg_header seg') = th_syn (sg_header seg)" and "th_rst (sg_header seg') = th_rst (sg_header seg)"
  shows "TCPOverIPv4Adapter_unwrap_tcp_in_ip lc b d = Inr (Some seg', connected b sip sport dip dport)"
proof -
  note defs = TCPOverIPv4Adapter_unwrap_tcp_in_ip_def unwrap_from_peer_def unwrap_adopt_def FdAdapterBase_listening_def
    FdAdapterBase_set_listening_def FdAdapterBase_config_mut_def connected_def
  have pay: "BufferList_to_Buffer (dg_payload d) = Inr pay"
    using assms(6) by (simp add: BufferList_to_Buffer_def BufferList_of_Buffer_def)
  show ?thesis
  proof (cases "fa_listen b")
    case True
    then obtain ip where "th_syn (sg_header seg)" "\<not> th_rst (sg_header seg)" "fc_source (fa_cfg b) = ipv4_Address ip dport"
      using assms(2) by (auto simp: expects_def)
    then show ?thesis using True assms(3-5,7-11) pay
      by (simp add: defs Address_port_numeric [OF assms(1)] Address_of_ip_numeric [OF assms(1)])
  next
    case False
    then have "fc_source (fa_cfg b) = ipv4_Address dip dport" "fc_destination (fa_cfg b) = ipv4_Address sip sport"
      using assms(2) by (simp_all add: expects_def aimed_def)
    then show ?thesis using False assms(3-5,7-11) pay connected_id [OF assms(2)]
      by (simp add: defs Address_port_numeric [OF assms(1)])
  qed
qed

text \<open>\<^verbatim>\<open>unwrap_tcp_in_ip\<close> without the monadic plumbing.\<close>

lemma unwrap_cases:
  assumes "TCPOverIPv4Adapter_unwrap_tcp_in_ip lc a d = Inr (r, a')"
  obtains "r = None" and "a' = a"
  | buffer seg where "BufferList_to_Buffer (dg_payload d) = Inr buffer"
    and "TCPSegment_parse TCPSegment_default buffer (IPv4Header_pseudo_cksum (dg_header d)) = Inr (seg, NoError)"
    and "ih_proto (dg_header d) = IPv4Header_PROTO_TCP"
    and "Address_port lc (fc_source (fa_cfg a)) = Inr (th_dport (sg_header seg))"
    and "if fa_listen a
         then th_syn (sg_header seg) \<and> \<not> th_rst (sg_header seg)
           \<and> (\<exists>b. unwrap_adopt lc a (dg_header d) seg = Inr b \<and> unwrap_from_peer lc b seg = Inr (r, a'))
         else Address_ipv4_numeric (fc_source (fa_cfg a)) = Inr (ih_dst (dg_header d))
           \<and> Address_ipv4_numeric (fc_destination (fa_cfg a)) = Inr (ih_src (dg_header d))
           \<and> unwrap_from_peer lc a seg = Inr (r, a')"
  using assms
  by (cases "fa_listen a")
    (auto simp: TCPOverIPv4Adapter_unwrap_tcp_in_ip_def FdAdapterBase_listening_def Let_def bindE_Inr_iff split: if_splits)

lemma unwrap_from_peer_cases:
  "unwrap_from_peer lc a seg = Inr (r, a') \<Longrightarrow> a' = a
     \<and> (r = (if Address_port lc (fc_destination (fa_cfg a)) = Inr (th_sport (sg_header seg)) then Some seg else None))"
  by (auto simp: unwrap_from_peer_def bindE_Inr_iff)

lemma unwrap_adopt_ok:
  assumes "unwrap_adopt lc a h seg = Inr b" and "numeric_libc lc" and "Address_port lc (fc_source (fa_cfg a)) = Inr port"
  shows "b = connected a (ih_src h) (th_sport (sg_header seg)) (ih_dst h) port"
  using assms
  by (auto simp: unwrap_adopt_def connected_def Address_of_ip_numeric FdAdapterBase_set_listening_def FdAdapterBase_config_mut_def)

lemma read_all:
  assumes "os_read os (FileDescriptor_fd_num w f) FileDescriptor_BUFFER_SIZE (wd_kernel w) = ((int (length data), 0, data), k)"
    and "data \<noteq> []" and "length data \<le> 65535"
  shows "FileDescriptor_read os f (- 1) w = Inr (data, FileDescriptor_register_read f (w\<lparr>wd_kernel := k\<rparr>))"
proof -
  have "min FileDescriptor_BUFFER_SIZE (- 1) = FileDescriptor_BUFFER_SIZE"
    by (simp add: min_def word_order.extremum)
  moreover have "sint FileDescriptor_BUFFER_SIZE = 1048576" by (simp add: FileDescriptor_BUFFER_SIZE_def)
  moreover have "SystemCall ''read'' (int (length data)) 0 0 = Inr (int (length data))"
    using assms(3) to_int_id [of "int (length data)"] by (simp add: SystemCall_def)
  moreover have "string_resize (data @ rest) (of_nat (length data)) = data" for rest
    using assms(3) by (simp add: string_resize_def unat_of_nat64 two64_def)
  ultimately show ?thesis
    using assms by (simp add: FileDescriptor_read_def FileDescriptor_read_into_def Let_def)
qed

section \<open>Writing packets\<close>

text \<open>
  A TUN device takes one packet per \<^verbatim>\<open>writev\<close>: the call fails with a non-zero \<^verbatim>\<open>errno\<close>, or the
  bytes of all its chunks are one more packet on the link.
\<close>

definition packet_law :: "'k os \<Rightarrow> int \<Rightarrow> ('k \<Rightarrow> bytes list) \<Rightarrow> bool" where
  "packet_law os fd sent \<longleftrightarrow> (\<forall>iov k ret errno k'.
     os_writev os fd iov k = ((ret, errno), k') \<and> length (concat (map fst iov)) < 2 ^ 31 \<longrightarrow>
       (- (2 ^ 31) \<le> ret \<and> ret < 0 \<and> errno \<noteq> 0 \<and> sent k' = sent k)
       \<or> (ret = int (length (concat (map fst iov))) \<and> sent k' = sent k @ [concat (map fst iov)]))"

lemma BufferViewList_of_BufferList_data: "concat (bv_views (BufferViewList_of_BufferList bl)) = BufferList_concatenate bl"
  by (simp add: BufferViewList_of_BufferList_def BufferList_concatenate_flat buf.flat_def)

lemma views_small: "length (concat vs) < two64 \<Longrightarrow> list_all view_wf vs"
  by (induction vs) (auto simp: view_wf_def)

text \<open>One round of \<^verbatim>\<open>write\<close> empties the buffer, so a packet is not cut and not followed by another.\<close>

lemma write_packet:
  assumes "packet_law os (FileDescriptor_fd_num w f) sent" and small: "length (concat (bv_views buffer)) < 2 ^ 31"
  shows "case FileDescriptor_write os f buffer True w of
      Inl e \<Rightarrow> \<exists>iov ret errno k'. os_writev os (FileDescriptor_fd_num w f) iov (wd_kernel w) = ((ret, errno), k')
        \<and> ret < 0 \<and> errno \<noteq> 0 \<and> e = Unix_error ''writev'' errno
    | Inr (n, w') \<Rightarrow> sent (wd_kernel w') = sent (wd_kernel w) @ [concat (bv_views buffer)]
        \<and> wd_kernel w' = snd (os_writev os (FileDescriptor_fd_num w f) (BufferViewList_as_iovecs buffer) (wd_kernel w))"
proof -
  let ?fd = "FileDescriptor_fd_num w f" and ?data = "concat (bv_views buffer)"
  have iov: "concat (map fst (BufferViewList_as_iovecs buffer)) = ?data"
    by (simp add: BufferViewList_as_iovecs_def comp_def)
  have wf: "list_all view_wf (bv_views buffer)" using small by (intro views_small) (simp add: two64_def)
  have size: "BufferViewList_size buffer = size64 ?data" by (rule BufferViewList_size_concat [OF wf])
  have usize: "unat (size64 ?data) = length ?data" using small by (intro unat_size64) (simp add: two64_def)
  have ssize: "sint (size64 ?data) = int (length ?data)"
    using small usize by (simp add: sint_uint uint_nat signed_take_bit_int_eq_self)
  obtain ret errno k where call: "os_writev os ?fd (BufferViewList_as_iovecs buffer) (wd_kernel w) = ((ret, errno), k)"
    by (metis surj_pair)
  with assms(1) small consider "- (2 ^ 31) \<le> ret" "ret < 0" "errno \<noteq> 0"
    | "ret = int (length ?data)" "sent k = sent (wd_kernel w) @ [?data]"
    unfolding packet_law_def iov [symmetric] by blast
  then show ?thesis
  proof cases
    case 1
    then have "FileDescriptor_write os f buffer True w = Inl (Unix_error ''writev'' errno)"
      using call to_int_id [of ret] by (simp add: FileDescriptor_write_def FileDescriptor_write_loop.simps [of os f] SystemCall_def)
    with 1 call show ?thesis by auto
  next
    case 2
    let ?w = "FileDescriptor_register_write f (w\<lparr>wd_kernel := k\<rparr>)"
    have sys: "SystemCall ''writev'' ret errno 0 = Inr (int (length ?data))"
      using 2(1) small to_int_id [of ret] by (simp add: SystemCall_def)
    have n: "unat (of_nat (length ?data) :: u64) = length ?data" using small by (intro unat_of_nat64) (simp add: two64_def)
    obtain buffer' where b': "BufferViewList_remove_prefix buffer (of_nat (length ?data)) = Inr buffer'"
      "list_all view_wf (bv_views buffer')" "concat (bv_views buffer') = []"
      using BufferViewList_remove_prefix_spec [OF wf, of "of_nat (length ?data)"] n by auto
    have "BufferViewList_size buffer' = 0" using BufferViewList_size_concat [OF b'(2)] b'(3) by (simp add: size64_def)
    moreover have "length ?data = 0 \<longrightarrow> size64 ?data = 0" using usize by (metis unat_eq_0)
    ultimately have "FileDescriptor_write os f buffer True w = Inr (0 + of_nat (length ?data), ?w)"
      unfolding FileDescriptor_write_def using call sys b'(1)
      by (subst FileDescriptor_write_loop.simps) (auto simp: Let_def size ssize)
    with 2(2) call show ?thesis by simp
  qed
qed

section \<open>Properties\<close>

text \<open>
  C21: Take an adapter whose configuration names numeric addresses \<open>sip:sport\<close> and \<open>dip:dport\<close>, on a TUN
  device that takes a packet per \<^verbatim>\<open>writev\<close>, and a segment that fits into a datagram.  Its \<^verbatim>\<open>write\<close>
  throws only when \<^verbatim>\<open>writev\<close> fails.  Otherwise exactly one packet is added to the link, and the adapter
  stays as it was.  The TUN adapter of the peer, when its device hands it that packet, returns the same segment with the two
  ports and the checksum filled in.  A connected peer keeps its configuration; a listening one, if the
  segment is a SYN, stops listening and is connected to the sender from then on.
\<close>

theorem tun_roundtrip:
  assumes "numeric_libc lc" and "aimed (fa_cfg a) sip sport dip dport" and "seg_fits seg"
    and "expects b seg sip sport dip dport" and "packet_law os (FileDescriptor_fd_num w (ta_tun a)) sent"
  shows "case TCPOverIPv4OverTunFdAdapter_write os lc a seg w of
      Inl e \<Rightarrow> \<exists>iov ret errno k'. os_writev os (FileDescriptor_fd_num w (ta_tun a)) iov (wd_kernel w) = ((ret, errno), k')
        \<and> ret < 0 \<and> errno \<noteq> 0 \<and> e = Unix_error ''writev'' errno
    | Inr (seg1, a1, w1) \<Rightarrow> a1 = a \<and> (\<exists>packet c seg'. sent (wd_kernel w1) = sent (wd_kernel w) @ [packet]
        \<and> (\<forall>os2 w2 k2. os_read os2 (FileDescriptor_fd_num w2 (ta_tun b)) FileDescriptor_BUFFER_SIZE (wd_kernel w2)
              = ((int (length packet), 0, packet), k2) \<longrightarrow>
            TCPOverIPv4OverTunFdAdapter_read os2 lc b w2 = Inr (Some seg', connected b sip sport dip dport,
              FileDescriptor_register_read (ta_tun b) (w2\<lparr>wd_kernel := k2\<rparr>)))
        \<and> sg_header seg' = (sg_header seg)\<lparr>th_sport := sport, th_dport := dport, th_cksum := c\<rparr>
        \<and> Buffer_str (sg_payload seg') = Buffer_str (sg_payload seg))"
proof -
  let ?seg = "seg\<lparr>sg_header := (sg_header seg)\<lparr>th_sport := sport, th_dport := dport\<rparr>\<rparr>"
  obtain d c where d: "TCPOverIPv4Adapter_wrap_tcp_in_ip lc a seg = Inr (?seg, d)"
    "ih_ver (dg_header d) = 4" "ih_hlen (dg_header d) = 5" "ih_offset (dg_header d) = 0"
    "ih_proto (dg_header d) = IPv4Header_PROTO_TCP"
    "ih_src (dg_header d) = sip" "ih_dst (dg_header d) = dip" "BufferList_wf (dg_payload d)"
    "unat (ih_len (dg_header d)) = 20 + length (BufferList_concatenate (dg_payload d))"
    "\<forall>b s0. Buffer_wf b \<and> Buffer_str b = BufferList_concatenate (dg_payload d) \<longrightarrow>
      (\<exists>s'. TCPSegment_parse s0 b (IPv4Header_pseudo_cksum (dg_header d)) = Inr (s', NoError)
        \<and> sg_header s' = (sg_header ?seg)\<lparr>th_cksum := c\<rparr> \<and> Buffer_str (sg_payload s') = Buffer_str (sg_payload seg))"
    by (rule wrap_ok [OF assms(1-3)])
  have pre: "5 \<le> ih_hlen (dg_header d)" "ih_hlen (dg_header d) < 16"
    "ih_offset (dg_header d) AND 0x1fff = ih_offset (dg_header d)"
    "unat (ih_len (dg_header d)) = 4 * unat (ih_hlen (dg_header d)) + length (BufferList_concatenate (dg_payload d))"
    using d(3,4,9) by simp_all
  obtain bl c' d' pay p where bl: "IPv4Datagram_serialize d = Inr bl"
    "IPv4Datagram_parse IPv4Datagram_default (Buffer_of_string (BufferList_concatenate bl)) = Inr (d', NoError)"
    "dg_header d' = (dg_header d)\<lparr>ih_cksum := c'\<rparr>" "dg_payload d' = BufferList_of_Buffer pay"
    "Buffer_wf pay" "Buffer_str pay = BufferList_concatenate (dg_payload d)"
    "length (BufferList_concatenate bl) = unat (ih_len (dg_header d))"
    by (rule datagram_serialize_parse [OF d(2) pre(1-3) d(8) pre(4)])
  have ck: "IPv4Header_pseudo_cksum (dg_header d') = IPv4Header_pseudo_cksum (dg_header d)"
    by (simp add: bl(3) IPv4Header_pseudo_cksum_def IPv4Header_payload_length_def)
  obtain seg' where seg': "TCPSegment_parse TCPSegment_default pay (IPv4Header_pseudo_cksum (dg_header d')) = Inr (seg', NoError)"
    "sg_header seg' = (sg_header ?seg)\<lparr>th_cksum := c\<rparr>" "Buffer_str (sg_payload seg') = Buffer_str (sg_payload seg)"
    using d(10) bl(5,6) unfolding ck by blast
  have un: "TCPOverIPv4Adapter_unwrap_tcp_in_ip lc b d' = Inr (Some seg', connected b sip sport dip dport)"
    using d(5-7) bl(3) seg'(2) by (intro unwrap_ok [OF assms(1,4) _ _ _ bl(4) seg'(1)]) simp_all
  have small: "BufferList_concatenate bl \<noteq> []" "length (BufferList_concatenate bl) \<le> 65535"
    using bl(7) d(9) unsigned_less [of "ih_len (dg_header d)", where 'a = nat] by auto
  have read: "TCPOverIPv4OverTunFdAdapter_read os lc b w = Inr (Some seg', connected b sip sport dip dport,
      FileDescriptor_register_read (ta_tun b) (w\<lparr>wd_kernel := k\<rparr>))"
    if "os_read os (FileDescriptor_fd_num w (ta_tun b)) FileDescriptor_BUFFER_SIZE (wd_kernel w)
      = ((int (length (BufferList_concatenate bl)), 0, BufferList_concatenate bl), k)" for os :: "'b os" and w k
    using read_all [OF that small] bl(2) un by (simp add: TCPOverIPv4OverTunFdAdapter_read_def)
  have "length (concat (bv_views (BufferViewList_of_BufferList bl))) < 2 ^ 31"
    using small(2) unfolding BufferViewList_of_BufferList_data by simp
  from write_packet [OF assms(5) this] show ?thesis
    using read seg'(2,3) unfolding TCPOverIPv4OverTunFdAdapter_write_def d(1) BufferViewList_of_BufferList_data
    by (auto simp: bl(1) BufferViewList_of_BufferList_data split: sum.splits intro!: exI [of _ c])
qed

definition sample_adapter :: "u32 \<Rightarrow> u16 \<Rightarrow> u32 \<Rightarrow> u16 \<Rightarrow> TCPOverIPv4OverTunFdAdapter" where
  "sample_adapter sip sport dip dport = \<lparr>fa_cfg = \<lparr>fc_source = ipv4_Address sip sport,
     fc_destination = ipv4_Address dip dport, fc_loss_rate_dn = 0, fc_loss_rate_up = 0\<rparr>, fa_listen = False, ta_tun = 0\<rparr>"

definition listening_adapter :: "u16 \<Rightarrow> TCPOverIPv4OverTunFdAdapter" where
  "listening_adapter port = (sample_adapter 0 port 0 0)\<lparr>fa_listen := True\<rparr>"

definition syn_packet :: TCPSegment where
  "syn_packet = \<lparr>sg_header = TCPHeader_default\<lparr>th_syn := True\<rparr>, sg_payload = Buffer_default\<rparr>"

lemma sample_fits: "seg_fits syn_packet"
  by (simp add: seg_fits_def syn_packet_def TCPHeader_default_def TCPHeader_LENGTH_def)

lemma sample_aimed: "aimed (fa_cfg (sample_adapter sip sport dip dport)) sip sport dip dport"
  by (simp add: aimed_def sample_adapter_def)

text \<open>A device that takes every packet, and a device that hands out the last packet of its kernel.\<close>

definition link_os :: "bytes list os" where
  "link_os = no_os\<lparr>os_writev := (\<lambda>_ iov k. ((int (length (concat (map fst iov))), 0), k @ [concat (map fst iov)])),
     os_read := (\<lambda>_ _ k. ((int (length (last k)), 0, last k), k))\<rparr>"

lemma link_law: "packet_law link_os fd (\<lambda>k. k)"
  by (simp add: packet_law_def link_os_def)

definition link_world :: "bytes list world" where
  "link_world = \<lparr>wd_kernel = [], wd_fds = wd_fds slow_world\<rparr>"

theorem tun_roundtrip_witness:
  "\<exists>seg1 w1 seg' w2. TCPOverIPv4OverTunFdAdapter_write link_os quad_libc (sample_adapter 1 80 2 90) syn_packet link_world
      = Inr (seg1, sample_adapter 1 80 2 90, w1)
    \<and> length (wd_kernel w1) = 1
    \<and> TCPOverIPv4OverTunFdAdapter_read link_os quad_libc (listening_adapter 90) (link_world\<lparr>wd_kernel := wd_kernel w1\<rparr>)
      = Inr (Some seg', sample_adapter 2 90 1 80, w2)
    \<and> th_sport (sg_header seg') = 80 \<and> th_dport (sg_header seg') = 90 \<and> th_syn (sg_header seg')"
proof -
  have ex: "expects (listening_adapter 90) syn_packet 1 80 2 90"
    by (auto simp: expects_def listening_adapter_def sample_adapter_def syn_packet_def TCPHeader_default_def)
  have con: "connected (listening_adapter 90) 1 80 2 90 = sample_adapter 2 90 1 80"
    by (simp add: connected_def listening_adapter_def sample_adapter_def)
  note trip = tun_roundtrip [OF numeric_quad_libc sample_aimed sample_fits ex link_law, of link_world]
  obtain seg1 w1 where w1: "TCPOverIPv4OverTunFdAdapter_write link_os quad_libc (sample_adapter 1 80 2 90) syn_packet link_world
      = Inr (seg1, sample_adapter 1 80 2 90, w1)"
    using trip by (auto simp: link_os_def split: sum.splits)
  obtain packet c seg' where p: "wd_kernel w1 = [packet]"
    and read: "\<forall>os2 w2 k2. os_read os2 (FileDescriptor_fd_num w2 (ta_tun (listening_adapter 90))) FileDescriptor_BUFFER_SIZE (wd_kernel w2)
          = ((int (length packet), 0, packet), k2) \<longrightarrow>
        TCPOverIPv4OverTunFdAdapter_read os2 quad_libc (listening_adapter 90) w2 = Inr (Some seg', sample_adapter 2 90 1 80,
          FileDescriptor_register_read (ta_tun (listening_adapter 90)) (w2\<lparr>wd_kernel := (k2 :: bytes list)\<rparr>))"
    and seg': "sg_header seg' = (sg_header syn_packet)\<lparr>th_sport := 80, th_dport := 90, th_cksum := c\<rparr>"
    using trip unfolding w1 con by (auto simp: link_world_def)
  have "os_read link_os fd n (wd_kernel (link_world\<lparr>wd_kernel := wd_kernel w1\<rparr>)) = ((int (length packet), 0, packet), [packet])" for fd n
    by (simp add: link_os_def p)
  from read [rule_format, OF this] w1 seg' show ?thesis
    by (auto simp: p syn_packet_def)
qed

text \<open>
  C22: What \<^verbatim>\<open>unwrap_tcp_in_ip\<close> lets through.  A datagram it drops leaves the adapter as it was.  A segment it
  returns is a TCP payload with a correct checksum for the adapter's own port.  If the adapter is connected,
  source and destination address and the port of the sender are those of its configuration, which stays; if it
  listens, the segment is a SYN without RST, and the adapter is connected to the sender of the datagram.
\<close>

theorem unwrap_filters:
  assumes "TCPOverIPv4Adapter_unwrap_tcp_in_ip lc a d = Inr (r, a')" and "numeric_libc lc"
  shows "case r of None \<Rightarrow> a' = a
    | Some seg \<Rightarrow> ih_proto (dg_header d) = IPv4Header_PROTO_TCP
        \<and> Address_port lc (fc_source (fa_cfg a)) = Inr (th_dport (sg_header seg))
        \<and> (\<exists>buffer. BufferList_to_Buffer (dg_payload d) = Inr buffer
            \<and> TCPSegment_parse TCPSegment_default buffer (IPv4Header_pseudo_cksum (dg_header d)) = Inr (seg, NoError))
        \<and> (if fa_listen a
           then th_syn (sg_header seg) \<and> \<not> th_rst (sg_header seg)
             \<and> a' = connected a (ih_src (dg_header d)) (th_sport (sg_header seg)) (ih_dst (dg_header d)) (th_dport (sg_header seg))
           else a' = a \<and> Address_ipv4_numeric (fc_source (fa_cfg a)) = Inr (ih_dst (dg_header d))
             \<and> Address_ipv4_numeric (fc_destination (fa_cfg a)) = Inr (ih_src (dg_header d))
             \<and> Address_port lc (fc_destination (fa_cfg a)) = Inr (th_sport (sg_header seg)))"
  using assms(1)
proof (cases rule: unwrap_cases)
  case (2 buffer seg)
  let ?c = "connected a (ih_src (dg_header d)) (th_sport (sg_header seg)) (ih_dst (dg_header d)) (th_dport (sg_header seg))"
  show ?thesis
  proof (cases "fa_listen a")
    case True
    then obtain b where b: "unwrap_adopt lc a (dg_header d) seg = Inr b" "unwrap_from_peer lc b seg = Inr (r, a')"
      and flags: "th_syn (sg_header seg)" "\<not> th_rst (sg_header seg)"
      using 2(5) by auto
    have "b = ?c" by (rule unwrap_adopt_ok [OF b(1) assms(2) 2(4)])
    then have "Address_port lc (fc_destination (fa_cfg b)) = Inr (th_sport (sg_header seg))"
      by (simp add: connected_def Address_port_numeric [OF assms(2)])
    then have "r = Some seg" "a' = ?c" using unwrap_from_peer_cases [OF b(2)] \<open>b = ?c\<close> by simp_all
    then show ?thesis using True flags 2(1-4) by simp
  next
    case False
    then have "unwrap_from_peer lc a seg = Inr (r, a')" using 2(5) by simp
    from unwrap_from_peer_cases [OF this] show ?thesis using False 2 by auto
  qed
qed simp

theorem unwrap_filters_witness:
  "TCPOverIPv4Adapter_unwrap_tcp_in_ip quad_libc (sample_adapter 1 80 2 90) sample_datagram = Inr (None, sample_adapter 1 80 2 90)"
proof -
  have "\<exists>a'. TCPOverIPv4Adapter_unwrap_tcp_in_ip quad_libc (sample_adapter 1 80 2 90) sample_datagram = Inr (None, a')"
    by (simp add: TCPOverIPv4Adapter_unwrap_tcp_in_ip_def sample_adapter_def FdAdapterBase_listening_def sample_datagram_def)
  with unwrap_filters [OF _ numeric_quad_libc, of "sample_adapter 1 80 2 90" sample_datagram None] show ?thesis by auto
qed

end
