(* ===== verification/Event_Loop.thy ===== *)
theory Event_Loop
  imports File_Descriptor
begin

text \<open>
  \<^verbatim>\<open>libsponge/util/eventloop.hh\<close> and \<^verbatim>\<open>eventloop.cc\<close>.  The callbacks of a rule work on the variables they
  captured: a state of type \<open>'s\<close>, of which the loop itself only sees the file descriptors, through the
  argument \<open>fds\<close>, and the kernel it polls, through \<open>poll\<close>.  The callbacks of this program never add rules.
\<close>

section \<open>Rules\<close>

datatype Direction = Direction_In | Direction_Out

definition POLLIN :: u16 where
  "POLLIN = 0x1"

definition POLLOUT :: u16 where
  "POLLOUT = 0x4"

definition POLLERR :: u16 where
  "POLLERR = 0x8"

definition POLLHUP :: u16 where
  "POLLHUP = 0x10"

definition POLLNVAL :: u16 where
  "POLLNVAL = 0x20"

fun Direction_value :: "Direction \<Rightarrow> u16" where
  "Direction_value Direction_In = POLLIN"
| "Direction_value Direction_Out = POLLOUT"

record 's Rule =
  ru_fd :: FileDescriptor
  ru_direction :: Direction
  ru_callback :: "'s \<Rightarrow> 's result"
  ru_interest :: "'s \<Rightarrow> bool result"
  ru_cancel :: "'s \<Rightarrow> 's result"

record 's EventLoop =
  el_rules :: "'s Rule list"

datatype loop_result = Success | Timeout | Exit

record pollfd =
  pf_fd :: int
  pf_events :: u16
  pf_revents :: u16

definition Rule_service_count :: "(FileDescriptor \<Rightarrow> FDWrapper) \<Rightarrow> 's Rule \<Rightarrow> u32" where
  "Rule_service_count fds r =
     (if ru_direction r = Direction_In then fd_read_count (fds (ru_fd r)) else fd_write_count (fds (ru_fd r)))"

definition EventLoop_new :: "'s EventLoop" where
  "EventLoop_new = \<lparr>el_rules = []\<rparr>"

definition EventLoop_add_rule :: "'s EventLoop \<Rightarrow> FileDescriptor \<Rightarrow> Direction \<Rightarrow> ('s \<Rightarrow> 's result)
    \<Rightarrow> ('s \<Rightarrow> bool result) \<Rightarrow> ('s \<Rightarrow> 's result) \<Rightarrow> 's EventLoop" where
  "EventLoop_add_rule l fd direction callback interest cancel =
     l\<lparr>el_rules := el_rules l @ [\<lparr>ru_fd = FileDescriptor_duplicate fd, ru_direction = direction,
        ru_callback = callback, ru_interest = interest, ru_cancel = cancel\<rparr>]\<rparr>"

section \<open>wait_next_event\<close>

text \<open>The loop that sets up a \<^verbatim>\<open>pollfd\<close> for each rule and cancels the rules at end of file.\<close>

fun setup_pollfds :: "('s \<Rightarrow> FileDescriptor \<Rightarrow> FDWrapper) \<Rightarrow> 's Rule list \<Rightarrow> 's
    \<Rightarrow> ('s \<times> 's Rule list \<times> pollfd list \<times> bool) result" where
  "setup_pollfds fds [] s = Inr (s, [], [], False)"
| "setup_pollfds fds (this_rule # rules) s =
     (let fd = fds s (ru_fd this_rule) in
      if ru_direction this_rule = Direction_In \<and> fd_eof fd
      then bindE (ru_cancel this_rule s) (setup_pollfds fds rules)
      else if fd_closed fd
      then bindE (ru_cancel this_rule s) (setup_pollfds fds rules)
      else bindE (ru_interest this_rule s) (\<lambda>interested.
        let p = \<lparr>pf_fd = fd_fd fd, pf_events = (if interested then Direction_value (ru_direction this_rule) else 0),
                 pf_revents = 0\<rparr> in
        bindE (setup_pollfds fds rules s) (\<lambda>(s, rules, pollfds, something_to_poll).
          Inr (s, this_rule # rules, p # pollfds, interested \<or> something_to_poll))))"

text \<open>The kernel fills in \<^verbatim>\<open>revents\<close>.\<close>

fun set_revents :: "pollfd list \<Rightarrow> u16 list \<Rightarrow> pollfd list" where
  "set_revents (p # ps) (r # rs) = p\<lparr>pf_revents := r\<rparr> # set_revents ps rs"
| "set_revents ps _ = ps"

text \<open>The body of the second loop for a rule whose descriptor is ready.\<close>

definition run_callback :: "('s \<Rightarrow> FileDescriptor \<Rightarrow> FDWrapper) \<Rightarrow> 's Rule \<Rightarrow> 's \<Rightarrow> 's result" where
  "run_callback fds this_rule s =
     (let count_before = Rule_service_count (fds s) this_rule in
      bindE (ru_callback this_rule s) (\<lambda>s.
        if count_before = Rule_service_count (fds s) this_rule
        then bindE (ru_interest this_rule s) (\<lambda>interested.
          if interested
          then Inl (Runtime_error
            ''EventLoop: busy wait detected: callback did not read/write fd and is still interested'')
          else Inr s)
        else Inr s))"

fun poll_results :: "('s \<Rightarrow> FileDescriptor \<Rightarrow> FDWrapper) \<Rightarrow> 's Rule list \<Rightarrow> pollfd list \<Rightarrow> 's
    \<Rightarrow> ('s \<times> 's Rule list) result" where
  "poll_results fds [] ps s = Inr (s, [])"
| "poll_results fds (this_rule # rules) [] s = Inl Undefined_behaviour"
| "poll_results fds (this_rule # rules) (this_pollfd # ps) s =
     (let poll_error = (pf_revents this_pollfd AND (POLLERR OR POLLNVAL) \<noteq> 0);
          poll_ready = (pf_revents this_pollfd AND pf_events this_pollfd \<noteq> 0);
          poll_hup = (pf_revents this_pollfd AND POLLHUP \<noteq> 0) in
      if poll_error then Inl (Runtime_error ''EventLoop: error on polled file descriptor'')
      else if poll_hup \<and> pf_events this_pollfd \<noteq> 0 \<and> \<not> poll_ready
      then bindE (ru_cancel this_rule s) (poll_results fds rules ps)
      else bindE (if poll_ready then run_callback fds this_rule s else Inr s) (\<lambda>s.
        bindE (poll_results fds rules ps s) (\<lambda>(s, rules). Inr (s, this_rule # rules))))"

definition EINTR :: int where
  "EINTR = 4"

definition EventLoop_wait_next_event :: "('s \<Rightarrow> FileDescriptor \<Rightarrow> FDWrapper)
    \<Rightarrow> ((int \<times> u16) list \<Rightarrow> int \<Rightarrow> 's \<Rightarrow> (int \<times> int \<times> u16 list) \<times> 's) \<Rightarrow> 's EventLoop \<Rightarrow> int \<Rightarrow> 's
    \<Rightarrow> (loop_result \<times> 's EventLoop \<times> 's) result" where
  "EventLoop_wait_next_event fds poll l timeout_ms s =
     bindE (setup_pollfds fds (el_rules l) s) (\<lambda>(s, rules, pollfds, something_to_poll).
       let l = l\<lparr>el_rules := rules\<rparr> in
       if \<not> something_to_poll then Inr (Exit, l, s)
       else
         let ((ret, errno, revents), s) = poll (map (\<lambda>p. (pf_fd p, pf_events p)) pollfds) timeout_ms s;
             go_on = bindE (poll_results fds rules (set_revents pollfds revents) s) (\<lambda>(s, rules).
               Inr (Success, l\<lparr>el_rules := rules\<rparr>, s)) in
         case SystemCall ''poll'' ret errno 0 of
           Inr n \<Rightarrow> if n = 0 then Inr (Timeout, l, s) else go_on
         | Inl e \<Rightarrow> if e = Unix_error ''poll'' EINTR then Inr (Exit, l, s) else go_on)"

end
