(* ===== verification/Loop_Client.thy ===== *)
theory Loop_Client
  imports Event_Loop
begin

text \<open>
  What an event loop guarantees to the program that installs rules in it: if every callback keeps an
  invariant, so does \<^verbatim>\<open>wait_next_event\<close>, and the only exceptions are those of the callbacks and
  the two of the loop itself.
\<close>

section \<open>Outcomes\<close>

text \<open>A call that returns gives a value in \<open>Q\<close>; one that throws gives an exception in \<open>E\<close>.\<close>

definition outcome :: "(exn \<Rightarrow> bool) \<Rightarrow> ('a \<Rightarrow> bool) \<Rightarrow> 'a result \<Rightarrow> bool" where
  "outcome E Q m \<longleftrightarrow> (case m of Inl e \<Rightarrow> E e | Inr x \<Rightarrow> Q x)"

lemma outcome_simps [simp]: "outcome E Q (Inl e) = E e" "outcome E Q (Inr x) = Q x"
  by (simp_all add: outcome_def)

lemma outcome_bind:
  "outcome E Q m \<Longrightarrow> (\<And>x. m = Inr x \<Longrightarrow> Q x \<Longrightarrow> outcome E P (f x)) \<Longrightarrow> outcome E P (bindE m f)"
  by (cases m) simp_all

lemma outcome_mono:
  "outcome E Q m \<Longrightarrow> (\<And>e. E e \<Longrightarrow> E' e) \<Longrightarrow> (\<And>x. m = Inr x \<Longrightarrow> Q x \<Longrightarrow> Q' x) \<Longrightarrow> outcome E' Q' m"
  by (cases m) simp_all

lemma outcome_Inr: "outcome E Q m \<Longrightarrow> m = Inr x \<Longrightarrow> Q x"
  by simp

section \<open>Clients of the event loop\<close>

definition loop_exn :: "exn \<Rightarrow> bool" where
  "loop_exn e \<longleftrightarrow> e = Runtime_error ''EventLoop: error on polled file descriptor''
     \<or> e = Runtime_error ''EventLoop: busy wait detected: callback did not read/write fd and is still interested''"

lemma set_revents_simps [simp]:
  "length (set_revents ps rs) = length ps" "map pf_events (set_revents ps rs) = map pf_events ps"
  by (induction ps rs rule: set_revents.induct) simp_all

text \<open>
  \<open>I\<close> is the invariant and \<open>A r\<close> what a rule knows from its interest to the call of its callback, while other
  rules are served.
\<close>

locale loop_client =
  fixes fds :: "'s \<Rightarrow> FileDescriptor \<Rightarrow> FDWrapper"
    and poll :: "(int \<times> u16) list \<Rightarrow> int \<Rightarrow> 's \<Rightarrow> (int \<times> int \<times> u16 list) \<times> 's"
    and R :: "'s Rule set"
    and I :: "'s \<Rightarrow> bool"
    and A :: "'s Rule \<Rightarrow> 's \<Rightarrow> bool"
    and E :: "exn \<Rightarrow> bool"
  assumes interest: "r \<in> R \<Longrightarrow> I s \<Longrightarrow> outcome E (\<lambda>b. b \<longrightarrow> A r s) (ru_interest r s)"
    and callback: "r \<in> R \<Longrightarrow> I s \<Longrightarrow> A r s \<Longrightarrow> outcome E I (ru_callback r s)"
    and cancel: "r \<in> R \<Longrightarrow> I s \<Longrightarrow> outcome E I (ru_cancel r s)"
    and callback_other: "r \<in> R \<Longrightarrow> r' \<in> R \<Longrightarrow> r' \<noteq> r \<Longrightarrow> I s \<Longrightarrow> A r s \<Longrightarrow> A r' s \<Longrightarrow> ru_callback r' s = Inr s' \<Longrightarrow> A r s'"
    and cancel_other: "r \<in> R \<Longrightarrow> r' \<in> R \<Longrightarrow> r' \<noteq> r \<Longrightarrow> I s \<Longrightarrow> A r s \<Longrightarrow> ru_cancel r' s = Inr s' \<Longrightarrow> A r s'"
    and polling: "I s \<Longrightarrow> poll ps t s = (x, s') \<Longrightarrow> I s' \<and> (\<forall>r \<in> R. A r s \<longrightarrow> A r s')"
begin

definition armed :: "'s Rule list \<Rightarrow> pollfd list \<Rightarrow> 's \<Rightarrow> bool" where
  "armed rules ps s \<longleftrightarrow> list_all2 (\<lambda>r p. pf_events p \<noteq> 0 \<longrightarrow> A r s) rules ps"

definition stable :: "'s Rule list \<Rightarrow> 's \<Rightarrow> 's \<Rightarrow> bool" where
  "stable rules s s' \<longleftrightarrow> (\<forall>r \<in> R - set rules. A r s \<longrightarrow> A r s')"

definition setup_post :: "'s Rule list \<Rightarrow> 's \<Rightarrow> 's \<times> 's Rule list \<times> pollfd list \<times> bool \<Rightarrow> bool" where
  "setup_post rules s x \<longleftrightarrow> (case x of (s', rules', ps, any) \<Rightarrow>
     I s' \<and> subseq rules' rules \<and> armed rules' ps s' \<and> stable rules s s')"

lemma setup_post_cancel:
  assumes "ru_cancel r s = Inr t" and "r \<in> R" and "I s" and "setup_post rules t x"
  shows "setup_post (r # rules) s x"
proof -
  have "stable (r # rules) s s'" if "stable rules t s'" for s'
    using that cancel_other [OF _ assms(2) _ assms(3) _ assms(1)] by (auto simp: stable_def)
  then show ?thesis using assms(4) by (auto simp: setup_post_def)
qed

lemma setup_post_keep:
  assumes "r \<in> R" and "r \<notin> set rules" and "pf_events p \<noteq> 0 \<longrightarrow> A r s" and "setup_post rules s (s', rules', ps, any)"
  shows "setup_post (r # rules) s (s', r # rules', p # ps, any')"
  using assms by (auto simp: setup_post_def armed_def stable_def)

lemma setup_ok:
  assumes "distinct rules" and "set rules \<subseteq> R" and "I s"
  shows "outcome E (setup_post rules s) (setup_pollfds fds rules s)"
  using assms
proof (induction rules arbitrary: s)
  case Nil
  then show ?case by (simp add: setup_post_def armed_def stable_def)
next
  case (Cons r rules)
  have r: "r \<in> R" "r \<notin> set rules" "distinct rules" "set rules \<subseteq> R" using Cons.prems by auto
  show ?case
  proof (cases "ru_direction r = Direction_In \<and> fd_eof (fds s (ru_fd r)) \<or> fd_closed (fds s (ru_fd r))")
    case True
    then have eq: "setup_pollfds fds (r # rules) s = bindE (ru_cancel r s) (setup_pollfds fds rules)"
      by (auto simp: Let_def)
    show ?thesis
      unfolding eq
      by (rule outcome_bind [OF cancel [OF r(1) Cons.prems(3)]], rule outcome_mono [OF Cons.IH [OF r(3,4)]])
        (simp_all add: setup_post_cancel [OF _ r(1) Cons.prems(3)])
  next
    case False
    then have eq: "setup_pollfds fds (r # rules) s = bindE (ru_interest r s) (\<lambda>b.
        bindE (setup_pollfds fds rules s) (\<lambda>(s', rules', ps, any). Inr (s', r # rules',
          \<lparr>pf_fd = fd_fd (fds s (ru_fd r)), pf_events = (if b then Direction_value (ru_direction r) else 0), pf_revents = 0\<rparr> # ps,
          b \<or> any)))"
      by (auto simp: Let_def)
    show ?thesis
      unfolding eq
      by (rule outcome_bind [OF interest [OF r(1) Cons.prems(3)]], rule outcome_bind [OF Cons.IH [OF r(3,4) Cons.prems(3)]])
        (auto intro!: setup_post_keep [OF r(1,2)])
  qed
qed

lemma run_callback_ok:
  assumes "r \<in> R" and "I s" and "A r s"
  shows "outcome (\<lambda>e. E e \<or> loop_exn e) (\<lambda>s'. I s' \<and> ru_callback r s = Inr s') (run_callback fds r s)"
proof (cases "ru_callback r s")
  case (Inr t)
  then have "outcome E (\<lambda>b. b \<longrightarrow> A r t) (ru_interest r t)" using callback [OF assms] interest [OF assms(1)] by simp
  then show ?thesis using Inr callback [OF assms]
    by (cases "ru_interest r t") (auto simp: run_callback_def loop_exn_def)
qed (use callback [OF assms] in \<open>simp add: run_callback_def\<close>)

lemma armed_other:
  assumes "armed rules ps s" and "set rules \<subseteq> R" and "r \<in> R" and "r \<notin> set rules" and "I s"
    and "ru_cancel r s = Inr t \<or> A r s \<and> ru_callback r s = Inr t"
  shows "armed rules ps t"
proof -
  have other: "A r' t" if "r' \<in> set rules" and "A r' s" for r'
    using that assms(2-6) callback_other [of r' r s t] cancel_other [of r' r s t] by auto
  show ?thesis using assms(1) unfolding armed_def by (rule list.rel_mono_strong) (auto intro: other)
qed

lemma results_ok:
  assumes "distinct rules" and "set rules \<subseteq> R" and "I s" and "armed rules ps s"
  shows "outcome (\<lambda>e. E e \<or> loop_exn e) (\<lambda>(s', rules'). I s' \<and> subseq rules' rules) (poll_results fds rules ps s)"
  using assms
proof (induction rules arbitrary: s ps)
  case (Cons r rules)
  then obtain p qs where ps: "ps = p # qs" "pf_events p \<noteq> 0 \<longrightarrow> A r s" "armed rules qs s"
    by (auto simp: armed_def list_all2_Cons1)
  have r: "r \<in> R" "r \<notin> set rules" "distinct rules" "set rules \<subseteq> R" using Cons.prems by auto
  note keep = armed_other [OF ps(3) r(4,1,2) Cons.prems(3)]
  let ?E = "\<lambda>e. E e \<or> loop_exn e" and ?Q = "\<lambda>(s', rules'). I s' \<and> subseq rules' (r # rules)"
  consider (bad) "pf_revents p AND (POLLERR OR POLLNVAL) \<noteq> 0"
    | (hup) "pf_revents p AND (POLLERR OR POLLNVAL) = 0"
        "pf_revents p AND POLLHUP \<noteq> 0 \<and> pf_events p \<noteq> 0 \<and> pf_revents p AND pf_events p = 0"
    | (serve) "pf_revents p AND (POLLERR OR POLLNVAL) = 0"
        "\<not> (pf_revents p AND POLLHUP \<noteq> 0 \<and> pf_events p \<noteq> 0 \<and> pf_revents p AND pf_events p = 0)"
    by blast
  then show ?case
  proof cases
    case bad
    then show ?thesis by (simp add: ps(1) loop_exn_def)
  next
    case hup
    then have eq: "poll_results fds (r # rules) ps s = bindE (ru_cancel r s) (poll_results fds rules qs)"
      by (simp add: ps(1))
    have "outcome ?E I (ru_cancel r s)" using cancel [OF r(1) Cons.prems(3)] by (rule outcome_mono) simp_all
    then show ?thesis
      unfolding eq
      by (rule outcome_bind, intro outcome_mono [OF Cons.IH [OF r(3,4)]]) (auto intro: keep)
  next
    case serve
    then have eq: "poll_results fds (r # rules) ps s
        = bindE (if pf_revents p AND pf_events p \<noteq> 0 then run_callback fds r s else Inr s) (\<lambda>s.
            bindE (poll_results fds rules qs s) (\<lambda>(s, rules). Inr (s, r # rules)))"
      by (auto simp: ps(1) Let_def)
    have "outcome ?E (\<lambda>t. I t \<and> armed rules qs t) (if pf_revents p AND pf_events p \<noteq> 0 then run_callback fds r s else Inr s)"
    proof (cases "pf_revents p AND pf_events p = 0")
      case False
      then have "A r s" using ps(2) by auto
      from outcome_mono [OF run_callback_ok [OF r(1) Cons.prems(3) this], of ?E "\<lambda>t. I t \<and> armed rules qs t"] keep this
      show ?thesis using False by auto
    qed (use Cons.prems(3) ps(3) in simp)
    then show ?thesis
      unfolding eq
      by (rule outcome_bind, intro outcome_bind [OF Cons.IH [OF r(3,4)]]) auto
  qed
qed simp

lemma after_setup:
  assumes "distinct (el_rules l)" and "set (el_rules l) \<subseteq> R" and "setup_post (el_rules l) s0 x"
  shows "outcome (\<lambda>e. E e \<or> loop_exn e) (\<lambda>(res, l', s'). I s' \<and> subseq (el_rules l') (el_rules l))
    (case x of (s, rules, pollfds, something_to_poll) \<Rightarrow>
       let l = l\<lparr>el_rules := rules\<rparr> in
       if \<not> something_to_poll then Inr (Exit, l, s)
       else
         let ((ret, errno, revents), s) = poll (map (\<lambda>p. (pf_fd p, pf_events p)) pollfds) t s;
             go_on = bindE (poll_results fds rules (set_revents pollfds revents) s) (\<lambda>(s, rules).
               Inr (Success, l\<lparr>el_rules := rules\<rparr>, s)) in
         case SystemCall ''poll'' ret errno 0 of
           Inr n \<Rightarrow> if n = 0 then Inr (Timeout, l, s) else go_on
         | Inl e \<Rightarrow> if e = Unix_error ''poll'' EINTR then Inr (Exit, l, s) else go_on)"
proof -
  obtain s1 rules ps any where x: "x = (s1, rules, ps, any)" "I s1" "subseq rules (el_rules l)" "armed rules ps s1"
    using assms(3) by (cases x) (auto simp: setup_post_def)
  obtain answer s2 where "poll (map (\<lambda>p. (pf_fd p, pf_events p)) ps) t s1 = (answer, s2)" by (rule prod.exhaust)
  moreover obtain ret errno revents where "answer = (ret, errno, revents)" by (rule prod_cases3)
  ultimately have call: "poll (map (\<lambda>p. (pf_fd p, pf_events p)) ps) t s1 = ((ret, errno, revents), s2)" by simp
  have rules: "distinct rules" "set rules \<subseteq> R"
    using x(3) assms(1,2) by (auto simp: subseq_conv_nths intro!: distinct_nthsI dest: in_set_nthsD)
  have s2: "I s2" "\<forall>r \<in> R. A r s1 \<longrightarrow> A r s2" using polling [OF x(2) call] by blast+
  have "list_all2 (\<lambda>r e. e \<noteq> 0 \<longrightarrow> A r s1) rules (map pf_events ps)"
    using x(4) by (simp add: armed_def list_all2_map2)
  then have "list_all2 (\<lambda>r p. pf_events p \<noteq> 0 \<longrightarrow> A r s1) rules (set_revents ps revents)"
    unfolding set_revents_simps(2) [of ps revents, symmetric] by (simp only: list_all2_map2)
  then have "armed rules (set_revents ps revents) s2"
    unfolding armed_def by (rule list.rel_mono_strong) (use s2(2) rules(2) in auto)
  from results_ok [OF rules s2(1) this] have served: "outcome (\<lambda>e. E e \<or> loop_exn e) (\<lambda>(res, l', s'). I s' \<and> subseq (el_rules l') (el_rules l))
      (bindE (poll_results fds rules (set_revents ps revents) s2) (\<lambda>(s, rules). Inr (Success, l\<lparr>el_rules := rules\<rparr>, s)))"
    using x(3) by (elim outcome_bind) (auto intro: subseq_order.trans)
  show ?thesis
    using served x s2(1) by (simp add: x(1) call Let_def split: sum.split)
qed

lemma wait_ok:
  assumes "distinct (el_rules l)" and "set (el_rules l) \<subseteq> R" and "I s"
  shows "outcome (\<lambda>e. E e \<or> loop_exn e) (\<lambda>(res, l', s'). I s' \<and> subseq (el_rules l') (el_rules l))
    (EventLoop_wait_next_event fds poll l t s)"
proof -
  have "outcome (\<lambda>e. E e \<or> loop_exn e) (setup_post (el_rules l) s) (setup_pollfds fds (el_rules l) s)"
    using setup_ok [OF assms] by (rule outcome_mono) simp_all
  then show ?thesis
    unfolding EventLoop_wait_next_event_def by (rule outcome_bind) (simp add: after_setup [OF assms(1,2)])
qed

end

text \<open>The rules that are left after a round.\<close>

lemma subseq_keeps:
  "subseq xs ys \<Longrightarrow> distinct ys \<Longrightarrow> set ys \<subseteq> R \<Longrightarrow> distinct xs \<and> set xs \<subseteq> R"
  using set_nths_subset [of ys] by (fastforce simp: subseq_conv_nths intro: distinct_nthsI)

section \<open>Errors of poll\<close>

lemma setup_quiet:
  "setup_pollfds fds rules s = Inr (s', rules', ps, any) \<Longrightarrow> length rules' = length ps \<and> (\<forall>p \<in> set ps. pf_revents p = 0)"
proof (induction rules arbitrary: s s' rules' ps any)
  case (Cons r rules)
  show ?case
    using Cons.prems
    by (auto simp: Let_def bindE_Inr_iff dest!: Cons.IH split: if_splits)
qed simp

lemma quiet_results:
  "length rules = length ps \<Longrightarrow> \<forall>p \<in> set ps. pf_revents p = 0 \<Longrightarrow> poll_results fds rules ps s = Inr (s, rules)"
  by (induction rules ps rule: list_induct2) simp_all

text \<open>
  When \<^verbatim>\<open>poll\<close> fails with an error other than \<^verbatim>\<open>EINTR\<close> and leaves the \<^verbatim>\<open>revents\<close> alone, \<^verbatim>\<open>wait_next_event\<close> does not
  throw, as its documentation says: it swallows the error, serves no rule, and returns \<^verbatim>\<open>Result::Success\<close>.
\<close>

lemma poll_errors_are_swallowed:
  assumes "setup_pollfds fds (el_rules l) s = Inr (s1, rules, ps, True)"
    and "poll (map (\<lambda>p. (pf_fd p, pf_events p)) ps) t s1 = ((- 1, errno, []), s2)" and "errno \<noteq> 0" and "errno \<noteq> EINTR"
  shows "EventLoop_wait_next_event fds poll l t s = Inr (Success, l\<lparr>el_rules := rules\<rparr>, s2)"
proof -
  have "set_revents ps [] = ps" by (cases ps) simp_all
  then have "poll_results fds rules (set_revents ps []) s2 = Inr (s2, rules)"
    using setup_quiet [OF assms(1)] by (simp add: quiet_results)
  moreover have "SystemCall ''poll'' (- 1) errno 0 = Inl (Unix_error ''poll'' errno)" using assms(3) by (simp add: SystemCall_def)
  ultimately show ?thesis using assms by (simp add: EventLoop_wait_next_event_def Let_def)
qed

definition hungry_rule :: "nat Rule" where
  "hungry_rule = \<lparr>ru_fd = 0, ru_direction = Direction_In, ru_callback = (\<lambda>n. Inr (Suc n)), ru_interest = (\<lambda>_. Inr True), ru_cancel = Inr\<rparr>"

lemma swallowed_error_example:
  "EventLoop_wait_next_event (\<lambda>_ _. \<lparr>fd_fd = 5, fd_eof = False, fd_closed = False, fd_read_count = 0, fd_write_count = 0\<rparr>)
     (\<lambda>_ _ n. ((- 1, 12, []), n)) \<lparr>el_rules = [hungry_rule]\<rparr> 10 7 = Inr (Success, \<lparr>el_rules = [hungry_rule]\<rparr>, 7)"
proof -
  let ?fds = "\<lambda>(_ :: nat) (_ :: FileDescriptor). \<lparr>fd_fd = 5, fd_eof = False, fd_closed = False, fd_read_count = 0, fd_write_count = 0\<rparr>"
  have "setup_pollfds ?fds (el_rules \<lparr>el_rules = [hungry_rule]\<rparr>) 7
      = Inr (7, [hungry_rule], [\<lparr>pf_fd = 5, pf_events = POLLIN, pf_revents = 0\<rparr>], True)"
    by (simp add: hungry_rule_def Let_def)
  from poll_errors_are_swallowed [OF this, of "\<lambda>_ _ n. ((- 1, 12, []), n)"] show ?thesis by (simp add: EINTR_def)
qed

end
