(* ===== verification/Adapter_Laws.thy ===== *)
theory Adapter_Laws
  imports Tunnel Loop_Client Connection_Run
begin

text \<open>
  What \<^verbatim>\<open>TCPSpongeSocket\<close> relies on in its adapter, as a locale, and that the four adapters of the program
  keep to it: reading and writing datagrams touches no other descriptor, gives only segments that a packet of
  the device carried, sends only packets that carry the given segment, and never fails with undefined
  behaviour or with the other exceptions that \<open>io_exn\<close> excludes.
\<close>

section \<open>The kernel and the socket pair\<close>

text \<open>
  Exceptions that a system call, a resolver or a malformed packet may cause, as opposed to undefined
  behaviour, the access of an empty \<^verbatim>\<open>optional\<close>, a call that never returns, and the check of the number of bytes
  the connection accepted.
\<close>

definition io_exn :: "exn \<Rightarrow> bool" where
  "io_exn e \<longleftrightarrow> e \<noteq> Undefined_behaviour \<and> e \<noteq> Bad_optional_access \<and> e \<noteq> Does_not_return
     \<and> e \<noteq> Runtime_error ''TCPConnection::write() accepted less than advertised length''"

lemma io_exn_simps [simp]:
  "io_exn (Unix_error a n)" "io_exn (Out_of_range a)" "io_exn (Length_error a)" "io_exn (Gai_error a n)" "io_exn (Invalid_argument a)"
  "io_exn (Runtime_error m) \<longleftrightarrow> m \<noteq> ''TCPConnection::write() accepted less than advertised length''"
  by (simp_all add: io_exn_def)

text \<open>
  Descriptor \<open>td\<close> is one end of a socket pair; \<open>got k\<close> is everything that was read from it and \<open>put k\<close> everything
  that was written to it.  Other calls leave both alone, and neither reaches 4 EiB.  What calls on other
  descriptors leave alone is said for any pair of histories, so that it also serves for the device below.
\<close>

definition same_pipe :: "('k \<Rightarrow> 'g) \<Rightarrow> ('k \<Rightarrow> 'p) \<Rightarrow> 'k \<Rightarrow> 'k \<Rightarrow> bool" where
  "same_pipe got put k k' \<longleftrightarrow> got k' = got k \<and> put k' = put k"

definition pipe_law :: "'k os \<Rightarrow> int \<Rightarrow> ('k \<Rightarrow> bytes) \<Rightarrow> ('k \<Rightarrow> bytes) \<Rightarrow> bool" where
  "pipe_law os td got put \<longleftrightarrow> read_law os td \<and> writev_law os td put
     \<and> (\<forall>n k ret errno data k'. os_read os td n k = ((ret, errno, data), k') \<longrightarrow>
         got k' = got k @ (if ret < 0 then [] else data) \<and> put k' = put k)
     \<and> (\<forall>iov k. got (snd (os_writev os td iov k)) = got k)
     \<and> (\<forall>k. length (got k) < 2 ^ 62 \<and> length (put k) < 2 ^ 62)"

definition others_law :: "'k os \<Rightarrow> int \<Rightarrow> ('k \<Rightarrow> 'g) \<Rightarrow> ('k \<Rightarrow> 'p) \<Rightarrow> bool" where
  "others_law os td got put \<longleftrightarrow> (\<forall>fd n k. fd \<noteq> td \<longrightarrow> same_pipe got put k (snd (os_read os fd n k)))
     \<and> (\<forall>fd iov k. fd \<noteq> td \<longrightarrow> same_pipe got put k (snd (os_writev os fd iov k)))
     \<and> (\<forall>fd n flags len k. fd \<noteq> td \<longrightarrow> same_pipe got put k (snd (os_recvfrom os fd n flags len k)))
     \<and> (\<forall>fd a len iov flags k. fd \<noteq> td \<longrightarrow> same_pipe got put k (snd (os_sendmsg os fd a len iov flags k)))
     \<and> (\<forall>fd how k. same_pipe got put k (snd (os_shutdown os fd how k)))
     \<and> (\<forall>ps t k. same_pipe got put k (snd (os_poll os ps t k)))
     \<and> (\<forall>k. same_pipe got put k (snd (os_timestamp_ms os k))) \<and> (\<forall>k. same_pipe got put k (snd (os_random os k)))"

definition kernel_law :: "'k os \<Rightarrow> int \<Rightarrow> ('k \<Rightarrow> bytes) \<Rightarrow> ('k \<Rightarrow> bytes) \<Rightarrow> bool" where
  "kernel_law os td got put \<longleftrightarrow> pipe_law os td got put \<and> others_law os td got put"

text \<open>Only descriptor object \<open>f\<close> was used, and its number stays.\<close>

definition used_only :: "('k \<Rightarrow> 'g) \<Rightarrow> ('k \<Rightarrow> 'p) \<Rightarrow> FileDescriptor \<Rightarrow> 'k world \<Rightarrow> 'k world \<Rightarrow> bool" where
  "used_only got put f w w' \<longleftrightarrow> same_pipe got put (wd_kernel w) (wd_kernel w')
     \<and> (\<forall>g. g \<noteq> f \<longrightarrow> wd_fds w' g = wd_fds w g) \<and> fd_fd (wd_fds w' f) = fd_fd (wd_fds w f)"

lemma same_pipe_refl [simp]: "same_pipe got put k k"
  by (simp add: same_pipe_def)

lemma same_pipe_trans: "same_pipe got put a b \<Longrightarrow> same_pipe got put b c \<Longrightarrow> same_pipe got put a c"
  by (simp add: same_pipe_def)

lemma used_only_refl [simp]: "used_only got put f w w"
  by (simp add: used_only_def)

lemma used_only_trans: "used_only got put f a b \<Longrightarrow> used_only got put f b c \<Longrightarrow> used_only got put f a c"
  unfolding used_only_def using same_pipe_trans by fastforce

lemma used_only_kernel: "same_pipe got put (wd_kernel w) k \<Longrightarrow> used_only got put f w (w\<lparr>wd_kernel := k\<rparr>)"
  by (simp add: used_only_def)

lemma used_only_set_fd: "(\<And>d. fd_fd (g d) = fd_fd d) \<Longrightarrow> used_only got put f w (set_fd f g w)"
  by (simp add: used_only_def)

lemma used_only_register:
  "used_only got put f w (FileDescriptor_register_read f w)" "used_only got put f w (FileDescriptor_register_write f w)"
  unfolding FileDescriptor_register_read_def FileDescriptor_register_write_def by (rule used_only_set_fd, simp)+

section \<open>Parsing never raises\<close>

lemma outcome_bind2:
  assumes "outcome E (\<lambda>(a, b). Q a b) m" and "\<And>a b. Q a b \<Longrightarrow> outcome E P (f a b)"
  shows "outcome E P (bindE m (\<lambda>(a, b). f a b))"
  using assms(1) by (rule outcome_bind) (use assms(2) in auto)

lemma outcome_bind3:
  assumes "outcome E (\<lambda>(a, b, c). Q a b c) m" and "\<And>a b c. Q a b c \<Longrightarrow> outcome E P (f a b c)"
  shows "outcome E P (bindE m (\<lambda>(a, b, c). f a b c))"
  using assms(1) by (rule outcome_bind) (use assms(2) in auto)

definition parser_le :: "nat \<Rightarrow> NetParser \<Rightarrow> bool" where
  "parser_le n p \<longleftrightarrow> parser_wf p \<and> length (left p) \<le> n"

context codec
begin

lemma dec_outcome:
  assumes "parser_le n p"
  shows "outcome E (\<lambda>(_, p'). parser_le n p') (dec p)"
proof -
  have wf: "parser_wf p" "length (left p) \<le> n" using assms by (simp_all add: parser_le_def)
  show ?thesis
  proof (cases "np_error p \<noteq> NoError \<or> length (left p) < width")
    case True
    then show ?thesis using dec_fail [OF wf(1) True] wf by (auto simp: parser_le_def parser_wf_def left_def)
  next
    case False
    then have "dec p = Inr (of_bytes (take width (left p)), skip p width)" "width \<le> length (left p)"
      using wf by (simp_all add: dec_ok parser_ok_def)
    then show ?thesis using skip_ok [OF wf(1), of width] wf by (auto simp: parser_le_def)
  qed
qed

end

lemma remove_prefix_outcome:
  assumes "parser_le m p"
  shows "outcome E (parser_le m) (NetParser_remove_prefix p n)"
proof (cases "np_error p \<noteq> NoError \<or> length (left p) < unat n")
  case True
  then show ?thesis using remove_prefix_fail [OF _ True] assms by (auto simp: parser_le_def parser_wf_def left_def)
next
  case False
  then show ?thesis using remove_prefix_ok [of p n] skip_ok [of p "unat n"] assms by (auto simp: parser_le_def parser_ok_def)
qed

lemmas dec_outcomes = u8.dec_outcome u16.dec_outcome u32.dec_outcome

lemma TCPHeader_parse_outcome:
  assumes "parser_le n p"
  shows "outcome E (\<lambda>(_, p', _). parser_le n p') (TCPHeader_parse h p)"
  unfolding TCPHeader_parse_def
  by (rule outcome_bind2, rule dec_outcomes, rule assms)
    (rule outcome_bind2, erule dec_outcomes | auto simp: Let_def intro!: outcome_bind [OF remove_prefix_outcome])+

lemma TCPSegment_parse_outcome:
  assumes "Buffer_wf b" and "length (Buffer_str b) < 2 ^ 31"
  shows "outcome E (\<lambda>(seg, verdict). verdict = NoError \<longrightarrow> seg_ok seg) (TCPSegment_parse s b ck)"
proof -
  have "parser_le (2 ^ 31 - 1) (NetParser_new b)" using assms by (simp add: parser_le_def left_def NetParser_new_def parser_wf_def)
  then show ?thesis
    unfolding TCPSegment_parse_def Let_def
    by (auto intro!: outcome_bind3 [OF TCPHeader_parse_outcome] simp: parser_le_def parser_wf_def left_def seg_ok_def)
qed

lemma IPv4Header_checks_outcome:
  "parser_le n p \<Longrightarrow> outcome E (\<lambda>(p', _). parser_le n p') (IPv4Header_checks h b sz p)"
  unfolding IPv4Header_checks_def by (auto simp: Let_def intro!: outcome_bind [OF remove_prefix_outcome])

lemma IPv4Header_parse_outcome:
  assumes "parser_le n p"
  shows "outcome E (\<lambda>(_, p', _). parser_le n p') (IPv4Header_parse h p)"
proof (cases "Buffer_size (np_buffer p) < IPv4Header_LENGTH")
  case True
  then show ?thesis using assms by (simp add: IPv4Header_parse_def)
next
  case False
  then show ?thesis
    unfolding IPv4Header_parse_def Let_def if_not_P [OF False]
    by - (rule outcome_bind2, rule dec_outcomes, rule assms,
      (rule outcome_bind2, erule dec_outcomes | rule outcome_bind2, erule IPv4Header_checks_outcome | simp)+)
qed

lemma IPv4Datagram_parse_outcome:
  assumes "Buffer_wf b" and "length (Buffer_str b) < 2 ^ 31"
  shows "outcome E (\<lambda>(d, _). \<exists>c. dg_payload d = BufferList_of_Buffer c \<and> Buffer_wf c \<and> length (Buffer_str c) < 2 ^ 31)
    (IPv4Datagram_parse d0 b)"
proof -
  have "parser_le (2 ^ 31 - 1) (NetParser_new b)" using assms by (simp add: parser_le_def left_def NetParser_new_def parser_wf_def)
  then show ?thesis
    unfolding IPv4Datagram_parse_def Let_def
    by (auto intro!: outcome_bind3 [OF IPv4Header_parse_outcome] simp: BufferList_of_Buffer_def parser_le_def parser_wf_def left_def)
qed

section \<open>Addresses\<close>

text \<open>What \<^verbatim>\<open>getaddrinfo(3)\<close> promises: the address it returns is as long as it says.\<close>

definition getaddrinfo_law :: "libc \<Rightarrow> bool" where
  "getaddrinfo_law lc \<longleftrightarrow> (\<forall>node service flags family ret addr len.
     lc_getaddrinfo lc node service flags family = (ret, Some (addr, len)) \<longrightarrow> unat len \<le> length addr)"

lemma Address_of_sockaddr_outcome: "unat sz \<le> length addr \<or> sizeof_sockaddr_storage \<le> length addr \<Longrightarrow>
    outcome io_exn (\<lambda>_. True) (Address_of_sockaddr addr sz)"
  by (auto simp: Address_of_sockaddr_def)

lemma Address_of_ip_outcome:
  assumes "getaddrinfo_law lc"
  shows "outcome io_exn (\<lambda>_. True) (Address_of_ip lc ip port)"
proof -
  have "outcome io_exn (\<lambda>_. True) (Address_resolve lc node service hints)" for node service hints
    using assms by (fastforce simp: Address_resolve_def getaddrinfo_law_def
      split: prod.splits option.splits intro!: Address_of_sockaddr_outcome)
  then show ?thesis by (simp add: Address_of_ip_def)
qed

lemma Address_ip_port_outcome: "outcome io_exn (\<lambda>_. True) (Address_ip_port lc a)"
  by (auto simp: Address_ip_port_def stoi_def Let_def split: prod.splits)

lemma Address_outcomes:
  "outcome io_exn (\<lambda>_. True) (Address_port lc a)" "outcome io_exn (\<lambda>_. True) (Address_to_string lc a)"
  "outcome io_exn (\<lambda>_. True) (Address_ipv4_numeric a)"
  by (auto simp: Address_port_def Address_to_string_def Address_ipv4_numeric_def intro!: outcome_bind [OF Address_ip_port_outcome])

section \<open>Descriptors other than the socket pair\<close>

lemma SystemCall_outcome: "outcome io_exn (\<lambda>n. n < 2 ^ 31) (SystemCall a ret errno okay)"
  using to_int_bounds by (simp add: SystemCall_def)

lemma length_string_resize: "length (string_resize s n) = unat n"
  by (simp add: string_resize_def)

lemma unat_of_int_less: "0 \<le> i \<Longrightarrow> i < 2 ^ 31 \<Longrightarrow> unat (of_int i :: u64) < 2 ^ 31"
  by (simp add: unat_eq_nat_uint uint_word_of_int nat_less_iff)

lemma read_other:
  assumes "others_law os td got put" and "FileDescriptor_fd_num w f \<noteq> td"
  shows "outcome io_exn (\<lambda>(data, w'). length data < 2 ^ 31 \<and> used_only got put f w w') (FileDescriptor_read os f limit w)"
proof -
  let ?n = "min FileDescriptor_BUFFER_SIZE limit"
  obtain ret errno data k where call: "os_read os (FileDescriptor_fd_num w f) ?n (wd_kernel w) = ((ret, errno, data), k)"
    by (metis surj_pair)
  have "same_pipe got put (wd_kernel w) (snd (os_read os (FileDescriptor_fd_num w f) ?n (wd_kernel w)))"
    using assms by (simp add: others_law_def)
  then have k: "used_only got put f w (w\<lparr>wd_kernel := k\<rparr>)" using call by (simp add: used_only_kernel)
  have eof: "used_only got put f w (set_fd f (\<lambda>d. d\<lparr>fd_eof := True\<rparr>) (w\<lparr>wd_kernel := k\<rparr>))"
    by (rule used_only_trans [OF k used_only_set_fd]) simp
  have reg: "used_only got put f w v \<Longrightarrow> used_only got put f w (FileDescriptor_register_read f v)" for v
    by (rule used_only_trans [OF _ used_only_register(1)])
  show ?thesis
    unfolding FileDescriptor_read_def FileDescriptor_read_into_def
    by (auto simp: call Let_def length_string_resize not_less unat_of_int_less [simplified] intro!: outcome_bind [OF SystemCall_outcome] reg k eof)
qed

lemma recv_other:
  assumes "others_law os td got put" and "FileDescriptor_fd_num w f \<noteq> td"
  shows "outcome io_exn (\<lambda>(d, w'). length (rd_payload d) < 2 ^ 31 \<and> used_only got put f w w') (UDPSocket_recv os f mtu w)"
proof -
  let ?call = "os_recvfrom os (FileDescriptor_fd_num w f) (size64 (string_resize [] mtu)) MSG_TRUNC (of_nat sizeof_sockaddr_storage) (wd_kernel w)"
  obtain answer k where answer: "?call = (answer, k)" by (rule prod.exhaust)
  obtain ret errno data address len where "answer = (ret, errno, data, address, len)" by (rule prod_cases5)
  note call = answer [unfolded this]
  have "same_pipe got put (wd_kernel w) (snd ?call)" using assms by (simp add: others_law_def)
  then have k: "used_only got put f w (FileDescriptor_register_read f (w\<lparr>wd_kernel := k\<rparr>))"
    unfolding answer by (intro used_only_trans [OF used_only_kernel used_only_register(1)]) simp
  show ?thesis
    unfolding UDPSocket_recv_def UDPSocket_recv_into_def
    by (auto simp: call Let_def length_string_resize not_less unat_of_int_less [simplified] k
      intro!: outcome_bind [OF SystemCall_outcome] outcome_bind [OF Address_of_sockaddr_outcome])
qed

lemma sendto_other:
  assumes "others_law os td got put" and "FileDescriptor_fd_num w f \<noteq> td"
  shows "outcome io_exn (used_only got put f w) (UDPSocket_sendto os f destination payload w)"
proof -
  let ?call = "os_sendmsg os (FileDescriptor_fd_num w f) (Some (ad_storage destination)) (ad_size destination)
    (BufferViewList_as_iovecs payload) 0 (wd_kernel w)"
  obtain ret errno k where call: "?call = ((ret, errno), k)" by (metis surj_pair)
  have "same_pipe got put (wd_kernel w) (snd ?call)" using assms by (simp add: others_law_def)
  then have k: "used_only got put f w (FileDescriptor_register_write f (w\<lparr>wd_kernel := k\<rparr>))"
    unfolding call by (intro used_only_trans [OF used_only_kernel used_only_register(2)]) simp
  show ?thesis
    unfolding UDPSocket_sendto_def sendmsg_helper_def
    by (auto simp: call k intro!: outcome_bind [OF outcome_bind [OF SystemCall_outcome, where P = "\<lambda>v. v = w\<lparr>wd_kernel := k\<rparr>"]])
qed

lemma BufferViewList_remove_prefix_outcome: "outcome io_exn (\<lambda>_. True) (BufferViewList_remove_prefix b n)"
proof -
  have "outcome io_exn (\<lambda>_. True) (remove_prefix_loop size64 string_view_remove_prefix (Out_of_range m) n vs)" for m vs
    by (induction vs arbitrary: n) (auto simp: string_view_remove_prefix_def)
  then show ?thesis unfolding BufferViewList_remove_prefix_def by (rule outcome_bind) simp
qed

lemma write_other:
  assumes "others_law os td got put" and "FileDescriptor_fd_num w f \<noteq> td"
  shows "outcome io_exn (\<lambda>(_, w'). used_only got put f w w') (FileDescriptor_write os f b all w)"
proof -
  have "outcome io_exn (\<lambda>(_, w'). used_only got put f w w') (FileDescriptor_write_loop os f all b acc v)"
    if "used_only got put f w v" for acc v
    using that assms
  proof (induction os f all b acc v rule: FileDescriptor_write_loop.induct)
    case (1 os f all b acc v)
    let ?call = "os_writev os (FileDescriptor_fd_num v f) (BufferViewList_as_iovecs b) (wd_kernel v)"
    obtain ret errno k where call: "?call = ((ret, errno), k)" by (metis surj_pair)
    have "FileDescriptor_fd_num v f \<noteq> td" using 1(2,4) by (simp add: used_only_def FileDescriptor_fd_num_def)
    then have "same_pipe got put (wd_kernel v) (snd ?call)" using 1(3) by (simp add: others_law_def)
    then have k: "used_only got put f w (FileDescriptor_register_write f (v\<lparr>wd_kernel := k\<rparr>))"
      unfolding call by (intro used_only_trans [OF used_only_trans [OF 1(2) used_only_kernel] used_only_register(2)]) simp
    have IH: "outcome io_exn (\<lambda>(_, w'). used_only got put f w w')
        (FileDescriptor_write_loop os f all b' (acc + of_int n) (FileDescriptor_register_write f (v\<lparr>wd_kernel := k\<rparr>)))"
      if "SystemCall ''writev'' ret errno 0 = Inr n" and "\<not> (n = 0 \<and> BufferViewList_size b \<noteq> 0)"
        and "\<not> sint (BufferViewList_size b) < n" and "BufferViewList_remove_prefix b (of_int n) = Inr b'"
        and "all \<and> BufferViewList_size b' \<noteq> 0" for n b'
      by (rule 1(1) [OF refl call [symmetric] refl refl that(1-3) refl that(4) refl that(5) k 1(3,4)])
    show ?case
      unfolding FileDescriptor_write_loop.simps [of os f all b acc v] Let_def call prod.case
      by (rule outcome_bind [OF SystemCall_outcome])
        (use IH in \<open>auto simp: k intro!: outcome_bind [OF BufferViewList_remove_prefix_outcome]\<close>)
  qed
  then show ?thesis by (simp add: FileDescriptor_write_def)
qed

section \<open>The device of an adapter\<close>

text \<open>
  The history of the device of an adapter: its descriptor, the packets that it has handed to the program and those that it
  has taken from it, and which segments a packet carries, on the way in and on the way out.
\<close>

record 'k wire =
  wire_fd :: int
  arrived :: "'k \<Rightarrow> bytes list"
  sent :: "'k \<Rightarrow> bytes list"
  incoming :: "bytes \<Rightarrow> TCPSegment \<Rightarrow> bool"
  outgoing :: "bytes \<Rightarrow> TCPSegment \<Rightarrow> bool"

definition udp_incoming :: "bytes \<Rightarrow> TCPSegment \<Rightarrow> bool" where
  "udp_incoming p seg \<longleftrightarrow> TCPSegment_parse TCPSegment_default (Buffer_of_string p) 0 = Inr (seg, NoError)"

definition with_ports :: "u16 \<Rightarrow> u16 \<Rightarrow> TCPSegment \<Rightarrow> TCPSegment" where
  "with_ports sport dport seg = seg\<lparr>sg_header := (sg_header seg)\<lparr>th_sport := sport, th_dport := dport\<rparr>\<rparr>"

definition udp_outgoing :: "bytes \<Rightarrow> TCPSegment \<Rightarrow> bool" where
  "udp_outgoing p seg \<longleftrightarrow> (\<exists>sport dport bl. TCPSegment_serialize (with_ports sport dport seg) 0 = Inr bl
     \<and> p = BufferList_concatenate bl)"

definition tun_incoming :: "bytes \<Rightarrow> TCPSegment \<Rightarrow> bool" where
  "tun_incoming p seg \<longleftrightarrow> (\<exists>d b. IPv4Datagram_parse IPv4Datagram_default (Buffer_of_string p) = Inr (d, NoError)
     \<and> BufferList_to_Buffer (dg_payload d) = Inr b
     \<and> TCPSegment_parse TCPSegment_default b (IPv4Header_pseudo_cksum (dg_header d)) = Inr (seg, NoError))"

definition tun_outgoing :: "bytes \<Rightarrow> TCPSegment \<Rightarrow> bool" where
  "tun_outgoing p seg \<longleftrightarrow> (\<exists>sport dport d bl.
     TCPSegment_serialize (with_ports sport dport seg) (IPv4Header_pseudo_cksum (dg_header d)) = Inr (dg_payload d)
     \<and> IPv4Datagram_serialize d = Inr bl \<and> p = BufferList_concatenate bl)"

text \<open>
  Documented behaviour of a UDP socket: \<^verbatim>\<open>recvfrom\<close> with \<^verbatim>\<open>MSG_TRUNC\<close> returns the length of a datagram and stores
  as much of it as fits; \<^verbatim>\<open>sendmsg\<close> sends a whole datagram or none.  Of a TUN device: \<^verbatim>\<open>read\<close> returns a
  packet, and \<^verbatim>\<open>writev\<close> sends one.  Calls on other descriptors do not touch it.
\<close>

definition udp_line :: "'k os \<Rightarrow> 'k wire \<Rightarrow> bool" where
  "udp_line os v \<longleftrightarrow> others_law os (wire_fd v) (arrived v) (sent v)
     \<and> (\<forall>n flags len k ret errno data addr alen k'.
          os_recvfrom os (wire_fd v) n flags len k = ((ret, errno, data, addr, alen), k') \<longrightarrow> sent v k' = sent v k
          \<and> (- (2 ^ 31) \<le> ret \<and> ret < 0 \<and> errno \<noteq> 0 \<and> arrived v k' = arrived v k
             \<or> 0 \<le> ret \<and> ret < 2 ^ 31 \<and> int (length data) = min ret (int (unat n)) \<and> arrived v k' = arrived v k @ [data]))
     \<and> (\<forall>addr len iov flags k ret errno k'.
          os_sendmsg os (wire_fd v) addr len iov flags k = ((ret, errno), k') \<longrightarrow> arrived v k' = arrived v k
          \<and> (- (2 ^ 31) \<le> ret \<and> ret < 0 \<and> errno \<noteq> 0 \<and> sent v k' = sent v k
             \<or> 0 \<le> ret \<and> ret < 2 ^ 31 \<and> sent v k' = sent v k @ [concat (map fst iov)]))
     \<and> incoming v = udp_incoming \<and> outgoing v = udp_outgoing"

definition tun_line :: "'k os \<Rightarrow> 'k wire \<Rightarrow> bool" where
  "tun_line os v \<longleftrightarrow> others_law os (wire_fd v) (arrived v) (sent v) \<and> read_law os (wire_fd v) \<and> packet_law os (wire_fd v) (sent v)
     \<and> (\<forall>n k ret errno data k'. os_read os (wire_fd v) n k = ((ret, errno, data), k') \<longrightarrow>
          sent v k' = sent v k \<and> arrived v k' = arrived v k @ (if ret < 0 then [] else [data]))
     \<and> (\<forall>iov k. arrived v (snd (os_writev os (wire_fd v) iov k)) = arrived v k)
     \<and> incoming v = tun_incoming \<and> outgoing v = tun_outgoing"

text \<open>The segments that the packets which have arrived carry.\<close>

definition heard :: "'k wire \<Rightarrow> 'k \<Rightarrow> TCPSegment \<Rightarrow> bool" where
  "heard v k seg \<longleftrightarrow> seg_ok seg \<and> (\<exists>p \<in> set (arrived v k). incoming v p seg)"

lemma recv_line:
  assumes "udp_line os v" and "FileDescriptor_fd_num w f = wire_fd v"
    and "UDPSocket_recv os f UDPSocket_default_mtu w = Inr (d, w')"
  shows "arrived v (wd_kernel w') = arrived v (wd_kernel w) @ [rd_payload d] \<and> sent v (wd_kernel w') = sent v (wd_kernel w)"
proof -
  let ?n = "size64 (string_resize [] UDPSocket_default_mtu)"
  let ?call = "os_recvfrom os (wire_fd v) ?n MSG_TRUNC (of_nat sizeof_sockaddr_storage) (wd_kernel w)"
  obtain answer k where answer: "?call = (answer, k)" by (rule prod.exhaust)
  obtain ret errno data address len where "answer = (ret, errno, data, address, len)" by (rule prod_cases5)
  note call = answer [unfolded this]
  have n: "unat ?n = 65536" by (simp add: size64_def length_string_resize UDPSocket_default_mtu_def)
  have "sent v k = sent v (wd_kernel w) \<and> (- (2 ^ 31) \<le> ret \<and> ret < 0 \<and> errno \<noteq> 0 \<and> arrived v k = arrived v (wd_kernel w)
      \<or> 0 \<le> ret \<and> ret < 2 ^ 31 \<and> int (length data) = min ret (int (unat ?n)) \<and> arrived v k = arrived v (wd_kernel w) @ [data])"
    using assms(1) call unfolding udp_line_def by blast
  then consider "SystemCall ''recvfrom'' ret errno 0 = Inl (Unix_error ''recvfrom'' errno)"
    | "SystemCall ''recvfrom'' ret errno 0 = Inr ret" "0 \<le> ret" "int (length data) = min ret (65536)"
      "arrived v k = arrived v (wd_kernel w) @ [data]" "sent v k = sent v (wd_kernel w)"
    using to_int_id [of ret] by (auto simp: SystemCall_def n)
  then show ?thesis
  proof cases
    case 1
    then show ?thesis
      using assms(3) call by (simp add: UDPSocket_recv_def UDPSocket_recv_into_def assms(2) Let_def bindE_Inr_iff)
  next
    case 2
    have "string_resize (data @ rest) (of_int ret) = data" if "ret \<le> 65536" for rest
    proof -
      have "ret = int (length data)" using 2(3) that by simp
      moreover from this have "unat (of_nat (length data) :: u64) = length data"
        using that by (intro unat_of_nat64) (simp add: two64_def)
      ultimately show ?thesis by (simp add: string_resize_def)
    qed
    then have "rd_payload d = data \<and> wd_kernel w' = k"
      using assms(3) call 2(1,2)
      by (auto simp: UDPSocket_recv_def UDPSocket_recv_into_def assms(2) Let_def bindE_Inr_iff UDPSocket_default_mtu_def split: if_splits)
    with 2(4,5) show ?thesis by simp
  qed
qed

lemma sendto_line:
  assumes "udp_line os v" and "FileDescriptor_fd_num w f = wire_fd v"
    and "UDPSocket_sendto os f destination (BufferViewList_of_BufferList bl) w = Inr w'"
  shows "arrived v (wd_kernel w') = arrived v (wd_kernel w) \<and> sent v (wd_kernel w') = sent v (wd_kernel w) @ [BufferList_concatenate bl]"
proof -
  let ?iov = "BufferViewList_as_iovecs (BufferViewList_of_BufferList bl)"
  obtain ret errno k where call: "os_sendmsg os (wire_fd v) (Some (ad_storage destination)) (ad_size destination) ?iov 0 (wd_kernel w)
      = ((ret, errno), k)" by (metis surj_pair)
  have iov: "concat (map fst ?iov) = BufferList_concatenate bl"
    by (simp add: BufferViewList_as_iovecs_def comp_def BufferViewList_of_BufferList_data)
  have law: "arrived v k = arrived v (wd_kernel w) \<and> (- (2 ^ 31) \<le> ret \<and> ret < 0 \<and> errno \<noteq> 0 \<and> sent v k = sent v (wd_kernel w)
      \<or> 0 \<le> ret \<and> ret < 2 ^ 31 \<and> sent v k = sent v (wd_kernel w) @ [BufferList_concatenate bl])"
    using assms(1) call unfolding udp_line_def iov [symmetric] by blast
  have "wd_kernel w' = k" and "\<exists>n. SystemCall ''sendmsg'' ret errno 0 = Inr n"
    using assms(3) call by (auto simp: UDPSocket_sendto_def sendmsg_helper_def assms(2) bindE_Inr_iff split: if_splits)
  with law show ?thesis using to_int_id [of ret] by (auto simp: SystemCall_def)
qed

lemma read_line:
  assumes "tun_line os v" and "FileDescriptor_fd_num w f = wire_fd v" and "FileDescriptor_read os f limit w = Inr (data, w')"
  shows "arrived v (wd_kernel w') = arrived v (wd_kernel w) @ [data] \<and> sent v (wd_kernel w') = sent v (wd_kernel w)"
proof -
  have "read_law os (FileDescriptor_fd_num w f)" using assms(1,2) by (simp add: tun_line_def)
  then show ?thesis
  proof (cases rule: read_spec [where limit = limit])
    case (2 data' errno k)
    then have "wd_kernel w' = k" "data' = data" using assms(3) by (auto split: if_splits)
    moreover have "sent v k = sent v (wd_kernel w) \<and> arrived v k = arrived v (wd_kernel w) @ [data']"
      using assms(1,2) 2(2) unfolding tun_line_def by fastforce
    ultimately show ?thesis by simp
  qed (use assms(3) in simp)
qed

lemma write_line:
  assumes "tun_line os v" and "FileDescriptor_fd_num w f = wire_fd v" and "length (BufferList_concatenate bl) < 2 ^ 31"
    and "FileDescriptor_write os f (BufferViewList_of_BufferList bl) True w = Inr (n, w')"
  shows "arrived v (wd_kernel w') = arrived v (wd_kernel w) \<and> sent v (wd_kernel w') = sent v (wd_kernel w) @ [BufferList_concatenate bl]"
proof -
  have "packet_law os (FileDescriptor_fd_num w f) (sent v)" using assms(1,2) by (simp add: tun_line_def)
  moreover have "length (concat (bv_views (BufferViewList_of_BufferList bl))) < 2 ^ 31"
    using assms(3) by (simp add: BufferViewList_of_BufferList_data)
  ultimately have "sent v (wd_kernel w') = sent v (wd_kernel w) @ [BufferList_concatenate bl]"
    "wd_kernel w' = snd (os_writev os (FileDescriptor_fd_num w f) (BufferViewList_as_iovecs (BufferViewList_of_BufferList bl)) (wd_kernel w))"
    using write_packet [of os w f "sent v" "BufferViewList_of_BufferList bl"]
    unfolding assms(4) sum.case prod.case BufferViewList_of_BufferList_data by blast+
  then show ?thesis using assms(1,2) unfolding tun_line_def by metis
qed

text \<open>What the serializers produce stays small, so that the device takes it in one call.\<close>

lemma unat_four_times: "unat (4 * ucast (b :: u8) :: u64) \<le> 1020"
proof -
  have "unat (ucast b :: u64) < 256" using unsigned_less [of b, where 'a = nat] by simp
  moreover have "unat (4 * ucast b :: u64) \<le> 4 * unat (ucast b :: u64)"
    by (simp add: unat_word_ariths)
  ultimately show ?thesis by simp
qed

lemma header_small:
  "TCPHeader_serialize h = Inr out \<Longrightarrow> length out \<le> 1020" "IPv4Header_serialize i = Inr out \<Longrightarrow> length out \<le> 1020"
  using unat_four_times
  by (auto simp: TCPHeader_serialize_def IPv4Header_serialize_def Let_def length_string_resize split: if_splits)

lemma serialize_small:
  assumes "seg_ok seg" and "TCPSegment_serialize (with_ports sport dport seg) ck = Inr (dg_payload d)" and "IPv4Datagram_serialize d = Inr bl"
  shows "length (BufferList_concatenate bl) < 2 ^ 31"
proof -
  let ?pay = "BufferList_concatenate (dg_payload d)"
  have pay: "Buffer_wf (sg_payload seg)" "length (Buffer_str (sg_payload seg)) < 2 ^ 31" using assms(1) by (simp_all add: seg_ok_def)
  obtain h out where "TCPHeader_serialize h = Inr out" and out: "?pay = out @ Buffer_str (sg_payload seg)"
    using assms(2) by (auto simp: TCPSegment_serialize_def with_ports_def Let_def bindE_Inr_iff dest!: sym [of _ "dg_payload d"])
  then have small: "length out \<le> 1020" using header_small(1) by blast
  have two: "length ?pay < two64" using out small pay(2) by (simp add: two64_def)
  have "BufferList_wf (dg_payload d)"
    by (rule TCPSegment_serialize_wf [OF assms(2)]) (use pay(1) two in \<open>simp_all add: with_ports_def\<close>)
  moreover have "BufferList_size (dg_payload d) = ucast (IPv4Header_payload_length (dg_header d))"
    using assms(3) by (auto simp: IPv4Datagram_serialize_def split: if_splits)
  ultimately have "length ?pay = unat (ucast (IPv4Header_payload_length (dg_header d)) :: u64)"
    using BufferList_size_concatenate unat_size64 [OF two] by metis
  then have "length ?pay < 65536" using unsigned_less [of "IPv4Header_payload_length (dg_header d)", where 'a = nat] by simp
  moreover obtain i head where "IPv4Header_serialize i = Inr head" "BufferList_concatenate bl = head @ ?pay"
    using assms(3) by (auto simp: IPv4Datagram_serialize_def Let_def bindE_Inr_iff split: if_splits dest!: sym [of _ bl])
  ultimately show ?thesis using header_small(2) [of i head] by simp
qed


section \<open>The contract of an adapter\<close>

definition read_keeps :: "('k \<Rightarrow> bytes) \<Rightarrow> ('k \<Rightarrow> bytes) \<Rightarrow> ('a \<Rightarrow> FileDescriptor) \<Rightarrow> 'a \<Rightarrow> 'k world
    \<Rightarrow> TCPSegment option \<Rightarrow> 'a \<Rightarrow> 'k world \<Rightarrow> bool" where
  "read_keeps got put fd a w seg a' w' \<longleftrightarrow> (\<forall>s. seg = Some s \<longrightarrow> seg_ok s) \<and> fd a' = fd a \<and> used_only got put (fd a) w w'"

text \<open>After a read nothing was sent, and a segment that is returned was in some packet that has arrived.\<close>

definition read_post :: "('k \<Rightarrow> bytes) \<Rightarrow> ('k \<Rightarrow> bytes) \<Rightarrow> 'k wire \<Rightarrow> ('a \<Rightarrow> FileDescriptor) \<Rightarrow> 'a \<Rightarrow> 'k world
    \<Rightarrow> TCPSegment option \<Rightarrow> 'a \<Rightarrow> 'k world \<Rightarrow> bool" where
  "read_post got put v fd a w seg a' w' \<longleftrightarrow> (\<forall>s. seg = Some s \<longrightarrow> heard v (wd_kernel w') s) \<and> fd a' = fd a \<and> used_only got put (fd a) w w'
     \<and> sent v (wd_kernel w') = sent v (wd_kernel w) \<and> (\<exists>ps. arrived v (wd_kernel w') = arrived v (wd_kernel w) @ ps)"

text \<open>After a write nothing has arrived, and every packet that was sent carries the segment.\<close>

definition write_post :: "('k \<Rightarrow> bytes) \<Rightarrow> ('k \<Rightarrow> bytes) \<Rightarrow> 'k wire \<Rightarrow> ('a \<Rightarrow> FileDescriptor) \<Rightarrow> 'a \<Rightarrow> 'k world
    \<Rightarrow> TCPSegment \<Rightarrow> 'a \<Rightarrow> 'k world \<Rightarrow> bool" where
  "write_post got put v fd a w seg a' w' \<longleftrightarrow> fd a' = fd a \<and> used_only got put (fd a) w w'
     \<and> arrived v (wd_kernel w') = arrived v (wd_kernel w)
     \<and> (\<exists>ps. sent v (wd_kernel w') = sent v (wd_kernel w) @ ps \<and> (\<forall>p \<in> set ps. outgoing v p seg))"

locale datagram_adapter =
  fixes mk :: "'k os \<Rightarrow> libc \<Rightarrow> ('a, 'k) adapter"
    and line :: "'k os \<Rightarrow> 'k wire \<Rightarrow> bool"
  assumes line_alone: "line os v \<Longrightarrow> others_law os (wire_fd v) (arrived v) (sent v)"
    and reading: "others_law os td got put \<Longrightarrow> line os v \<Longrightarrow> getaddrinfo_law lc \<Longrightarrow> wire_fd v \<noteq> td \<Longrightarrow>
      FileDescriptor_fd_num w (da_fd (mk os lc) a) = wire_fd v \<Longrightarrow>
      outcome io_exn (\<lambda>(seg, a', w'). read_post got put v (da_fd (mk os lc)) a w seg a' w') (da_read (mk os lc) a w)"
    and writing: "others_law os td got put \<Longrightarrow> line os v \<Longrightarrow> wire_fd v \<noteq> td \<Longrightarrow>
      FileDescriptor_fd_num w (da_fd (mk os lc) a) = wire_fd v \<Longrightarrow> seg_ok seg \<Longrightarrow>
      outcome io_exn (\<lambda>(_, a', w'). write_post got put v (da_fd (mk os lc)) a w seg a' w') (da_write (mk os lc) a seg w)"
    and keeps_fd: "da_fd (mk os lc) (da_tick (mk os lc) ms a) = da_fd (mk os lc) a"
      "da_fd (mk os lc) (da_config_mut (mk os lc) cfg a) = da_fd (mk os lc) a"
      "da_fd (mk os lc) (da_set_listening (mk os lc) flag a) = da_fd (mk os lc) a"
begin

lemma should_drop_used:
  assumes "others_law os td got put"
  shows "used_only got put f w (snd (LossyFdAdapter_should_drop os cfg uplink w))"
proof -
  obtain r k where "os_random os (wd_kernel w) = (r, k)" by fastforce
  moreover have "same_pipe got put (wd_kernel w) (snd (os_random os (wd_kernel w)))" using assms by (simp add: others_law_def)
  ultimately show ?thesis by (auto simp: LossyFdAdapter_should_drop_def Let_def intro: used_only_kernel)
qed

text \<open>A lossy wrapper of an adapter is an adapter.\<close>

lemma lossy: "datagram_adapter (\<lambda>os lc. Lossy_adapter os (mk os lc)) line"
proof
  fix os :: "'k os" and td and got put :: "'k \<Rightarrow> bytes" and lc v and w :: "'k world" and a seg
  assume law: "others_law os td got put" "line os v" and td: "wire_fd v \<noteq> td"
    and fd: "FileDescriptor_fd_num w (da_fd (Lossy_adapter os (mk os lc)) a) = wire_fd v"
  note lossy = Lossy_adapter_def LossyFdAdapter_read_def LossyFdAdapter_write_def
  let ?fd = "da_fd (mk os lc) a"
  have drop: "used_only got put f u x'" "arrived v (wd_kernel x') = arrived v (wd_kernel x)" "sent v (wd_kernel x') = sent v (wd_kernel x)"
    if "used_only got put f u x" "LossyFdAdapter_should_drop os cfg b x = (d, x')" for f u cfg b x d x'
    using should_drop_used [OF law(1), of f x cfg b] should_drop_used [OF line_alone [OF law(2)], of f x cfg b]
      used_only_trans [OF that(1), of x'] that(2) by (simp_all add: used_only_def same_pipe_def)
  have fd': "FileDescriptor_fd_num w ?fd = wire_fd v" using fd by (simp add: lossy)
  show "outcome io_exn (\<lambda>(seg, a', w'). read_post got put v (da_fd (Lossy_adapter os (mk os lc))) a w seg a' w')
      (da_read (Lossy_adapter os (mk os lc)) a w)" if "getaddrinfo_law lc"
    unfolding lossy adapter.simps
  proof (rule outcome_bind3 [OF reading [OF law that td fd']])
    fix ret a1 w1 assume post: "read_post got put v (da_fd (mk os lc)) a w ret a1 w1"
    obtain d x where d: "LossyFdAdapter_should_drop os (da_config (mk os lc) a1) False w1 = (d, x)" by fastforce
    from post drop [OF _ d, of ?fd w] show "outcome io_exn (\<lambda>(seg, a', w'). read_post got put v (da_fd (mk os lc)) a w seg a' w')
        (let (drops, w) = LossyFdAdapter_should_drop os (da_config (mk os lc) a1) False w1 in
         if drops then Inr (None, a1, w) else Inr (ret, a1, w))"
      unfolding d by (auto simp: read_post_def heard_def)
  qed
  obtain d x where d: "LossyFdAdapter_should_drop os (da_config (mk os lc) a) True w = (d, x)" by fastforce
  note same = drop [OF used_only_refl d]
  have "FileDescriptor_fd_num x ?fd = wire_fd v"
    using fd' same(1) [of ?fd] by (simp add: used_only_def FileDescriptor_fd_num_def)
  from writing [OF law td this, of seg] same used_only_trans [OF same(1) [of ?fd]]
  show "outcome io_exn (\<lambda>(_, a', w'). write_post got put v (da_fd (Lossy_adapter os (mk os lc))) a w seg a' w')
      (da_write (Lossy_adapter os (mk os lc)) a seg w)" if "seg_ok seg"
    unfolding lossy using that d by (auto simp: write_post_def elim!: outcome_mono)
qed (simp_all add: Lossy_adapter_def keeps_fd line_alone)

end

lemma TCPSegment_serialize_outcome: "outcome io_exn (\<lambda>_. True) (TCPSegment_serialize s ck)"
  by (auto simp: TCPSegment_serialize_def TCPHeader_serialize_def Let_def)

lemma udp_keeps:
  assumes law: "others_law os td got put" and fd: "FileDescriptor_fd_num w (ua_sock a) \<noteq> td"
  shows "outcome io_exn (\<lambda>(seg, a', w'). read_keeps got put ua_sock a w seg a' w') (TCPOverUDPSocketAdapter_read os a w)"
    and "outcome io_exn (\<lambda>(_, a', w'). a' = a \<and> used_only got put (ua_sock a) w w') (TCPOverUDPSocketAdapter_write os lc a seg w)"
proof -
  show "outcome io_exn (\<lambda>(seg, a', w'). read_keeps got put ua_sock a w seg a' w') (TCPOverUDPSocketAdapter_read os a w)"
    unfolding TCPOverUDPSocketAdapter_read_def
    by (rule outcome_bind2 [OF recv_other [OF law fd]])
      (auto intro!: outcome_bind2 [OF TCPSegment_parse_outcome] simp: read_keeps_def FdAdapterBase_set_listening_def FdAdapterBase_config_mut_def two64_def)
  show "outcome io_exn (\<lambda>(_, a', w'). a' = a \<and> used_only got put (ua_sock a) w w') (TCPOverUDPSocketAdapter_write os lc a seg w)"
    unfolding TCPOverUDPSocketAdapter_write_def Let_def
    by (intro outcome_bind [OF Address_outcomes(1)] outcome_bind [OF TCPSegment_serialize_outcome]
      outcome_bind [OF sendto_other [OF law fd]]) simp
qed

lemma udp_read_carries:
  assumes "TCPOverUDPSocketAdapter_read os a w = Inr (r, a', w')"
  obtains d where "UDPSocket_recv os (ua_sock a) UDPSocket_default_mtu w = Inr (d, w')" and "\<forall>s. r = Some s \<longrightarrow> udp_incoming (rd_payload d) s"
  using assms by (auto simp: TCPOverUDPSocketAdapter_read_def udp_incoming_def bindE_Inr_iff split: if_splits)

lemma udp_write_carries:
  assumes "TCPOverUDPSocketAdapter_write os lc a seg w = Inr (s, a', w')"
  obtains bl where "UDPSocket_sendto os (ua_sock a) (fc_destination (fa_cfg a)) (BufferViewList_of_BufferList bl) w = Inr w'"
    and "udp_outgoing (BufferList_concatenate bl) seg"
  using assms by (auto simp: TCPOverUDPSocketAdapter_write_def udp_outgoing_def with_ports_def bindE_Inr_iff Let_def)

interpretation udp: datagram_adapter UDP_adapter udp_line
proof
  fix os :: "'k os" and td and got put :: "'k \<Rightarrow> bytes" and lc v and w :: "'k world" and a seg
  assume law: "others_law os td got put" "udp_line os v" and td: "wire_fd v \<noteq> td"
    and fd: "FileDescriptor_fd_num w (da_fd (UDP_adapter os lc) a) = wire_fd v"
  then have fd': "FileDescriptor_fd_num w (ua_sock a) = wire_fd v" "FileDescriptor_fd_num w (ua_sock a) \<noteq> td" by (simp_all add: UDP_adapter_def)
  have io: "incoming v = udp_incoming" "outgoing v = udp_outgoing" using law(2) by (simp_all add: udp_line_def)
  show "outcome io_exn (\<lambda>(seg, a', w'). read_post got put v (da_fd (UDP_adapter os lc)) a w seg a' w') (da_read (UDP_adapter os lc) a w)"
    unfolding UDP_adapter_def adapter.simps
    using udp_keeps(1) [OF law(1) fd'(2)]
    by (rule outcome_mono)
      (auto simp: read_post_def read_keeps_def heard_def io elim!: udp_read_carries dest!: recv_line [OF law(2) fd'(1)])
  show "outcome io_exn (\<lambda>(_, a', w'). write_post got put v (da_fd (UDP_adapter os lc)) a w seg a' w') (da_write (UDP_adapter os lc) a seg w)"
    unfolding UDP_adapter_def adapter.simps
    using udp_keeps(2) [OF law(1) fd'(2)]
    by (rule outcome_mono)
      (auto simp: write_post_def io elim!: udp_write_carries dest!: sendto_line [OF law(2) fd'(1)])
qed (simp_all add: UDP_adapter_def FdAdapterBase_set_listening_def FdAdapterBase_config_mut_def FdAdapterBase_tick_def udp_line_def)

lemma unwrap_outcome:
  assumes "getaddrinfo_law lc" and "dg_payload d = BufferList_of_Buffer b" and "Buffer_wf b" and "length (Buffer_str b) < 2 ^ 31"
  shows "outcome io_exn (\<lambda>(seg, a'). (\<forall>s. seg = Some s \<longrightarrow> seg_ok s) \<and> FdAdapterBase.more a' = FdAdapterBase.more a)
    (TCPOverIPv4Adapter_unwrap_tcp_in_ip lc a d)"
proof -
  have buffer: "BufferList_to_Buffer (dg_payload d) = Inr b"
    by (simp add: assms(2) BufferList_to_Buffer_def BufferList_of_Buffer_def)
  have test: "outcome io_exn (\<lambda>_. True) (if q then Inr False else bindE (Address_ipv4_numeric x) (\<lambda>ip. Inr (P ip)))" for q x and P :: "u32 \<Rightarrow> bool"
    by (auto intro!: outcome_bind [OF Address_outcomes(3)])
  have guard: "outcome io_exn (\<lambda>(seg, a'). (\<forall>s. seg = Some s \<longrightarrow> seg_ok s) \<and> FdAdapterBase.more a' = FdAdapterBase.more a) m \<Longrightarrow>
      outcome io_exn (\<lambda>(seg, a'). (\<forall>s. seg = Some s \<longrightarrow> seg_ok s) \<and> FdAdapterBase.more a' = FdAdapterBase.more a)
        (if q then Inr (None, a) else m)" for q m by simp
  have peer: "outcome io_exn (\<lambda>(seg, a'). (\<forall>s. seg = Some s \<longrightarrow> seg_ok s) \<and> FdAdapterBase.more a' = FdAdapterBase.more a)
      (unwrap_from_peer lc b seg)" if "seg_ok seg" and "FdAdapterBase.more b = FdAdapterBase.more a" for b :: "'a FdAdapterBase_scheme" and seg
    using that by (auto simp: unwrap_from_peer_def intro!: outcome_bind [OF Address_outcomes(1)])
  have adopt: "outcome io_exn (\<lambda>b. FdAdapterBase.more b = FdAdapterBase.more a) (unwrap_adopt lc a h seg)" for h seg
    unfolding unwrap_adopt_def
    by (intro outcome_bind [OF Address_outcomes(1)] outcome_bind [OF Address_of_ip_outcome [OF assms(1)]])
      (simp add: FdAdapterBase_set_listening_def FdAdapterBase_config_mut_def)
  have rest: "outcome io_exn (\<lambda>(seg, a'). (\<forall>s. seg = Some s \<longrightarrow> seg_ok s) \<and> FdAdapterBase.more a' = FdAdapterBase.more a)
      (bindE (Address_port lc (fc_source (fa_cfg a))) (\<lambda>port.
       if th_dport (sg_header seg) \<noteq> port then Inr (None, a) else
       if FdAdapterBase_listening a then
         if th_syn (sg_header seg) \<and> \<not> th_rst (sg_header seg)
         then bindE (unwrap_adopt lc a (dg_header d) seg) (\<lambda>a. unwrap_from_peer lc a seg)
         else Inr (None, a)
       else unwrap_from_peer lc a seg))" if "seg_ok seg" for seg
    by (rule outcome_bind [OF Address_outcomes(1)]) (simp add: peer [OF that] outcome_bind [OF adopt])
  show ?thesis
    unfolding TCPOverIPv4Adapter_unwrap_tcp_in_ip_def Let_def buffer bindE_simps
  proof (rule outcome_bind [OF test], rule guard, rule outcome_bind [OF test], rule guard, rule guard)
    show "outcome io_exn (\<lambda>(seg, a'). (\<forall>s. seg = Some s \<longrightarrow> seg_ok s) \<and> FdAdapterBase.more a' = FdAdapterBase.more a)
      (bindE (TCPSegment_parse TCPSegment_default b (IPv4Header_pseudo_cksum (dg_header d))) (\<lambda>(tcp_seg, verdict).
        if verdict \<noteq> NoError then Inr (None, a) else
        bindE (Address_port lc (fc_source (fa_cfg a))) (\<lambda>port.
        if th_dport (sg_header tcp_seg) \<noteq> port then Inr (None, a) else
        if FdAdapterBase_listening a then
          if th_syn (sg_header tcp_seg) \<and> \<not> th_rst (sg_header tcp_seg)
          then bindE (unwrap_adopt lc a (dg_header d) tcp_seg) (\<lambda>a. unwrap_from_peer lc a tcp_seg)
          else Inr (None, a)
        else unwrap_from_peer lc a tcp_seg)))"
      by (rule outcome_bind2 [OF TCPSegment_parse_outcome [OF assms(3,4)]]) (simp add: rest)
  qed
qed

lemma wrap_outcome: "outcome io_exn (\<lambda>(_, _). True) (TCPOverIPv4Adapter_wrap_tcp_in_ip lc a seg)"
  unfolding TCPOverIPv4Adapter_wrap_tcp_in_ip_def Let_def
  by (intro outcome_bind [OF Address_outcomes(1)] outcome_bind [OF Address_outcomes(3)] outcome_bind [OF TCPSegment_serialize_outcome]) simp

lemma IPv4Datagram_serialize_outcome: "outcome io_exn (\<lambda>_. True) (IPv4Datagram_serialize d)"
  by (auto simp: IPv4Datagram_serialize_def IPv4Header_serialize_def Let_def)

lemma tun_keeps:
  assumes law: "others_law os td got put" and fd: "FileDescriptor_fd_num w (ta_tun a) \<noteq> td"
  shows "getaddrinfo_law lc \<Longrightarrow>
      outcome io_exn (\<lambda>(seg, a', w'). read_keeps got put ta_tun a w seg a' w') (TCPOverIPv4OverTunFdAdapter_read os lc a w)"
    and "outcome io_exn (\<lambda>(_, a', w'). a' = a \<and> used_only got put (ta_tun a) w w') (TCPOverIPv4OverTunFdAdapter_write os lc a seg w)"
proof -
  have more: "FdAdapterBase.more a' = FdAdapterBase.more a \<Longrightarrow> ta_tun a' = ta_tun a" for a' a :: TCPOverIPv4OverTunFdAdapter
    by (cases a'; cases a) simp
  show "outcome io_exn (\<lambda>(seg, a', w'). read_keeps got put ta_tun a w seg a' w') (TCPOverIPv4OverTunFdAdapter_read os lc a w)"
    if gai: "getaddrinfo_law lc"
    unfolding TCPOverIPv4OverTunFdAdapter_read_def
  proof (rule outcome_bind2 [OF read_other [OF law fd]], rule outcome_bind2 [OF IPv4Datagram_parse_outcome], goal_cases)
    case (3 data v d verdict)
    then obtain c where c: "dg_payload d = BufferList_of_Buffer c" "Buffer_wf c" "length (Buffer_str c) < 2 ^ 31" by blast
    show ?case
      using 3(1) by (auto intro!: outcome_bind2 [OF unwrap_outcome [OF gai c]] simp: read_keeps_def dest: more)
  qed (simp_all add: two64_def)
  show "outcome io_exn (\<lambda>(_, a', w'). a' = a \<and> used_only got put (ta_tun a) w w') (TCPOverIPv4OverTunFdAdapter_write os lc a seg w)"
    unfolding TCPOverIPv4OverTunFdAdapter_write_def
    by (intro outcome_bind2 [OF wrap_outcome] outcome_bind [OF IPv4Datagram_serialize_outcome] outcome_bind2 [OF write_other [OF law fd]]) simp
qed

lemma unwrap_carries:
  assumes "TCPOverIPv4Adapter_unwrap_tcp_in_ip lc a d = Inr (Some s, a')"
  obtains b where "BufferList_to_Buffer (dg_payload d) = Inr b"
    and "TCPSegment_parse TCPSegment_default b (IPv4Header_pseudo_cksum (dg_header d)) = Inr (s, NoError)"
  using assms
proof (cases rule: unwrap_cases)
  case (2 buffer seg)
  then obtain b where "unwrap_from_peer lc b seg = Inr (Some s, a')" by (auto split: if_splits)
  from unwrap_from_peer_cases [OF this] 2 that show ?thesis by (auto split: if_splits)
qed simp

lemma tun_read_carries:
  assumes "TCPOverIPv4OverTunFdAdapter_read os lc a w = Inr (r, a', w')"
  obtains data where "FileDescriptor_read os (ta_tun a) (- 1) w = Inr (data, w')" and "\<forall>s. r = Some s \<longrightarrow> tun_incoming data s"
proof -
  from assms obtain data d verdict where d: "FileDescriptor_read os (ta_tun a) (- 1) w = Inr (data, w')"
    "IPv4Datagram_parse IPv4Datagram_default (Buffer_of_string data) = Inr (d, verdict)"
    "r = None \<or> verdict = NoError \<and> TCPOverIPv4Adapter_unwrap_tcp_in_ip lc a d = Inr (r, a')"
    by (auto simp: TCPOverIPv4OverTunFdAdapter_read_def bindE_Inr_iff split: if_splits)
  then have "tun_incoming data s" if "r = Some s" for s
    using that unwrap_carries [of lc a d s a'] unfolding tun_incoming_def by auto
  with d(1) that show ?thesis by blast
qed

lemma tun_write_carries:
  assumes "TCPOverIPv4OverTunFdAdapter_write os lc a seg w = Inr (s, a', w')" and "seg_ok seg"
  obtains bl n where "FileDescriptor_write os (ta_tun a) (BufferViewList_of_BufferList bl) True w = Inr (n, w')"
    and "tun_outgoing (BufferList_concatenate bl) seg" and "length (BufferList_concatenate bl) < 2 ^ 31"
proof -
  from assms(1) obtain d bl n s1 where wrap: "TCPOverIPv4Adapter_wrap_tcp_in_ip lc a seg = Inr (s1, d)"
    and bl: "IPv4Datagram_serialize d = Inr bl" and w: "FileDescriptor_write os (ta_tun a) (BufferViewList_of_BufferList bl) True w = Inr (n, w')"
    by (auto simp: TCPOverIPv4OverTunFdAdapter_write_def bindE_Inr_iff)
  from wrap obtain sport dport where
    d: "TCPSegment_serialize (with_ports sport dport seg) (IPv4Header_pseudo_cksum (dg_header d)) = Inr (dg_payload d)"
    by (auto simp: TCPOverIPv4Adapter_wrap_tcp_in_ip_def with_ports_def Let_def bindE_Inr_iff)
  have "tun_outgoing (BufferList_concatenate bl) seg" unfolding tun_outgoing_def using d bl by blast
  from that [OF w this serialize_small [OF assms(2) d bl]] show ?thesis .
qed

interpretation tun: datagram_adapter Tun_adapter tun_line
proof
  fix os :: "'k os" and td and got put :: "'k \<Rightarrow> bytes" and lc v and w :: "'k world" and a seg
  assume law: "others_law os td got put" "tun_line os v" and td: "wire_fd v \<noteq> td"
    and fd: "FileDescriptor_fd_num w (da_fd (Tun_adapter os lc) a) = wire_fd v"
  then have fd': "FileDescriptor_fd_num w (ta_tun a) = wire_fd v" "FileDescriptor_fd_num w (ta_tun a) \<noteq> td" by (simp_all add: Tun_adapter_def)
  have io: "incoming v = tun_incoming" "outgoing v = tun_outgoing" using law(2) by (simp_all add: tun_line_def)
  show "outcome io_exn (\<lambda>(seg, a', w'). read_post got put v (da_fd (Tun_adapter os lc)) a w seg a' w') (da_read (Tun_adapter os lc) a w)"
    if gai: "getaddrinfo_law lc"
    unfolding Tun_adapter_def adapter.simps
    using tun_keeps(1) [OF law(1) fd'(2) gai]
    by (rule outcome_mono)
      (auto simp: read_post_def read_keeps_def heard_def io elim!: tun_read_carries dest!: read_line [OF law(2) fd'(1)])
  show "outcome io_exn (\<lambda>(_, a', w'). write_post got put v (da_fd (Tun_adapter os lc)) a w seg a' w') (da_write (Tun_adapter os lc) a seg w)"
    if ok: "seg_ok seg"
    unfolding Tun_adapter_def adapter.simps
    using tun_keeps(2) [OF law(1) fd'(2)]
    by (rule outcome_mono)
      (auto simp: write_post_def io elim!: tun_write_carries [OF _ ok] dest!: write_line [OF law(2) fd'(1), rotated])
qed (simp_all add: Tun_adapter_def FdAdapterBase_set_listening_def FdAdapterBase_config_mut_def FdAdapterBase_tick_def tun_line_def)

interpretation lossy_udp: datagram_adapter "\<lambda>os lc. Lossy_adapter os (UDP_adapter os lc)" udp_line
  by (rule udp.lossy)

interpretation lossy_tun: datagram_adapter "\<lambda>os lc. Lossy_adapter os (Tun_adapter os lc)" tun_line
  by (rule tun.lossy)

end
