(* ===== verification/Sponge_Socket.thy ===== *)
theory Sponge_Socket
  imports Adapters Event_Loop TCP_Connection
begin

text \<open>
  \<^verbatim>\<open>libsponge/tcp_helpers/tcp_sponge_socket.hh\<close> and \<^verbatim>\<open>tcp_sponge_socket.cc\<close>: a \<^verbatim>\<open>TCPConnection\<close> driven by an
  event loop between a datagram adapter and a local stream socket.  The functions are those of the thread
  that runs the connection; the owner is seen through the kernel, which carries the bytes of the socket pair, and
  through the flag \<^verbatim>\<open>_abort\<close>, read by the argument \<open>abort\<close>.  The template parameter \<^verbatim>\<open>AdaptT\<close> is the argument
  \<open>ad\<close>.  Text written to \<^verbatim>\<open>cerr\<close> is left out, but not the exceptions of the calls that compute it.
\<close>

section \<open>State\<close>

record ('a, 'k) TCPSpongeSocket =
  sp_world :: "'k world"
  sp_self :: FileDescriptor
  sp_thread_data :: FileDescriptor
  sp_datagram_adapter :: 'a
  sp_tcp :: "TCPConnection option"
  sp_inbound_shutdown :: bool
  sp_outbound_shutdown :: bool
  sp_fully_acked :: bool

text \<open>\<^verbatim>\<open>_tcp->\<close> and \<^verbatim>\<open>_tcp.value()\<close>.\<close>

definition sp_arrow :: "('a, 'k) TCPSpongeSocket \<Rightarrow> (TCPConnection \<Rightarrow> 'b result) \<Rightarrow> 'b result" where
  "sp_arrow s f = (case sp_tcp s of None \<Rightarrow> Inl Undefined_behaviour | Some c \<Rightarrow> f c)"

definition sp_value :: "('a, 'k) TCPSpongeSocket \<Rightarrow> (TCPConnection \<Rightarrow> 'b result) \<Rightarrow> 'b result" where
  "sp_value s f = (case sp_tcp s of None \<Rightarrow> Inl Bad_optional_access | Some c \<Rightarrow> f c)"

text \<open>\<^verbatim>\<open>_datagram_adapter.config().destination.to_string()\<close>, which every message contains.\<close>

definition sp_destination_string :: "libc \<Rightarrow> ('a, 'k) adapter \<Rightarrow> ('a, 'k) TCPSpongeSocket \<Rightarrow> string result" where
  "sp_destination_string lc ad s = Address_to_string lc (fc_destination (da_config ad (sp_datagram_adapter s)))"

section \<open>The four rules\<close>

text \<open>Rule 1: read from filtered packet stream and dump into \<^verbatim>\<open>TCPConnection\<close>.\<close>

definition rule1_debug :: "libc \<Rightarrow> ('a, 'k) adapter \<Rightarrow> ('a, 'k) TCPSpongeSocket \<Rightarrow> ('a, 'k) TCPSpongeSocket result" where
  "rule1_debug lc ad s =
     (if FileDescriptor_eof (sp_world s) (sp_thread_data s)
      then sp_value s (\<lambda>c.
        if TCPConnection_bytes_in_flight c = 0 \<and> \<not> sp_fully_acked s
        then bindE (sp_destination_string lc ad s) (\<lambda>_. Inr (s\<lparr>sp_fully_acked := True\<rparr>))
        else Inr s)
      else Inr s)"

definition rule1_callback :: "libc \<Rightarrow> ('a, 'k) adapter \<Rightarrow> ('a, 'k) TCPSpongeSocket \<Rightarrow> ('a, 'k) TCPSpongeSocket result" where
  "rule1_callback lc ad s =
     bindE (da_read ad (sp_datagram_adapter s) (sp_world s)) (\<lambda>(seg, a, w).
       let s = s\<lparr>sp_datagram_adapter := a, sp_world := w\<rparr> in
       bindE (case seg of
           None \<Rightarrow> Inr s
         | Some seg \<Rightarrow> sp_arrow s (\<lambda>c. bindE (TCPConnection_segment_received c seg) (\<lambda>c. Inr (s\<lparr>sp_tcp := Some c\<rparr>))))
         (rule1_debug lc ad))"

definition rule1_interest :: "('a, 'k) TCPSpongeSocket \<Rightarrow> bool result" where
  "rule1_interest s = sp_arrow s (\<lambda>c. Inr (TCPConnection_active c))"

text \<open>Rule 2: read from pipe into outbound buffer.\<close>

definition rule2_callback :: "'k os \<Rightarrow> libc \<Rightarrow> ('a, 'k) adapter \<Rightarrow> ('a, 'k) TCPSpongeSocket
    \<Rightarrow> ('a, 'k) TCPSpongeSocket result" where
  "rule2_callback os lc ad s =
     sp_arrow s (\<lambda>c.
     bindE (FileDescriptor_read os (sp_thread_data s) (TCPConnection_remaining_outbound_capacity c) (sp_world s)) (\<lambda>(data, w).
     let len = size64 data; s = s\<lparr>sp_world := w\<rparr> in
     bindE (TCPConnection_write c data) (\<lambda>(c, amount_written).
     if amount_written \<noteq> len
     then Inl (Runtime_error ''TCPConnection::write() accepted less than advertised length'')
     else if FileDescriptor_eof w (sp_thread_data s)
     then bindE (TCPConnection_end_input_stream c) (\<lambda>c.
       bindE (sp_destination_string lc ad s) (\<lambda>_.
         Inr (s\<lparr>sp_tcp := Some c, sp_outbound_shutdown := True\<rparr>)))
     else Inr (s\<lparr>sp_tcp := Some c\<rparr>))))"

definition rule2_interest :: "('a, 'k) TCPSpongeSocket \<Rightarrow> bool result" where
  "rule2_interest s = sp_arrow s (\<lambda>c. Inr (TCPConnection_active c \<and> \<not> sp_outbound_shutdown s
     \<and> TCPConnection_remaining_outbound_capacity c > 0))"

definition rule2_cancel :: "('a, 'k) TCPSpongeSocket \<Rightarrow> ('a, 'k) TCPSpongeSocket result" where
  "rule2_cancel s = sp_arrow s (\<lambda>c. bindE (TCPConnection_end_input_stream c) (\<lambda>c.
     Inr (s\<lparr>sp_tcp := Some c, sp_outbound_shutdown := True\<rparr>)))"

text \<open>Rule 3: read from inbound buffer into pipe.\<close>

definition set_inbound_stream :: "TCPConnection \<Rightarrow> ByteStream \<Rightarrow> TCPConnection" where
  "set_inbound_stream c st =
     c\<lparr>cn_receiver := (cn_receiver c)\<lparr>rv_reassembler := (rv_reassembler (cn_receiver c))\<lparr>ra_output := st\<rparr>\<rparr>\<rparr>"

definition rule3_callback :: "'k os \<Rightarrow> libc \<Rightarrow> ('a, 'k) adapter \<Rightarrow> ('a, 'k) TCPSpongeSocket
    \<Rightarrow> ('a, 'k) TCPSpongeSocket result" where
  "rule3_callback os lc ad s =
     sp_arrow s (\<lambda>c.
     let inbound = TCPConnection_inbound_stream c;
         amount_to_write = min 65536 (ByteStream_buffer_size inbound);
         buffer = ByteStream_peek_output inbound amount_to_write in
     bindE (FileDescriptor_write os (sp_thread_data s) (BufferViewList_of_string buffer) False (sp_world s)) (\<lambda>(bytes_written, w).
     bindE (ByteStream_pop_output inbound bytes_written) (\<lambda>inbound.
     let s = s\<lparr>sp_world := w, sp_tcp := Some (set_inbound_stream c inbound)\<rparr> in
     if ByteStream_eof inbound \<or> bs_error inbound
     then bindE (Socket_shutdown os (sp_thread_data s) SHUT_WR (sp_world s)) (\<lambda>w.
       bindE (sp_destination_string lc ad s) (\<lambda>_.
         Inr (s\<lparr>sp_world := w, sp_inbound_shutdown := True\<rparr>)))
     else Inr s)))"

definition rule3_interest :: "('a, 'k) TCPSpongeSocket \<Rightarrow> bool result" where
  "rule3_interest s = sp_arrow s (\<lambda>c. Inr (\<not> ByteStream_buffer_empty (TCPConnection_inbound_stream c)
     \<or> (ByteStream_eof (TCPConnection_inbound_stream c) \<or> bs_error (TCPConnection_inbound_stream c)) \<and> \<not> sp_inbound_shutdown s))"

text \<open>Rule 4: read outbound segments from \<^verbatim>\<open>TCPConnection\<close> and send as datagrams.\<close>

fun drain_segments :: "('a, 'k) adapter \<Rightarrow> TCPConnection \<Rightarrow> TCPSegment list \<Rightarrow> ('a, 'k) TCPSpongeSocket
    \<Rightarrow> ('a, 'k) TCPSpongeSocket result" where
  "drain_segments ad c [] s = Inr s"
| "drain_segments ad c (front # rest) s =
     bindE (da_write ad (sp_datagram_adapter s) front (sp_world s)) (\<lambda>(_, a, w).
       drain_segments ad c rest (s\<lparr>sp_datagram_adapter := a, sp_world := w, sp_tcp := Some (c\<lparr>cn_segments_out := rest\<rparr>)\<rparr>))"

definition rule4_callback :: "('a, 'k) adapter \<Rightarrow> ('a, 'k) TCPSpongeSocket \<Rightarrow> ('a, 'k) TCPSpongeSocket result" where
  "rule4_callback ad s = sp_arrow s (\<lambda>c. drain_segments ad c (cn_segments_out c) s)"

definition rule4_interest :: "('a, 'k) TCPSpongeSocket \<Rightarrow> bool result" where
  "rule4_interest s = sp_arrow s (\<lambda>c. Inr (cn_segments_out c \<noteq> []))"

section \<open>Initialization\<close>

text \<open>
  The constructor: both ends of the socket pair are checked to be local stream sockets, and the end of this
  thread is made non-blocking.
\<close>

definition TCPSpongeSocket_new :: "'k os \<Rightarrow> FileDescriptor \<Rightarrow> FileDescriptor \<Rightarrow> 'a \<Rightarrow> 'k world
    \<Rightarrow> ('a, 'k) TCPSpongeSocket result" where
  "TCPSpongeSocket_new os first second datagram_interface w =
     bindE (LocalStreamSocket_of_fd os first w) (\<lambda>w.
     bindE (LocalStreamSocket_of_fd os second w) (\<lambda>w.
     bindE (FileDescriptor_set_blocking os second False w) (\<lambda>w.
       Inr \<lparr>sp_world = w, sp_self = first, sp_thread_data = second, sp_datagram_adapter = datagram_interface,
            sp_tcp = None, sp_inbound_shutdown = False, sp_outbound_shutdown = False, sp_fully_acked = False\<rparr>)))"

definition TCPSpongeSocket_rules :: "'k os \<Rightarrow> libc \<Rightarrow> ('a, 'k) adapter \<Rightarrow> ('a, 'k) TCPSpongeSocket
    \<Rightarrow> ('a, 'k) TCPSpongeSocket EventLoop \<Rightarrow> ('a, 'k) TCPSpongeSocket EventLoop" where
  "TCPSpongeSocket_rules os lc ad s l =
     (let adapter_fd = da_fd ad (sp_datagram_adapter s);
          l = EventLoop_add_rule l adapter_fd Direction_In (rule1_callback lc ad) rule1_interest Inr;
          l = EventLoop_add_rule l (sp_thread_data s) Direction_In (rule2_callback os lc ad) rule2_interest rule2_cancel;
          l = EventLoop_add_rule l (sp_thread_data s) Direction_Out (rule3_callback os lc ad) rule3_interest Inr
      in EventLoop_add_rule l adapter_fd Direction_Out (rule4_callback ad) rule4_interest Inr)"

text \<open>\<^verbatim>\<open>random_device()\<close> is \<^verbatim>\<open>os_random\<close>.\<close>

definition TCPSpongeSocket_initialize_TCP :: "'k os \<Rightarrow> libc \<Rightarrow> ('a, 'k) adapter \<Rightarrow> TCPConfig \<Rightarrow> ('a, 'k) TCPSpongeSocket
    \<Rightarrow> ('a, 'k) TCPSpongeSocket EventLoop \<Rightarrow> ('a, 'k) TCPSpongeSocket EventLoop \<times> ('a, 'k) TCPSpongeSocket" where
  "TCPSpongeSocket_initialize_TCP os lc ad config s l =
     (let (random, k) = os_random os (wd_kernel (sp_world s));
          s = s\<lparr>sp_world := (sp_world s)\<lparr>wd_kernel := k\<rparr>, sp_tcp := Some (TCPConnection_new config random)\<rparr>
      in (TCPSpongeSocket_rules os lc ad s l, s))"

section \<open>The loop\<close>

definition TCP_TICK_MS :: int where
  "TCP_TICK_MS = 10"

definition sp_fds :: "('a, 'k) TCPSpongeSocket \<Rightarrow> FileDescriptor \<Rightarrow> FDWrapper" where
  "sp_fds s = wd_fds (sp_world s)"

definition sp_poll :: "'k os \<Rightarrow> (int \<times> u16) list \<Rightarrow> int \<Rightarrow> ('a, 'k) TCPSpongeSocket
    \<Rightarrow> (int \<times> int \<times> u16 list) \<times> ('a, 'k) TCPSpongeSocket" where
  "sp_poll os ps timeout s =
     (let (answer, k) = os_poll os ps timeout (wd_kernel (sp_world s)) in
      (answer, s\<lparr>sp_world := (sp_world s)\<lparr>wd_kernel := k\<rparr>\<rparr>))"

definition sp_timestamp :: "'k os \<Rightarrow> ('a, 'k) TCPSpongeSocket \<Rightarrow> u64 \<times> ('a, 'k) TCPSpongeSocket" where
  "sp_timestamp os s =
     (let (now, k) = os_timestamp_ms os (wd_kernel (sp_world s)) in (now, s\<lparr>sp_world := (sp_world s)\<lparr>wd_kernel := k\<rparr>\<rparr>))"

text \<open>The part of the loop after the event: the time that has passed is given to the connection.\<close>

definition loop_tick :: "'k os \<Rightarrow> ('a, 'k) adapter \<Rightarrow> u64 \<Rightarrow> ('a, 'k) TCPSpongeSocket
    \<Rightarrow> (u64 \<times> ('a, 'k) TCPSpongeSocket) result" where
  "loop_tick os ad base_time s =
     sp_value s (\<lambda>c.
       if TCPConnection_active c then
         let (next_time, s) = sp_timestamp os s in
         bindE (TCPConnection_tick c (next_time - base_time)) (\<lambda>c.
           Inr (next_time, s\<lparr>sp_tcp := Some c,
             sp_datagram_adapter := da_tick ad (next_time - base_time) (sp_datagram_adapter s)\<rparr>))
       else Inr (base_time, s))"

text \<open>
  \<^verbatim>\<open>_tcp_loop\<close> may wait for ever for its peer: \<open>n\<close> bounds the number of rounds, and the result is \<open>None\<close>
  if it has not ended by then.
\<close>

fun tcp_loop_rounds :: "'k os \<Rightarrow> ('a, 'k) adapter \<Rightarrow> ('k \<Rightarrow> bool) \<Rightarrow> (('a, 'k) TCPSpongeSocket \<Rightarrow> bool result) \<Rightarrow> nat \<Rightarrow> u64
    \<Rightarrow> ('a, 'k) TCPSpongeSocket EventLoop \<Rightarrow> ('a, 'k) TCPSpongeSocket
    \<Rightarrow> (('a, 'k) TCPSpongeSocket EventLoop \<times> ('a, 'k) TCPSpongeSocket) result option" where
  "tcp_loop_rounds os ad abort condition 0 base_time l s = None"
| "tcp_loop_rounds os ad abort condition (Suc n) base_time l s =
     (case condition s of
        Inl e \<Rightarrow> Some (Inl e)
      | Inr False \<Rightarrow> Some (Inr (l, s))
      | Inr True \<Rightarrow>
          (case EventLoop_wait_next_event sp_fds (sp_poll os) l TCP_TICK_MS s of
             Inl e \<Rightarrow> Some (Inl e)
           | Inr (ret, l, s) \<Rightarrow>
               if ret = Exit \<or> abort (wd_kernel (sp_world s)) then Some (Inr (l, s))
               else (case loop_tick os ad base_time s of
                 Inl e \<Rightarrow> Some (Inl e)
               | Inr (base_time, s) \<Rightarrow> tcp_loop_rounds os ad abort condition n base_time l s)))"

definition TCPSpongeSocket_tcp_loop :: "'k os \<Rightarrow> ('a, 'k) adapter \<Rightarrow> ('k \<Rightarrow> bool) \<Rightarrow> nat
    \<Rightarrow> (('a, 'k) TCPSpongeSocket \<Rightarrow> bool result) \<Rightarrow> ('a, 'k) TCPSpongeSocket EventLoop \<Rightarrow> ('a, 'k) TCPSpongeSocket
    \<Rightarrow> (('a, 'k) TCPSpongeSocket EventLoop \<times> ('a, 'k) TCPSpongeSocket) result option" where
  "TCPSpongeSocket_tcp_loop os ad abort n condition l s =
     (let (base_time, s) = sp_timestamp os s in tcp_loop_rounds os ad abort condition n base_time l s)"

section \<open>connect, listen_and_accept and the main function of the thread\<close>

definition sp_in_state :: "State list \<Rightarrow> ('a, 'k) TCPSpongeSocket \<Rightarrow> bool result" where
  "sp_in_state states s =
     sp_arrow s (\<lambda>c. Inr (\<exists>st \<in> set states. TCPState_eq (TCPConnection_state c) (TCPState_of_State st)))"

definition connect_start :: "'k os \<Rightarrow> libc \<Rightarrow> ('a, 'k) adapter \<Rightarrow> TCPConfig \<Rightarrow> FdAdapterConfig
    \<Rightarrow> ('a, 'k) TCPSpongeSocket EventLoop \<Rightarrow> ('a, 'k) TCPSpongeSocket
    \<Rightarrow> (('a, 'k) TCPSpongeSocket EventLoop \<times> ('a, 'k) TCPSpongeSocket) result" where
  "connect_start os lc ad c_tcp c_ad l s =
     (if sp_tcp s \<noteq> None then Inl (Runtime_error ''connect() with TCPConnection already initialized'')
      else
        let (l, s) = TCPSpongeSocket_initialize_TCP os lc ad c_tcp s l;
            s = s\<lparr>sp_datagram_adapter := da_config_mut ad c_ad (sp_datagram_adapter s)\<rparr> in
        bindE (Address_to_string lc (fc_destination c_ad)) (\<lambda>_.
        sp_arrow s (\<lambda>c.
        bindE (TCPConnection_connect c) (\<lambda>c.
        if TCPState_eq (TCPConnection_state c) (TCPState_of_State State_SYN_SENT)
        then Inr (l, s\<lparr>sp_tcp := Some c\<rparr>)
        else Inl (Runtime_error (''After TCPConnection::connect(), state was '' @ TCPState_name (TCPConnection_state c)
          @ '' but expected '' @ TCPState_name (TCPState_of_State State_SYN_SENT)))))))"

definition TCPSpongeSocket_connect :: "'k os \<Rightarrow> libc \<Rightarrow> ('a, 'k) adapter \<Rightarrow> ('k \<Rightarrow> bool) \<Rightarrow> nat \<Rightarrow> TCPConfig \<Rightarrow> FdAdapterConfig
    \<Rightarrow> ('a, 'k) TCPSpongeSocket EventLoop \<Rightarrow> ('a, 'k) TCPSpongeSocket
    \<Rightarrow> (('a, 'k) TCPSpongeSocket EventLoop \<times> ('a, 'k) TCPSpongeSocket) result option" where
  "TCPSpongeSocket_connect os lc ad abort n c_tcp c_ad l s =
     (case connect_start os lc ad c_tcp c_ad l s of
        Inl e \<Rightarrow> Some (Inl e)
      | Inr (l, s) \<Rightarrow> TCPSpongeSocket_tcp_loop os ad abort n (sp_in_state [State_SYN_SENT]) l s)"

definition TCPSpongeSocket_listen_and_accept :: "'k os \<Rightarrow> libc \<Rightarrow> ('a, 'k) adapter \<Rightarrow> ('k \<Rightarrow> bool) \<Rightarrow> nat \<Rightarrow> TCPConfig
    \<Rightarrow> FdAdapterConfig \<Rightarrow> ('a, 'k) TCPSpongeSocket EventLoop \<Rightarrow> ('a, 'k) TCPSpongeSocket
    \<Rightarrow> (('a, 'k) TCPSpongeSocket EventLoop \<times> ('a, 'k) TCPSpongeSocket) result option" where
  "TCPSpongeSocket_listen_and_accept os lc ad abort n c_tcp c_ad l s =
     (if sp_tcp s \<noteq> None then Some (Inl (Runtime_error ''listen_and_accept() with TCPConnection already initialized''))
      else
        let (l, s) = TCPSpongeSocket_initialize_TCP os lc ad c_tcp s l;
            s = s\<lparr>sp_datagram_adapter := da_set_listening ad True (da_config_mut ad c_ad (sp_datagram_adapter s))\<rparr> in
        (case TCPSpongeSocket_tcp_loop os ad abort n (sp_in_state [State_LISTEN, State_SYN_RCVD, State_SYN_SENT]) l s of
           Some (Inr (l, s)) \<Rightarrow> Some (bindE (sp_destination_string lc ad s) (\<lambda>_. Inr (l, s)))
         | r \<Rightarrow> r))"

text \<open>
  \<^verbatim>\<open>_tcp_main\<close>: \<open>tcp_main_end\<close> is what follows its loop, given the outcome of the loop.  \<^verbatim>\<open>_tcp.reset()\<close> runs the
  destructor of the connection, whose queue of segments disappears with it.
\<close>

definition tcp_main_end :: "'k os \<Rightarrow> (('a, 'k) TCPSpongeSocket EventLoop \<times> ('a, 'k) TCPSpongeSocket) result option
    \<Rightarrow> (('a, 'k) TCPSpongeSocket EventLoop \<times> ('a, 'k) TCPSpongeSocket) result option" where
  "tcp_main_end os r =
     (case r of
        Some (Inr (l, s)) \<Rightarrow> Some (bindE (Socket_shutdown os (sp_self s) SHUT_RDWR (sp_world s)) (\<lambda>w.
          sp_value s (\<lambda>c. Inr (l, s\<lparr>sp_world := w, sp_tcp := None\<rparr>))))
      | r \<Rightarrow> r)"

definition TCPSpongeSocket_tcp_main :: "'k os \<Rightarrow> ('a, 'k) adapter \<Rightarrow> ('k \<Rightarrow> bool) \<Rightarrow> nat
    \<Rightarrow> ('a, 'k) TCPSpongeSocket EventLoop \<Rightarrow> ('a, 'k) TCPSpongeSocket
    \<Rightarrow> (('a, 'k) TCPSpongeSocket EventLoop \<times> ('a, 'k) TCPSpongeSocket) result option" where
  "TCPSpongeSocket_tcp_main os ad abort n l s =
     (if sp_tcp s = None then Some (Inl (Runtime_error ''no TCP''))
      else tcp_main_end os (TCPSpongeSocket_tcp_loop os ad abort n (\<lambda>_. Inr True) l s))"

section \<open>CS144TCPSocket\<close>

definition CS144TCPSocket_config :: "'k os \<Rightarrow> libc \<Rightarrow> Address \<Rightarrow> 'k world
    \<Rightarrow> (TCPConfig \<times> FdAdapterConfig \<times> 'k world) result" where
  "CS144TCPSocket_config os lc address w =
     bindE (FdAdapterConfig_new lc) (\<lambda>multiplexer_config.
     let (random, k) = os_random os (wd_kernel w) in
     bindE (Address_of_hostname lc ''169.254.144.9'' (dec_nat (unat (ucast random :: u16)))) (\<lambda>source.
       Inr (TCPConfig_default\<lparr>cf_rt_timeout := 100\<rparr>,
            multiplexer_config\<lparr>fc_source := source, fc_destination := address\<rparr>, w\<lparr>wd_kernel := k\<rparr>)))"

definition CS144TCPSocket_connect :: "'k os \<Rightarrow> libc \<Rightarrow> ('k \<Rightarrow> bool) \<Rightarrow> nat \<Rightarrow> Address
    \<Rightarrow> (TCPOverIPv4OverTunFdAdapter, 'k) TCPSpongeSocket EventLoop \<Rightarrow> (TCPOverIPv4OverTunFdAdapter, 'k) TCPSpongeSocket
    \<Rightarrow> ((TCPOverIPv4OverTunFdAdapter, 'k) TCPSpongeSocket EventLoop \<times> (TCPOverIPv4OverTunFdAdapter, 'k) TCPSpongeSocket) result option" where
  "CS144TCPSocket_connect os lc abort n address l s =
     (case CS144TCPSocket_config os lc address (sp_world s) of
        Inl e \<Rightarrow> Some (Inl e)
      | Inr (tcp_config, multiplexer_config, w) \<Rightarrow>
          TCPSpongeSocket_connect os lc (Tun_adapter os lc) abort n tcp_config multiplexer_config l (s\<lparr>sp_world := w\<rparr>))"

end
