(* ===== verification/Sponge_Run.thy ===== *)
theory Sponge_Run
  imports Adapter_Laws Sponge_Socket Connection_Trace
begin

text \<open>
  A \<^verbatim>\<open>TCPSpongeSocket\<close> at work.  Its invariant says that the connection it holds has made a run in which the
  application wrote exactly the bytes that were read from the socket pair and read exactly those that were
  written to it, every segment that it was given came in a packet of the device, and every packet that was sent carries a segment
  of that run.  Every rule of the event loop keeps it, so that the loop keeps it, by the contract of the event loop.
\<close>

section \<open>The socket pair\<close>

lemma outcome_conj: "outcome E P m \<Longrightarrow> outcome E Q m \<Longrightarrow> outcome E (\<lambda>x. P x \<and> Q x) m"
  by (cases m) simp_all

lemma pipe_laws:
  assumes "kernel_law os td got put"
  shows "read_law os td" "writev_law os td put" "others_law os td got put" "length (got k) < 2 ^ 62" "length (put k) < 2 ^ 62"
  using assms by (simp_all add: kernel_law_def pipe_law_def)

lemma read_pipe:
  assumes "kernel_law os (FileDescriptor_fd_num w f) got put"
  shows "outcome io_exn (\<lambda>(data, w'). length data \<le> unat limit \<and> got (wd_kernel w') = got (wd_kernel w) @ data
     \<and> put (wd_kernel w') = put (wd_kernel w) \<and> (\<forall>g. FileDescriptor_fd_num w' g = FileDescriptor_fd_num w g))
    (FileDescriptor_read os f limit w)"
  using pipe_laws(1) [OF assms]
proof (cases rule: read_spec [where limit = limit])
  case (2 data errno k)
  from assms 2(2) have "got k = got (wd_kernel w) @ data" "put k = put (wd_kernel w)"
    unfolding kernel_law_def pipe_law_def by fastforce+
  then show ?thesis using 2(1,3) by (auto simp: FileDescriptor_fd_num_def set_fd_def)
qed simp

lemma write_pipe:
  assumes "kernel_law os (FileDescriptor_fd_num w f) got put" and "length data < 2 ^ 63"
  shows "outcome io_exn (\<lambda>(n, w'). unat n \<le> length data \<and> put (wd_kernel w') = put (wd_kernel w) @ take (unat n) data
     \<and> got (wd_kernel w') = got (wd_kernel w) \<and> (\<forall>g. FileDescriptor_fd_num w' g = FileDescriptor_fd_num w g))
    (FileDescriptor_write os f (BufferViewList_of_string data) False w)"
proof -
  have view: "bv_views (BufferViewList_of_string data) = [data]" by (simp add: BufferViewList_of_string_def)
  have "case FileDescriptor_write os f (BufferViewList_of_string data) False w of
      Inr (n, w') \<Rightarrow> wrote put f data (unat n) w w'
    | Inl e \<Rightarrow> (\<exists>errno. e = Unix_error ''writev'' errno) \<or> e = Runtime_error ''write returned 0 given non-empty input buffer''"
    using write_spec [OF pipe_laws(2) [OF assms(1)], of "BufferViewList_of_string data" False] assms(2)
    by (simp add: view view_wf_def two64_def split: sum.splits prod.splits)
  moreover have "got (wd_kernel w') = got (wd_kernel w)"
    if "FileDescriptor_write os f (BufferViewList_of_string data) False w = Inr (n, w')" for n w'
    using one_writev [OF that] assms(1) by (simp add: kernel_law_def pipe_law_def)
  ultimately show ?thesis
    by (cases "FileDescriptor_write os f (BufferViewList_of_string data) False w")
      (auto simp: wrote_def FileDescriptor_fd_num_def)
qed

text \<open>The same calls do not touch the device of the adapter.\<close>

lemma read_pipe_only:
  assumes "kernel_law os td got put" and "others_law os dev old new" and "FileDescriptor_fd_num w f = td" and "dev \<noteq> td"
  shows "outcome io_exn (\<lambda>(data, w'). length data \<le> unat limit \<and> got (wd_kernel w') = got (wd_kernel w) @ data
     \<and> put (wd_kernel w') = put (wd_kernel w) \<and> same_pipe old new (wd_kernel w) (wd_kernel w')
     \<and> (\<forall>g. FileDescriptor_fd_num w' g = FileDescriptor_fd_num w g)) (FileDescriptor_read os f limit w)"
proof -
  have "FileDescriptor_fd_num w f \<noteq> dev" using assms(3,4) by simp
  from outcome_conj [OF read_pipe [OF assms(1) [folded assms(3)]] read_other [OF assms(2) this]]
  show ?thesis by (rule outcome_mono) (auto simp: used_only_def)
qed

lemma write_pipe_only:
  assumes "kernel_law os td got put" and "others_law os dev old new" and "FileDescriptor_fd_num w f = td" and "dev \<noteq> td"
    and "length data < 2 ^ 63"
  shows "outcome io_exn (\<lambda>(n, w'). unat n \<le> length data \<and> put (wd_kernel w') = put (wd_kernel w) @ take (unat n) data
     \<and> got (wd_kernel w') = got (wd_kernel w) \<and> same_pipe old new (wd_kernel w) (wd_kernel w')
     \<and> (\<forall>g. FileDescriptor_fd_num w' g = FileDescriptor_fd_num w g))
    (FileDescriptor_write os f (BufferViewList_of_string data) False w)"
proof -
  have "FileDescriptor_fd_num w f \<noteq> dev" using assms(3,4) by simp
  from outcome_conj [OF write_pipe [OF assms(1) [folded assms(3)] assms(5)] write_other [OF assms(2) this]]
  show ?thesis by (rule outcome_mono) (auto simp: used_only_def)
qed

section \<open>The invariant\<close>

text \<open>
  \<open>run_ok got put v c0 k c\<close>: the connection \<open>c\<close> comes from \<open>c0\<close> by a run with the segments that have arrived on the device, in
  which \<open>got k\<close> was written and \<open>put k\<close> was read, and every packet that the device has sent carries a segment of \<open>got k\<close>.
\<close>

definition run_ok :: "('k \<Rightarrow> bytes) \<Rightarrow> ('k \<Rightarrow> bytes) \<Rightarrow> 'k wire \<Rightarrow> TCPConnection \<Rightarrow> 'k \<Rightarrow> TCPConnection \<Rightarrow> bool" where
  "run_ok got put v c0 k c \<longleftrightarrow> conn_trace (heard v k) c0 (got k) (put k) c
     \<and> (\<forall>p \<in> set (sent v k). \<exists>seg. outgoing v p seg \<and> conn_seg (got k) (cn_sender c) seg)"

definition sponge_tcp :: "('k \<Rightarrow> bytes) \<Rightarrow> ('k \<Rightarrow> bytes) \<Rightarrow> 'k wire \<Rightarrow> TCPConnection \<Rightarrow> 'k \<Rightarrow> bool \<Rightarrow> TCPConnection option \<Rightarrow> bool" where
  "sponge_tcp got put v c0 k shut tcp \<longleftrightarrow> (\<exists>c. tcp = Some c \<and> run_ok got put v c0 k c \<and> (out_ended c \<longrightarrow> shut))"

definition fresh_conn :: "TCPConnection \<Rightarrow> bool" where
  "fresh_conn c0 \<longleftrightarrow> (\<exists>cfg random. c0 = TCPConnection_new cfg random \<and> unat (cf_recv_capacity cfg) < 2 ^ 62)"

definition sponge_fds :: "('a, 'k) adapter \<Rightarrow> int \<Rightarrow> int \<Rightarrow> FileDescriptor \<Rightarrow> FileDescriptor \<Rightarrow> ('a, 'k) TCPSpongeSocket \<Rightarrow> bool" where
  "sponge_fds ad td dev t f s \<longleftrightarrow> sp_thread_data s = t \<and> da_fd ad (sp_datagram_adapter s) = f \<and> f \<noteq> t
     \<and> FileDescriptor_fd_num (sp_world s) t = td \<and> FileDescriptor_fd_num (sp_world s) f = dev \<and> dev \<noteq> td"

definition sponge_inv :: "('k \<Rightarrow> bytes) \<Rightarrow> ('k \<Rightarrow> bytes) \<Rightarrow> 'k wire \<Rightarrow> TCPConnection \<Rightarrow> ('a, 'k) adapter \<Rightarrow> int \<Rightarrow> FileDescriptor \<Rightarrow> FileDescriptor
    \<Rightarrow> ('a, 'k) TCPSpongeSocket \<Rightarrow> bool" where
  "sponge_inv got put v c0 ad td t f s \<longleftrightarrow> sponge_fds ad td (wire_fd v) t f s
     \<and> sponge_tcp got put v c0 (wd_kernel (sp_world s)) (sp_outbound_shutdown s) (sp_tcp s)"

text \<open>A step of the kernel that touches neither the socket pair nor the device.\<close>

definition quiet :: "('k \<Rightarrow> bytes) \<Rightarrow> ('k \<Rightarrow> bytes) \<Rightarrow> 'k wire \<Rightarrow> 'k \<Rightarrow> 'k \<Rightarrow> bool" where
  "quiet got put v k k' \<longleftrightarrow> same_pipe got put k k' \<and> same_pipe (arrived v) (sent v) k k'"

lemma heard_ok: "heard v k seg \<Longrightarrow> seg_ok seg"
  by (simp add: heard_def)

lemma heard_mono: "heard v k seg \<Longrightarrow> set (arrived v k) \<subseteq> set (arrived v k') \<Longrightarrow> heard v k' seg"
  by (auto simp: heard_def)

lemma run_good:
  assumes "fresh_conn c0" and "run_ok got put v c0 k c"
  shows "conn_good (got k) c" "cap_ok c" "unat (in_read c) = length (put k)" "unat (cf_recv_capacity (cn_cfg c)) < 2 ^ 62"
    "ts_isn (cn_sender c) = ts_isn (cn_sender c0)"
proof -
  obtain cfg random where c0: "c0 = TCPConnection_new cfg random" "unat (cf_recv_capacity cfg) < 2 ^ 62"
    using assms(1) by (auto simp: fresh_conn_def)
  then have "unat (cf_recv_capacity cfg) + 2 ^ 33 < two64" by (simp add: two64_def)
  note inv = trace_inv [of "heard v k" cfg random "got k" "put k" c, OF _ heard_ok [of v k] this]
  show "conn_good (got k) c" "cap_ok c" "unat (in_read c) = length (put k)" "unat (cf_recv_capacity (cn_cfg c)) < 2 ^ 62"
    "ts_isn (cn_sender c) = ts_isn (cn_sender c0)"
    using inv assms(2) c0 by (simp_all add: run_ok_def)
qed

lemma run_arrived:
  assumes "run_ok got put v c0 k c" and "same_pipe got put k k'" and "set (arrived v k) \<subseteq> set (arrived v k')" and "sent v k' = sent v k"
  shows "run_ok got put v c0 k' c"
  using assms trace_mono [of "heard v k" c0 "got k" "put k" c "heard v k'"] heard_mono [OF _ assms(3)]
  by (auto simp: run_ok_def same_pipe_def)

lemma run_quiet: "run_ok got put v c0 k c \<Longrightarrow> quiet got put v k k' \<Longrightarrow> run_ok got put v c0 k' c"
  by (rule run_arrived) (auto simp: quiet_def same_pipe_def)

lemma run_step:
  assumes "fresh_conn c0" and "run_ok got put v c0 k c" and "conn_step (heard v k') (got k) c (got k') d c'"
    and "put k' = put k @ d" and "same_pipe (arrived v) (sent v) k k'"
  shows "run_ok got put v c0 k' c'"
proof -
  have "conn_trace (heard v k') c0 (got k) (put k) c"
    using assms(2,5) trace_mono [of "heard v k" c0 "got k" "put k" c "heard v k'"] heard_mono [of v k _ k']
    by (simp add: run_ok_def same_pipe_def)
  from trace_step [OF this assms(3)] have "conn_trace (heard v k') c0 (got k') (put k') c'" using assms(4) by simp
  moreover have "conn_seg (got k') (cn_sender c') seg" if "conn_seg (got k) (cn_sender c) seg" for seg
    by (rule step_keeps_segs [OF assms(3) run_good(1) [OF assms(1,2)] that])
  ultimately show ?thesis using assms(2,5) by (fastforce simp: run_ok_def same_pipe_def)
qed

section \<open>Operations of the connection\<close>

lemma tcp_segment:
  assumes "fresh_conn c0" and "run_ok got put v c0 k c" and "out_ended c \<longrightarrow> shut" and "heard v k seg"
  obtains c' where "TCPConnection_segment_received c seg = Inr c'" and "sponge_tcp got put v c0 k shut (Some c')"
proof -
  note good = run_good [OF assms(1,2)] and ok = heard_ok [OF assms(4)]
  obtain c' where c': "TCPConnection_segment_received c seg = Inr c'" by (rule segment_received_ok [OF good(1) ok])
  have "run_ok got put v c0 k c'" by (rule run_step [OF assms(1,2) receives [where P = "heard v k", OF assms(4) c']]) simp_all
  then show ?thesis
    using that c' segment_received_frame(1) [OF good(1) ok c'] assms(3) by (simp add: sponge_tcp_def)
qed

lemma tcp_tick:
  assumes "fresh_conn c0" and "run_ok got put v c0 k c" and "out_ended c \<longrightarrow> shut"
  obtains c' where "TCPConnection_tick c ms = Inr c'" and "sponge_tcp got put v c0 k shut (Some c')"
proof -
  obtain c' where c': "TCPConnection_tick c ms = Inr c'" by (rule tick_conn_ok [OF run_good(1) [OF assms(1,2)]])
  have "run_ok got put v c0 k c'" by (rule run_step [OF assms(1,2) ticks [OF c']]) simp_all
  then show ?thesis using that c' tick_conn_frame(1) [OF c'] assms(3) by (simp add: sponge_tcp_def)
qed

lemma tcp_end:
  assumes "fresh_conn c0" and "run_ok got put v c0 k c"
  obtains c' where "TCPConnection_end_input_stream c = Inr c'" and "run_ok got put v c0 k c'"
proof -
  obtain c' where c': "TCPConnection_end_input_stream c = Inr c'" by (rule end_input_stream_ok [OF run_good(1) [OF assms]])
  have "run_ok got put v c0 k c'" by (rule run_step [OF assms ends [OF c']]) simp_all
  then show ?thesis using that c' by simp
qed

lemma tcp_write:
  assumes "fresh_conn c0" and "run_ok got put v c0 k c" and "\<not> out_ended c"
    and "length data \<le> unat (TCPConnection_remaining_outbound_capacity c)" and "length (got k') < 2 ^ 62"
    and "got k' = got k @ data" and "put k' = put k" and "same_pipe (arrived v) (sent v) k k'"
  obtains c' where "TCPConnection_write c data = Inr (c', size64 data)" and "run_ok got put v c0 k' c'" and "\<not> out_ended c'"
proof -
  note good = run_good [OF assms(1,2)]
  have op: "\<not> ByteStream_input_ended (ts_stream (cn_sender c))" using assms(3) by (simp add: ByteStream_input_ended_def)
  have small: "length (got k) + length data + 2 ^ 33 < two64" using assms(5,6) by (simp add: two64_def)
  obtain c' n where c': "TCPConnection_write c data = Inr (c', n)"
    and n: "unat n = min (length data) (unat (TCPConnection_remaining_outbound_capacity c))"
    by (rule write_amount [OF good(1) op small])
  then have len: "unat n = length data" using assms(4) by simp
  moreover have "unat (size64 data) = length data" using small by (intro unat_size64) simp
  ultimately have "n = size64 data" by (simp add: word_unat_eq_iff)
  moreover have "conn_step (heard v k') (got k) c (got k') [] c'"
    using writes [OF op small c', of "heard v k'"] assms(6) len by simp
  from run_step [OF assms(1,2) this] have "run_ok got put v c0 k' c'" using assms(7,8) by simp
  ultimately show ?thesis using that c' write_frame(1) [OF good(1) assms(3) small c'] by simp
qed

lemma inbound_inv:
  assumes "conn_good W c"
  shows "ByteStream_inv (TCPConnection_inbound_stream c)"
proof -
  have "ra_wf (rv_reassembler (cn_receiver c))" using assms by (simp add: conn_inv_def conn_pre_def rv_small_def)
  then show ?thesis
    by (simp add: ra_wf_def out_wf_def TCPConnection_inbound_stream_def TCPReceiver_stream_out_def StreamReassembler_stream_out_def)
qed

lemma tcp_read:
  assumes "fresh_conn c0" and "run_ok got put v c0 k c" and "out_ended c \<longrightarrow> shut"
    and "data = ByteStream_peek_output (TCPConnection_inbound_stream c) m" and "unat n \<le> length data"
    and "length (put k') < 2 ^ 62" and "put k' = put k @ take (unat n) data" and "got k' = got k" and "same_pipe (arrived v) (sent v) k k'"
  obtains st where "ByteStream_pop_output (TCPConnection_inbound_stream c) n = Inr st"
    and "sponge_tcp got put v c0 k' shut (Some (set_inbound_stream c st))"
proof -
  note good = run_good [OF assms(1,2)]
  let ?st = "TCPConnection_inbound_stream c"
  have inv: "ByteStream_inv ?st" by (rule inbound_inv [OF good(1)])
  have "take (unat n) data = take (unat n) (ByteStream_contents ?st)"
    using assms(5) unfolding assms(4) ByteStream_peek_law [OF inv] by simp
  with ByteStream_read_law [OF inv, of n] obtain st where st: "ByteStream_read ?st n = Inr (st, take (unat n) data)" by metis
  have "ByteStream_pop_output ?st (min n (ByteStream_buffer_size ?st)) = ByteStream_pop_output ?st n"
    by (simp add: ByteStream_pop_output_def Let_def min.assoc)
  then have pop: "ByteStream_pop_output ?st n = Inr st"
    using st by (auto simp: ByteStream_read_def Let_def bindE_Inr_iff)
  have "unat (cf_recv_capacity (cn_cfg c)) + unat (bs_byte_read st) + 2 ^ 33 < two64"
    using read_position [OF good(1) st] good(3,4) assms(6,7) by (simp add: two64_def)
  from reads [OF st this, of "heard v k'" "got k"] have "run_ok got put v c0 k' (set_inbound_stream c st)"
    using assms(7-9) by (intro run_step [OF assms(1,2)]) (simp_all add: set_inbound_stream_def)
  then show ?thesis using that pop assms(3) by (simp add: sponge_tcp_def set_inbound_stream_def)
qed

lemma queued_seg:
  assumes "conn_good W c" and "cn_segments_out c = seg # rest"
  shows "conn_seg W (cn_sender c) seg" and "seg_ok seg"
proof -
  show "conn_seg W (cn_sender c) seg" using assms by (simp add: conn_inv_def conn_pre_def)
  then show "seg_ok seg"
    by (auto simp: conn_seg_def seg_at_def bare_seg_def seg_ok_def TCPConfig_MAX_PAYLOAD_SIZE_def)
qed

lemma tcp_send:
  assumes "fresh_conn c0" and "run_ok got put v c0 k c" and "cn_segments_out c = seg # rest" and "same_pipe got put k k'"
    and "arrived v k' = arrived v k" and "sent v k' = sent v k @ ps" and "\<forall>p \<in> set ps. outgoing v p seg"
  shows "run_ok got put v c0 k' (c\<lparr>cn_segments_out := rest\<rparr>)"
proof -
  have "run_ok got put v c0 k (c\<lparr>cn_segments_out := rest\<rparr>)"
    by (rule run_step [OF assms(1,2) sends [OF assms(3)]]) simp_all
  moreover have "conn_seg (got k) (cn_sender c) seg" by (rule queued_seg [OF run_good(1) [OF assms(1,2)] assms(3)])
  moreover have "heard v k' = heard v k" using assms(5) by (simp add: heard_def fun_eq_iff)
  ultimately show ?thesis using assms(4,6,7) by (auto simp: run_ok_def same_pipe_def)
qed

section \<open>The rules\<close>

definition sponge_rules :: "'k os \<Rightarrow> libc \<Rightarrow> ('a, 'k) adapter \<Rightarrow> FileDescriptor \<Rightarrow> FileDescriptor \<Rightarrow> ('a, 'k) TCPSpongeSocket Rule list" where
  "sponge_rules os lc ad t f =
     [\<lparr>ru_fd = f, ru_direction = Direction_In, ru_callback = rule1_callback lc ad, ru_interest = rule1_interest, ru_cancel = Inr\<rparr>,
      \<lparr>ru_fd = t, ru_direction = Direction_In, ru_callback = rule2_callback os lc ad, ru_interest = rule2_interest, ru_cancel = rule2_cancel\<rparr>,
      \<lparr>ru_fd = t, ru_direction = Direction_Out, ru_callback = rule3_callback os lc ad, ru_interest = rule3_interest, ru_cancel = Inr\<rparr>,
      \<lparr>ru_fd = f, ru_direction = Direction_Out, ru_callback = rule4_callback ad, ru_interest = rule4_interest, ru_cancel = Inr\<rparr>]"

lemma rules_eq: "el_rules (TCPSpongeSocket_rules os lc ad s l)
    = el_rules l @ sponge_rules os lc ad (sp_thread_data s) (da_fd ad (sp_datagram_adapter s))"
  by (simp add: TCPSpongeSocket_rules_def sponge_rules_def EventLoop_add_rule_def FileDescriptor_duplicate_def Let_def)

lemma distinct_rules: "f \<noteq> t \<Longrightarrow> distinct (sponge_rules os lc ad t f)"
  by (simp add: sponge_rules_def)

text \<open>\<open>line\<close> is the documented behaviour of the device of the adapter.\<close>

definition sponge_laws :: "('k os \<Rightarrow> 'k wire \<Rightarrow> bool) \<Rightarrow> 'k os \<Rightarrow> libc \<Rightarrow> int \<Rightarrow> ('k \<Rightarrow> bytes) \<Rightarrow> ('k \<Rightarrow> bytes) \<Rightarrow> 'k wire
    \<Rightarrow> TCPConnection \<Rightarrow> bool" where
  "sponge_laws line os lc td got put v c0 \<longleftrightarrow> kernel_law os td got put \<and> line os v \<and> getaddrinfo_law lc \<and> fresh_conn c0"

text \<open>What rule 2 knows while it waits: the outbound stream has not been ended.\<close>

definition rule_ready :: "FileDescriptor \<Rightarrow> ('a, 'k) TCPSpongeSocket Rule \<Rightarrow> ('a, 'k) TCPSpongeSocket \<Rightarrow> bool" where
  "rule_ready t r s \<longleftrightarrow> (ru_fd r = t \<and> ru_direction r = Direction_In \<longrightarrow> \<not> sp_outbound_shutdown s)"

lemma only_rule2:
  "f \<noteq> t \<Longrightarrow> r \<in> set (sponge_rules os lc ad t f) \<Longrightarrow> ru_fd r = t \<Longrightarrow> ru_direction r = Direction_In \<Longrightarrow>
     r = sponge_rules os lc ad t f ! 1"
  by (cases r) (auto simp: sponge_rules_def)

lemma sponge_invE:
  assumes "sponge_inv got put v c0 ad td t f s"
  obtains c where "sp_tcp s = Some c" and "run_ok got put v c0 (wd_kernel (sp_world s)) c"
    and "out_ended c \<longrightarrow> sp_outbound_shutdown s" and "sponge_fds ad td (wire_fd v) t f s"
  using assms by (auto simp: sponge_inv_def sponge_tcp_def)

lemma sponge_inv_quiet:
  assumes "sponge_inv got put v c0 ad td t f s" and "quiet got put v (wd_kernel (sp_world s)) (wd_kernel w)"
    and "\<And>g. FileDescriptor_fd_num w g = FileDescriptor_fd_num (sp_world s) g"
  shows "sponge_inv got put v c0 ad td t f (s\<lparr>sp_world := w\<rparr>)"
  using assms run_quiet [OF _ assms(2)] by (fastforce simp: sponge_inv_def sponge_tcp_def sponge_fds_def)

lemma sponge_fds_used:
  assumes "sponge_fds ad td dev t f s" and "used_only got put f (sp_world s) w" and "da_fd ad a = f"
  shows "sponge_fds ad td dev t f (s\<lparr>sp_world := w, sp_datagram_adapter := a\<rparr>)"
  using assms by (auto simp: sponge_fds_def used_only_def FileDescriptor_fd_num_def)

lemma shutdown_other:
  assumes "others_law os td got put"
  shows "outcome io_exn (used_only got put f w) (Socket_shutdown os f how w)"
proof -
  obtain ret errno k where call: "os_shutdown os (FileDescriptor_fd_num w f) how (wd_kernel w) = ((ret, errno), k)" by (metis surj_pair)
  have "same_pipe got put (wd_kernel w) (snd (os_shutdown os (FileDescriptor_fd_num w f) how (wd_kernel w)))"
    using assms by (simp add: others_law_def)
  then have k: "used_only got put f w (w\<lparr>wd_kernel := k\<rparr>)"
    unfolding call by (intro used_only_kernel) simp
  note reg = used_only_trans [OF _ used_only_register(1)] used_only_trans [OF _ used_only_register(2)]
  show ?thesis
    unfolding Socket_shutdown_def simple_call_def call Let_def prod.case
    by (auto simp: SystemCall_def intro!: reg k)
qed

text \<open>
  A socket that has just been constructed, with the adapter on another descriptor than the socket pair, and
  nothing read or written yet.
\<close>

definition sponge_start :: "('k \<Rightarrow> bytes) \<Rightarrow> ('k \<Rightarrow> bytes) \<Rightarrow> 'k wire \<Rightarrow> ('a, 'k) adapter \<Rightarrow> int \<Rightarrow> ('a, 'k) TCPSpongeSocket \<Rightarrow> bool" where
  "sponge_start got put v ad td s \<longleftrightarrow> sponge_fds ad td (wire_fd v) (sp_thread_data s) (da_fd ad (sp_datagram_adapter s)) s
     \<and> got (wd_kernel (sp_world s)) = [] \<and> put (wd_kernel (sp_world s)) = []
     \<and> arrived v (wd_kernel (sp_world s)) = [] \<and> sent v (wd_kernel (sp_world s)) = []"

text \<open>A socket whose loop runs: some fresh connection has come to the state of the socket.\<close>

definition session_ok :: "('k os \<Rightarrow> 'k wire \<Rightarrow> bool) \<Rightarrow> 'k os \<Rightarrow> libc \<Rightarrow> ('a, 'k) adapter \<Rightarrow> ('k \<Rightarrow> bytes) \<Rightarrow> ('k \<Rightarrow> bytes) \<Rightarrow> 'k wire \<Rightarrow> TCPConnection
    \<Rightarrow> int \<Rightarrow> FileDescriptor \<Rightarrow> FileDescriptor \<Rightarrow> ('a, 'k) TCPSpongeSocket EventLoop \<Rightarrow> ('a, 'k) TCPSpongeSocket \<Rightarrow> bool" where
  "session_ok line os lc ad got put v c0 td t f l s \<longleftrightarrow> sponge_laws line os lc td got put v c0 \<and> sponge_inv got put v c0 ad td t f s
     \<and> distinct (el_rules l) \<and> set (el_rules l) \<subseteq> set (sponge_rules os lc ad t f)"

context datagram_adapter
begin

lemma sponge_lawsE:
  assumes "sponge_laws line os lc td got put v c0"
  obtains "kernel_law os td got put" and "others_law os td got put" and "line os v"
    and "others_law os (wire_fd v) (arrived v) (sent v)" and "getaddrinfo_law lc" and "fresh_conn c0"
  using assms line_alone [of os v] by (simp add: sponge_laws_def kernel_law_def)

lemma quiet_calls:
  assumes "sponge_laws line os lc td got put v c0"
  shows "quiet got put v k (snd (os_poll os ps ms k))" "quiet got put v k (snd (os_timestamp_ms os k))" "quiet got put v k (snd (os_random os k))"
proof -
  from assms have "others_law os td got put" "others_law os (wire_fd v) (arrived v) (sent v)" by (auto elim: sponge_lawsE)
  then show "quiet got put v k (snd (os_poll os ps ms k))" "quiet got put v k (snd (os_timestamp_ms os k))" "quiet got put v k (snd (os_random os k))"
    by (simp_all add: quiet_def others_law_def)
qed

lemma shutdown_quiet:
  assumes "sponge_laws line os lc td got put v c0"
  shows "outcome io_exn (\<lambda>w'. quiet got put v (wd_kernel w) (wd_kernel w') \<and> (\<forall>g. FileDescriptor_fd_num w' g = FileDescriptor_fd_num w g))
    (Socket_shutdown os f how w)"
proof -
  from assms have "others_law os td got put" "others_law os (wire_fd v) (arrived v) (sent v)" by (auto elim: sponge_lawsE)
  from outcome_conj [OF this [THEN shutdown_other]] have
    "outcome io_exn (\<lambda>w'. used_only got put f w w' \<and> used_only (arrived v) (sent v) f w w') (Socket_shutdown os f how w)" .
  then show ?thesis
  proof (rule outcome_mono)
    fix w' assume u: "used_only got put f w w' \<and> used_only (arrived v) (sent v) f w w'"
    have "FileDescriptor_fd_num w' g = FileDescriptor_fd_num w g" for g
      using u by (cases "g = f") (simp_all add: used_only_def FileDescriptor_fd_num_def)
    with u show "quiet got put v (wd_kernel w) (wd_kernel w') \<and> (\<forall>g. FileDescriptor_fd_num w' g = FileDescriptor_fd_num w g)"
      by (simp add: quiet_def used_only_def)
  qed
qed

lemma destination_outcome: "outcome io_exn (\<lambda>_. True) (sp_destination_string lc ad s)"
  unfolding sp_destination_string_def by (rule Address_outcomes)

lemma rule1_ok:
  assumes "sponge_laws line os lc td got put v c0" and "sponge_inv got put v c0 (mk os lc) td t f s"
  shows "outcome io_exn (\<lambda>s'. sponge_inv got put v c0 (mk os lc) td t f s' \<and> sp_outbound_shutdown s' = sp_outbound_shutdown s)
    (rule1_callback lc (mk os lc) s)"
proof -
  let ?ad = "mk os lc" and ?Q = "\<lambda>s'. sponge_inv got put v c0 (mk os lc) td t f s' \<and> sp_outbound_shutdown s' = sp_outbound_shutdown s"
  from assms(1) have laws: "others_law os td got put" "line os v" "getaddrinfo_law lc" "fresh_conn c0" by (auto elim: sponge_lawsE)
  obtain c where c: "sp_tcp s = Some c" "run_ok got put v c0 (wd_kernel (sp_world s)) c"
    "out_ended c \<longrightarrow> sp_outbound_shutdown s" "sponge_fds ?ad td (wire_fd v) t f s" by (rule sponge_invE [OF assms(2)])
  have fd: "wire_fd v \<noteq> td" "FileDescriptor_fd_num (sp_world s) (da_fd ?ad (sp_datagram_adapter s)) = wire_fd v"
    using c(4) by (simp_all add: sponge_fds_def)
  have debug: "outcome io_exn ?Q (rule1_debug lc ?ad s')" if Q: "?Q s'" for s'
  proof -
    have "?Q (s'\<lparr>sp_fully_acked := True\<rparr>)" using that by (auto simp: sponge_inv_def sponge_fds_def)
    moreover obtain c' where "sp_tcp s' = Some c'" using Q by (auto elim: sponge_invE)
    ultimately show ?thesis
      using that by (auto simp: rule1_debug_def sp_value_def intro!: outcome_bind [OF destination_outcome])
  qed
  show ?thesis
    unfolding rule1_callback_def
  proof (rule outcome_bind3 [OF reading [OF laws(1-3) fd]])
    fix seg a w
    assume post: "read_post got put v (da_fd ?ad) (sp_datagram_adapter s) (sp_world s) seg a w"
    let ?s = "s\<lparr>sp_datagram_adapter := a, sp_world := w\<rparr>"
    have fds: "sponge_fds ?ad td (wire_fd v) t f ?s"
      using post c(4) sponge_fds_used [OF c(4), of got put w a] by (simp add: read_post_def sponge_fds_def)
    have run: "run_ok got put v c0 (wd_kernel w) c"
      by (rule run_arrived [OF c(2)]) (use post in \<open>auto simp: read_post_def used_only_def\<close>)
    have "outcome io_exn ?Q (case seg of None \<Rightarrow> Inr ?s
        | Some seg \<Rightarrow> sp_arrow ?s (\<lambda>c. bindE (TCPConnection_segment_received c seg) (\<lambda>c. Inr (?s\<lparr>sp_tcp := Some c\<rparr>))))"
    proof (cases seg)
      case None
      then show ?thesis using c(1,3) fds run by (auto simp: sponge_inv_def sponge_tcp_def)
    next
      case (Some sg)
      then have "heard v (wd_kernel w) sg" using post by (simp add: read_post_def)
      from tcp_segment [OF laws(4) run c(3) this] obtain c' where "TCPConnection_segment_received c sg = Inr c'"
        "sponge_tcp got put v c0 (wd_kernel w) (sp_outbound_shutdown s) (Some c')" by blast
      then show ?thesis using Some c(1) fds by (simp add: sp_arrow_def sponge_inv_def) (simp add: sponge_fds_def)
    qed
    then show "outcome io_exn ?Q (let s = ?s in bindE (case seg of None \<Rightarrow> Inr s
        | Some seg \<Rightarrow> sp_arrow s (\<lambda>c. bindE (TCPConnection_segment_received c seg) (\<lambda>c. Inr (s\<lparr>sp_tcp := Some c\<rparr>)))) (rule1_debug lc ?ad))"
      unfolding Let_def by (rule outcome_bind) (rule debug)
  qed
qed

lemma rule2_ok:
  assumes "sponge_laws line os lc td got put v c0" and "sponge_inv got put v c0 (mk os lc) td t f s" and "\<not> sp_outbound_shutdown s"
  shows "outcome io_exn (sponge_inv got put v c0 (mk os lc) td t f) (rule2_callback os lc (mk os lc) s)"
proof -
  let ?ad = "mk os lc" and ?inv = "sponge_inv got put v c0 (mk os lc) td t f"
  obtain c where c: "sp_tcp s = Some c" "run_ok got put v c0 (wd_kernel (sp_world s)) c"
    "out_ended c \<longrightarrow> sp_outbound_shutdown s" "sponge_fds ?ad td (wire_fd v) t f s" by (rule sponge_invE [OF assms(2)])
  from assms(1) have laws: "kernel_law os td got put" "others_law os (wire_fd v) (arrived v) (sent v)" "fresh_conn c0"
    by (auto elim: sponge_lawsE)
  have fd: "FileDescriptor_fd_num (sp_world s) (sp_thread_data s) = td" "wire_fd v \<noteq> td" using c(4) by (simp_all add: sponge_fds_def)
  have op: "\<not> out_ended c" using c(3) assms(3) by simp
  show ?thesis
    unfolding rule2_callback_def sp_arrow_def c(1) option.case
  proof (rule outcome_bind2 [OF read_pipe_only [OF laws(1,2) fd]])
    fix data w
    assume "length data \<le> unat (TCPConnection_remaining_outbound_capacity c) \<and> got (wd_kernel w) = got (wd_kernel (sp_world s)) @ data
      \<and> put (wd_kernel w) = put (wd_kernel (sp_world s)) \<and> same_pipe (arrived v) (sent v) (wd_kernel (sp_world s)) (wd_kernel w)
      \<and> (\<forall>g. FileDescriptor_fd_num w g = FileDescriptor_fd_num (sp_world s) g)"
    then have r: "length data \<le> unat (TCPConnection_remaining_outbound_capacity c)" "got (wd_kernel w) = got (wd_kernel (sp_world s)) @ data"
      "put (wd_kernel w) = put (wd_kernel (sp_world s))" "same_pipe (arrived v) (sent v) (wd_kernel (sp_world s)) (wd_kernel w)"
      "\<And>g. FileDescriptor_fd_num w g = FileDescriptor_fd_num (sp_world s) g" by auto
    from tcp_write [OF laws(3) c(2) op r(1) pipe_laws(4) [OF laws(1)] r(2-4)] obtain c1 where c1: "TCPConnection_write c data = Inr (c1, size64 data)"
      "run_ok got put v c0 (wd_kernel w) c1" "\<not> out_ended c1" by blast
    from tcp_end [OF laws(3) c1(2)] obtain c2 where c2: "TCPConnection_end_input_stream c1 = Inr c2"
      "run_ok got put v c0 (wd_kernel w) c2" by blast
    have "sponge_fds ?ad td (wire_fd v) t f (s\<lparr>sp_world := w, sp_tcp := d, sp_outbound_shutdown := b\<rparr>)" for d b
      using c(4) r(5) by (simp add: sponge_fds_def)
    then have "?inv (s\<lparr>sp_world := w, sp_tcp := Some c1\<rparr>)" "?inv (s\<lparr>sp_world := w, sp_tcp := Some c2, sp_outbound_shutdown := True\<rparr>)"
      using c1 c2 c(4) r(5) by (simp_all add: sponge_inv_def sponge_tcp_def sponge_fds_def)
    then show "outcome io_exn ?inv (let len = size64 data; s = s\<lparr>sp_world := w\<rparr> in
       bindE (TCPConnection_write c data) (\<lambda>(c, amount_written).
       if amount_written \<noteq> len then Inl (Runtime_error ''TCPConnection::write() accepted less than advertised length'')
       else if FileDescriptor_eof w (sp_thread_data s)
       then bindE (TCPConnection_end_input_stream c) (\<lambda>c. bindE (sp_destination_string lc ?ad s) (\<lambda>_.
           Inr (s\<lparr>sp_tcp := Some c, sp_outbound_shutdown := True\<rparr>)))
       else Inr (s\<lparr>sp_tcp := Some c\<rparr>)))"
      using c1(1) c2(1) by (auto simp: Let_def intro!: outcome_bind [OF destination_outcome])
  qed
qed

lemma rule3_ok:
  assumes "sponge_laws line os lc td got put v c0" and "sponge_inv got put v c0 (mk os lc) td t f s"
  shows "outcome io_exn (\<lambda>s'. sponge_inv got put v c0 (mk os lc) td t f s' \<and> sp_outbound_shutdown s' = sp_outbound_shutdown s)
    (rule3_callback os lc (mk os lc) s)"
proof -
  let ?ad = "mk os lc" and ?Q = "\<lambda>s'. sponge_inv got put v c0 (mk os lc) td t f s' \<and> sp_outbound_shutdown s' = sp_outbound_shutdown s"
  obtain c where c: "sp_tcp s = Some c" "run_ok got put v c0 (wd_kernel (sp_world s)) c"
    "out_ended c \<longrightarrow> sp_outbound_shutdown s" "sponge_fds ?ad td (wire_fd v) t f s" by (rule sponge_invE [OF assms(2)])
  from assms(1) have laws: "kernel_law os td got put" "others_law os (wire_fd v) (arrived v) (sent v)" "fresh_conn c0"
    by (auto elim: sponge_lawsE)
  have fd: "FileDescriptor_fd_num (sp_world s) (sp_thread_data s) = td" "wire_fd v \<noteq> td" using c(4) by (simp_all add: sponge_fds_def)
  let ?in = "TCPConnection_inbound_stream c"
  let ?data = "ByteStream_peek_output ?in (min 65536 (ByteStream_buffer_size ?in))"
  have len: "length ?data < 2 ^ 63" by (rule peek_length [OF inbound_inv [OF run_good(1) [OF laws(3) c(2)]]])
  show ?thesis
    unfolding rule3_callback_def sp_arrow_def c(1) option.case Let_def
  proof (rule outcome_bind2 [OF write_pipe_only [OF laws(1,2) fd len]], goal_cases)
    case (1 n w)
    then have r: "unat n \<le> length ?data" "put (wd_kernel w) = put (wd_kernel (sp_world s)) @ take (unat n) ?data"
      "got (wd_kernel w) = got (wd_kernel (sp_world s))" "same_pipe (arrived v) (sent v) (wd_kernel (sp_world s)) (wd_kernel w)"
      "\<And>g. FileDescriptor_fd_num w g = FileDescriptor_fd_num (sp_world s) g" by auto
    from tcp_read [OF laws(3) c(2,3) refl r(1) pipe_laws(5) [OF laws(1)] r(2-4)] obtain st where st: "ByteStream_pop_output ?in n = Inr st"
      "sponge_tcp got put v c0 (wd_kernel w) (sp_outbound_shutdown s) (Some (set_inbound_stream c st))" by blast
    have Q: "?Q (s\<lparr>sp_world := w, sp_tcp := Some (set_inbound_stream c st)\<rparr>)"
      using st(2) c(4) r(5) by (simp add: sponge_inv_def sponge_fds_def)
    note shut = shutdown_quiet [OF assms(1), of w "sp_thread_data s" SHUT_WR]
    have "?Q (s\<lparr>sp_tcp := Some (set_inbound_stream c st), sp_world := u, sp_inbound_shutdown := True\<rparr>)"
      if "quiet got put v (wd_kernel w) (wd_kernel u) \<and> (\<forall>g. FileDescriptor_fd_num u g = FileDescriptor_fd_num w g)" for u
      using Q sponge_inv_quiet [of got put v c0 ?ad td t f "s\<lparr>sp_world := w, sp_tcp := Some (set_inbound_stream c st)\<rparr>" u] that
      by (simp add: sponge_inv_def sponge_fds_def)
    then show ?case
      using st(1) Q by (auto intro!: outcome_bind [OF shut] outcome_bind [OF destination_outcome])
  qed
qed

lemma rule4_ok:
  assumes "sponge_laws line os lc td got put v c0" and "sponge_inv got put v c0 (mk os lc) td t f s"
  shows "outcome io_exn (\<lambda>s'. sponge_inv got put v c0 (mk os lc) td t f s' \<and> sp_outbound_shutdown s' = sp_outbound_shutdown s)
    (rule4_callback (mk os lc) s)"
proof -
  let ?ad = "mk os lc" and ?Q = "\<lambda>s'. sponge_inv got put v c0 (mk os lc) td t f s' \<and> sp_outbound_shutdown s' = sp_outbound_shutdown s"
  from assms(1) have laws: "others_law os td got put" "line os v" "fresh_conn c0" by (auto elim: sponge_lawsE)
  have "outcome io_exn ?Q (drain_segments ?ad c q s')"
    if "?Q s'" and "sp_tcp s' = Some (c\<lparr>cn_segments_out := q\<rparr>)" for c q s'
    using that
  proof (induction q arbitrary: s')
    case Nil
    then show ?case by simp
  next
    case (Cons seg q)
    then obtain d where d: "sp_tcp s' = Some d" "run_ok got put v c0 (wd_kernel (sp_world s')) d"
      "out_ended d \<longrightarrow> sp_outbound_shutdown s'" "sponge_fds ?ad td (wire_fd v) t f s'" by (auto elim: sponge_invE)
    have dq: "d = c\<lparr>cn_segments_out := seg # q\<rparr>" using d(1) Cons.prems(2) by simp
    then have hd: "cn_segments_out d = seg # q" by simp
    have ok: "seg_ok seg" by (rule queued_seg(2) [OF run_good(1) [OF laws(3) d(2)] hd])
    have fd: "wire_fd v \<noteq> td" "FileDescriptor_fd_num (sp_world s') (da_fd ?ad (sp_datagram_adapter s')) = wire_fd v"
      using d(4) by (simp_all add: sponge_fds_def)
    show ?case
      unfolding drain_segments.simps
    proof (rule outcome_bind3 [OF writing [OF laws(1,2) fd ok]])
      fix x a w
      assume post: "write_post got put v (da_fd ?ad) (sp_datagram_adapter s') (sp_world s') seg a w"
      let ?s = "s'\<lparr>sp_datagram_adapter := a, sp_world := w, sp_tcp := Some (c\<lparr>cn_segments_out := q\<rparr>)\<rparr>"
      have "sponge_fds ?ad td (wire_fd v) t f ?s"
        using post d(4) sponge_fds_used [OF d(4), of got put w a] by (simp add: sponge_fds_def write_post_def)
      moreover have "run_ok got put v c0 (wd_kernel w) (d\<lparr>cn_segments_out := q\<rparr>)"
        using post tcp_send [OF laws(3) d(2) hd] by (auto simp: write_post_def used_only_def)
      ultimately have "?Q ?s" using d(3) dq Cons.prems(1) by (simp add: sponge_inv_def sponge_tcp_def)
      then show "outcome io_exn ?Q (drain_segments ?ad c q ?s)" by (rule Cons.IH) simp
    qed
  qed
  moreover obtain c where "sp_tcp s = Some c" by (rule sponge_invE [OF assms(2)])
  moreover have "c = c\<lparr>cn_segments_out := cn_segments_out c\<rparr>" for c :: TCPConnection by simp
  ultimately show ?thesis using assms(2) unfolding rule4_callback_def sp_arrow_def by fastforce
qed

lemma cancel_ok:
  assumes "sponge_laws line os lc td got put v c0" and "sponge_inv got put v c0 (mk os lc) td t f s"
  shows "outcome io_exn (sponge_inv got put v c0 (mk os lc) td t f) (rule2_cancel s)"
proof -
  obtain c where c: "sp_tcp s = Some c" "run_ok got put v c0 (wd_kernel (sp_world s)) c"
    "sponge_fds (mk os lc) td (wire_fd v) t f s" by (rule sponge_invE [OF assms(2)])
  from assms(1) have "fresh_conn c0" by (auto elim: sponge_lawsE)
  from tcp_end [OF this c(2)] obtain c' where "TCPConnection_end_input_stream c = Inr c'"
    "run_ok got put v c0 (wd_kernel (sp_world s)) c'" by blast
  then show ?thesis using c by (simp add: rule2_cancel_def sp_arrow_def sponge_inv_def sponge_tcp_def sponge_fds_def)
qed

lemma arrow_outcome:
  assumes "sponge_inv got put v c0 (mk os lc) td t f s"
  shows "outcome io_exn (\<lambda>_. True) (sp_arrow s (\<lambda>c. Inr (P c)))"
  using assms by (auto simp: sp_arrow_def elim: sponge_invE)

text \<open>The four rules are a client of the event loop.\<close>

lemma sponge_client:
  "loop_client (sp_poll os) (set (sponge_rules os lc (mk os lc) t f))
     (\<lambda>s. sponge_laws line os lc td got put v c0 \<and> sponge_inv got put v c0 (mk os lc) td t f s) (rule_ready t) io_exn"
proof (unfold_locales, goal_cases)
  case (1 r s)
  then show ?case
    by (auto simp: sponge_rules_def rule_ready_def rule1_interest_def rule2_interest_def rule3_interest_def rule4_interest_def sp_arrow_def
      sponge_fds_def elim!: sponge_invE)
next
  case (2 r s)
  then have f: "f \<noteq> t" by (auto simp: sponge_inv_def sponge_fds_def)
  note ok = rule1_ok [THEN outcome_mono] rule2_ok [THEN outcome_mono] rule3_ok [THEN outcome_mono] rule4_ok [THEN outcome_mono]
  from 2 show ?case by (auto simp: sponge_rules_def rule_ready_def intro: ok)
next
  case (3 r s)
  then show ?case by (auto simp: sponge_rules_def intro: cancel_ok [THEN outcome_mono])
next
  case (4 r r' s s')
  then have "f \<noteq> t" by (auto simp: sponge_inv_def sponge_fds_def)
  note only = only_rule2 [OF this]
  show ?case
  proof (cases "r = sponge_rules os lc (mk os lc) t f ! 1")
    case True
    with 4 have "r' \<in> set (sponge_rules os lc (mk os lc) t f) - {sponge_rules os lc (mk os lc) t f ! 1}" by simp
    then have "ru_callback r' \<in> {rule1_callback lc (mk os lc), rule3_callback os lc (mk os lc), rule4_callback (mk os lc)}"
      by (auto simp: sponge_rules_def)
    with 4 show ?thesis
      using outcome_Inr [OF rule1_ok, of os lc td got put v c0 t f s s'] outcome_Inr [OF rule3_ok, of os lc td got put v c0 t f s s']
        outcome_Inr [OF rule4_ok, of os lc td got put v c0 t f s s']
      by (auto simp: rule_ready_def)
  qed (use only [OF 4(1)] in \<open>auto simp: rule_ready_def\<close>)
next
  case (5 r r' s s')
  then have "f \<noteq> t" by (auto simp: sponge_inv_def sponge_fds_def)
  note only = only_rule2 [OF this]
  show ?case
  proof (cases "r = sponge_rules os lc (mk os lc) t f ! 1")
    case True
    with 5 have "r' \<in> set (sponge_rules os lc (mk os lc) t f) - {sponge_rules os lc (mk os lc) t f ! 1}" by simp
    then have "ru_cancel r' = Inr" by (auto simp: sponge_rules_def)
    with 5 show ?thesis by simp
  qed (use only [OF 5(1)] in \<open>auto simp: rule_ready_def\<close>)
next
  case (6 s ps ms x s')
  then have laws: "sponge_laws line os lc td got put v c0" and inv: "sponge_inv got put v c0 (mk os lc) td t f s" by simp_all
  note quiet = quiet_calls(1) [OF laws, of "wd_kernel (sp_world s)" ps ms]
  have "sponge_inv got put v c0 (mk os lc) td t f s'"
    using 6(2) quiet by (auto simp: sp_poll_def Let_def FileDescriptor_fd_num_def split: prod.splits intro!: sponge_inv_quiet [OF inv])
  with laws 6(2) show ?case by (auto simp: sp_poll_def Let_def rule_ready_def split: prod.splits)
qed

lemma loop_tick_ok:
  assumes "sponge_laws line os lc td got put v c0" and "sponge_inv got put v c0 (mk os lc) td t f s"
  shows "outcome io_exn (\<lambda>(_, s'). sponge_inv got put v c0 (mk os lc) td t f s') (loop_tick os (mk os lc) base_time s)"
proof -
  obtain c where c: "sp_tcp s = Some c" "run_ok got put v c0 (wd_kernel (sp_world s)) c"
    "out_ended c \<longrightarrow> sp_outbound_shutdown s" "sponge_fds (mk os lc) td (wire_fd v) t f s" by (rule sponge_invE [OF assms(2)])
  obtain now k where now: "os_timestamp_ms os (wd_kernel (sp_world s)) = (now, k)" by fastforce
  from assms(1) have fresh: "fresh_conn c0" by (auto elim: sponge_lawsE)
  have "quiet got put v (wd_kernel (sp_world s)) k" using quiet_calls(2) [OF assms(1), of "wd_kernel (sp_world s)"] now by simp
  from tcp_tick [OF fresh run_quiet [OF c(2) this] c(3)] obtain c' where "TCPConnection_tick c (now - base_time) = Inr c'"
    "sponge_tcp got put v c0 k (sp_outbound_shutdown s) (Some c')" by blast
  moreover have "sponge_tcp got put v c0 (wd_kernel (sp_world s)) (sp_outbound_shutdown s) (Some c)"
    using c(2,3) by (simp add: sponge_tcp_def)
  ultimately show ?thesis
    using c(1,4) now by (simp add: loop_tick_def sp_value_def sp_timestamp_def sponge_inv_def Let_def)
      (simp add: sponge_fds_def keeps_fd FileDescriptor_fd_num_def)
qed

lemma loop_exn_io: "loop_exn e \<Longrightarrow> io_exn e"
  by (auto simp: loop_exn_def)

lemma rounds_ok:
  assumes "sponge_laws line os lc td got put v c0"
    and "\<And>s. sponge_inv got put v c0 (mk os lc) td t f s \<Longrightarrow> outcome io_exn (\<lambda>_. True) (condition s)"
    and "sponge_inv got put v c0 (mk os lc) td t f s" and "distinct (el_rules l)" and "set (el_rules l) \<subseteq> set (sponge_rules os lc (mk os lc) t f)"
    and "tcp_loop_rounds os (mk os lc) abort condition n base_time l s = Some r"
  shows "outcome io_exn (\<lambda>(l', s'). sponge_inv got put v c0 (mk os lc) td t f s' \<and> subseq (el_rules l') (el_rules l)) r"
  using assms(3-6)
proof (induction n arbitrary: base_time l s)
  case (Suc n)
  let ?inv = "sponge_inv got put v c0 (mk os lc) td t f"
  note wait = loop_client.wait_ok [OF sponge_client [of os lc t f td got put v c0] Suc.prems(2,3) conjI,
    OF assms(1) Suc.prems(1), where fds = sp_fds and t = TCP_TICK_MS]
  note cond = assms(2) [OF Suc.prems(1)]
  show ?case
  proof (cases "condition s")
    case (Inr go)
    show ?thesis
    proof (cases "EventLoop_wait_next_event sp_fds (sp_poll os) l TCP_TICK_MS s")
      case (Inr x)
      obtain ret l' s' where x: "x = (ret, l', s')" by (rule prod_cases3)
      with wait Inr have s': "?inv s'" "subseq (el_rules l') (el_rules l)" by simp_all
      have l': "distinct (el_rules l')" "set (el_rules l') \<subseteq> set (sponge_rules os lc (mk os lc) t f)"
        using subseq_keeps [OF s'(2) Suc.prems(2,3)] by simp_all
      note tick = loop_tick_ok [OF assms(1) s'(1), of base_time]
      show ?thesis
      proof (cases "loop_tick os (mk os lc) base_time s'")
        case (Inr y)
        obtain base' s'' where y: "y = (base', s'')" by (rule prod.exhaust)
        then have "?inv s''" using tick Inr by simp
        from Suc.IH [OF this l', of base'] show ?thesis
          using \<open>condition s = Inr go\<close> \<open>EventLoop_wait_next_event _ _ _ _ _ = _\<close> Inr x y s' Suc.prems(1,4)
          by (auto split: bool.splits if_splits elim!: outcome_mono intro: subseq_order.trans)
      qed (use \<open>condition s = Inr go\<close> \<open>EventLoop_wait_next_event _ _ _ _ _ = _\<close> x tick s' Suc.prems(1,4) in \<open>auto split: bool.splits if_splits\<close>)
    qed (use \<open>condition s = Inr go\<close> wait Suc.prems(1,4) loop_exn_io in \<open>auto split: bool.splits\<close>)
  qed (use cond Suc.prems(4) in auto)
qed simp

lemma loop_ok:
  assumes "session_ok line os lc (mk os lc) got put v c0 td t f l s"
    and "\<And>s. sponge_inv got put v c0 (mk os lc) td t f s \<Longrightarrow> outcome io_exn (\<lambda>_. True) (condition s)"
    and "TCPSpongeSocket_tcp_loop os (mk os lc) abort n condition l s = Some r"
  shows "outcome io_exn (\<lambda>(l', s'). session_ok line os lc (mk os lc) got put v c0 td t f l' s') r"
proof -
  have s: "sponge_laws line os lc td got put v c0" "sponge_inv got put v c0 (mk os lc) td t f s" "distinct (el_rules l)"
    "set (el_rules l) \<subseteq> set (sponge_rules os lc (mk os lc) t f)"
    using assms(1) by (simp_all add: session_ok_def)
  obtain now k where now: "os_timestamp_ms os (wd_kernel (sp_world s)) = (now, k)" by fastforce
  have "quiet got put v (wd_kernel (sp_world s)) k" using quiet_calls(2) [OF s(1), of "wd_kernel (sp_world s)"] now by simp
  then have "sponge_inv got put v c0 (mk os lc) td t f (s\<lparr>sp_world := (sp_world s)\<lparr>wd_kernel := k\<rparr>\<rparr>)"
    by (intro sponge_inv_quiet [OF s(2)]) (simp_all add: FileDescriptor_fd_num_def)
  from rounds_ok [OF s(1) assms(2) this s(3,4)] assms(3) now
  have "outcome io_exn (\<lambda>(l', s'). sponge_inv got put v c0 (mk os lc) td t f s' \<and> subseq (el_rules l') (el_rules l)) r"
    by (simp add: TCPSpongeSocket_tcp_loop_def sp_timestamp_def)
  then show ?thesis by (rule outcome_mono) (use s(1) subseq_keeps [OF _ s(3,4)] in \<open>auto simp: session_ok_def\<close>)
qed

lemma initialize_ok:
  assumes "kernel_law os td got put" and "line os v" and "getaddrinfo_law lc" and "unat (cf_recv_capacity cfg) < 2 ^ 62"
    and "sponge_start got put v (mk os lc) td s" and "sp_thread_data s = t" and "da_fd (mk os lc) (sp_datagram_adapter s) = f"
  obtains random l s' where "TCPSpongeSocket_initialize_TCP os lc (mk os lc) cfg s EventLoop_new = (l, s')"
    and "session_ok line os lc (mk os lc) got put v (TCPConnection_new cfg random) td t f l s'"
    and "sp_tcp s' = Some (TCPConnection_new cfg random)"
proof -
  obtain random k where r: "os_random os (wd_kernel (sp_world s)) = (random, k)" by fastforce
  let ?c = "TCPConnection_new cfg random"
  let ?s = "s\<lparr>sp_world := (sp_world s)\<lparr>wd_kernel := k\<rparr>, sp_tcp := Some ?c\<rparr>"
  let ?l = "TCPSpongeSocket_rules os lc (mk os lc) ?s EventLoop_new"
  have laws: "sponge_laws line os lc td got put v ?c" using assms(1-4) by (auto simp: sponge_laws_def fresh_conn_def)
  have fds: "sponge_fds (mk os lc) td (wire_fd v) t f s" using assms(5-7) by (simp add: sponge_start_def)
  have "quiet got put v (wd_kernel (sp_world s)) k" using quiet_calls(3) [OF laws, of "wd_kernel (sp_world s)"] r by simp
  moreover have "run_ok got put v ?c (wd_kernel (sp_world s)) ?c"
    using assms(5) trace_begin [of "heard v (wd_kernel (sp_world s))" ?c] by (simp add: run_ok_def sponge_start_def)
  moreover have "\<not> out_ended ?c" by (simp add: TCPConnection_new_def TCPSender_new_def ByteStream_new_def)
  ultimately have inv: "sponge_inv got put v ?c (mk os lc) td t f ?s"
    using fds run_quiet by (auto simp: sponge_inv_def sponge_tcp_def sponge_fds_def FileDescriptor_fd_num_def)
  have rules: "el_rules ?l = sponge_rules os lc (mk os lc) t f" "f \<noteq> t"
    using fds by (simp_all add: rules_eq EventLoop_new_def sponge_fds_def)
  have session: "session_ok line os lc (mk os lc) got put v ?c td t f ?l ?s"
    using inv rules distinct_rules laws by (auto simp: session_ok_def)
  have "TCPSpongeSocket_initialize_TCP os lc (mk os lc) cfg s EventLoop_new = (?l, ?s)"
    by (simp add: TCPSpongeSocket_initialize_TCP_def r Let_def)
  from that [OF this session] show ?thesis by simp
qed

lemma adapter_changed:
  assumes "session_ok line os lc (mk os lc) got put v c0 td t f l s" and "da_fd (mk os lc) a = da_fd (mk os lc) (sp_datagram_adapter s)"
  shows "session_ok line os lc (mk os lc) got put v c0 td t f l (s\<lparr>sp_datagram_adapter := a\<rparr>)"
  using assms by (simp add: session_ok_def sponge_inv_def sponge_fds_def)

lemma state_outcome: "sponge_inv got put v c0 (mk os lc) td t f s \<Longrightarrow> outcome io_exn (\<lambda>_. True) (sp_in_state states s)"
  unfolding sp_in_state_def by (rule arrow_outcome)

lemma listen_session:
  assumes "kernel_law os td got put" and "line os v" and "getaddrinfo_law lc" and "unat (cf_recv_capacity cfg) < 2 ^ 62"
    and "sponge_start got put v (mk os lc) td s" and "sp_thread_data s = t" and "da_fd (mk os lc) (sp_datagram_adapter s) = f"
    and "TCPSpongeSocket_listen_and_accept os lc (mk os lc) abort n cfg c_ad EventLoop_new s = Some r"
  shows "outcome io_exn (\<lambda>(l, s'). \<exists>random. session_ok line os lc (mk os lc) got put v (TCPConnection_new cfg random) td t f l s') r"
proof (cases "sp_tcp s = None")
  case True
  obtain random l s1 where i: "TCPSpongeSocket_initialize_TCP os lc (mk os lc) cfg s EventLoop_new = (l, s1)"
    "session_ok line os lc (mk os lc) got put v (TCPConnection_new cfg random) td t f l s1"
    by (rule initialize_ok [OF assms(1-7)])
  let ?s = "s1\<lparr>sp_datagram_adapter := da_set_listening (mk os lc) True (da_config_mut (mk os lc) c_ad (sp_datagram_adapter s1))\<rparr>"
  let ?loop = "TCPSpongeSocket_tcp_loop os (mk os lc) abort n (sp_in_state [State_LISTEN, State_SYN_RCVD, State_SYN_SENT]) l ?s"
  have s: "session_ok line os lc (mk os lc) got put v (TCPConnection_new cfg random) td t f l ?s"
    by (rule adapter_changed [OF i(2)]) (simp add: keeps_fd)
  have eq: "Some r = (case ?loop of
      Some (Inr (l, s)) \<Rightarrow> Some (bindE (sp_destination_string lc (mk os lc) s) (\<lambda>_. Inr (l, s))) | r \<Rightarrow> r)"
    using True assms(8) i(1) by (simp add: TCPSpongeSocket_listen_and_accept_def)
  then obtain x where x: "?loop = Some x" by (cases ?loop) simp_all
  have "outcome io_exn (\<lambda>(l', s'). session_ok line os lc (mk os lc) got put v (TCPConnection_new cfg random) td t f l' s') x"
    by (rule loop_ok [OF s state_outcome x])
  then show ?thesis using eq x by (cases x) (auto intro!: outcome_bind [OF destination_outcome])
qed (use assms(8) in \<open>auto simp: TCPSpongeSocket_listen_and_accept_def\<close>)

lemma connect_session:
  assumes "kernel_law os td got put" and "line os v" and "getaddrinfo_law lc" and "unat (cf_recv_capacity cfg) < 2 ^ 62"
    and "sponge_start got put v (mk os lc) td s" and "sp_thread_data s = t" and "da_fd (mk os lc) (sp_datagram_adapter s) = f"
    and "TCPSpongeSocket_connect os lc (mk os lc) abort n cfg c_ad EventLoop_new s = Some r"
  shows "outcome io_exn (\<lambda>(l, s'). \<exists>random. session_ok line os lc (mk os lc) got put v (TCPConnection_new cfg random) td t f l s') r"
proof -
  obtain random l s1 where i: "TCPSpongeSocket_initialize_TCP os lc (mk os lc) cfg s EventLoop_new = (l, s1)"
    "session_ok line os lc (mk os lc) got put v (TCPConnection_new cfg random) td t f l s1" "sp_tcp s1 = Some (TCPConnection_new cfg random)"
    by (rule initialize_ok [OF assms(1-7)])
  let ?c = "TCPConnection_new cfg random" and ?a = "da_config_mut (mk os lc) c_ad (sp_datagram_adapter s1)"
  let ?Q = "\<lambda>(l', s'). session_ok line os lc (mk os lc) got put v ?c td t f l' s'"
  have s: "session_ok line os lc (mk os lc) got put v ?c td t f l (s1\<lparr>sp_datagram_adapter := ?a\<rparr>)"
    by (rule adapter_changed [OF i(2)]) (simp add: keeps_fd)
  have start: "outcome io_exn ?Q (connect_start os lc (mk os lc) cfg c_ad EventLoop_new s)"
  proof (cases "sp_tcp s = None")
    case True
    have c: "run_ok got put v ?c (wd_kernel (sp_world s1)) ?c" "fresh_conn ?c" "\<not> out_ended ?c"
      using i(2,3) by (auto simp: session_ok_def sponge_laws_def sponge_inv_def sponge_tcp_def TCPConnection_new_def TCPSender_new_def ByteStream_new_def)
    note good = run_good(1) [OF c(2,1)]
    obtain c' where c': "TCPConnection_connect ?c = Inr c'" by (rule connect_ok [OF good])
    have "run_ok got put v ?c (wd_kernel (sp_world s1)) c'" by (rule run_step [OF c(2,1) connects [OF c']]) simp_all
    then have "?Q (l, s1\<lparr>sp_datagram_adapter := ?a, sp_tcp := Some c'\<rparr>)"
      using s connect_frame(1) [OF good c'] c(3) by (simp add: session_ok_def sponge_inv_def sponge_tcp_def sponge_fds_def)
    then show ?thesis
      using True i(1,3) c' by (auto simp: connect_start_def sp_arrow_def intro!: outcome_bind [OF Address_outcomes(2)])
  qed (auto simp: connect_start_def)
  show ?thesis
  proof (cases "connect_start os lc (mk os lc) cfg c_ad EventLoop_new s")
    case (Inl e)
    then have "r = Inl e" using assms(8) by (simp add: TCPSpongeSocket_connect_def)
    then show ?thesis using start Inl by simp
  next
    case (Inr y)
    obtain l' s' where y: "y = (l', s')" by (rule prod.exhaust)
    then have "session_ok line os lc (mk os lc) got put v ?c td t f l' s'" using start Inr by simp
    from loop_ok [OF this state_outcome] assms(8) Inr y have "outcome io_exn ?Q r" by (simp add: TCPSpongeSocket_connect_def)
    then show ?thesis by (rule outcome_mono) auto
  qed
qed

text \<open>The end of the function of the thread, after any of its loops.\<close>

lemma end_session:
  assumes "outcome io_exn (\<lambda>(l', s'). session_ok line os lc (mk os lc) got put v c0 td t f l' s') x" and "tcp_main_end os (Some x) = Some r"
  shows "outcome io_exn (\<lambda>(_, s'). (\<exists>c. run_ok got put v c0 (wd_kernel (sp_world s')) c) \<and> sp_tcp s' = None) r"
proof (cases x)
  case (Inl e)
  then show ?thesis using assms by (auto simp: tcp_main_end_def)
next
  case (Inr y)
  obtain l' s' where y: "y = (l', s')" by (rule prod.exhaust)
  then have s': "session_ok line os lc (mk os lc) got put v c0 td t f l' s'" using assms(1) Inr by simp
  then obtain c where c: "sp_tcp s' = Some c" "run_ok got put v c0 (wd_kernel (sp_world s')) c"
    by (auto simp: session_ok_def elim: sponge_invE)
  have laws: "sponge_laws line os lc td got put v c0" using s' by (simp add: session_ok_def)
  have quiet: "quiet got put v (wd_kernel (sp_world s')) k \<Longrightarrow> \<exists>d. run_ok got put v c0 k d" for k using run_quiet [OF c(2)] by blast
  show ?thesis
    using assms(2) Inr y c
    by (auto simp: tcp_main_end_def sp_value_def intro!: outcome_bind [OF shutdown_quiet [OF laws]] dest: quiet)
qed

lemma main_session:
  assumes "session_ok line os lc (mk os lc) got put v c0 td t f l s" and "TCPSpongeSocket_tcp_main os (mk os lc) abort n l s = Some r"
  shows "outcome io_exn (\<lambda>(_, s'). (\<exists>c. run_ok got put v c0 (wd_kernel (sp_world s')) c) \<and> sp_tcp s' = None) r"
proof -
  let ?loop = "TCPSpongeSocket_tcp_loop os (mk os lc) abort n (\<lambda>_. Inr True) l s"
  obtain c where "sp_tcp s = Some c" using assms(1) by (auto simp: session_ok_def elim: sponge_invE)
  then have eq: "tcp_main_end os ?loop = Some r" using assms(2) by (simp add: TCPSpongeSocket_tcp_main_def)
  then obtain x where x: "?loop = Some x" by (cases ?loop) (simp_all add: tcp_main_end_def)
  show ?thesis by (rule end_session [OF loop_ok [OF assms(1) _ x] eq [unfolded x]]) simp
qed

end

section \<open>The sockets of the program\<close>

interpretation udp_loop: loop_client sp_fds "sp_poll os" "set (sponge_rules os lc (UDP_adapter os lc) t f)"
    "\<lambda>s. sponge_laws udp_line os lc td got put v c0 \<and> sponge_inv got put v c0 (UDP_adapter os lc) td t f s" "rule_ready t" io_exn
  for os :: "'k os" and lc t f td got put v c0
  by (rule udp.sponge_client)

interpretation tun_loop: loop_client sp_fds "sp_poll os" "set (sponge_rules os lc (Tun_adapter os lc) t f)"
    "\<lambda>s. sponge_laws tun_line os lc td got put v c0 \<and> sponge_inv got put v c0 (Tun_adapter os lc) td t f s" "rule_ready t" io_exn
  for os :: "'k os" and lc t f td got put v c0
  by (rule tun.sponge_client)

text \<open>
  What the socket promises of the two streams, in terms of the histories alone.  If all segments in the packets that have
  arrived are of one stream \<open>S\<close> of the peer, or bare, then what was written to the socket pair is a prefix of \<open>S\<close>.  And every packet that was
  sent carries a bare segment or a segment of the bytes that were read from the socket pair, at its place in
  the sequence space that starts with \<open>isn\<close>.
\<close>

definition faithful :: "('k \<Rightarrow> bytes) \<Rightarrow> ('k \<Rightarrow> bytes) \<Rightarrow> 'k wire \<Rightarrow> WrappingInt32 \<Rightarrow> 'k \<Rightarrow> bool" where
  "faithful got put v isn k \<longleftrightarrow>
     (\<forall>S peer. length S + 2 < 2 ^ 31
        \<and> (\<forall>p \<in> set (arrived v k). \<forall>seg. incoming v p seg \<longrightarrow> seg_of_stream S peer seg \<or> bare_seg seg) \<longrightarrow>
        put k = take (length (put k)) S)
     \<and> (\<forall>p \<in> set (sent v k). \<exists>seg. outgoing v p seg \<and> (bare_seg seg \<or> (\<exists>f. seg_at (got k) isn f seg)))"

lemma run_faithful:
  assumes "fresh_conn c0" and "run_ok got put v c0 k c"
  shows "faithful got put v (isn_of c0) k"
proof -
  obtain cfg random where c0: "c0 = TCPConnection_new cfg random" "unat (cf_recv_capacity cfg) < 2 ^ 62"
    using assms(1) by (auto simp: fresh_conn_def)
  have "put k = take (length (put k)) S" if "length S + 2 < 2 ^ 31"
    "\<forall>p \<in> set (arrived v k). \<forall>seg. incoming v p seg \<longrightarrow> seg_of_stream S peer seg \<or> bare_seg seg" for S peer
  proof -
    have "conn_trace (heard v k) (TCPConnection_new cfg random) (got k) (put k) c" using assms(2) c0(1) by (simp add: run_ok_def)
    moreover have "seg_of_stream S peer seg \<or> bare_seg seg" if "heard v k seg" for seg
      using that \<open>\<forall>p \<in> set (arrived v k). _ p\<close> by (auto simp: heard_def)
    moreover have "unat (cf_recv_capacity cfg) + length S + 2 ^ 33 < two64" using c0(2) that(1) by (simp add: two64_def)
    ultimately show ?thesis using trace_prefix that(1) by blast
  qed
  then show ?thesis
    using assms(2) run_good(5) [OF assms] unfolding faithful_def run_ok_def conn_seg_def by metis
qed

text \<open>After \<^verbatim>\<open>connect\<close> or \<^verbatim>\<open>listen_and_accept\<close>, and again after the function of the thread, whenever it returns.\<close>

definition served :: "'k os \<Rightarrow> ('a, 'k) adapter \<Rightarrow> ('k \<Rightarrow> bytes) \<Rightarrow> ('k \<Rightarrow> bytes) \<Rightarrow> 'k wire \<Rightarrow> ('a, 'k) TCPSpongeSocket EventLoop
    \<Rightarrow> ('a, 'k) TCPSpongeSocket \<Rightarrow> bool" where
  "served os ad got put v l s \<longleftrightarrow> (\<exists>isn c. sp_tcp s = Some c
     \<and> unat (bs_byte_written (ts_stream (cn_sender c))) = length (got (wd_kernel (sp_world s)))
     \<and> unat (in_read c) = length (put (wd_kernel (sp_world s)))
     \<and> faithful got put v isn (wd_kernel (sp_world s))
     \<and> (\<forall>abort n r. TCPSpongeSocket_tcp_main os ad abort n l s = Some r \<longrightarrow>
          outcome io_exn (\<lambda>(_, s'). sp_tcp s' = None \<and> faithful got put v isn (wd_kernel (sp_world s'))) r))"

context datagram_adapter
begin

lemma main_faithful:
  assumes "session_ok line os lc (mk os lc) got put v c0 td t f l s" and "TCPSpongeSocket_tcp_main os (mk os lc) abort n l s = Some r"
  shows "outcome io_exn (\<lambda>(_, s'). sp_tcp s' = None \<and> faithful got put v (isn_of c0) (wd_kernel (sp_world s'))) r"
proof -
  have "fresh_conn c0" using assms(1) by (simp add: session_ok_def sponge_laws_def)
  from main_session [OF assms] show ?thesis by (rule outcome_mono) (use run_faithful [OF \<open>fresh_conn c0\<close>] in auto)
qed

lemma session_served:
  assumes "session_ok line os lc (mk os lc) got put v c0 td t f l s"
  shows "served os (mk os lc) got put v l s"
proof -
  have fresh: "fresh_conn c0" using assms by (simp add: session_ok_def sponge_laws_def)
  from assms obtain c where c: "sp_tcp s = Some c" "run_ok got put v c0 (wd_kernel (sp_world s)) c"
    by (auto simp: session_ok_def elim: sponge_invE)
  note good = run_good [OF fresh c(2)]
  have "unat (bs_byte_written (ts_stream (cn_sender c))) = length (got (wd_kernel (sp_world s)))"
    using good(1) by (simp add: conn_inv_def conn_pre_def sender_inv_parts)
  with c(1) good(3) run_faithful [OF fresh c(2)] main_faithful [OF assms] show ?thesis
    unfolding served_def by blast
qed

lemma connect_serves:
  assumes "kernel_law os td got put" and "line os v" and "getaddrinfo_law lc" and "unat (cf_recv_capacity cfg) < 2 ^ 62"
    and "sponge_start got put v (mk os lc) td s"
    and "TCPSpongeSocket_connect os lc (mk os lc) abort n cfg c_ad EventLoop_new s = Some r"
  shows "outcome io_exn (\<lambda>(l, s1). served os (mk os lc) got put v l s1) r"
  by (rule outcome_mono [OF connect_session [OF assms(1-5) refl refl assms(6)]]) (auto dest: session_served)

lemma listen_serves:
  assumes "kernel_law os td got put" and "line os v" and "getaddrinfo_law lc" and "unat (cf_recv_capacity cfg) < 2 ^ 62"
    and "sponge_start got put v (mk os lc) td s"
    and "TCPSpongeSocket_listen_and_accept os lc (mk os lc) abort n cfg c_ad EventLoop_new s = Some r"
  shows "outcome io_exn (\<lambda>(l, s1). served os (mk os lc) got put v l s1) r"
  by (rule outcome_mono [OF listen_session [OF assms(1-5) refl refl assms(6)]]) (auto dest: session_served)

end

end
