(* ===== verification/Sponge_Props.thy ===== *)
theory Sponge_Props
  imports Sponge_Run Connection_Props
begin

text \<open>
  The properties of \<^verbatim>\<open>TCPSpongeSocket\<close> over the adapters of the program, and a small kernel on which they are
  exercised: its socket pair holds one byte, which the loop reads and gives to the connection.
\<close>

section \<open>A kernel with one byte\<close>

definition byte_os :: "bool os" where
  "byte_os = no_os\<lparr>
     os_read := (\<lambda>fd n k. if fd = 3 \<and> \<not> k \<and> n > 0 then ((1, 0, [104]), True) else ((- 1, 11, []), k)),
     os_poll := (\<lambda>ps _ k. ((1, 0, map (\<lambda>(fd, events). if fd = 3 then events AND POLLIN else 0) ps), k))\<rparr>"

definition byte_world :: "bool world" where
  "byte_world = \<lparr>wd_kernel = False,
     wd_fds = (\<lambda>f. \<lparr>fd_fd = 3 + int f, fd_eof = False, fd_closed = False, fd_read_count = 0, fd_write_count = 0\<rparr>)\<rparr>"

definition byte_got :: "bool \<Rightarrow> bytes" where
  "byte_got k = (if k then [104] else [])"

definition byte_put :: "bool \<Rightarrow> bytes" where
  "byte_put k = []"

lemma byte_kernel_law: "kernel_law byte_os 3 byte_got byte_put"
  by (auto simp: kernel_law_def pipe_law_def others_law_def read_law_def writev_law_def same_pipe_def byte_os_def byte_got_def
      byte_put_def no_os_def Let_def word_gt_0 unat_gt_0 Suc_le_eq split: if_splits)

text \<open>Its device, descriptor 4, hands out nothing and takes nothing.\<close>

definition byte_wire :: "(bytes \<Rightarrow> TCPSegment \<Rightarrow> bool) \<Rightarrow> (bytes \<Rightarrow> TCPSegment \<Rightarrow> bool) \<Rightarrow> bool wire" where
  "byte_wire inc out = \<lparr>wire_fd = 4, arrived = (\<lambda>_. []), sent = (\<lambda>_. []), incoming = inc, outgoing = out\<rparr>"

lemma byte_lines: "tun_line byte_os (byte_wire tun_incoming tun_outgoing)" "udp_line byte_os (byte_wire udp_incoming udp_outgoing)"
  by (auto simp: tun_line_def udp_line_def others_law_def read_law_def packet_law_def same_pipe_def byte_wire_def byte_os_def
      no_os_def Let_def split: if_splits)

lemma quad_getaddrinfo_law: "getaddrinfo_law quad_libc"
  by (simp add: getaddrinfo_law_def quad_libc_def)

lemma byte_read:
  assumes "n > 0"
  shows "FileDescriptor_read byte_os 0 n byte_world = Inr ([104], FileDescriptor_register_read 0 (byte_world\<lparr>wd_kernel := True\<rparr>))"
proof -
  let ?n = "min FileDescriptor_BUFFER_SIZE n"
  have n: "?n > 0" using assms by (simp add: FileDescriptor_BUFFER_SIZE_def)
  have fd: "FileDescriptor_fd_num byte_world 0 = 3" by (simp add: FileDescriptor_fd_num_def byte_world_def)
  have call: "os_read byte_os 3 ?n (wd_kernel byte_world) = ((1, 0, [104]), True)"
    using n by (simp add: byte_os_def byte_world_def)
  have sys: "SystemCall ''read'' 1 0 0 = Inr 1" by (simp add: SystemCall_def to_int_id)
  have "read_law byte_os (FileDescriptor_fd_num byte_world 0)" using pipe_laws(1) [OF byte_kernel_law] fd by simp
  then show ?thesis
  proof (cases rule: read_spec [where limit = n])
    case (1 errno)
    then show ?thesis by (auto simp: FileDescriptor_read_def FileDescriptor_read_into_def fd call sys Let_def split: if_splits)
  next
    case (2 data errno k)
    then show ?thesis using call fd by auto
  qed
qed

text \<open>One round of the loop: rule 2 is served, whatever the adapter is, and the byte is in the connection.\<close>

lemma byte_round:
  assumes "sp_world s = byte_world" and "sp_thread_data s = 0" and "\<not> sp_outbound_shutdown s" and "sp_tcp s = Some c"
    and "conn_good [] c" and "\<not> out_ended c" and "TCPConnection_active c"
    and "TCPConnection_remaining_outbound_capacity c > 0" and "el_rules l = sponge_rules byte_os lc ad 0 1"
  obtains c' l' where "EventLoop_wait_next_event sp_fds (sp_poll byte_os) l ms s
    = Inr (Success, l', s\<lparr>sp_world := FileDescriptor_register_read 0 (byte_world\<lparr>wd_kernel := True\<rparr>), sp_tcp := Some c'\<rparr>)"
proof -
  let ?w = "FileDescriptor_register_read 0 (byte_world\<lparr>wd_kernel := True\<rparr>)"
  have "\<not> ByteStream_input_ended (ts_stream (cn_sender c))" using assms(6) by (simp add: ByteStream_input_ended_def)
  from write_amount [OF assms(5) this, of "[104]"] obtain c' n where c': "TCPConnection_write c [104] = Inr (c', n)"
    "unat n = min 1 (unat (TCPConnection_remaining_outbound_capacity c))" by (auto simp: two64_def)
  moreover have "unat (TCPConnection_remaining_outbound_capacity c) > 0" using assms(8) by (simp add: word_gt_0 unat_gt_0)
  ultimately have "n = size64 [104 :: byte]" by (simp add: word_unat_eq_iff size64_def)
  note c' = c'(1) [unfolded this]
  let ?s = "s\<lparr>sp_world := ?w, sp_tcp := Some c'\<rparr>"
  have w: "\<not> FileDescriptor_eof ?w 0"
    by (simp add: FileDescriptor_eof_def byte_world_def)
  have cb: "rule2_callback byte_os lc ad s = Inr ?s"
    using assms(1,2,4) byte_read [OF assms(8)] c' w by (simp add: rule2_callback_def sp_arrow_def Let_def)
  have fds: "sp_fds s f = \<lparr>fd_fd = 3 + int f, fd_eof = False, fd_closed = False, fd_read_count = 0, fd_write_count = 0\<rparr>" for f
    by (simp add: sp_fds_def assms(1) byte_world_def)
  have count: "fd_read_count (sp_fds ?s 0) = 1"
    by (simp add: sp_fds_def FileDescriptor_register_read_def byte_world_def)
  have s: "s\<lparr>sp_world := (sp_world s)\<lparr>wd_kernel := False\<rparr>\<rparr> = s" by (simp add: assms(1) byte_world_def)
  obtain b1 b3 b4 where b: "rule1_interest s = Inr b1" "rule3_interest s = Inr b3" "rule4_interest s = Inr b4"
    by (simp add: rule1_interest_def rule3_interest_def rule4_interest_def sp_arrow_def assms(4))
  have b2: "rule2_interest s = Inr True" using assms(3,4,7,8) by (simp add: rule2_interest_def sp_arrow_def)
  let ?p = "\<lambda>f e. \<lparr>pf_fd = 3 + int f, pf_events = e, pf_revents = 0\<rparr>"
  have polled: "setup_pollfds sp_fds (el_rules l) s = Inr (s, el_rules l,
      [?p 1 (if b1 then POLLIN else 0), ?p 0 POLLIN, ?p 0 (if b3 then POLLOUT else 0), ?p 1 (if b4 then POLLOUT else 0)], True)"
    by (simp add: assms(9) sponge_rules_def fds b b2 Let_def)
  let ?r = "\<lambda>f e v. \<lparr>pf_fd = 3 + int f, pf_events = e, pf_revents = v\<rparr>"
  have served: "poll_results sp_fds (el_rules l)
      [?r 1 (if b1 then POLLIN else 0) 0, ?r 0 POLLIN POLLIN, ?r 0 (if b3 then POLLOUT else 0) 0, ?r 1 (if b4 then POLLOUT else 0) 0] s
    = Inr (?s, el_rules l)"
    using cb count fds by (simp add: assms(9) sponge_rules_def run_callback_def Rule_service_count_def Let_def POLLIN_def POLLERR_def POLLNVAL_def POLLHUP_def)
  have poll: "sp_poll byte_os (map (\<lambda>p. (pf_fd p, pf_events p))
      [?p 1 (if b1 then POLLIN else 0), ?p 0 POLLIN, ?p 0 (if b3 then POLLOUT else 0), ?p 1 (if b4 then POLLOUT else 0)]) ms s
    = ((1, 0, [0, POLLIN, 0, 0]), s)"
    using s by (simp add: sp_poll_def byte_os_def assms(1) Let_def POLLIN_def POLLOUT_def)
  have sys: "SystemCall ''poll'' 1 0 0 = Inr 1" by (simp add: SystemCall_def to_int_id)
  show ?thesis
    by (rule that [of l c'])
      (simp add: EventLoop_wait_next_event_def polled poll [simplified] served [simplified] sys Let_def)
qed

definition byte_socket :: "'a \<Rightarrow> ('a, bool) TCPSpongeSocket" where
  "byte_socket a = \<lparr>sp_world = byte_world, sp_self = 2, sp_thread_data = 0, sp_datagram_adapter = a, sp_tcp = None,
     sp_inbound_shutdown = False, sp_outbound_shutdown = False, sp_fully_acked = False\<rparr>"

definition byte_config :: FdAdapterConfig where
  "byte_config = \<lparr>fc_source = ipv4_Address 1 80, fc_destination = ipv4_Address 2 90, fc_loss_rate_dn = 0, fc_loss_rate_up = 0\<rparr>"

lemma byte_start: "da_fd ad a = 1 \<Longrightarrow> sponge_start byte_got byte_put (byte_wire inc out) ad 3 (byte_socket a)"
  by (simp add: sponge_start_def sponge_fds_def byte_socket_def byte_world_def byte_got_def byte_put_def byte_wire_def FileDescriptor_fd_num_def)

lemma byte_destination: "outcome (\<lambda>_. False) (\<lambda>_. True) (Address_to_string quad_libc (fc_destination byte_config))"
  by (simp add: Address_to_string_def byte_config_def Address_ip_port_numeric [OF numeric_quad_libc])

lemma byte_cap: "unat (cf_recv_capacity sample_cfg) < 2 ^ 62"
  by (simp add: sample_cfg_def TCPConfig_default_def TCPConfig_DEFAULT_CAPACITY_def)

lemma byte_good: "conn_good [] sample_conn" "conn_good [] sample_syn_sent"
  using conn_run_inv [OF sample_begins sample_cap] conn_run_inv [OF sample_syn_sent_run sample_cap] by simp_all

lemmas sample_defs = sample_syn_sent_def sample_conn_def sample_cfg_def TCPConfig_default_def TCPConfig_DEFAULT_CAPACITY_def
  TCPConnection_new_def TCPSender_new_def ByteStream_new_def TCPReceiver_new_def StreamReassembler_new_def
  TCPConnection_active_def TCPConnection_remaining_outbound_capacity_def ByteStream_remaining_capacity_def ByteStream_buffer_size_def
  TCPConnection_state_def TCPState_eq_def TCPState_of_def TCPState_default_def receiver_state_summary_def sender_state_summary_def
  TCPReceiver_stream_out_def StreamReassembler_stream_out_def TCPReceiver_ackno_def TCPReceiver_LISTEN_def

lemma sample_listens:
  "TCPConnection_active sample_conn" "\<not> out_ended sample_conn" "TCPConnection_remaining_outbound_capacity sample_conn > 0"
  "TCPState_eq (TCPConnection_state sample_conn) (TCPState_of_State State_LISTEN)"
  by (simp_all add: sample_defs)

lemma sample_connects:
  "TCPConnection_active sample_syn_sent" "\<not> out_ended sample_syn_sent" "TCPConnection_remaining_outbound_capacity sample_syn_sent > 0"
  "TCPState_eq (TCPConnection_state sample_syn_sent) (TCPState_of_State State_SYN_SENT)"
  by (simp_all add: sample_defs)

text \<open>A loop that is aborted after its first round.\<close>

lemma byte_loop:
  assumes "sp_world s = byte_world" and "condition s = Inr True"
    and "EventLoop_wait_next_event sp_fds (sp_poll byte_os) l TCP_TICK_MS s = Inr (Success, l', s')"
  shows "TCPSpongeSocket_tcp_loop byte_os ad (\<lambda>_. True) 1 condition l s = Some (Inr (l', s'))"
proof -
  have "sp_timestamp byte_os s = (0, s)"
    by (simp add: sp_timestamp_def byte_os_def no_os_def Let_def flip: assms(1))
  then show ?thesis using assms(2,3) by (simp add: TCPSpongeSocket_tcp_loop_def)
qed

lemma byte_initialize:
  "TCPSpongeSocket_initialize_TCP byte_os lc ad sample_cfg (byte_socket a) l
   = (TCPSpongeSocket_rules byte_os lc ad ((byte_socket a)\<lparr>sp_tcp := Some sample_conn\<rparr>) l, (byte_socket a)\<lparr>sp_tcp := Some sample_conn\<rparr>)"
  by (simp add: TCPSpongeSocket_initialize_TCP_def byte_os_def no_os_def byte_socket_def sample_conn_def Let_def)

section \<open>Properties\<close>

text \<open>
  C2: A \<^verbatim>\<open>TCPSpongeSocket\<close> over a TUN device, lossy or not, on a kernel that keeps to the documented behaviour of
  its calls on the socket pair and on the device.  Whenever \<^verbatim>\<open>connect\<close> returns, the connection has been given as many bytes as were
  read from the socket pair and has delivered as many as were written to it.  At that time, and again whenever the function of the
  thread, started from there, returns: if the packets that the device has handed over carry only segments of one stream \<open>S\<close> of the peer, and
  bare ones, then the bytes written to the socket pair are a prefix of \<open>S\<close>; and every packet that was sent carries a bare
  segment or a segment of the bytes read from the socket pair, at its place in one sequence space.
  Neither of them meets undefined behaviour or an empty \<^verbatim>\<open>optional\<close>, nor does the connection take fewer bytes than it had
  room for: the only exceptions are those of system calls, the resolver and the event loop.
\<close>

theorem connect_carries_streams:
  assumes "kernel_law os td got put" and "tun_line os v" and "getaddrinfo_law lc" and "unat (cf_recv_capacity cfg) < 2 ^ 62"
    and "ad = Tun_adapter os lc \<or> ad = Lossy_adapter os (Tun_adapter os lc)" and "sponge_start got put v ad td s"
    and "TCPSpongeSocket_connect os lc ad abort n cfg c_ad EventLoop_new s = Some r"
  shows "outcome io_exn (\<lambda>(l, s1). served os ad got put v l s1) r"
  using assms(5-7) tun.connect_serves [OF assms(1-4)] lossy_tun.connect_serves [OF assms(1-4)] by blast

theorem connect_carries_streams_witness:
  "\<exists>l s1. TCPSpongeSocket_connect byte_os quad_libc (Tun_adapter byte_os quad_libc) (\<lambda>_. True) 1 sample_cfg byte_config
       EventLoop_new (byte_socket \<lparr>fa_cfg = byte_config, fa_listen = False, ta_tun = 1\<rparr>) = Some (Inr (l, s1))
     \<and> byte_got (wd_kernel (sp_world s1)) = [104] \<and> served byte_os (Tun_adapter byte_os quad_libc) byte_got byte_put (byte_wire tun_incoming tun_outgoing) l s1"
proof -
  let ?ad = "Tun_adapter byte_os quad_libc" and ?a = "\<lparr>fa_cfg = byte_config, fa_listen = False, ta_tun = 1\<rparr>"
  define s where "s = (byte_socket ?a)\<lparr>sp_tcp := Some sample_syn_sent\<rparr>"
  let ?l = "TCPSpongeSocket_rules byte_os quad_libc ?ad ((byte_socket ?a)\<lparr>sp_tcp := Some sample_conn\<rparr>) EventLoop_new"
  let ?cond = "sp_in_state [State_SYN_SENT]"
  let ?s1 = "\<lambda>c. s\<lparr>sp_world := FileDescriptor_register_read 0 (byte_world\<lparr>wd_kernel := True\<rparr>), sp_tcp := Some c\<rparr>"
  have fd: "da_fd ?ad a = ta_tun a" for a by (simp add: Tun_adapter_def)
  have s: "sp_world s = byte_world" "sp_thread_data s = 0" "\<not> sp_outbound_shutdown s" "sp_tcp s = Some sample_syn_sent"
    by (simp_all add: s_def byte_socket_def)
  have rules: "el_rules ?l = sponge_rules byte_os quad_libc ?ad 0 1"
    by (simp add: rules_eq EventLoop_new_def byte_socket_def fd)
  have cond: "?cond s = Inr True" using sample_connects(4) by (simp add: sp_in_state_def sp_arrow_def s(4))
  obtain c l where round: "EventLoop_wait_next_event sp_fds (sp_poll byte_os) ?l TCP_TICK_MS s = Inr (Success, l, ?s1 c)"
    by (rule byte_round [OF s(1-4) byte_good(2) sample_connects(2,1,3) rules])
  have none: "sp_tcp (byte_socket ?a) = None" "sp_datagram_adapter (byte_socket ?a) = ?a" by (simp_all add: byte_socket_def)
  have keep: "(byte_socket ?a)\<lparr>sp_tcp := Some sample_conn, sp_datagram_adapter := da_config_mut ?ad byte_config ?a, sp_tcp := Some sample_syn_sent\<rparr> = s"
    by (simp add: s_def byte_socket_def Tun_adapter_def FdAdapterBase_config_mut_def)
  have "connect_start byte_os quad_libc ?ad sample_cfg byte_config EventLoop_new (byte_socket ?a) = Inr (?l, s)"
    using byte_destination keep sample_connect sample_connects(4) none
    by (auto simp: connect_start_def byte_initialize sp_arrow_def outcome_def Let_def split: sum.splits)
  then have connect: "TCPSpongeSocket_connect byte_os quad_libc ?ad (\<lambda>_. True) 1 sample_cfg byte_config EventLoop_new (byte_socket ?a)
      = Some (Inr (l, ?s1 c))"
    using byte_loop [where condition = ?cond, OF s(1) cond round] by (simp add: TCPSpongeSocket_connect_def)
  have "sponge_start byte_got byte_put (byte_wire tun_incoming tun_outgoing) ?ad 3 (byte_socket ?a)" by (rule byte_start) (simp add: fd)
  from connect_carries_streams [OF byte_kernel_law byte_lines(1) quad_getaddrinfo_law byte_cap disjI1 [OF refl] this connect]
  show ?thesis using connect by (auto simp: byte_got_def)
qed

text \<open>
  C18: The same for \<^verbatim>\<open>listen_and_accept\<close> on a \<^verbatim>\<open>TCPSpongeSocket\<close> over a UDP socket, lossy or not, that keeps to the documented
  behaviour of \<^verbatim>\<open>recvfrom\<close> and \<^verbatim>\<open>sendmsg\<close>: when it returns, and whenever the function of the thread returns after it, what was
  written to the socket pair is a prefix of the stream whose segments the received datagrams carry, and every datagram that was sent carries a
  bare segment or one of the bytes read from the socket pair.
\<close>

theorem listen_carries_streams:
  assumes "kernel_law os td got put" and "udp_line os v" and "getaddrinfo_law lc" and "unat (cf_recv_capacity cfg) < 2 ^ 62"
    and "ad = UDP_adapter os lc \<or> ad = Lossy_adapter os (UDP_adapter os lc)" and "sponge_start got put v ad td s"
    and "TCPSpongeSocket_listen_and_accept os lc ad abort n cfg c_ad EventLoop_new s = Some r"
  shows "outcome io_exn (\<lambda>(l, s1). served os ad got put v l s1) r"
  using assms(5-7) udp.listen_serves [OF assms(1-4)] lossy_udp.listen_serves [OF assms(1-4)] by blast

theorem listen_carries_streams_witness:
  "\<exists>l s1. TCPSpongeSocket_listen_and_accept byte_os quad_libc (UDP_adapter byte_os quad_libc) (\<lambda>_. True) 1 sample_cfg byte_config
       EventLoop_new (byte_socket \<lparr>fa_cfg = byte_config, fa_listen = False, ua_sock = 1\<rparr>) = Some (Inr (l, s1))
     \<and> byte_got (wd_kernel (sp_world s1)) = [104] \<and> served byte_os (UDP_adapter byte_os quad_libc) byte_got byte_put (byte_wire udp_incoming udp_outgoing) l s1"
proof -
  let ?ad = "UDP_adapter byte_os quad_libc" and ?a = "\<lparr>fa_cfg = byte_config, fa_listen = False, ua_sock = 1\<rparr>"
  define s where "s = (byte_socket ?a)\<lparr>sp_tcp := Some sample_conn, sp_datagram_adapter := ?a\<lparr>fa_listen := True\<rparr>\<rparr>"
  let ?l = "TCPSpongeSocket_rules byte_os quad_libc ?ad ((byte_socket ?a)\<lparr>sp_tcp := Some sample_conn\<rparr>) EventLoop_new"
  let ?cond = "sp_in_state [State_LISTEN, State_SYN_RCVD, State_SYN_SENT]"
  let ?s1 = "\<lambda>c. s\<lparr>sp_world := FileDescriptor_register_read 0 (byte_world\<lparr>wd_kernel := True\<rparr>), sp_tcp := Some c\<rparr>"
  have fd: "da_fd ?ad a = ua_sock a" for a by (simp add: UDP_adapter_def)
  have s: "sp_world s = byte_world" "sp_thread_data s = 0" "\<not> sp_outbound_shutdown s" "sp_tcp s = Some sample_conn"
    "fc_destination (da_config ?ad (sp_datagram_adapter s)) = fc_destination byte_config"
    by (simp_all add: s_def byte_socket_def UDP_adapter_def FdAdapterBase_config_def)
  have rules: "el_rules ?l = sponge_rules byte_os quad_libc ?ad 0 1"
    by (simp add: rules_eq EventLoop_new_def byte_socket_def fd)
  have cond: "?cond s = Inr True" using sample_listens(4) by (simp add: sp_in_state_def sp_arrow_def s(4))
  obtain c l where round: "EventLoop_wait_next_event sp_fds (sp_poll byte_os) ?l TCP_TICK_MS s = Inr (Success, l, ?s1 c)"
    by (rule byte_round [OF s(1-4) byte_good(1) sample_listens(2,1,3) rules])
  have "TCPSpongeSocket_listen_and_accept byte_os quad_libc ?ad (\<lambda>_. True) 1 sample_cfg byte_config EventLoop_new (byte_socket ?a)
      = (case TCPSpongeSocket_tcp_loop byte_os ?ad (\<lambda>_. True) 1 ?cond ?l s of
           Some (Inr (l, s)) \<Rightarrow> Some (bindE (sp_destination_string quad_libc ?ad s) (\<lambda>_. Inr (l, s))) | r \<Rightarrow> r)"
    by (simp add: TCPSpongeSocket_listen_and_accept_def byte_initialize) (simp add: s_def byte_socket_def UDP_adapter_def
      FdAdapterBase_set_listening_def FdAdapterBase_config_mut_def)
  also have "\<dots> = Some (Inr (l, ?s1 c))"
    using byte_loop [where condition = ?cond, OF s(1) cond round] byte_destination s(5) by (auto simp: sp_destination_string_def outcome_def split: sum.splits)
  finally have listen: "TCPSpongeSocket_listen_and_accept byte_os quad_libc ?ad (\<lambda>_. True) 1 sample_cfg byte_config EventLoop_new (byte_socket ?a)
      = Some (Inr (l, ?s1 c))" .
  have "sponge_start byte_got byte_put (byte_wire udp_incoming udp_outgoing) ?ad 3 (byte_socket ?a)" by (rule byte_start) (simp add: fd)
  from listen_carries_streams [OF byte_kernel_law byte_lines(2) quad_getaddrinfo_law byte_cap disjI1 [OF refl] this listen]
  show ?thesis using listen by (auto simp: byte_got_def)
qed

end
