(* ===== verification/Stream_Copy.thy ===== *)
theory Stream_Copy
  imports Adapter_Laws Byte_Stream
begin

text \<open>
  \<^verbatim>\<open>apps/bidirectional_stream_copy.cc\<close>: the loop that copies standard input to a socket and the socket to standard
  output through two byte streams, and that it neither loses, repeats nor reorders a byte.
\<close>

section \<open>State\<close>

text \<open>The locals of \<^verbatim>\<open>bidirectional_stream_copy\<close> that its rules capture by reference.\<close>

record 'k StreamCopy =
  sc_world :: "'k world"
  sc_socket :: FileDescriptor
  sc_input :: FileDescriptor
  sc_output :: FileDescriptor
  sc_outbound :: ByteStream
  sc_inbound :: ByteStream
  sc_outbound_shutdown :: bool
  sc_inbound_shutdown :: bool

definition max_copy_length :: u64 where
  "max_copy_length = 65536"

definition copy_buffer_size :: u64 where
  "copy_buffer_size = 1048576"

section \<open>The four rules\<close>

text \<open>Rule 1: read from stdin into outbound byte stream.\<close>

definition copy1_callback :: "'k os \<Rightarrow> 'k StreamCopy \<Rightarrow> 'k StreamCopy result" where
  "copy1_callback os s =
     bindE (FileDescriptor_read os (sc_input s) (ByteStream_remaining_capacity (sc_outbound s)) (sc_world s)) (\<lambda>(data, w).
       let outbound = fst (ByteStream_write (sc_outbound s) data) in
       Inr (s\<lparr>sc_world := w,
         sc_outbound := (if FileDescriptor_eof w (sc_input s) then ByteStream_end_input outbound else outbound)\<rparr>))"

definition copy1_interest :: "'k StreamCopy \<Rightarrow> bool result" where
  "copy1_interest s = Inr (\<not> bs_error (sc_outbound s) \<and> ByteStream_remaining_capacity (sc_outbound s) > 0 \<and> \<not> bs_error (sc_inbound s))"

definition copy1_cancel :: "'k StreamCopy \<Rightarrow> 'k StreamCopy result" where
  "copy1_cancel s = Inr (s\<lparr>sc_outbound := ByteStream_end_input (sc_outbound s)\<rparr>)"

text \<open>Rule 2: read from outbound byte stream into socket.\<close>

definition copy2_callback :: "'k os \<Rightarrow> 'k StreamCopy \<Rightarrow> 'k StreamCopy result" where
  "copy2_callback os s =
     (let bytes_to_write = min max_copy_length (ByteStream_buffer_size (sc_outbound s)) in
      bindE (FileDescriptor_write os (sc_socket s)
        (BufferViewList_of_string (ByteStream_peek_output (sc_outbound s) bytes_to_write)) False (sc_world s)) (\<lambda>(bytes_written, w).
      bindE (ByteStream_pop_output (sc_outbound s) bytes_written) (\<lambda>outbound.
      let s = s\<lparr>sc_world := w, sc_outbound := outbound\<rparr> in
      if ByteStream_eof outbound
      then bindE (Socket_shutdown os (sc_socket s) SHUT_WR w) (\<lambda>w. Inr (s\<lparr>sc_world := w, sc_outbound_shutdown := True\<rparr>))
      else Inr s)))"

definition copy2_interest :: "'k StreamCopy \<Rightarrow> bool result" where
  "copy2_interest s = Inr (\<not> ByteStream_buffer_empty (sc_outbound s) \<or> ByteStream_eof (sc_outbound s) \<and> \<not> sc_outbound_shutdown s)"

definition copy2_cancel :: "'k StreamCopy \<Rightarrow> 'k StreamCopy result" where
  "copy2_cancel s = Inr (s\<lparr>sc_outbound := ByteStream_set_error (sc_outbound s)\<rparr>)"

text \<open>Rule 3: read from socket into inbound byte stream.\<close>

definition copy3_callback :: "'k os \<Rightarrow> 'k StreamCopy \<Rightarrow> 'k StreamCopy result" where
  "copy3_callback os s =
     bindE (FileDescriptor_read os (sc_socket s) (ByteStream_remaining_capacity (sc_inbound s)) (sc_world s)) (\<lambda>(data, w).
       let inbound = fst (ByteStream_write (sc_inbound s) data) in
       Inr (s\<lparr>sc_world := w,
         sc_inbound := (if FileDescriptor_eof w (sc_socket s) then ByteStream_end_input inbound else inbound)\<rparr>))"

definition copy3_interest :: "'k StreamCopy \<Rightarrow> bool result" where
  "copy3_interest s = Inr (\<not> bs_error (sc_inbound s) \<and> ByteStream_remaining_capacity (sc_inbound s) > 0 \<and> \<not> bs_error (sc_outbound s))"

definition copy3_cancel :: "'k StreamCopy \<Rightarrow> 'k StreamCopy result" where
  "copy3_cancel s = Inr (s\<lparr>sc_inbound := ByteStream_end_input (sc_inbound s)\<rparr>)"

text \<open>Rule 4: read from inbound byte stream into stdout.\<close>

definition copy4_callback :: "'k os \<Rightarrow> 'k StreamCopy \<Rightarrow> 'k StreamCopy result" where
  "copy4_callback os s =
     (let bytes_to_write = min max_copy_length (ByteStream_buffer_size (sc_inbound s)) in
      bindE (FileDescriptor_write os (sc_output s)
        (BufferViewList_of_string (ByteStream_peek_output (sc_inbound s) bytes_to_write)) False (sc_world s)) (\<lambda>(bytes_written, w).
      bindE (ByteStream_pop_output (sc_inbound s) bytes_written) (\<lambda>inbound.
      let s = s\<lparr>sc_world := w, sc_inbound := inbound\<rparr> in
      if ByteStream_eof inbound
      then bindE (FileDescriptor_close os (sc_output s) w) (\<lambda>w. Inr (s\<lparr>sc_world := w, sc_inbound_shutdown := True\<rparr>))
      else Inr s)))"

definition copy4_interest :: "'k StreamCopy \<Rightarrow> bool result" where
  "copy4_interest s = Inr (\<not> ByteStream_buffer_empty (sc_inbound s) \<or> ByteStream_eof (sc_inbound s) \<and> \<not> sc_inbound_shutdown s)"

definition copy4_cancel :: "'k StreamCopy \<Rightarrow> 'k StreamCopy result" where
  "copy4_cancel s = Inr (s\<lparr>sc_inbound := ByteStream_set_error (sc_inbound s)\<rparr>)"

definition copy_rules :: "'k os \<Rightarrow> 'k StreamCopy \<Rightarrow> 'k StreamCopy EventLoop" where
  "copy_rules os s =
     (let l = EventLoop_new;
          l = EventLoop_add_rule l (sc_input s) Direction_In (copy1_callback os) copy1_interest copy1_cancel;
          l = EventLoop_add_rule l (sc_socket s) Direction_Out (copy2_callback os) copy2_interest copy2_cancel;
          l = EventLoop_add_rule l (sc_socket s) Direction_In (copy3_callback os) copy3_interest copy3_cancel
      in EventLoop_add_rule l (sc_output s) Direction_Out (copy4_callback os) copy4_interest copy4_cancel)"

section \<open>The function\<close>

definition sc_fds :: "'k StreamCopy \<Rightarrow> FileDescriptor \<Rightarrow> FDWrapper" where
  "sc_fds s = wd_fds (sc_world s)"

definition sc_poll :: "'k os \<Rightarrow> (int \<times> u16) list \<Rightarrow> int \<Rightarrow> 'k StreamCopy \<Rightarrow> (int \<times> int \<times> u16 list) \<times> 'k StreamCopy" where
  "sc_poll os ps timeout s =
     (let (answer, k) = os_poll os ps timeout (wd_kernel (sc_world s)) in (answer, s\<lparr>sc_world := (sc_world s)\<lparr>wd_kernel := k\<rparr>\<rparr>))"

text \<open>The loop may wait for ever: \<open>n\<close> bounds its rounds, and the result is \<open>None\<close> if it has not ended by then.\<close>

fun copy_rounds :: "'k os \<Rightarrow> nat \<Rightarrow> 'k StreamCopy EventLoop \<Rightarrow> 'k StreamCopy \<Rightarrow> 'k StreamCopy result option" where
  "copy_rounds os 0 l s = None"
| "copy_rounds os (Suc n) l s =
     (case EventLoop_wait_next_event sc_fds (sc_poll os) l (- 1) s of
        Inl e \<Rightarrow> Some (Inl e)
      | Inr (ret, l, s) \<Rightarrow> if ret = Exit then Some (Inr s) else copy_rounds os n l s)"

text \<open>
  The descriptors of standard input and output are made under the unused names \<open>input\<close> and \<open>output\<close>.  The result
  is the state at the end of the loop, before the destructors of the locals run.
\<close>

definition copy_start :: "'k os \<Rightarrow> FileDescriptor \<Rightarrow> FileDescriptor \<Rightarrow> FileDescriptor \<Rightarrow> 'k world \<Rightarrow> 'k StreamCopy result" where
  "copy_start os socket input output w =
     bindE (FileDescriptor_new input 0 w) (\<lambda>w.
     bindE (FileDescriptor_new output 1 w) (\<lambda>w.
     bindE (FileDescriptor_set_blocking os socket False w) (\<lambda>w.
     bindE (FileDescriptor_set_blocking os input False w) (\<lambda>w.
     bindE (FileDescriptor_set_blocking os output False w) (\<lambda>w.
       Inr \<lparr>sc_world = w, sc_socket = socket, sc_input = input, sc_output = output, sc_outbound = ByteStream_new copy_buffer_size,
            sc_inbound = ByteStream_new copy_buffer_size, sc_outbound_shutdown = False, sc_inbound_shutdown = False\<rparr>)))))"

definition bidirectional_stream_copy :: "'k os \<Rightarrow> nat \<Rightarrow> FileDescriptor \<Rightarrow> FileDescriptor \<Rightarrow> FileDescriptor \<Rightarrow> 'k world
    \<Rightarrow> 'k StreamCopy result option" where
  "bidirectional_stream_copy os n socket input output w =
     (case copy_start os socket input output w of
        Inl e \<Rightarrow> Some (Inl e)
      | Inr s \<Rightarrow> copy_rounds os n (copy_rules os s) s)"

section \<open>What the kernel promises\<close>

datatype channel = Stdin | To_socket | From_socket | Stdout

text \<open>
  \<open>hist k\<close> is what has been read from standard input and from the socket, and written to the socket and to standard
  output.  A call on one of them extends its own history as \<^verbatim>\<open>read(2)\<close> and \<^verbatim>\<open>writev(2)\<close> say; other calls leave them alone.
\<close>

definition reads_law :: "'k os \<Rightarrow> ('k \<Rightarrow> channel \<Rightarrow> bytes) \<Rightarrow> int \<Rightarrow> channel \<Rightarrow> bool" where
  "reads_law os hist fd ch \<longleftrightarrow> read_law os fd \<and> (\<forall>n k ret errno data k'. os_read os fd n k = ((ret, errno, data), k') \<longrightarrow>
     hist k' = (hist k)(ch := hist k ch @ (if ret < 0 then [] else data)))"

definition writes_law :: "'k os \<Rightarrow> ('k \<Rightarrow> channel \<Rightarrow> bytes) \<Rightarrow> int \<Rightarrow> channel \<Rightarrow> bool" where
  "writes_law os hist fd ch \<longleftrightarrow> writev_law os fd (\<lambda>k. hist k ch)
     \<and> (\<forall>iov k c. c \<noteq> ch \<longrightarrow> hist (snd (os_writev os fd iov k)) c = hist k c)"

definition copy_law :: "'k os \<Rightarrow> ('k \<Rightarrow> channel \<Rightarrow> bytes) \<Rightarrow> int \<Rightarrow> bool" where
  "copy_law os hist sock \<longleftrightarrow> reads_law os hist 0 Stdin \<and> reads_law os hist sock From_socket
     \<and> writes_law os hist sock To_socket \<and> writes_law os hist 1 Stdout
     \<and> (\<forall>ps t k. hist (snd (os_poll os ps t k)) = hist k) \<and> (\<forall>fd how k. hist (snd (os_shutdown os fd how k)) = hist k)
     \<and> (\<forall>fd k. hist (snd (os_close os fd k)) = hist k) \<and> (\<forall>fd cmd arg k. hist (snd (os_fcntl os fd cmd arg k)) = hist k)"

lemma read_channel:
  assumes "reads_law os hist (FileDescriptor_fd_num w f) ch"
  shows "outcome io_exn (\<lambda>(data, w'). length data \<le> unat limit \<and> hist (wd_kernel w') = (hist (wd_kernel w))(ch := hist (wd_kernel w) ch @ data)
     \<and> (\<forall>g. FileDescriptor_fd_num w' g = FileDescriptor_fd_num w g)) (FileDescriptor_read os f limit w)"
proof -
  have "read_law os (FileDescriptor_fd_num w f)" using assms by (simp add: reads_law_def)
  then show ?thesis
  proof (cases rule: read_spec [where limit = limit])
    case (2 data errno k)
    from assms 2(2) have "hist k = (hist (wd_kernel w))(ch := hist (wd_kernel w) ch @ data)" unfolding reads_law_def by fastforce
    then show ?thesis using 2(1,3) by (auto simp: FileDescriptor_fd_num_def set_fd_def)
  qed simp
qed

lemma write_channel:
  assumes "writes_law os hist (FileDescriptor_fd_num w f) ch" and "length data < 2 ^ 63"
  shows "outcome io_exn (\<lambda>(n, w'). unat n \<le> length data
     \<and> hist (wd_kernel w') = (hist (wd_kernel w))(ch := hist (wd_kernel w) ch @ take (unat n) data)
     \<and> (\<forall>g. FileDescriptor_fd_num w' g = FileDescriptor_fd_num w g)) (FileDescriptor_write os f (BufferViewList_of_string data) False w)"
proof -
  have view: "bv_views (BufferViewList_of_string data) = [data]" by (simp add: BufferViewList_of_string_def)
  have law: "writev_law os (FileDescriptor_fd_num w f) (\<lambda>k. hist k ch)" using assms(1) by (simp add: writes_law_def)
  have spec: "case FileDescriptor_write os f (BufferViewList_of_string data) False w of
      Inr (n, w') \<Rightarrow> wrote (\<lambda>k. hist k ch) f data (unat n) w w'
    | Inl e \<Rightarrow> (\<exists>errno. e = Unix_error ''writev'' errno) \<or> e = Runtime_error ''write returned 0 given non-empty input buffer''"
    using write_spec [OF law, of "BufferViewList_of_string data" False] assms(2)
    by (simp add: view view_wf_def two64_def split: sum.splits prod.splits)
  have others: "hist (wd_kernel w') c = hist (wd_kernel w) c"
    if "FileDescriptor_write os f (BufferViewList_of_string data) False w = Inr (n, w')" and "c \<noteq> ch" for n w' c
    using one_writev [OF that(1)] assms(1) that(2) by (simp add: writes_law_def)
  show ?thesis
  proof (cases "FileDescriptor_write os f (BufferViewList_of_string data) False w")
    case (Inr x)
    obtain n w' where x: "x = (n, w')" by (rule prod.exhaust)
    then have "wrote (\<lambda>k. hist k ch) f data (unat n) w w'" using spec Inr by simp
    then show ?thesis using others [of n w'] Inr x by (auto simp: wrote_def FileDescriptor_fd_num_def)
  qed (use spec in auto)
qed

section \<open>The invariant\<close>

definition copy_inv :: "('k \<Rightarrow> channel \<Rightarrow> bytes) \<Rightarrow> int \<Rightarrow> 'k StreamCopy \<Rightarrow> bool" where
  "copy_inv hist sock s \<longleftrightarrow> FileDescriptor_fd_num (sc_world s) (sc_input s) = 0 \<and> FileDescriptor_fd_num (sc_world s) (sc_output s) = 1
     \<and> FileDescriptor_fd_num (sc_world s) (sc_socket s) = sock \<and> ByteStream_inv (sc_outbound s) \<and> ByteStream_inv (sc_inbound s)
     \<and> hist (wd_kernel (sc_world s)) Stdin = hist (wd_kernel (sc_world s)) To_socket @ ByteStream_contents (sc_outbound s)
     \<and> hist (wd_kernel (sc_world s)) From_socket = hist (wd_kernel (sc_world s)) Stdout @ ByteStream_contents (sc_inbound s)"

text \<open>What the two streams do to a history.\<close>

lemma stream_takes_all:
  assumes "ByteStream_inv st" and "length data \<le> unat (ByteStream_remaining_capacity st)"
  shows "ByteStream_inv (fst (ByteStream_write st data))" "ByteStream_contents (fst (ByteStream_write st data)) = ByteStream_contents st @ data"
proof -
  have len: "length data < two64" using assms(2) unat_lt64 [of "ByteStream_remaining_capacity st"] by linarith
  obtain st' n where w: "ByteStream_write st data = (st', n)" by fastforce
  have "unat n = length data" using ByteStream_write_law(2) [OF assms(1) len w] assms by (simp add: unat_remaining_capacity)
  then show "ByteStream_inv (fst (ByteStream_write st data))" "ByteStream_contents (fst (ByteStream_write st data)) = ByteStream_contents st @ data"
    using ByteStream_write_law(1,3) [OF assms(1) len w] w by simp_all
qed

lemma stream_gives:
  assumes "ByteStream_inv st" and "unat n \<le> length (ByteStream_peek_output st m)"
  obtains st' where "ByteStream_pop_output st n = Inr st'" "ByteStream_inv st'"
    "take (unat n) (ByteStream_peek_output st m) @ ByteStream_contents st' = ByteStream_contents st"
proof -
  obtain st' where "ByteStream_pop_output st n = Inr st'" "ByteStream_inv st'" "ByteStream_contents st' = drop (unat n) (ByteStream_contents st)"
    by (rule ByteStream_pop_law [OF assms(1)])
  moreover have "take (unat n) (ByteStream_peek_output st m) = take (unat n) (ByteStream_contents st)"
    using assms by (simp add: ByteStream_peek_law)
  ultimately show ?thesis using that by simp
qed

lemma copy_in:
  assumes "reads_law os hist (FileDescriptor_fd_num w f) ch" and "ByteStream_inv st"
  shows "outcome io_exn (\<lambda>(data, w'). hist (wd_kernel w') = (hist (wd_kernel w))(ch := hist (wd_kernel w) ch @ data)
     \<and> ByteStream_inv (fst (ByteStream_write st data)) \<and> ByteStream_contents (fst (ByteStream_write st data)) = ByteStream_contents st @ data
     \<and> (\<forall>g. FileDescriptor_fd_num w' g = FileDescriptor_fd_num w g)) (FileDescriptor_read os f (ByteStream_remaining_capacity st) w)"
  by (rule outcome_mono [OF read_channel [OF assms(1)]]) (use stream_takes_all [OF assms(2)] in auto)

lemma copy_out:
  assumes "writes_law os hist (FileDescriptor_fd_num w f) ch" and "ByteStream_inv st"
    and "\<And>w' st'. hist (wd_kernel w') ch @ ByteStream_contents st' = hist (wd_kernel w) ch @ ByteStream_contents st \<Longrightarrow>
      \<forall>c. c \<noteq> ch \<longrightarrow> hist (wd_kernel w') c = hist (wd_kernel w) c \<Longrightarrow> \<forall>g. FileDescriptor_fd_num w' g = FileDescriptor_fd_num w g \<Longrightarrow>
      ByteStream_inv st' \<Longrightarrow> outcome io_exn Q (h w' st')"
  shows "outcome io_exn Q (bindE (FileDescriptor_write os f (BufferViewList_of_string
      (ByteStream_peek_output st (min max_copy_length (ByteStream_buffer_size st)))) False w) (\<lambda>(n, w').
    bindE (ByteStream_pop_output st n) (h w')))"
proof -
  let ?data = "ByteStream_peek_output st (min max_copy_length (ByteStream_buffer_size st))"
  have len: "length ?data < 2 ^ 63" unfolding max_copy_length_def by (rule peek_length [OF assms(2)])
  show ?thesis
  proof (rule outcome_bind2 [OF write_channel [OF assms(1) len]])
    fix n :: u64 and w'
    assume post: "unat n \<le> length ?data \<and> hist (wd_kernel w') = (hist (wd_kernel w))(ch := hist (wd_kernel w) ch @ take (unat n) ?data)
      \<and> (\<forall>g. FileDescriptor_fd_num w' g = FileDescriptor_fd_num w g)"
    then obtain st' where "ByteStream_pop_output st n = Inr st'" "ByteStream_inv st'"
      "take (unat n) ?data @ ByteStream_contents st' = ByteStream_contents st"
      using stream_gives [OF assms(2)] by blast
    then show "outcome io_exn Q (bindE (ByteStream_pop_output st n) (h w'))" using post by (auto intro: assms(3))
  qed
qed

lemma copy_laws:
  assumes "copy_law os hist sock" and "copy_inv hist sock s"
  shows "reads_law os hist (FileDescriptor_fd_num (sc_world s) (sc_input s)) Stdin"
    "reads_law os hist (FileDescriptor_fd_num (sc_world s) (sc_socket s)) From_socket"
    "writes_law os hist (FileDescriptor_fd_num (sc_world s) (sc_socket s)) To_socket"
    "writes_law os hist (FileDescriptor_fd_num (sc_world s) (sc_output s)) Stdout"
    "ByteStream_inv (sc_outbound s)" "ByteStream_inv (sc_inbound s)"
  using assms by (simp_all add: copy_law_def copy_inv_def)

lemma end_error_inv [simp]:
  "ByteStream_inv (ByteStream_end_input st) = ByteStream_inv st" "ByteStream_contents (ByteStream_end_input st) = ByteStream_contents st"
  "ByteStream_inv (ByteStream_set_error st) = ByteStream_inv st" "ByteStream_contents (ByteStream_set_error st) = ByteStream_contents st"
  by (simp_all add: ByteStream_end_input_def ByteStream_set_error_def ByteStream_inv_def ByteStream_contents_def ByteStream_buffer_size_def)

lemma copy1_ok:
  assumes "copy_law os hist sock" and "copy_inv hist sock s"
  shows "outcome io_exn (copy_inv hist sock) (copy1_callback os s)"
  unfolding copy1_callback_def Let_def
  by (rule outcome_bind2 [OF copy_in [OF copy_laws(1,5) [OF assms]]]) (use assms(2) in \<open>auto simp: copy_inv_def\<close>)

lemma copy3_ok:
  assumes "copy_law os hist sock" and "copy_inv hist sock s"
  shows "outcome io_exn (copy_inv hist sock) (copy3_callback os s)"
  unfolding copy3_callback_def Let_def
  by (rule outcome_bind2 [OF copy_in [OF copy_laws(2,6) [OF assms]]]) (use assms(2) in \<open>auto simp: copy_inv_def\<close>)

lemma shutdown_hist:
  assumes "copy_law os hist sock"
  shows "outcome io_exn (\<lambda>w'. hist (wd_kernel w') = hist (wd_kernel w) \<and> (\<forall>g. FileDescriptor_fd_num w' g = FileDescriptor_fd_num w g))
    (Socket_shutdown os f how w)"
proof -
  obtain ret errno k where call: "os_shutdown os (FileDescriptor_fd_num w f) how (wd_kernel w) = ((ret, errno), k)" by (metis surj_pair)
  have "hist (snd (os_shutdown os (FileDescriptor_fd_num w f) how (wd_kernel w))) = hist (wd_kernel w)"
    using assms by (simp add: copy_law_def)
  then show ?thesis
    unfolding Socket_shutdown_def simple_call_def call Let_def prod.case by (auto simp: SystemCall_def FileDescriptor_fd_num_def)
qed

lemma close_hist:
  assumes "copy_law os hist sock"
  shows "outcome io_exn (\<lambda>w'. hist (wd_kernel w') = hist (wd_kernel w) \<and> (\<forall>g. FileDescriptor_fd_num w' g = FileDescriptor_fd_num w g))
    (FileDescriptor_close os f w)"
proof -
  obtain ret errno k where call: "os_close os (FileDescriptor_fd_num w f) (wd_kernel w) = ((ret, errno), k)" by (metis surj_pair)
  have "hist (snd (os_close os (FileDescriptor_fd_num w f) (wd_kernel w))) = hist (wd_kernel w)"
    using assms by (simp add: copy_law_def)
  then show ?thesis
    unfolding FileDescriptor_close_def call Let_def prod.case by (auto simp: SystemCall_def FileDescriptor_fd_num_def set_fd_def)
qed

lemma copy2_ok:
  assumes "copy_law os hist sock" and "copy_inv hist sock s"
  shows "outcome io_exn (copy_inv hist sock) (copy2_callback os s)"
  unfolding copy2_callback_def Let_def
proof (rule copy_out [OF copy_laws(3,5) [OF assms]], goal_cases)
  case (1 w st)
  then have inv: "copy_inv hist sock (s\<lparr>sc_world := w, sc_outbound := st\<rparr>)" using assms(2) by (simp add: copy_inv_def)
  then show ?case
    by (auto intro!: outcome_bind [OF shutdown_hist [OF assms(1)]]) (auto simp: copy_inv_def)
qed

lemma copy4_ok:
  assumes "copy_law os hist sock" and "copy_inv hist sock s"
  shows "outcome io_exn (copy_inv hist sock) (copy4_callback os s)"
  unfolding copy4_callback_def Let_def
proof (rule copy_out [OF copy_laws(4,6) [OF assms]], goal_cases)
  case (1 w st)
  then have inv: "copy_inv hist sock (s\<lparr>sc_world := w, sc_inbound := st\<rparr>)" using assms(2) by (simp add: copy_inv_def)
  then show ?case
    by (auto intro!: outcome_bind [OF close_hist [OF assms(1)]]) (auto simp: copy_inv_def)
qed

section \<open>The loop\<close>

text \<open>The rules are those of the function, whatever the descriptors; nothing has to be remembered between interest and callback.\<close>

definition copy_rule_set :: "'k os \<Rightarrow> 'k StreamCopy Rule set" where
  "copy_rule_set os = {r. (ru_callback r, ru_interest r, ru_cancel r) \<in>
     {(copy1_callback os, copy1_interest, copy1_cancel), (copy2_callback os, copy2_interest, copy2_cancel),
      (copy3_callback os, copy3_interest, copy3_cancel), (copy4_callback os, copy4_interest, copy4_cancel)}}"

interpretation copying: loop_client sc_fds "sc_poll os" "copy_rule_set os" "\<lambda>s. copy_law os hist sock \<and> copy_inv hist sock s" "\<lambda>_ _. True" io_exn
  for os :: "'k os" and hist sock
proof (unfold_locales, goal_cases)
  case (1 r s)
  then show ?case by (auto simp: copy_rule_set_def copy1_interest_def copy2_interest_def copy3_interest_def copy4_interest_def)
next
  case (2 r s)
  then have "outcome io_exn (copy_inv hist sock) (ru_callback r s)"
    by (auto simp: copy_rule_set_def copy1_ok copy2_ok copy3_ok copy4_ok)
  then show ?case by (rule outcome_mono) (use 2 in auto)
next
  case (3 r s)
  then show ?case by (auto simp: copy_rule_set_def copy1_cancel_def copy2_cancel_def copy3_cancel_def copy4_cancel_def copy_inv_def)
next
  case (6 s ps t x s')
  then have "hist (snd (os_poll os ps t (wd_kernel (sc_world s)))) = hist (wd_kernel (sc_world s))" by (simp add: copy_law_def)
  with 6 show ?case by (auto simp: sc_poll_def copy_inv_def FileDescriptor_fd_num_def Let_def split: prod.splits)
qed simp_all

lemma copy_rounds_ok:
  assumes "copy_law os hist sock" and "copy_inv hist sock s" and "distinct (el_rules l)" and "set (el_rules l) \<subseteq> copy_rule_set os"
    and "copy_rounds os n l s = Some r"
  shows "outcome io_exn (copy_inv hist sock) r"
  using assms(2-5)
proof (induction n arbitrary: l s)
  case (Suc n)
  note wait = copying.wait_ok [OF Suc.prems(2,3) conjI, OF assms(1) Suc.prems(1), of "- 1"]
  show ?case
  proof (cases "EventLoop_wait_next_event sc_fds (sc_poll os) l (- 1) s")
    case (Inl e)
    then have "io_exn e" using wait by (auto simp: loop_exn_def)
    then show ?thesis using Inl Suc.prems(4) by auto
  next
    case (Inr x)
    obtain ret l' s' where x: "x = (ret, l', s')" by (rule prod_cases3)
    with wait Inr have "copy_inv hist sock s'" "subseq (el_rules l') (el_rules l)" by simp_all
    with Suc.IH [of s' l'] subseq_keeps [OF _ Suc.prems(2,3)] Suc.prems(4) Inr x show ?thesis by (auto split: if_splits)
  qed
qed simp

lemma set_blocking_hist:
  assumes "copy_law os hist sock"
  shows "outcome io_exn (\<lambda>w'. hist (wd_kernel w') = hist (wd_kernel w) \<and> wd_fds w' = wd_fds w) (FileDescriptor_set_blocking os f b w)"
proof -
  have keep: "hist (snd (os_fcntl os fd cmd arg k)) = hist k" for fd cmd arg k using assms by (simp add: copy_law_def)
  obtain ret errno k where one: "os_fcntl os (FileDescriptor_fd_num w f) 3 0 (wd_kernel w) = ((ret, errno), k)" by (metis surj_pair)
  show ?thesis
    unfolding FileDescriptor_set_blocking_def Let_def one prod.case
  proof (rule outcome_bind [OF SystemCall_outcome])
    fix n
    obtain ret' errno' k' where two: "os_fcntl os (FileDescriptor_fd_num w f) 4 (set_blocking_flags n b) k = ((ret', errno'), k')" by (metis surj_pair)
    show "outcome io_exn (\<lambda>w'. hist (wd_kernel w') = hist (wd_kernel w) \<and> wd_fds w' = wd_fds w)
        (case os_fcntl os (FileDescriptor_fd_num w f) 4 (set_blocking_flags n b) k of (x, k) \<Rightarrow> (case x of (ret, errno) \<Rightarrow> \<lambda>k.
          bindE (SystemCall ''fcntl'' ret errno 0) (\<lambda>_. Inr (w\<lparr>wd_kernel := k\<rparr>))) k)"
      using keep [of "FileDescriptor_fd_num w f" 3 0 "wd_kernel w"] keep [of "FileDescriptor_fd_num w f" 4 "set_blocking_flags n b" k]
      by (auto simp: one two intro!: outcome_bind [OF SystemCall_outcome])
  qed
qed

lemma copy_start_ok:
  assumes "copy_law os hist (FileDescriptor_fd_num w socket)" and "socket \<noteq> input" and "socket \<noteq> output" and "input \<noteq> output"
    and "hist (wd_kernel w) = (\<lambda>_. [])"
  shows "outcome io_exn (\<lambda>s. copy_inv hist (FileDescriptor_fd_num w socket) s \<and> distinct (el_rules (copy_rules os s))
     \<and> set (el_rules (copy_rules os s)) \<subseteq> copy_rule_set os) (copy_start os socket input output w)"
proof -
  let ?d = "\<lambda>n. \<lparr>fd_fd = n, fd_eof = False, fd_closed = False, fd_read_count = 0, fd_write_count = 0\<rparr>"
  let ?w = "set_fd output (\<lambda>_. ?d 1) (set_fd input (\<lambda>_. ?d 0) w)"
  have new: "FileDescriptor_new input 0 w = Inr (set_fd input (\<lambda>_. ?d 0) w)" "FileDescriptor_new output 1 v = Inr (set_fd output (\<lambda>_. ?d 1) v)" for v :: "'a world"
    by (simp_all add: FileDescriptor_new_def FDWrapper_new_def)
  let ?Q = "\<lambda>v. hist (wd_kernel v) = (\<lambda>_. []) \<and> wd_fds v = wd_fds ?w"
  have block: "outcome io_exn ?Q (FileDescriptor_set_blocking os f False v)" if "?Q v" for f v
    by (rule outcome_mono [OF set_blocking_hist [OF assms(1)]]) (use that in auto)
  have start: "?Q ?w" using assms(5) by simp
  have rules: "distinct (el_rules (copy_rules os s)) \<and> set (el_rules (copy_rules os s)) \<subseteq> copy_rule_set os"
    if "sc_socket s = socket" "sc_input s = input" "sc_output s = output" for s
    using assms(2,3) that by (simp add: copy_rules_def EventLoop_new_def EventLoop_add_rule_def FileDescriptor_duplicate_def copy_rule_set_def)
  show ?thesis
    unfolding copy_start_def new bindE_simps
    by (intro outcome_bind [OF block [OF start]] outcome_bind [OF block])
      (use assms(2-4) rules in \<open>simp_all add: copy_inv_def FileDescriptor_fd_num_def ByteStream_new_inv\<close>)
qed

section \<open>Property\<close>

text \<open>
  C19: \<^verbatim>\<open>bidirectional_stream_copy\<close> copies faithfully in both directions, whatever the kernel accepts or delivers per call
  and in whatever order the descriptors become ready: when it returns, what was read from standard input is what was
  written to the socket followed by what is still buffered, and what was read from the socket is what was written to standard
  output followed by what is still buffered.  The only exceptions are those of system calls and of the event loop.
\<close>

theorem stream_copy_faithful:
  assumes "copy_law os hist (FileDescriptor_fd_num w socket)" and "socket \<noteq> input" and "socket \<noteq> output" and "input \<noteq> output"
    and "hist (wd_kernel w) = (\<lambda>_. [])" and "bidirectional_stream_copy os n socket input output w = Some r"
  shows "outcome io_exn (\<lambda>s. let h = hist (wd_kernel (sc_world s)) in
      h Stdin = h To_socket @ ByteStream_contents (sc_outbound s) \<and> h From_socket = h Stdout @ ByteStream_contents (sc_inbound s)) r"
proof (cases "copy_start os socket input output w")
  case (Inl e)
  then have "r = Inl e" using assms(6) by (simp add: bidirectional_stream_copy_def)
  then show ?thesis using copy_start_ok [OF assms(1-5)] Inl by simp
next
  case (Inr s)
  with copy_start_ok [OF assms(1-5)] have s: "copy_inv hist (FileDescriptor_fd_num w socket) s" "distinct (el_rules (copy_rules os s))"
    "set (el_rules (copy_rules os s)) \<subseteq> copy_rule_set os" by simp_all
  have "copy_rounds os n (copy_rules os s) s = Some r" using Inr assms(6) by (simp add: bidirectional_stream_copy_def)
  from copy_rounds_ok [OF assms(1) s this] show ?thesis by (rule outcome_mono) (simp_all add: copy_inv_def Let_def)
qed

text \<open>A kernel that delivers one byte on standard input and then a signal.\<close>

definition signal_os :: "bool os" where
  "signal_os = no_os\<lparr>os_fcntl := (\<lambda>_ _ _ k. ((0, 0), k)),
     os_read := (\<lambda>fd n k. if fd = 0 \<and> \<not> k \<and> n > 0 then ((1, 0, [104]), True) else ((- 1, 11, []), k)),
     os_poll := (\<lambda>ps _ k. if k then ((- 1, EINTR, []), k) else ((1, 0, [POLLIN, 0, 0, 0]), k))\<rparr>"

definition signal_hist :: "bool \<Rightarrow> channel \<Rightarrow> bytes" where
  "signal_hist k c = (if k \<and> c = Stdin then [104] else [])"

definition signal_world :: "bool world" where
  "signal_world = \<lparr>wd_kernel = False,
     wd_fds = (\<lambda>f. \<lparr>fd_fd = 5, fd_eof = False, fd_closed = False, fd_read_count = 0, fd_write_count = 0\<rparr>)\<rparr>"

lemma signal_law: "copy_law signal_os signal_hist 5"
  by (auto simp: copy_law_def reads_law_def writes_law_def read_law_def writev_law_def signal_os_def signal_hist_def no_os_def Let_def
      fun_eq_iff word_gt_0 unat_gt_0 Suc_le_eq split: if_splits)

theorem stream_copy_faithful_witness:
  "\<exists>s. bidirectional_stream_copy signal_os 2 2 0 1 signal_world = Some (Inr s)
     \<and> signal_hist (wd_kernel (sc_world s)) Stdin = [104] \<and> ByteStream_contents (sc_outbound s) = [104]"
proof -
  have two: "copy_rounds os 2 = copy_rounds os (Suc (Suc 0))" for os :: "bool os" by (simp add: numeral_2_eq_2)
  have "\<exists>s. bidirectional_stream_copy signal_os 2 2 0 1 signal_world = Some (Inr s) \<and> wd_kernel (sc_world s)"
    by (simp add: two bidirectional_stream_copy_def copy_start_def FileDescriptor_new_def FDWrapper_new_def
      FileDescriptor_set_blocking_def SystemCall_def to_int_id signal_os_def signal_world_def no_os_def Let_def set_fd_def FileDescriptor_fd_num_def
      copy_rules_def EventLoop_new_def EventLoop_add_rule_def FileDescriptor_duplicate_def EventLoop_wait_next_event_def
      copy1_interest_def copy2_interest_def copy3_interest_def copy4_interest_def ByteStream_remaining_capacity_def
      ByteStream_buffer_size_def ByteStream_buffer_empty_def ByteStream_eof_def ByteStream_new_def copy_buffer_size_def
      sc_fds_def sc_poll_def POLLIN_def POLLOUT_def POLLERR_def POLLNVAL_def POLLHUP_def EINTR_def run_callback_def Rule_service_count_def
      copy1_callback_def FileDescriptor_read_def FileDescriptor_read_into_def FileDescriptor_BUFFER_SIZE_def string_resize_def
      FileDescriptor_register_read_def FileDescriptor_eof_def ByteStream_write_def)
  then obtain s where s: "bidirectional_stream_copy signal_os 2 2 0 1 signal_world = Some (Inr s)" "wd_kernel (sc_world s)" by blast
  have law: "copy_law signal_os signal_hist (FileDescriptor_fd_num signal_world 2)"
    using signal_law by (simp add: FileDescriptor_fd_num_def signal_world_def)
  have empty: "signal_hist (wd_kernel signal_world) = (\<lambda>_. [])" by (simp add: fun_eq_iff signal_hist_def signal_world_def)
  have "ByteStream_contents (sc_outbound s) = [104]"
    using stream_copy_faithful [OF law _ _ _ empty s(1)] s(2) by (simp add: signal_hist_def Let_def)
  then show ?thesis using s by (auto simp: signal_hist_def)
qed

end
