(* ===== verification/Printing.thy ===== *)
theory Printing
  imports IPv4 TCP_Connection Addresses
begin

text \<open>
  The functions that print: \<^verbatim>\<open>hexdump\<close> of \<^verbatim>\<open>util.cc\<close>, \<^verbatim>\<open>to_string\<close> and \<^verbatim>\<open>summary\<close> of the TCP and IPv4 headers, and
  \<^verbatim>\<open>TCPConnectionDebugger\<close> of \<^verbatim>\<open>tcp_connection.hh\<close>.  What goes to \<^verbatim>\<open>cout\<close> or \<^verbatim>\<open>cerr\<close> is the result.
\<close>

section \<open>Streams\<close>

abbreviation nl :: string where
  "nl \<equiv> [CHR 0x0A]"

text \<open>\<^verbatim>\<open>std::hex\<close>, and \<^verbatim>\<open>std::setw\<close> with the fill character 0.\<close>

fun hex_nat :: "nat \<Rightarrow> string" where
  "hex_nat n = (if n < 10 then [char_of (48 + n)] else if n < 16 then [char_of (87 + n)]
     else hex_nat (n div 16) @ (if n mod 16 < 10 then [char_of (48 + n mod 16)] else [char_of (87 + n mod 16)]))"

declare hex_nat.simps [simp del]

definition setw :: "nat \<Rightarrow> string \<Rightarrow> string" where
  "setw n s = replicate (n - length s) (CHR ''0'') @ s"

definition boolalpha :: "bool \<Rightarrow> string" where
  "boolalpha b = (if b then ''true'' else ''false'')"

definition chars_of :: "bytes \<Rightarrow> string" where
  "chars_of = map (\<lambda>b. char_of (unat b))"

text \<open>
  A \<^verbatim>\<open>stringstream\<close>: its contents and the position of the next write.  One that is made from a string, or set to
  one by \<^verbatim>\<open>str\<close>, writes at the beginning, over that string.
\<close>

type_synonym stringstream = "string \<times> nat"

definition stringstream_of :: "string \<Rightarrow> stringstream" where
  "stringstream_of s = (s, 0)"

definition stream_put :: "stringstream \<Rightarrow> char \<Rightarrow> stringstream" where
  "stream_put ss c = (take (snd ss) (fst ss) @ c # drop (Suc (snd ss)) (fst ss), Suc (snd ss))"

section \<open>Headers\<close>

definition TCPHeader_to_string :: "TCPHeader \<Rightarrow> string" where
  "TCPHeader_to_string h =
     ''TCP source port: '' @ hex_nat (unat (th_sport h)) @ nl
     @ ''TCP dest port: '' @ hex_nat (unat (th_dport h)) @ nl
     @ ''TCP seqno: '' @ hex_nat (unat (raw_value (th_seqno h))) @ nl
     @ ''TCP ackno: '' @ hex_nat (unat (raw_value (th_ackno h))) @ nl
     @ ''TCP doff: '' @ hex_nat (unat (th_doff h)) @ nl
     @ ''Flags: urg: '' @ boolalpha (th_urg h) @ '' ack: '' @ boolalpha (th_ack h) @ '' psh: '' @ boolalpha (th_psh h)
     @ '' rst: '' @ boolalpha (th_rst h) @ '' syn: '' @ boolalpha (th_syn h) @ '' fin: '' @ boolalpha (th_fin h) @ nl
     @ ''TCP winsize: '' @ hex_nat (unat (th_win h)) @ nl
     @ ''TCP cksum: '' @ hex_nat (unat (th_cksum h)) @ nl
     @ ''TCP uptr: '' @ hex_nat (unat (th_uptr h)) @ nl"

definition TCPHeader_summary :: "TCPHeader \<Rightarrow> string" where
  "TCPHeader_summary h =
     ''Header(flags='' @ (if th_syn h then ''S'' else []) @ (if th_ack h then ''A'' else [])
     @ (if th_rst h then ''R'' else []) @ (if th_fin h then ''F'' else [])
     @ '',seqno='' @ dec_nat (unat (raw_value (th_seqno h))) @ '',ack='' @ dec_nat (unat (raw_value (th_ackno h)))
     @ '',win='' @ dec_nat (unat (th_win h)) @ '')''"

definition IPv4Header_to_string :: "IPv4Header \<Rightarrow> string" where
  "IPv4Header_to_string h =
     ''IP version: '' @ hex_nat (unat (ih_ver h)) @ nl
     @ ''IP hdr len: '' @ hex_nat (unat (ih_hlen h)) @ nl
     @ ''IP tos: '' @ hex_nat (unat (ih_tos h)) @ nl
     @ ''IP dgram len: '' @ hex_nat (unat (ih_len h)) @ nl
     @ ''IP id: '' @ hex_nat (unat (ih_id h)) @ nl
     @ ''Flags: df: '' @ boolalpha (ih_df h) @ '' mf: '' @ boolalpha (ih_mf h) @ nl
     @ ''Offset: '' @ hex_nat (unat (ih_offset h)) @ nl
     @ ''TTL: '' @ hex_nat (unat (ih_ttl h)) @ nl
     @ ''Protocol: '' @ hex_nat (unat (ih_proto h)) @ nl
     @ ''Checksum: '' @ hex_nat (unat (ih_cksum h)) @ nl
     @ ''Src addr: '' @ hex_nat (unat (ih_src h)) @ nl
     @ ''Dst addr: '' @ hex_nat (unat (ih_dst h)) @ nl"

text \<open>The address is converted by \<^verbatim>\<open>htobe32\<close> for \<^verbatim>\<open>inet_ntoa\<close>; \<^verbatim>\<open>lc_inet_ntoa\<close> takes it in host byte order.\<close>

definition IPv4Header_summary :: "libc \<Rightarrow> IPv4Header \<Rightarrow> string" where
  "IPv4Header_summary lc h =
     ''IPv'' @ hex_nat (unat (ih_ver h)) @ '', '' @ ''len='' @ hex_nat (unat (ih_len h)) @ '', ''
     @ ''protocol='' @ hex_nat (unat (ih_proto h)) @ '', ''
     @ (if ih_ttl h \<ge> 10 then [] else ''ttl='' @ dec_nat (unat (ih_ttl h)) @ '', '')
     @ ''src='' @ lc_inet_ntoa lc (ih_src h) @ '', '' @ ''dst='' @ lc_inet_ntoa lc (ih_dst h)"

section \<open>TCPConnectionDebugger\<close>

definition left_1 :: string where
  "left_1 = CHR 0x1B # ''[1;36m''"

definition left_2 :: string where
  "left_2 = CHR 0x1B # ''[1;32m''"

definition right_end :: string where
  "right_end = CHR 0x1B # ''[0m''"

definition color_1 :: "string \<Rightarrow> string" where
  "color_1 data = left_1 @ data @ right_end"

definition color_2 :: "string \<Rightarrow> string" where
  "color_2 data = left_2 @ data @ right_end"

definition print_segment :: "bool \<Rightarrow> TCPConnection \<Rightarrow> TCPSegment \<Rightarrow> string \<Rightarrow> bool \<Rightarrow> string" where
  "print_segment open_debugger that seg desription check =
     (if \<not> check \<or> \<not> open_debugger then []
      else let h = sg_header seg in
        nl @ color_1 desription @ nl
        @ color_2 ''Flag'' @ '' : '' @ (if th_syn h then ''S'' else []) @ (if th_fin h then ''F'' else [])
        @ (if th_ack h then ''A'' else []) @ (if th_rst h then ''R'' else []) @ nl
        @ color_2 ''Sequnce Number'' @ '' : '' @ dec_nat (unat (raw_value (th_seqno h))) @ nl
        @ color_2 ''Acknowledgement Number'' @ '' : '' @ dec_nat (unat (raw_value (th_ackno h))) @ nl
        @ color_2 ''Window Size'' @ '' : '' @ dec_nat (unat (th_win h)) @ nl
        @ color_2 ''Payload'' @ '' : '' @ (if Buffer_size (sg_payload seg) \<noteq> 0 then chars_of (Buffer_str (sg_payload seg)) else ''empty string'') @ nl
        @ color_2 ''Payload Size'' @ '' : '' @ dec_nat (unat (Buffer_size (sg_payload seg))) @ nl
        @ color_2 ''Sequnce Space'' @ '' : '' @ dec_nat (unat (TCPSegment_length_in_sequence_space seg)) @ nl
        @ color_2 ''ackno of sender'' @ '' : '' @ dec_nat (unat (ts_ackno (cn_sender that))) @ nl
        @ color_2 ''next seqno absolute of sender'' @ '' : '' @ dec_nat (unat (ts_next_seqno (cn_sender that))) @ nl
        @ (if TCPSender_FIN_ACKED (cn_sender that) then ''FIN_ACKED'' @ nl else [])
        @ (if TCPReceiver_FIN_RECV (cn_receiver that) then ''FIN_RECV'' @ nl else []))"

section \<open>hexdump\<close>

definition isprint :: "byte \<Rightarrow> bool" where
  "isprint b \<longleftrightarrow> 0x20 \<le> b \<and> b \<le> 0x7e"

definition printable :: "byte \<Rightarrow> char" where
  "printable b = (if isprint b then char_of (unat b) else CHR ''.'')"

text \<open>The loop: \<open>out\<close> is what has been printed so far, \<open>pchars\<close> the text of the line.\<close>

fun hexdump_loop :: "string \<Rightarrow> string \<Rightarrow> nat \<Rightarrow> stringstream \<Rightarrow> bytes \<Rightarrow> string \<times> nat \<times> stringstream" where
  "hexdump_loop indent_string out printed pchars [] = (out, printed, pchars)"
| "hexdump_loop indent_string out printed pchars (b # data) =
     (let (out, pchars) =
        (if printed mod 16 = 0 then
           let (out, pchars) = (if printed \<noteq> 0 then (out @ ''    '' @ fst pchars @ nl, stringstream_of '' '') else (out, pchars))
           in (out @ indent_string @ setw 8 (hex_nat printed) @ '':    '', pchars)
         else if printed mod 2 = 0 then (out @ '' '', pchars)
         else (out, pchars))
      in hexdump_loop indent_string (out @ setw 2 (hex_nat (unat b))) (printed + 1) (stream_put pchars (printable b)) data)"

text \<open>\<^verbatim>\<open>printed\<close> is an \<^verbatim>\<open>int\<close>, which overflows at 2^31 bytes.\<close>

definition hexdump :: "bytes \<Rightarrow> nat \<Rightarrow> string result" where
  "hexdump data indent =
     (if length data \<ge> 2 ^ 31 then Inl Undefined_behaviour
      else let (out, printed, pchars) = hexdump_loop (replicate indent (CHR '' '')) [] 0 (stringstream_of '' '') data;
               print_rem = (16 - printed mod 16) mod 16
           in Inr (out @ replicate (2 * print_rem + print_rem div 2 + 4) (CHR '' '') @ fst pchars @ nl @ nl))"

section \<open>The lines of a dump\<close>

text \<open>The hexadecimal digits of a line, two bytes to a group.\<close>

fun hex_pairs :: "bytes \<Rightarrow> string" where
  "hex_pairs [] = []"
| "hex_pairs [a] = setw 2 (hex_nat (unat a))"
| "hex_pairs [a, b] = setw 2 (hex_nat (unat a)) @ setw 2 (hex_nat (unat b))"
| "hex_pairs (a # b # bs) = setw 2 (hex_nat (unat a)) @ setw 2 (hex_nat (unat b)) @ '' '' @ hex_pairs bs"

definition ljust :: "nat \<Rightarrow> string \<Rightarrow> string" where
  "ljust n s = s @ replicate (n - length s) (CHR '' '')"

definition dump_line :: "string \<Rightarrow> nat \<Rightarrow> bytes \<Rightarrow> string" where
  "dump_line indent_string offset bs =
     indent_string @ setw 8 (hex_nat offset) @ '':    '' @ ljust 39 (hex_pairs bs) @ ''    '' @ map printable bs @ nl"

fun dump_lines :: "string \<Rightarrow> nat \<Rightarrow> bytes \<Rightarrow> string" where
  "dump_lines indent_string offset bs =
     (if bs = [] then [] else dump_line indent_string offset (take 16 bs) @ dump_lines indent_string (offset + 16) (drop 16 bs))"

declare dump_lines.simps [simp del]

lemma hex_pairs_snoc:
  "hex_pairs (bs @ [b]) = hex_pairs bs @ (if bs \<noteq> [] \<and> even (length bs) then '' '' else []) @ setw 2 (hex_nat (unat b))"
  by (induction bs rule: hex_pairs.induct) auto

lemma hex_byte_length: "length (hex_nat (unat (b :: byte))) \<le> 2"
proof -
  have "unat b < 2 ^ LENGTH(8)" by (rule unsigned_less)
  then have "unat b div 16 < 16" by simp
  then show ?thesis by (subst hex_nat.simps, subst hex_nat.simps) simp
qed

lemma hex_pairs_length: "length (hex_pairs bs) = 2 * length bs + (length bs - 1) div 2"
proof (induction bs rule: rev_induct)
  case (snoc b bs)
  have "length (setw 2 (hex_nat (unat b))) = 2" using hex_byte_length [of b] by (simp add: setw_def)
  moreover have "bs \<noteq> [] \<Longrightarrow> even (length bs) \<Longrightarrow> Suc ((length bs - 1) div 2) = length bs div 2"
    and "odd (length bs) \<Longrightarrow> (length bs - 1) div 2 = length bs div 2"
    by (cases bs; auto elim!: evenE oddE)+
  ultimately show ?case using snoc unfolding hex_pairs_snoc length_append by (cases "bs = []") auto
qed simp

lemma stream_put_end: "stream_put (s, length s) c = (s @ [c], length (s @ [c]))"
  by (simp add: stream_put_def)

lemma loop_in_line:
  assumes "16 dvd offset" and "before \<noteq> []" and "length (before @ bs) \<le> 16"
  shows "hexdump_loop ind (out @ hex_pairs before) (offset + length before) (map printable before, length before) (bs @ rest)
    = hexdump_loop ind (out @ hex_pairs (before @ bs)) (offset + length (before @ bs)) (map printable (before @ bs), length (before @ bs)) rest"
  using assms(2,3)
proof (induction bs arbitrary: before)
  case (Cons b bs)
  have len: "0 < length before" "length before < 16" using Cons.prems by simp_all
  obtain k where k: "offset = 16 * k" using assms(1) by (rule dvdE)
  have m: "(offset + length before) mod 16 = length before" "(offset + length before) mod 2 = length before mod 2"
    using len unfolding k by presburger+
  have s: "stream_put (map printable before, length before) (printable b) = (map printable (before @ [b]), length (before @ [b]))"
    using stream_put_end [of "map printable before" "printable b"] by simp
  have h: "hexdump_loop ind (out @ hex_pairs before) (offset + length before) (map printable before, length before) ((b # bs) @ rest)
      = hexdump_loop ind (out @ hex_pairs (before @ [b])) (offset + length (before @ [b]))
          (map printable (before @ [b]), length (before @ [b])) (bs @ rest)"
    using len m Cons.prems(1) by (simp add: s hex_pairs_snoc even_iff_mod_2_eq_zero del: map_append length_append) simp
  show ?case using Cons.IH [of "before @ [b]"] Cons.prems(2) unfolding h by simp
qed simp

lemma loop_line:
  assumes "16 dvd offset" and "bs \<noteq> []" and "length bs \<le> 16" and "offset = 0 \<Longrightarrow> pchars = stringstream_of '' ''"
  shows "hexdump_loop ind out offset pchars (bs @ rest)
    = hexdump_loop ind ((if offset \<noteq> 0 then out @ ''    '' @ fst pchars @ nl else out) @ ind @ setw 8 (hex_nat offset) @ '':    '' @ hex_pairs bs)
        (offset + length bs) (map printable bs, length bs) rest"
proof -
  obtain b bs' where bs: "bs = b # bs'" using assms(2) by (cases bs) simp_all
  have m: "offset mod 16 = 0" using assms(1) by simp
  have s: "stream_put (stringstream_of '' '') (printable b) = (map printable [b], length [b])"
    by (simp add: stream_put_def stringstream_of_def)
  let ?out = "(if offset \<noteq> 0 then out @ ''    '' @ fst pchars @ nl else out) @ ind @ setw 8 (hex_nat offset) @ '':    ''"
  have "hexdump_loop ind out offset pchars (bs @ rest)
      = hexdump_loop ind (?out @ hex_pairs [b]) (offset + length [b]) (map printable [b], length [b]) (bs' @ rest)"
    using m s assms(4) by (cases "offset = 0") (simp_all add: bs)
  also have "\<dots> = hexdump_loop ind (?out @ hex_pairs ([b] @ bs')) (offset + length ([b] @ bs')) (map printable ([b] @ bs'), length ([b] @ bs')) rest"
    by (rule loop_in_line [OF assms(1)]) (use assms(3) in \<open>simp_all add: bs\<close>)
  finally show ?thesis by (simp add: bs)
qed

lemma loop_end:
  assumes "hexdump_loop ind out (offset + length bs) (map printable bs, length bs) [] = (out', printed, pchars)"
    and "16 dvd offset" and "bs \<noteq> []" and "length bs \<le> 16"
    and "out = front @ ind @ setw 8 (hex_nat offset) @ '':    '' @ hex_pairs bs"
  shows "out' @ replicate (2 * ((16 - printed mod 16) mod 16) + (16 - printed mod 16) mod 16 div 2 + 4) (CHR '' '') @ fst pchars @ nl
    = front @ dump_line ind offset bs"
proof -
  let ?n = "length bs" let ?rem = "(16 - (offset + ?n) mod 16) mod 16"
  obtain k where k: "offset = 16 * k" using assms(2) by (rule dvdE)
  have "\<forall>n \<in> set [1..<17]. (16 - n mod 16) mod 16 = 16 - n \<and> 39 - (2 * n + (n - 1) div 2) = 2 * (16 - n) + (16 - n) div (2 :: nat)"
    by code_simp
  moreover have "?n \<in> set [1..<17]" using assms(3,4) by (cases bs) simp_all
  ultimately have n: "(16 - ?n mod 16) mod 16 = 16 - ?n" "39 - (2 * ?n + (?n - 1) div 2) = 2 * (16 - ?n) + (16 - ?n) div 2"
    by blast+
  have rem: "?rem = 16 - ?n" unfolding k by (simp add: n(1))
  have "39 - length (hex_pairs bs) = 2 * (16 - ?n) + (16 - ?n) div 2" unfolding hex_pairs_length by (rule n(2))
  moreover have four: "''    '' = replicate 4 (CHR '' '')" by (simp add: numeral_eq_Suc)
  ultimately have "ljust 39 (hex_pairs bs) @ ''    '' = hex_pairs bs @ replicate (2 * ?rem + ?rem div 2 + 4) (CHR '' '')"
    by (simp only: rem ljust_def four append_assoc replicate_add)
  then show ?thesis using assms(1,5) by (auto simp: dump_line_def)
qed

lemma loop_lines:
  assumes "hexdump_loop ind out offset pchars data = (out', printed, pchars')" and "16 dvd offset" and "data \<noteq> []"
    and "offset = 0 \<Longrightarrow> pchars = stringstream_of '' ''"
  shows "out' @ replicate (2 * ((16 - printed mod 16) mod 16) + (16 - printed mod 16) mod 16 div 2 + 4) (CHR '' '') @ fst pchars' @ nl
    = (if offset \<noteq> 0 then out @ ''    '' @ fst pchars @ nl else out) @ dump_lines ind offset data"
  using assms
proof (induction ind offset data arbitrary: out pchars rule: dump_lines.induct)
  case (1 ind offset data)
  let ?bs = "take 16 data" and ?front = "if offset \<noteq> 0 then out @ ''    '' @ fst pchars @ nl else out"
  let ?out = "?front @ ind @ setw 8 (hex_nat offset) @ '':    '' @ hex_pairs ?bs"
  have bs: "?bs \<noteq> []" "length ?bs \<le> 16" using 1(4) by simp_all
  have l: "hexdump_loop ind ?out (offset + length ?bs) (map printable ?bs, length ?bs) (drop 16 data) = (out', printed, pchars')"
    using loop_line [OF 1(3) bs 1(5), where rest = "drop 16 data"] 1(2) by simp
  show ?case
  proof (cases "drop 16 data = []")
    case True
    then have "dump_lines ind offset data = dump_line ind offset ?bs"
      using 1(4) by (subst dump_lines.simps) (simp add: dump_lines.simps [where bs = "[]"])
    with loop_end [OF l [unfolded True] 1(3) bs refl] show ?thesis by (simp only:)
  next
    case False
    then have n: "length ?bs = 16" by simp
    have "length (hex_pairs ?bs) = 39" unfolding hex_pairs_length n by simp
    then have "dump_line ind offset ?bs = ind @ setw 8 (hex_nat offset) @ '':    '' @ hex_pairs ?bs @ ''    '' @ map printable ?bs @ nl"
      by (simp add: dump_line_def ljust_def)
    moreover have "dump_lines ind offset data = dump_line ind offset ?bs @ dump_lines ind (offset + 16) (drop 16 data)"
      using 1(4) by (subst dump_lines.simps) simp
    moreover have "16 dvd offset + 16" using 1(3) by simp
    note 1(1) [OF 1(4) l [unfolded n] this False]
    ultimately show ?thesis by simp
  qed
qed

text \<open>
  C38: \<^verbatim>\<open>hexdump\<close> prints any non-empty data as one line for every 16 bytes and a newline: the offset, the bytes in pairs,
  the padding that makes the last line as wide as the others, and the characters, with a dot for the unprintable ones.
\<close>

theorem hexdump_lines:
  assumes "data \<noteq> []" and "length data < 2 ^ 31"
  shows "hexdump data indent = Inr (dump_lines (replicate indent (CHR '' '')) 0 data @ nl)"
proof -
  obtain out printed pchars where l: "hexdump_loop (replicate indent (CHR '' '')) [] 0 (stringstream_of '' '') data = (out, printed, pchars)"
    by (metis prod_cases3)
  have "out @ replicate (2 * ((16 - printed mod 16) mod 16) + (16 - printed mod 16) mod 16 div 2 + 4) (CHR '' '') @ fst pchars @ nl
    = dump_lines (replicate indent (CHR '' '')) 0 data"
    using loop_lines [OF l _ assms(1)] by simp
  then show ?thesis using assms(2) unfolding hexdump_def l by (simp add: Let_def)
qed

theorem hexdump_lines_witness:
  "hexdump [0x48, 0x69, 0x0a] 2 = Inr (''  00000000:    4869 0a'' @ replicate 36 (CHR '' '') @ ''Hi.'' @ nl @ nl)"
proof -
  have "dump_lines (replicate 2 (CHR '' '')) 0 [0x48, 0x69, 0x0a] @ nl
    = ''  00000000:    4869 0a'' @ replicate 36 (CHR '' '') @ ''Hi.'' @ nl @ nl"
    by code_simp
  with hexdump_lines [of "[0x48, 0x69, 0x0a]" 2] show ?thesis by simp
qed

end
