(* ===== verification/Command_Line.thy ===== *)
theory Command_Line
  imports Adapters TCP_Sender Printing
begin

text \<open>
  The command lines of \<^verbatim>\<open>apps/tcp_udp.cc\<close> and \<^verbatim>\<open>apps/tcp_ipv4.cc\<close>.  \<^verbatim>\<open>argv\<close> is a list of strings whose length is
  \<^verbatim>\<open>argc\<close>; reading beyond it is undefined behaviour.  A call of \<^verbatim>\<open>exit\<close> is a value with the exit code and the text
  printed before it.
\<close>

section \<open>Arguments and exits\<close>

definition argv_at :: "string list \<Rightarrow> int \<Rightarrow> string result" where
  "argv_at argv i = (if 0 \<le> i \<and> i < int (length argv) then Inr (argv ! nat i) else Inl Undefined_behaviour)"

abbreviation argc :: "string list \<Rightarrow> int" where
  "argc argv \<equiv> int (length argv)"

text \<open>\<^verbatim>\<open>strncmp(a, b, n) == 0\<close>: the strings end with a zero character.\<close>

definition strncmp_equal :: "string \<Rightarrow> string \<Rightarrow> nat \<Rightarrow> bool" where
  "strncmp_equal a b n \<longleftrightarrow> take n (a @ [CHR 0x00]) = take n (b @ [CHR 0x00])"

datatype 'a exits = Exits int string | Proceeds 'a

text \<open>\<^verbatim>\<open>strtol(s, nullptr, 0)\<close>: decimal, octal after 0, hexadecimal after 0x; a value that does not fit is cut to the bounds of \<^verbatim>\<open>long\<close>.\<close>

definition digit_value :: "char \<Rightarrow> nat" where
  "digit_value c =
     (let n = of_char c in
      if 48 \<le> n \<and> n \<le> 57 then n - 48 else if 97 \<le> n \<and> n \<le> 122 then n - 87 else if 65 \<le> n \<and> n \<le> 90 then n - 55 else 36)"

definition unbase :: "nat \<Rightarrow> string \<Rightarrow> nat" where
  "unbase base s = foldl (\<lambda>n c. base * n + digit_value c) 0 (takeWhile (\<lambda>c. digit_value c < base) s)"

definition strtol :: "string \<Rightarrow> int" where
  "strtol s =
     (let s = dropWhile is_space s;
          negative = (s \<noteq> [] \<and> hd s = CHR ''-'');
          s = (if s \<noteq> [] \<and> (hd s = CHR ''-'' \<or> hd s = CHR ''+'') then tl s else s);
          n = (if length s > 2 \<and> s ! 0 = CHR ''0'' \<and> (s ! 1 = CHR ''x'' \<or> s ! 1 = CHR ''X'') \<and> digit_value (s ! 2) < 16
               then unbase 16 (drop 2 s)
               else if s \<noteq> [] \<and> hd s = CHR ''0'' then unbase 8 s
               else unbase 10 s)
      in if negative then max (- (2 ^ 63)) (- int n) else min (2 ^ 63 - 1) (int n))"

section \<open>A loop over options\<close>

text \<open>
  The loop \<^verbatim>\<open>while (argc - curr > 2)\<close> that both programs have.  \<open>step\<close> is its body, which handles the option at
  \<^verbatim>\<open>curr\<close> and moves on by one or by two.
\<close>

datatype 'o taken = Takes_one 'o | Takes_two 'o

function options_loop :: "(string list \<Rightarrow> int \<Rightarrow> 'o \<Rightarrow> 'o taken exits result) \<Rightarrow> string list \<Rightarrow> int \<Rightarrow> 'o \<Rightarrow> (int \<times> 'o) exits result" where
  "options_loop step argv cur opts =
     (if argc argv - cur > 2
      then (case step argv cur opts of
          Inl e \<Rightarrow> Inl e
        | Inr (Exits code text) \<Rightarrow> Inr (Exits code text)
        | Inr (Proceeds (Takes_one opts)) \<Rightarrow> options_loop step argv (cur + 1) opts
        | Inr (Proceeds (Takes_two opts)) \<Rightarrow> options_loop step argv (cur + 2) opts)
      else Inr (Proceeds (cur, opts)))"
  by pat_completeness auto
termination
  by (relation "measure (\<lambda>(step, argv, cur, opts). nat (argc argv - cur))") auto

declare options_loop.simps [simp del]

text \<open>The effects of a list of options, in order.\<close>

fun effs :: "('x \<Rightarrow> 'o \<Rightarrow> 'o result) \<Rightarrow> 'x list \<Rightarrow> 'o \<Rightarrow> 'o result" where
  "effs eff [] opts = Inr opts"
| "effs eff (x # xs) opts = bindE (eff x opts) (effs eff xs)"

text \<open>
  The contract of a body: an option \<open>x\<close> is written as one or two arguments, \<open>render x\<close>, and its effect on the options is
  \<open>eff x\<close>.
\<close>

locale option_body =
  fixes step :: "string list \<Rightarrow> int \<Rightarrow> 'o \<Rightarrow> 'o taken exits result"
    and render :: "'x \<Rightarrow> string list"
    and eff :: "'x \<Rightarrow> 'o \<Rightarrow> 'o result"
  assumes render_length: "length (render x) = 1 \<or> length (render x) = 2"
    and step_law: "2 \<le> length rest \<Longrightarrow> step (before @ render x @ rest) (int (length before)) opts
      = bindE (eff x opts) (\<lambda>opts. Inr (Proceeds (if length (render x) = 1 then Takes_one opts else Takes_two opts)))"
    and two_given: "step argv cur opts = Inr (Proceeds (Takes_two opts')) \<Longrightarrow> cur + 3 < argc argv"
begin

text \<open>Whatever the arguments are, exactly two are left after the loop, and it reads no others.\<close>

lemma loop_leaves_two:
  assumes "options_loop step argv cur opts = Inr (Proceeds (cur', opts'))" and "cur \<le> argc argv - 2"
  shows "cur' = argc argv - 2"
  using assms
proof (induction "nat (argc argv - cur)" arbitrary: cur opts rule: less_induct)
  case less
  show ?case
  proof (cases "argc argv - cur > 2")
    case True
    then consider o' where "step argv cur opts = Inr (Proceeds (Takes_one o'))" | o' where "step argv cur opts = Inr (Proceeds (Takes_two o'))"
      using less.prems(1) by (subst (asm) options_loop.simps) (auto split: sum.splits exits.splits taken.splits)
    then show ?thesis
    proof cases
      case 1
      with True less.prems(1) have "options_loop step argv (cur + 1) o' = Inr (Proceeds (cur', opts'))"
        by (subst (asm) options_loop.simps) simp
      from less.hyps [OF _ this] True show ?thesis by simp
    next
      case 2
      with True less.prems(1) have "options_loop step argv (cur + 2) o' = Inr (Proceeds (cur', opts'))"
        by (subst (asm) options_loop.simps) simp
      from less.hyps [OF _ this] two_given [OF 2] show ?thesis by simp
    qed
  next
    case False
    with less.prems show ?thesis by (subst (asm) options_loop.simps) simp
  qed
qed

lemma loop_in_bounds:
  assumes "\<And>cur opts. 0 \<le> cur \<Longrightarrow> cur < argc argv - 2 \<Longrightarrow> step argv cur opts \<noteq> Inl Undefined_behaviour" and "0 \<le> cur"
  shows "options_loop step argv cur opts \<noteq> Inl Undefined_behaviour"
  using assms(2)
proof (induction "nat (argc argv - cur)" arbitrary: cur opts rule: less_induct)
  case less
  show ?case
  proof (cases "argc argv - cur > 2")
    case True
    have "options_loop step argv (cur + 1) o' \<noteq> Inl Undefined_behaviour" "options_loop step argv (cur + 2) o' \<noteq> Inl Undefined_behaviour" for o'
      by (rule less.hyps; use True less.prems in simp)+
    with assms(1) [of cur opts] True less.prems show ?thesis
      by (subst options_loop.simps) (auto split: sum.splits exits.splits taken.splits)
  qed (simp add: options_loop.simps)
qed

lemma loop_reads:
  "options_loop step (before @ concat (map render xs) @ [host, port]) (int (length before)) opts
     = bindE (effs eff xs opts) (\<lambda>opts. Inr (Proceeds (int (length before + length (concat (map render xs))), opts)))"
proof (induction xs arbitrary: before opts)
  case Nil
  show ?case by (subst options_loop.simps) simp
next
  case (Cons x xs)
  let ?rest = "concat (map render xs) @ [host, port]"
  have "0 < length (render x)" using render_length [of x] by auto
  then have go: "argc (before @ render x @ ?rest) - int (length before) > 2" by (cases "render x") simp_all
  have law: "step (before @ render x @ ?rest) (int (length before)) opts
      = bindE (eff x opts) (\<lambda>opts. Inr (Proceeds (if length (render x) = 1 then Takes_one opts else Takes_two opts)))"
    by (rule step_law) simp
  have next_one: "options_loop step (before @ render x @ ?rest) (int (length before) + int (length (render x))) opts'
      = bindE (effs eff xs opts') (\<lambda>opts. Inr (Proceeds (int (length before + length (concat (map render (x # xs)))), opts)))" for opts'
    using Cons.IH [of "before @ render x" opts'] by (simp add: ac_simps)
  show ?case
  proof (cases "eff x opts")
    case (Inl e)
    then show ?thesis using go law by (subst options_loop.simps) simp
  next
    case (Inr opts')
    then show ?thesis using go law next_one [of opts'] render_length [of x] by (subst options_loop.simps) auto
  qed
qed

end

section \<open>tcp_udp\<close>

record udp_options =
  uo_fsm :: TCPConfig
  uo_filt :: FdAdapterConfig
  uo_listen :: bool

definition udp_show_usage :: "string \<Rightarrow> string option \<Rightarrow> string" where
  "udp_show_usage argv0 msg =
     ''Usage: '' @ argv0 @ '' [options] <host> <port>'' @ nl @ nl
     @ ''   Option                                                          Default'' @ nl
     @ ''   --                                                              --'' @ nl @ nl
     @ ''   -l              Server (listen) mode.                           (client mode)'' @ nl
     @ ''                   In server mode, <host>:<port> is the address to bind.'' @ nl @ nl
     @ ''   -w <winsz>      Use a window of <winsz> bytes                   '' @ dec_nat (unat TCPConfig_MAX_PAYLOAD_SIZE) @ nl @ nl
     @ ''   -t <tmout>      Set rt_timeout to tmout                         '' @ dec_nat (unat TCPConfig_TIMEOUT_DFLT) @ nl @ nl
     @ ''   -Lu <loss>      Set uplink loss to <rate> (float in 0..1)       (no loss)'' @ nl
     @ ''   -Ld <loss>      Set downlink loss to <rate> (float in 0..1)     (no loss)'' @ nl @ nl
     @ ''   -h              Show this message and quit.'' @ nl @ nl
     @ (case msg of None \<Rightarrow> [] | Some m \<Rightarrow> m) @ nl"

text \<open>\<^verbatim>\<open>show_usage(argv[0], msg); exit(code)\<close>.\<close>

definition usage_exit :: "(string \<Rightarrow> string option \<Rightarrow> string) \<Rightarrow> string list \<Rightarrow> int \<Rightarrow> string option \<Rightarrow> 'a exits result" where
  "usage_exit show_usage argv code msg = bindE (argv_at argv 0) (\<lambda>argv0. Inr (Exits code (show_usage argv0 msg)))"

text \<open>
  \<^verbatim>\<open>check_argc\<close>, the argument of the option at \<^verbatim>\<open>curr\<close>, and \<^verbatim>\<open>curr += 2\<close>; \<open>set\<close> is the assignment in between.
\<close>

definition option_value :: "(string \<Rightarrow> string option \<Rightarrow> string) \<Rightarrow> string list \<Rightarrow> int \<Rightarrow> string \<Rightarrow> (string \<Rightarrow> 'o result) \<Rightarrow> 'o taken exits result" where
  "option_value show_usage argv cur err assign =
     (if cur + 3 \<ge> argc argv then usage_exit show_usage argv 1 (Some err)
      else bindE (argv_at argv (cur + 1)) (\<lambda>v. bindE (assign v) (\<lambda>opts. Inr (Proceeds (Takes_two opts)))))"

text \<open>
  The body of the loop of \<^verbatim>\<open>get_config\<close>.  The argument \<open>loss\<close> stands for the floating-point expression
  \<^verbatim>\<open>static_cast<uint16_t>(static_cast<float>(65535) * strtof(s, nullptr))\<close>.
\<close>

definition udp_step :: "(string \<Rightarrow> u16 result) \<Rightarrow> string list \<Rightarrow> int \<Rightarrow> udp_options \<Rightarrow> udp_options taken exits result" where
  "udp_step loss argv cur opts =
     bindE (argv_at argv cur) (\<lambda>arg.
       if strncmp_equal ''-l'' arg 3 then Inr (Proceeds (Takes_one (opts\<lparr>uo_listen := True\<rparr>)))
       else if strncmp_equal ''-w'' arg 3 then
         option_value udp_show_usage argv cur ''ERROR: -w requires one argument.''
           (\<lambda>v. Inr (opts\<lparr>uo_fsm := (uo_fsm opts)\<lparr>cf_recv_capacity := of_int (strtol v)\<rparr>\<rparr>))
       else if strncmp_equal ''-t'' arg 3 then
         option_value udp_show_usage argv cur ''ERROR: -t requires one argument.''
           (\<lambda>v. Inr (opts\<lparr>uo_fsm := (uo_fsm opts)\<lparr>cf_rt_timeout := of_int (strtol v)\<rparr>\<rparr>))
       else if strncmp_equal ''-Lu'' arg 3 then
         option_value udp_show_usage argv cur ''ERROR: -Lu requires one argument.''
           (\<lambda>v. bindE (loss v) (\<lambda>r. Inr (opts\<lparr>uo_filt := (uo_filt opts)\<lparr>fc_loss_rate_up := r\<rparr>\<rparr>)))
       else if strncmp_equal ''-Ld'' arg 3 then
         option_value udp_show_usage argv cur ''ERROR: -Lu requires one argument.''
           (\<lambda>v. bindE (loss v) (\<lambda>r. Inr (opts\<lparr>uo_filt := (uo_filt opts)\<lparr>fc_loss_rate_dn := r\<rparr>\<rparr>)))
       else if strncmp_equal ''-h'' arg 3 then usage_exit udp_show_usage argv 0 None
       else usage_exit udp_show_usage argv 1 (Some (''ERROR: unrecognized option '' @ arg)))"

text \<open>The positional arguments: the last two.\<close>

definition udp_addresses :: "libc \<Rightarrow> string list \<Rightarrow> udp_options \<Rightarrow> udp_options result" where
  "udp_addresses lc argv opts =
     (if uo_listen opts
      then bindE (argv_at argv (argc argv - 1)) (\<lambda>port.
        bindE (Address_of_hostname lc ''0'' port) (\<lambda>source. Inr (opts\<lparr>uo_filt := (uo_filt opts)\<lparr>fc_source := source\<rparr>\<rparr>)))
      else bindE (argv_at argv (argc argv - 2)) (\<lambda>host. bindE (argv_at argv (argc argv - 1)) (\<lambda>port.
        bindE (Address_of_hostname lc host port) (\<lambda>destination. Inr (opts\<lparr>uo_filt := (uo_filt opts)\<lparr>fc_destination := destination\<rparr>\<rparr>)))))"

definition udp_get_config :: "(string \<Rightarrow> u16 result) \<Rightarrow> libc \<Rightarrow> string list \<Rightarrow> udp_options exits result" where
  "udp_get_config loss lc argv =
     bindE (FdAdapterConfig_new lc) (\<lambda>c_filt.
     bindE (options_loop (udp_step loss) argv 1 \<lparr>uo_fsm = TCPConfig_default, uo_filt = c_filt, uo_listen = False\<rparr>) (\<lambda>r.
       case r of
         Exits code text \<Rightarrow> Inr (Exits code text)
       | Proceeds (cur, opts) \<Rightarrow> bindE (udp_addresses lc argv opts) (\<lambda>opts. Inr (Proceeds opts))))"

section \<open>Options of tcp_udp\<close>

datatype udp_option = Opt_l | Opt_w string | Opt_t string | Opt_Lu string | Opt_Ld string

fun udp_render :: "udp_option \<Rightarrow> string list" where
  "udp_render Opt_l = [''-l'']"
| "udp_render (Opt_w v) = [''-w'', v]"
| "udp_render (Opt_t v) = [''-t'', v]"
| "udp_render (Opt_Lu v) = [''-Lu'', v]"
| "udp_render (Opt_Ld v) = [''-Ld'', v]"

fun udp_eff :: "(string \<Rightarrow> u16 result) \<Rightarrow> udp_option \<Rightarrow> udp_options \<Rightarrow> udp_options result" where
  "udp_eff loss Opt_l opts = Inr (opts\<lparr>uo_listen := True\<rparr>)"
| "udp_eff loss (Opt_w v) opts = Inr (opts\<lparr>uo_fsm := (uo_fsm opts)\<lparr>cf_recv_capacity := of_int (strtol v)\<rparr>\<rparr>)"
| "udp_eff loss (Opt_t v) opts = Inr (opts\<lparr>uo_fsm := (uo_fsm opts)\<lparr>cf_rt_timeout := of_int (strtol v)\<rparr>\<rparr>)"
| "udp_eff loss (Opt_Lu v) opts = bindE (loss v) (\<lambda>r. Inr (opts\<lparr>uo_filt := (uo_filt opts)\<lparr>fc_loss_rate_up := r\<rparr>\<rparr>))"
| "udp_eff loss (Opt_Ld v) opts = bindE (loss v) (\<lambda>r. Inr (opts\<lparr>uo_filt := (uo_filt opts)\<lparr>fc_loss_rate_dn := r\<rparr>\<rparr>))"

lemma argv_at_append:
  "argv_at (before @ x # rest) (int (length before)) = Inr x"
  "argv_at (before @ x # y # rest) (int (length before) + 1) = Inr y"
  by (simp_all add: argv_at_def nth_append nat_add_distrib)

lemma option_value_given:
  assumes "2 \<le> length rest"
  shows "option_value show_usage (before @ x # v # rest) (int (length before)) err assign
    = bindE (assign v) (\<lambda>opts. Inr (Proceeds (Takes_two opts)))"
  using assms by (simp add: option_value_def argv_at_append)

interpretation udp_body: option_body "udp_step loss" udp_render "udp_eff loss" for loss
proof
  show "cur + 3 < argc argv" if "udp_step loss argv cur opts = Inr (Proceeds (Takes_two opts'))" for argv cur opts opts'
    using that by (auto simp: udp_step_def option_value_def usage_exit_def bindE_Inr_iff split: if_splits)
  show "length (udp_render x) = 1 \<or> length (udp_render x) = 2" for x by (cases x) simp_all
  show "udp_step loss (before @ udp_render x @ rest) (int (length before)) opts
      = bindE (udp_eff loss x opts) (\<lambda>opts. Inr (Proceeds (if length (udp_render x) = 1 then Takes_one opts else Takes_two opts)))"
    if "2 \<le> length rest" for rest before x opts
    by (cases x) (simp_all add: udp_step_def argv_at_append option_value_given [OF that] strncmp_equal_def bindE_assoc)
qed

section \<open>tcp_ipv4\<close>

record ipv4_options =
  io_fsm :: TCPConfig
  io_filt :: FdAdapterConfig
  io_listen :: bool
  io_tundev :: "string option"
  io_source_address :: string
  io_source_port :: string

definition TUN_DFLT :: string where
  "TUN_DFLT = ''tun144''"

definition LOCAL_ADDRESS_DFLT :: string where
  "LOCAL_ADDRESS_DFLT = ''169.254.144.9''"

definition ipv4_show_usage :: "string \<Rightarrow> string option \<Rightarrow> string" where
  "ipv4_show_usage argv0 msg =
     ''Usage: '' @ argv0 @ '' [options] <host> <port>'' @ nl @ nl
     @ ''   Option                                                          Default'' @ nl
     @ ''   --                                                              --'' @ nl @ nl
     @ ''   -l              Server (listen) mode.                           (client mode)'' @ nl
     @ ''                   In server mode, <host>:<port> is the address to bind.'' @ nl @ nl
     @ ''   -a <addr>       Set source address (client mode only)           '' @ LOCAL_ADDRESS_DFLT @ nl
     @ ''   -s <port>       Set source port (client mode only)              (random)'' @ nl @ nl
     @ ''   -w <winsz>      Use a window of <winsz> bytes                   '' @ dec_nat (unat TCPConfig_MAX_PAYLOAD_SIZE) @ nl @ nl
     @ ''   -t <tmout>      Set rt_timeout to tmout                         '' @ dec_nat (unat TCPConfig_TIMEOUT_DFLT) @ nl @ nl
     @ ''   -d <tundev>     Connect to tun <tundev>                         '' @ TUN_DFLT @ nl @ nl
     @ ''   -Lu <loss>      Set uplink loss to <rate> (float in 0..1)       (no loss)'' @ nl
     @ ''   -Ld <loss>      Set downlink loss to <rate> (float in 0..1)     (no loss)'' @ nl @ nl
     @ ''   -h              Show this message.'' @ nl @ nl
     @ (case msg of None \<Rightarrow> [] | Some m \<Rightarrow> m) @ nl"

definition ipv4_step :: "(string \<Rightarrow> u16 result) \<Rightarrow> string list \<Rightarrow> int \<Rightarrow> ipv4_options \<Rightarrow> ipv4_options taken exits result" where
  "ipv4_step loss argv cur opts =
     bindE (argv_at argv cur) (\<lambda>arg.
       if strncmp_equal ''-l'' arg 3 then Inr (Proceeds (Takes_one (opts\<lparr>io_listen := True\<rparr>)))
       else if strncmp_equal ''-a'' arg 3 then
         option_value ipv4_show_usage argv cur ''ERROR: -a requires one argument.'' (\<lambda>v. Inr (opts\<lparr>io_source_address := v\<rparr>))
       else if strncmp_equal ''-s'' arg 3 then
         option_value ipv4_show_usage argv cur ''ERROR: -s requires one argument.'' (\<lambda>v. Inr (opts\<lparr>io_source_port := v\<rparr>))
       else if strncmp_equal ''-w'' arg 3 then
         option_value ipv4_show_usage argv cur ''ERROR: -w requires one argument.''
           (\<lambda>v. Inr (opts\<lparr>io_fsm := (io_fsm opts)\<lparr>cf_recv_capacity := of_int (strtol v)\<rparr>\<rparr>))
       else if strncmp_equal ''-t'' arg 3 then
         option_value ipv4_show_usage argv cur ''ERROR: -t requires one argument.''
           (\<lambda>v. Inr (opts\<lparr>io_fsm := (io_fsm opts)\<lparr>cf_rt_timeout := of_int (strtol v)\<rparr>\<rparr>))
       else if strncmp_equal ''-d'' arg 3 then
         option_value ipv4_show_usage argv cur ''ERROR: -t requires one argument.'' (\<lambda>v. Inr (opts\<lparr>io_tundev := Some v\<rparr>))
       else if strncmp_equal ''-Lu'' arg 3 then
         option_value ipv4_show_usage argv cur ''ERROR: -Lu requires one argument.''
           (\<lambda>v. bindE (loss v) (\<lambda>r. Inr (opts\<lparr>io_filt := (io_filt opts)\<lparr>fc_loss_rate_up := r\<rparr>\<rparr>)))
       else if strncmp_equal ''-Ld'' arg 3 then
         option_value ipv4_show_usage argv cur ''ERROR: -Lu requires one argument.''
           (\<lambda>v. bindE (loss v) (\<lambda>r. Inr (opts\<lparr>io_filt := (io_filt opts)\<lparr>fc_loss_rate_dn := r\<rparr>\<rparr>)))
       else if strncmp_equal ''-h'' arg 3 then usage_exit ipv4_show_usage argv 0 None
       else usage_exit ipv4_show_usage argv 1 (Some (''ERROR: unrecognized option '' @ arg)))"

definition ipv4_addresses :: "libc \<Rightarrow> string list \<Rightarrow> int \<Rightarrow> ipv4_options \<Rightarrow> ipv4_options exits result" where
  "ipv4_addresses lc argv cur opts =
     (if io_listen opts
      then bindE (argv_at argv (cur + 1)) (\<lambda>port_arg.
        bindE (Address_of_hostname lc ''0'' port_arg) (\<lambda>source.
        bindE (Address_port lc source) (\<lambda>port.
          if port = 0 then usage_exit ipv4_show_usage argv 1 (Some ''ERROR: listen port cannot be zero in server mode.'')
          else Inr (Proceeds (opts\<lparr>io_filt := (io_filt opts)\<lparr>fc_source := source\<rparr>\<rparr>)))))
      else bindE (argv_at argv cur) (\<lambda>host. bindE (argv_at argv (cur + 1)) (\<lambda>port_arg.
        bindE (Address_of_hostname lc host port_arg) (\<lambda>destination.
        bindE (Address_of_hostname lc (io_source_address opts) (io_source_port opts)) (\<lambda>source.
          Inr (Proceeds (opts\<lparr>io_filt := (io_filt opts)\<lparr>fc_destination := destination, fc_source := source\<rparr>\<rparr>)))))))"

text \<open>\<open>random\<close> is the value of \<^verbatim>\<open>random_device()()\<close>.\<close>

definition ipv4_get_config :: "(string \<Rightarrow> u16 result) \<Rightarrow> libc \<Rightarrow> u32 \<Rightarrow> string list \<Rightarrow> ipv4_options exits result" where
  "ipv4_get_config loss lc random argv =
     bindE (FdAdapterConfig_new lc) (\<lambda>c_filt.
     bindE (options_loop (ipv4_step loss) argv 1
       \<lparr>io_fsm = TCPConfig_default, io_filt = c_filt, io_listen = False, io_tundev = None,
        io_source_address = LOCAL_ADDRESS_DFLT, io_source_port = dec_nat (unat (ucast random :: u16))\<rparr>) (\<lambda>r.
       case r of
         Exits code text \<Rightarrow> Inr (Exits code text)
       | Proceeds (cur, opts) \<Rightarrow> ipv4_addresses lc argv cur opts))"

section \<open>Options of tcp_ipv4\<close>

datatype ipv4_option = Common udp_option | Opt_a string | Opt_s string | Opt_d string

fun ipv4_render :: "ipv4_option \<Rightarrow> string list" where
  "ipv4_render (Common x) = udp_render x"
| "ipv4_render (Opt_a v) = [''-a'', v]"
| "ipv4_render (Opt_s v) = [''-s'', v]"
| "ipv4_render (Opt_d v) = [''-d'', v]"

fun ipv4_eff :: "(string \<Rightarrow> u16 result) \<Rightarrow> ipv4_option \<Rightarrow> ipv4_options \<Rightarrow> ipv4_options result" where
  "ipv4_eff loss (Common Opt_l) opts = Inr (opts\<lparr>io_listen := True\<rparr>)"
| "ipv4_eff loss (Common (Opt_w v)) opts = Inr (opts\<lparr>io_fsm := (io_fsm opts)\<lparr>cf_recv_capacity := of_int (strtol v)\<rparr>\<rparr>)"
| "ipv4_eff loss (Common (Opt_t v)) opts = Inr (opts\<lparr>io_fsm := (io_fsm opts)\<lparr>cf_rt_timeout := of_int (strtol v)\<rparr>\<rparr>)"
| "ipv4_eff loss (Common (Opt_Lu v)) opts = bindE (loss v) (\<lambda>r. Inr (opts\<lparr>io_filt := (io_filt opts)\<lparr>fc_loss_rate_up := r\<rparr>\<rparr>))"
| "ipv4_eff loss (Common (Opt_Ld v)) opts = bindE (loss v) (\<lambda>r. Inr (opts\<lparr>io_filt := (io_filt opts)\<lparr>fc_loss_rate_dn := r\<rparr>\<rparr>))"
| "ipv4_eff loss (Opt_a v) opts = Inr (opts\<lparr>io_source_address := v\<rparr>)"
| "ipv4_eff loss (Opt_s v) opts = Inr (opts\<lparr>io_source_port := v\<rparr>)"
| "ipv4_eff loss (Opt_d v) opts = Inr (opts\<lparr>io_tundev := Some v\<rparr>)"

interpretation ipv4_body: option_body "ipv4_step loss" ipv4_render "ipv4_eff loss" for loss
proof
  show "cur + 3 < argc argv" if "ipv4_step loss argv cur opts = Inr (Proceeds (Takes_two opts'))" for argv cur opts opts'
    using that by (auto simp: ipv4_step_def option_value_def usage_exit_def bindE_Inr_iff split: if_splits)
  show "length (ipv4_render x) = 1 \<or> length (ipv4_render x) = 2" for x
    using udp_body.render_length by (cases x) simp_all
  show "ipv4_step loss (before @ ipv4_render x @ rest) (int (length before)) opts
      = bindE (ipv4_eff loss x opts) (\<lambda>opts. Inr (Proceeds (if length (ipv4_render x) = 1 then Takes_one opts else Takes_two opts)))"
    if "2 \<le> length rest" for rest before x opts
    by (cases "(loss, x, opts)" rule: ipv4_eff.cases)
      (simp_all add: ipv4_step_def argv_at_append option_value_given [OF that] strncmp_equal_def bindE_assoc)
qed


lemma argv_last:
  "argv_at (argv0 # before @ [host, port]) (argc (argv0 # before @ [host, port]) - 2) = Inr host"
  "argv_at (argv0 # before @ [host, port]) (argc (argv0 # before @ [host, port]) - 1) = Inr port"
  using argv_at_append(1) [of "argv0 # before" host "[port]"] argv_at_append(2) [of "argv0 # before" host port "[]"] by (simp_all add: add.commute)

text \<open>The options of \<^verbatim>\<open>tcp_udp\<close> have their effects in order, and the addresses are the last two arguments.\<close>

lemma udp_get_config_reads_options:
  "udp_get_config loss lc (argv0 # concat (map udp_render xs) @ [host, port])
     = bindE (FdAdapterConfig_new lc) (\<lambda>filt.
       bindE (effs (udp_eff loss) xs \<lparr>uo_fsm = TCPConfig_default, uo_filt = filt, uo_listen = False\<rparr>) (\<lambda>opts.
       if uo_listen opts
       then bindE (Address_of_hostname lc ''0'' port) (\<lambda>source.
         Inr (Proceeds (opts\<lparr>uo_filt := (uo_filt opts)\<lparr>fc_source := source\<rparr>\<rparr>)))
       else bindE (Address_of_hostname lc host port) (\<lambda>destination.
         Inr (Proceeds (opts\<lparr>uo_filt := (uo_filt opts)\<lparr>fc_destination := destination\<rparr>\<rparr>)))))"
proof -
  let ?argv = "argv0 # concat (map udp_render xs) @ [host, port]" and ?cur = "1 + int (length (concat (map udp_render xs)))"
  have loop: "options_loop (udp_step loss) ?argv 1 opts = bindE (effs (udp_eff loss) xs opts) (\<lambda>opts. Inr (Proceeds (?cur, opts)))" for opts
    using udp_body.loop_reads [of loss "[argv0]"] by simp
  have split: "bindE (if b then m else m') f = (if b then bindE m f else bindE m' f)" for b and m m' :: "udp_options result" and f
    by simp
  show ?thesis
    unfolding udp_get_config_def loop bindE_assoc bindE_simps exits.case prod.case udp_addresses_def argv_last split ..
qed

text \<open>For any arguments at all, \<^verbatim>\<open>get_config\<close> reads only arguments that exist.\<close>

lemma bindE_Inl_iff: "bindE m f = Inl e \<longleftrightarrow> m = Inl e \<or> (\<exists>x. m = Inr x \<and> f x = Inl e)"
  by (cases m) auto

lemma option_value_bounds:
  assumes "0 \<le> cur" and "argv \<noteq> []" and "\<And>v. assign v \<noteq> Inl Undefined_behaviour"
  shows "option_value show_usage argv cur err assign \<noteq> Inl Undefined_behaviour"
  using assms by (auto simp: option_value_def usage_exit_def bindE_Inl_iff argv_at_def split: if_splits)

lemma ipv4_step_bounds:
  assumes "\<And>v. loss v \<noteq> Inl Undefined_behaviour" and "0 \<le> cur" and "cur < argc argv - 2"
  shows "ipv4_step loss argv cur opts \<noteq> Inl Undefined_behaviour"
  using assms unfolding ipv4_step_def
  by (auto split: if_splits simp: usage_exit_def bindE_Inl_iff argv_at_def option_value_bounds)

lemma udp_step_bounds:
  assumes "\<And>v. loss v \<noteq> Inl Undefined_behaviour" and "0 \<le> cur" and "cur < argc argv - 2"
  shows "udp_step loss argv cur opts \<noteq> Inl Undefined_behaviour"
  using assms unfolding udp_step_def
  by (auto split: if_splits simp: usage_exit_def bindE_Inl_iff argv_at_def option_value_bounds)

lemma stoi_bounds: "stoi s \<noteq> Inl Undefined_behaviour"
  by (simp add: stoi_def Let_def)

lemma Address_port_bounds: "Address_port lc a \<noteq> Inl Undefined_behaviour"
  by (auto simp: Address_port_def Address_ip_port_def stoi_bounds bindE_Inl_iff split: prod.splits if_splits)

lemma get_config_in_bounds:
  assumes "3 \<le> length argv" and "\<And>v. loss v \<noteq> Inl Undefined_behaviour"
    and "\<And>h s. Address_of_hostname lc h s \<noteq> Inl Undefined_behaviour" and "FdAdapterConfig_new lc \<noteq> Inl Undefined_behaviour"
  shows "ipv4_get_config loss lc random argv \<noteq> Inl Undefined_behaviour" and "udp_get_config loss lc argv \<noteq> Inl Undefined_behaviour"
proof -
  have ipv4: "options_loop (ipv4_step loss) argv 1 opts \<noteq> Inl Undefined_behaviour" for opts
    by (rule ipv4_body.loop_in_bounds) (use ipv4_step_bounds assms(2) in auto)
  have udp: "options_loop (udp_step loss) argv 1 opts \<noteq> Inl Undefined_behaviour" for opts
    by (rule udp_body.loop_in_bounds) (use udp_step_bounds assms(2) in auto)
  have left: "cur = argc argv - 2" if "options_loop (ipv4_step loss) argv 1 opts = Inr (Proceeds (cur, opts'))" for cur opts opts'
    using ipv4_body.loop_leaves_two [OF that] assms(1) by simp
  have positional: "ipv4_addresses lc argv (argc argv - 2) opts \<noteq> Inl Undefined_behaviour" for opts
    using assms by (auto simp: ipv4_addresses_def usage_exit_def Address_port_bounds bindE_Inl_iff argv_at_def split: if_splits)
  show "ipv4_get_config loss lc random argv \<noteq> Inl Undefined_behaviour"
    unfolding ipv4_get_config_def using ipv4 positional assms(4)
    by (auto simp: bindE_Inl_iff split: exits.splits dest!: left)
  show "udp_get_config loss lc argv \<noteq> Inl Undefined_behaviour"
    unfolding udp_get_config_def using udp assms
    by (auto simp: udp_addresses_def bindE_Inl_iff argv_at_def split: exits.splits if_splits)
qed

section \<open>Properties\<close>

text \<open>
  C37: \<^verbatim>\<open>get_config\<close> of \<^verbatim>\<open>tcp_ipv4\<close> understands every sequence of options: printed options are read back and take
  effect in the order they are given, a later one overriding an earlier one.  The last two arguments are the peer in client
  mode, with the source address of the options; in server mode the port is bound on all addresses and the host is ignored, and a
  port of zero is refused.
\<close>

theorem ipv4_get_config_reads_options:
  "ipv4_get_config loss lc random (argv0 # concat (map ipv4_render xs) @ [host, port])
     = bindE (FdAdapterConfig_new lc) (\<lambda>filt.
       bindE (effs (ipv4_eff loss) xs
         \<lparr>io_fsm = TCPConfig_default, io_filt = filt, io_listen = False, io_tundev = None,
          io_source_address = ''169.254.144.9'', io_source_port = dec_nat (unat random mod 65536)\<rparr>) (\<lambda>opts.
       if io_listen opts
       then bindE (Address_of_hostname lc ''0'' port) (\<lambda>source. bindE (Address_port lc source) (\<lambda>p. Inr (
         if p = 0 then Exits 1 (ipv4_show_usage argv0 (Some ''ERROR: listen port cannot be zero in server mode.''))
         else Proceeds (opts\<lparr>io_filt := (io_filt opts)\<lparr>fc_source := source\<rparr>\<rparr>))))
       else bindE (Address_of_hostname lc host port) (\<lambda>destination.
         bindE (Address_of_hostname lc (io_source_address opts) (io_source_port opts)) (\<lambda>source.
           Inr (Proceeds (opts\<lparr>io_filt := (io_filt opts)\<lparr>fc_destination := destination, fc_source := source\<rparr>\<rparr>))))))"
proof -
  let ?argv = "argv0 # concat (map ipv4_render xs) @ [host, port]" and ?cur = "1 + int (length (concat (map ipv4_render xs)))"
  have loop: "options_loop (ipv4_step loss) ?argv 1 opts = bindE (effs (ipv4_eff loss) xs opts) (\<lambda>opts. Inr (Proceeds (?cur, opts)))" for opts
    using ipv4_body.loop_reads [of loss "[argv0]"] by simp
  have "?cur = argc ?argv - 2" "?cur + 1 = argc ?argv - 1" by simp_all
  then have at: "argv_at ?argv ?cur = Inr host" "argv_at ?argv (?cur + 1) = Inr port" using argv_last by (simp_all only:)
  have zero: "argv_at ?argv 0 = Inr argv0" by (simp add: argv_at_def)
  have rnd: "unat (ucast random :: u16) = unat random mod 65536" by (simp add: unsigned_ucast_eq take_bit_eq_mod)
  show ?thesis
    unfolding ipv4_get_config_def loop bindE_assoc bindE_simps exits.case prod.case ipv4_addresses_def at usage_exit_def zero
      LOCAL_ADDRESS_DFLT_def rnd if_distrib [where f = Inr] ..
qed

end
