(* ===== verification/Packet_Dump.thy ===== *)
theory Packet_Dump
  imports Command_Line Adapter_Laws
begin

text \<open>
  The two programs that print packets: \<^verbatim>\<open>apps/udp_tcpdump.cc\<close>, which looks for TCP segments in captured UDP
  datagrams, and \<^verbatim>\<open>apps/tun.cc\<close>, which reads datagrams from a TUN device.  The capture library is a parameter: a list of
  what \<^verbatim>\<open>pcap_next_ex\<close> returns.  A captured packet is its \<^verbatim>\<open>caplen\<close> bytes; reading beyond them is undefined behaviour.
\<close>

section \<open>Arguments of udp_tcpdump\<close>

definition dump_show_usage :: "string \<Rightarrow> string option \<Rightarrow> string" where
  "dump_show_usage arg0 errmsg =
     ''Usage: '' @ arg0 @ '' [-i <intf>] [-F <file>] [-h|--help] <expression>'' @ nl @ nl
     @ ''  -i <intf>    only capture packets from <intf> (default: all)'' @ nl @ nl
     @ ''  -F <file>    reads in a filter expression from <file>'' @ nl
     @ ''               <expression> is ignored if -F is supplied.'' @ nl @ nl
     @ ''  -h, --help   show this message'' @ nl @ nl
     @ ''  <expression> a filter expression in pcap-filter(7) syntax'' @ nl
     @ (case errmsg of None \<Rightarrow> [] | Some m \<Rightarrow> nl @ m) @ nl"

text \<open>The loop of \<^verbatim>\<open>parse_arguments\<close>; the result is the index of the filter expression and the device.\<close>

function parse_arguments :: "string list \<Rightarrow> int \<Rightarrow> string option \<Rightarrow> (int \<times> string option) exits result" where
  "parse_arguments argv cur dev =
     (if cur < argc argv then
        (case argv_at argv cur of
           Inl e \<Rightarrow> Inl e
         | Inr arg \<Rightarrow>
             if strncmp_equal ''-i'' arg 3 then
               if cur + 1 \<ge> argc argv then usage_exit dump_show_usage argv 1 (Some ''ERROR: -i requires an argument'')
               else (case argv_at argv (cur + 1) of Inl e \<Rightarrow> Inl e | Inr v \<Rightarrow> parse_arguments argv (cur + 2) (Some v))
             else if strncmp_equal ''-h'' arg 3 \<or> strncmp_equal ''--help'' arg 7 then usage_exit dump_show_usage argv 0 None
             else Inr (Proceeds (cur, dev)))
      else Inr (Proceeds (cur, dev)))"
  by pat_completeness auto
termination
  by (relation "measure (\<lambda>(argv, cur, dev). nat (argc argv - cur))") auto

declare parse_arguments.simps [simp del]

text \<open>The filter expression: the arguments that follow, each with a space.\<close>

definition filter_expression :: "string list \<Rightarrow> int \<Rightarrow> string" where
  "filter_expression argv exp_start = concat (map (\<lambda>a. a @ '' '') (drop (nat exp_start) argv))"

section \<open>IPv4 and IPv6 headers\<close>

definition byte_at :: "bytes \<Rightarrow> int \<Rightarrow> u8 result" where
  "byte_at data i = (if 0 \<le> i \<and> i < int (length data) then Inr (data ! nat i) else Inl Undefined_behaviour)"

definition AF_INET6 :: int where
  "AF_INET6 = 10"

text \<open>\<open>ntop\<close> is \<^verbatim>\<open>inet_ntop\<close>, which reads 4 or 16 bytes at the address it is given.\<close>

definition inet_addr :: "(int \<Rightarrow> bytes \<Rightarrow> string option) \<Rightarrow> int \<Rightarrow> nat \<Rightarrow> bytes \<Rightarrow> nat \<Rightarrow> string result" where
  "inet_addr ntop family width data off =
     (if off + width > length data then Inl Undefined_behaviour
      else Inr (case ntop family (take width (drop off data)) of None \<Rightarrow> ''unknown'' | Some s \<Rightarrow> s))"

definition inet4_addr :: "(int \<Rightarrow> bytes \<Rightarrow> string option) \<Rightarrow> bytes \<Rightarrow> nat \<Rightarrow> string result" where
  "inet4_addr ntop data off = inet_addr ntop AF_INET 4 data off"

definition inet6_addr :: "(int \<Rightarrow> bytes \<Rightarrow> string option) \<Rightarrow> bytes \<Rightarrow> nat \<Rightarrow> string result" where
  "inet6_addr ntop data off = inet_addr ntop AF_INET6 16 data off"

lemma header_advances: "\<not> len < 10 + (off + 8 * uint (b :: u8)) \<Longrightarrow> off < len \<and> - 1 < uint b"
proof -
  have "0 \<le> uint b" by simp
  moreover assume "\<not> len < 10 + (off + 8 * uint b)"
  ultimately show ?thesis by linarith
qed

text \<open>The loop over the extension headers of IPv6: the offset of the UDP header or -1, and the text for \<^verbatim>\<open>cerr\<close>.\<close>

function ipv6_headers :: "int \<Rightarrow> bytes \<Rightarrow> u8 \<Rightarrow> int \<Rightarrow> (int \<times> string) result" where
  "ipv6_headers len data nxt data_offset =
     (if nxt = 0x11 then Inr (data_offset, [])
      else if nxt \<noteq> 0 \<and> nxt \<noteq> 43 \<and> nxt \<noteq> 60 then Inr (- 1, ''Not UDP or fragmented; '')
      else
        (case byte_at data data_offset of
           Inl e \<Rightarrow> Inl e
         | Inr nxt \<Rightarrow>
             (case byte_at data (data_offset + 1) of
                Inl e \<Rightarrow> Inl e
              | Inr b \<Rightarrow>
                  let data_offset' = data_offset + 8 * (1 + uint b) in
                  if len < data_offset' + 2 then Inr (- 1, []) else ipv6_headers len data nxt data_offset')))"
  by pat_completeness auto
termination
  by (relation "measure (\<lambda>(len, data, nxt, data_offset). nat (len - data_offset))") (auto dest: header_advances)

declare ipv6_headers.simps [simp del]

text \<open>The result, the source and destination as text, and what goes to \<^verbatim>\<open>cerr\<close>.\<close>

definition process_ipv4_ipv6 :: "(int \<Rightarrow> bytes \<Rightarrow> string option) \<Rightarrow> int \<Rightarrow> bytes \<Rightarrow> (int \<times> string \<times> string \<times> string) result" where
  "process_ipv4_ipv6 ntop len data =
     (if len < 1 then Inr (- 1, [], [], [])
      else bindE (byte_at data 0) (\<lambda>b0.
        let pt = b0 AND 0xf0 in
        if pt = 0x40 then
          let data_offset = uint (b0 AND 0x0f) * 4 in
          if len < data_offset then Inr (- 1, [], [], [])
          else bindE (byte_at data 9) (\<lambda>proto.
            if proto \<noteq> 0x11 then Inr (- 1, [], [], ''Not UDP; '')
            else bindE (inet4_addr ntop data 12) (\<lambda>src_addr.
              bindE (inet4_addr ntop data 16) (\<lambda>dst_addr. Inr (data_offset + 8, src_addr, dst_addr, []))))
        else if pt = 0x60 then
          if len < 42 then Inr (- 1, [], [], [])
          else bindE (byte_at data 6) (\<lambda>nxt.
            bindE (ipv6_headers len data nxt 40) (\<lambda>(data_offset, err).
              if data_offset < 0 then Inr (- 1, [], [], err)
              else bindE (inet6_addr ntop data 8) (\<lambda>src_addr.
                bindE (inet6_addr ntop data 24) (\<lambda>dst_addr. Inr (data_offset + 8, src_addr, dst_addr, [])))))
        else Inr (- 1, [], [], [])))"

section \<open>One packet\<close>

datatype Datalink = DLT_NULL | DLT_EN10MB | DLT_LINUX_SLL | DLT_LINUX_SLL2 | DLT_RAW | DLT_other

datatype link = Link_header nat | Skip string | Give_up string

definition malformed :: link where
  "malformed = Skip (''[INFO] Skipping malformed packet.'' @ nl)"

definition non_IP :: link where
  "non_IP = Skip (''[INFO] Skipping non-IP packet.'' @ nl)"

text \<open>The header of the link layer: the type of the packet in two bytes at \<open>at\<close>.\<close>

definition ether_type :: "bytes \<Rightarrow> nat \<Rightarrow> nat \<Rightarrow> link result" where
  "ether_type pkt_data hdr_off at =
     (if length pkt_data < hdr_off then Inr malformed
      else bindE (byte_at pkt_data (int at)) (\<lambda>hi. bindE (byte_at pkt_data (int at + 1)) (\<lambda>lo.
        let pt = push_bit 8 (ucast hi) OR ucast lo :: u16 in
        Inr (if pt \<noteq> 0x0800 \<and> pt \<noteq> 0x86dd then non_IP else Link_header hdr_off))))"

fun link_header :: "Datalink \<Rightarrow> bytes \<Rightarrow> link result" where
  "link_header DLT_NULL pkt_data =
     (if length pkt_data < 4 then Inr malformed
      else bindE (byte_at pkt_data 3) (\<lambda>pt.
        Inr (if pt \<noteq> 2 \<and> pt \<noteq> 24 \<and> pt \<noteq> 28 \<and> pt \<noteq> 30 then non_IP else Link_header 4)))"
| "link_header DLT_EN10MB pkt_data = ether_type pkt_data 14 12"
| "link_header DLT_LINUX_SLL pkt_data = ether_type pkt_data 16 14"
| "link_header DLT_LINUX_SLL2 pkt_data = ether_type pkt_data 20 0"
| "link_header DLT_RAW pkt_data = Inr (Link_header 0)"
| "link_header DLT_other pkt_data = Inr (Give_up ''Mysterious datalink type. Giving up.'')"

definition print_header :: "string \<Rightarrow> string \<Rightarrow> TCPSegment \<Rightarrow> ParseResult \<Rightarrow> nat \<Rightarrow> string" where
  "print_header src dst seg res payload_len =
     (let tcp_hdr = sg_header seg; seqlen = ucast (TCPSegment_length_in_sequence_space seg) :: u32 in
      src @ '':'' @ dec_nat (unat (th_sport tcp_hdr)) @ '' > '' @ dst @ '':'' @ dec_nat (unat (th_dport tcp_hdr)) @ nl @ ''    Flags [''
      @ (if th_urg tcp_hdr then ''U'' else []) @ (if th_psh tcp_hdr then ''P'' else []) @ (if th_rst tcp_hdr then ''R'' else [])
      @ (if th_syn tcp_hdr then ''S'' else []) @ (if th_fin tcp_hdr then ''F'' else []) @ (if th_ack tcp_hdr then ''.'' else [])
      @ ''] cksum 0x'' @ setw 4 (hex_nat (unat (th_cksum tcp_hdr)))
      @ (if res = NoError then '' (correct)'' else '' (incorrect!)'')
      @ '' seq '' @ dec_nat (unat (raw_value (th_seqno tcp_hdr)))
      @ (if seqlen > 0 then '':'' @ dec_nat (unat (raw_value (WrappingInt32_plus (th_seqno tcp_hdr) seqlen))) else [])
      @ '' ack '' @ dec_nat (unat (raw_value (th_ackno tcp_hdr))) @ '' win '' @ dec_nat (unat (th_win tcp_hdr))
      @ '' length '' @ dec_nat payload_len @ nl)"

definition print_payload :: "string \<Rightarrow> string \<Rightarrow> bytes \<Rightarrow> string result" where
  "print_payload src dst payload =
     bindE (TCPSegment_parse TCPSegment_default (Buffer_of_string payload) 0) (\<lambda>(seg, res).
       let line = (if ParseResult_index res > ParseResult_index BadChecksum
                   then ''(did not recognize TCP header) src: '' @ src @ '' dst: '' @ dst @ nl
                   else print_header src dst seg res (length payload)) in
       bindE (hexdump payload 8) (\<lambda>dump. Inr (line @ dump)))"

datatype dumped = Printed string | Skipped string | Gave_up string

text \<open>
  The body of the loop, from the link layer on.  The difference of \<^verbatim>\<open>caplen\<close> and \<^verbatim>\<open>hdr_off\<close> is converted to \<^verbatim>\<open>int\<close>; a
  \<^verbatim>\<open>string_view\<close> must lie within the packet.
\<close>

definition dump_packet :: "(int \<Rightarrow> bytes \<Rightarrow> string option) \<Rightarrow> Datalink \<Rightarrow> bytes \<Rightarrow> dumped result" where
  "dump_packet ntop dl_type pkt_data =
     bindE (link_header dl_type pkt_data) (\<lambda>l. case l of
       Skip text \<Rightarrow> Inr (Skipped text)
     | Give_up text \<Rightarrow> Inr (Gave_up text)
     | Link_header hdr_off \<Rightarrow>
         bindE (process_ipv4_ipv6 ntop (to_int (int (length pkt_data) - int hdr_off)) (drop hdr_off pkt_data)) (\<lambda>(start_off, src, dst, err).
           if start_off < 0 then Inr (Skipped (err @ ''Error parsing IPv4/IPv6 packet. Skipping.'' @ nl))
           else
             let payload_off = hdr_off + nat start_off in
             if payload_off > length pkt_data then Inl Undefined_behaviour
             else bindE (print_payload src dst (drop payload_off pkt_data)) (\<lambda>text. Inr (Printed text))))"

text \<open>
  The loop over the packets, for the values of \<^verbatim>\<open>pcap_next_ex\<close> in \<open>events\<close>: its return value and the packet.  The result is the
  text on \<^verbatim>\<open>cout\<close> and the exit code, or \<open>None\<close> if the program is still waiting for packets.  After an error it asks the
  handle for its message, but only after it has closed the handle.
\<close>

fun dump_loop :: "(int \<Rightarrow> bytes \<Rightarrow> string option) \<Rightarrow> Datalink \<Rightarrow> string \<Rightarrow> (int \<times> bytes) list \<Rightarrow> (string \<times> int) result option" where
  "dump_loop ntop dl_type out [] = None"
| "dump_loop ntop dl_type out ((next_ret, pkt_data) # events) =
     (if next_ret < 0 then Some (if next_ret = - 1 then Inl Undefined_behaviour else Inr (out, 0))
      else if next_ret = 0 then dump_loop ntop dl_type out events
      else (case dump_packet ntop dl_type pkt_data of
          Inl e \<Rightarrow> Some (Inl e)
        | Inr (Printed text) \<Rightarrow> dump_loop ntop dl_type (out @ text) events
        | Inr (Skipped text) \<Rightarrow> dump_loop ntop dl_type out events
        | Inr (Gave_up text) \<Rightarrow> Some (Inr (out, 1))))"

section \<open>tun\<close>

text \<open>One round of the loop of \<^verbatim>\<open>apps/tun.cc\<close>: what is printed for the bytes read from the device.\<close>

definition tun_packet :: "bytes \<Rightarrow> string result" where
  "tun_packet buffer =
     bindE (hexdump buffer 0) (\<lambda>dump.
     let got = nl @ nl @ ''***'' @ nl @ ''*** Got packet:'' @ nl @ ''***'' @ nl @ dump @ ''attempting to parse as ipv4 datagram... '' in
     bindE (IPv4Datagram_parse IPv4Datagram_default (Buffer_of_string buffer)) (\<lambda>(ip_dgram, res).
     if res \<noteq> NoError then Inr (got @ ''failed.'' @ nl)
     else
       let h = dg_header ip_dgram;
           got = got @ ''success! totlen='' @ dec_nat (unat (ih_len h)) @ '', IPv4 header contents:'' @ nl @ IPv4Header_to_string h in
       if ih_proto h \<noteq> IPv4Header_PROTO_TCP then Inr (got @ nl @ ''Not TCP, skipping.'' @ nl)
       else
         let got = got @ nl @ ''Attempting to parse as a TCP segment... '' in
         bindE (BufferList_to_Buffer (dg_payload ip_dgram)) (\<lambda>payload.
         bindE (TCPSegment_parse TCPSegment_default payload (IPv4Header_pseudo_cksum h)) (\<lambda>(tcp_seg, res).
         if res \<noteq> NoError then Inr (got @ ''failed.'' @ nl)
         else Inr (got @ ''success! payload len='' @ dec_nat (unat (Buffer_size (sg_payload tcp_seg))) @ '', TCP header contents:'' @ nl
           @ TCPHeader_to_string (sg_header tcp_seg) @ nl)))))"

section \<open>Which packets are read within their bounds\<close>

lemma byte_at_ok: "0 \<le> i \<Longrightarrow> i < int (length data) \<Longrightarrow> byte_at data i = Inr (data ! nat i)"
  by (simp add: byte_at_def)

lemma ipv6_headers_in_bounds:
  assumes "len = int (length data)" and "0 \<le> off" and "off + 2 \<le> len"
  shows "\<exists>r err. ipv6_headers len data nxt off = Inr (r, err) \<and> (r = - 1 \<or> off \<le> r \<and> r + 2 \<le> len)"
  using assms
proof (induction len data nxt off rule: ipv6_headers.induct)
  case (1 len data nxt off)
  have at: "byte_at data off = Inr (data ! nat off)" "byte_at data (off + 1) = Inr (data ! nat (off + 1))"
    using 1(2-4) by (simp_all add: byte_at_ok)
  let ?off = "off + 8 * (1 + uint (data ! nat (off + 1)))"
  have "0 \<le> uint (data ! nat (off + 1))" by simp
  then have lt: "off < ?off" unfolding distrib_left by linarith
  show ?case
  proof (cases "nxt \<noteq> 0x11 \<and> (nxt = 0 \<or> nxt = 43 \<or> nxt = 60) \<and> \<not> len < ?off + 2")
    case True
    then have "\<exists>r err. ipv6_headers len data (data ! nat off) ?off = Inr (r, err) \<and> (r = - 1 \<or> ?off \<le> r \<and> r + 2 \<le> len)"
      using 1(1) [OF _ _ at refl] 1(2,3) lt by auto
    moreover have "ipv6_headers len data nxt off = ipv6_headers len data (data ! nat off) ?off"
      using True at by (subst ipv6_headers.simps) (auto simp: Let_def)
    ultimately show ?thesis using lt by force
  next
    case False
    then show ?thesis using at 1(4) by (subst ipv6_headers.simps) (auto simp: Let_def)
  qed
qed

text \<open>
  A packet as the program needs it: the IPv4 header, and the UDP header behind either header, must have been captured.
\<close>

definition ip_readable :: "bytes \<Rightarrow> bool" where
  "ip_readable ip \<longleftrightarrow>
     (if ip = [] then True
      else if hd ip AND 0xf0 = 0x40 \<and> 4 * unat (hd ip AND 0x0f) \<le> length ip
      then 10 \<le> length ip \<and> (ip ! 9 = 0x11 \<longrightarrow> 20 \<le> length ip \<and> 4 * unat (hd ip AND 0x0f) + 8 \<le> length ip)
      else if hd ip AND 0xf0 = 0x60 \<and> 42 \<le> length ip
      then (case ipv6_headers (int (length ip)) ip (ip ! 6) 40 of Inr (off, _) \<Rightarrow> off + 8 \<le> int (length ip) | _ \<Rightarrow> False)
      else True)"

lemma print_payload_returns:
  assumes "length payload < 2 ^ 31"
  obtains t where "print_payload src dst payload = Inr t"
proof -
  have "outcome (\<lambda>_. False) (\<lambda>(seg, verdict). verdict = NoError \<longrightarrow> seg_ok seg) (TCPSegment_parse TCPSegment_default (Buffer_of_string payload) 0)"
    using assms by (intro TCPSegment_parse_outcome) (simp_all add: two64_def)
  then obtain seg res where "TCPSegment_parse TCPSegment_default (Buffer_of_string payload) 0 = Inr (seg, res)"
    by (auto simp: outcome_def split: sum.splits)
  moreover obtain dump where "hexdump payload 8 = Inr dump" using assms
    by (cases "hexdump_loop (replicate 8 (CHR '' '')) [] 0 (stringstream_of '' '') payload") (auto simp: hexdump_def Let_def)
  ultimately show ?thesis using that by (simp add: print_payload_def Let_def)
qed

lemma process_ipv4:
  assumes "ip \<noteq> []" and "hd ip AND 0xf0 = 0x40"
  shows "process_ipv4_ipv6 ntop (int (length ip)) ip =
    (if length ip < 4 * unat (hd ip AND 0x0f) then Inr (- 1, [], [], [])
     else if length ip < 10 then Inl Undefined_behaviour
     else if ip ! 9 \<noteq> 0x11 then Inr (- 1, [], [], ''Not UDP; '')
     else if length ip < 20 then Inl Undefined_behaviour
     else Inr (int (4 * unat (hd ip AND 0x0f) + 8),
       (case ntop AF_INET (take 4 (drop 12 ip)) of None \<Rightarrow> ''unknown'' | Some s \<Rightarrow> s),
       (case ntop AF_INET (take 4 (drop 16 ip)) of None \<Rightarrow> ''unknown'' | Some s \<Rightarrow> s), []))"
proof -
  have b0: "byte_at ip 0 = Inr (hd ip)" using assms(1) by (simp add: byte_at_def hd_conv_nth)
  have len: "\<not> int (length ip) < 1" "int (length ip) < uint (hd ip AND 0x0f) * 4 \<longleftrightarrow> length ip < 4 * unat (hd ip AND 0x0f)"
  proof -
    have u: "uint (hd ip AND 0x0f) = int (unat (hd ip AND 0x0f))" by simp
    show "\<not> int (length ip) < 1" using assms(1) by (cases ip) simp_all
    show "int (length ip) < uint (hd ip AND 0x0f) * 4 \<longleftrightarrow> length ip < 4 * unat (hd ip AND 0x0f)" unfolding u by linarith
  qed
  show ?thesis
    using assms(2) len(1) unfolding process_ipv4_ipv6_def b0 bindE_simps Let_def len(2)
    by (simp add: byte_at_def inet4_addr_def inet_addr_def)
qed

lemma process_ipv6:
  assumes "hd ip AND 0xf0 = 0x60" and "42 \<le> length ip"
  obtains off err where "ipv6_headers (int (length ip)) ip (ip ! 6) 40 = Inr (off, err)"
    and "process_ipv4_ipv6 ntop (int (length ip)) ip =
    Inr (if off < 0 then (- 1, [], [], err) else (off + 8,
       (case ntop AF_INET6 (take 16 (drop 8 ip)) of None \<Rightarrow> ''unknown'' | Some s \<Rightarrow> s),
       (case ntop AF_INET6 (take 16 (drop 24 ip)) of None \<Rightarrow> ''unknown'' | Some s \<Rightarrow> s), []))"
proof -
  have b0: "byte_at ip 0 = Inr (hd ip)" "byte_at ip 6 = Inr (ip ! 6)" using assms(2) by (auto simp: byte_at_def hd_conv_nth)
  obtain off err where h: "ipv6_headers (int (length ip)) ip (ip ! 6) 40 = Inr (off, err)"
    using ipv6_headers_in_bounds [of "int (length ip)" ip 40 "ip ! 6"] assms(2) by auto
  have "\<not> int (length ip) < 1" "\<not> int (length ip) < 42" using assms(2) by linarith+
  then have "process_ipv4_ipv6 ntop (int (length ip)) ip =
    Inr (if off < 0 then (- 1, [], [], err) else (off + 8,
       (case ntop AF_INET6 (take 16 (drop 8 ip)) of None \<Rightarrow> ''unknown'' | Some s \<Rightarrow> s),
       (case ntop AF_INET6 (take 16 (drop 24 ip)) of None \<Rightarrow> ''unknown'' | Some s \<Rightarrow> s), []))"
    using assms unfolding process_ipv4_ipv6_def b0 bindE_simps Let_def h prod.case by (simp add: inet6_addr_def inet_addr_def)
  with that h show ?thesis by blast
qed

lemma process_other:
  assumes "ip = [] \<or> hd ip AND 0xf0 \<noteq> 0x40 \<and> (hd ip AND 0xf0 \<noteq> 0x60 \<or> length ip < 42)"
  shows "process_ipv4_ipv6 ntop (int (length ip)) ip = Inr (- 1, [], [], [])"
proof (cases "ip = []")
  case False
  then have "byte_at ip 0 = Inr (hd ip)" by (simp add: byte_at_def hd_conv_nth)
  with assms False show ?thesis by (auto simp: process_ipv4_ipv6_def)
qed (simp add: process_ipv4_ipv6_def)

lemma header_end: "4 * uint (w :: u8) + 8 \<le> int n \<longleftrightarrow> 4 * unat w + 8 \<le> n"
proof -
  have u: "uint w = int (unat w)" by simp
  show ?thesis unfolding u by linarith
qed

lemma process_verdict:
  "ip_readable ip \<longleftrightarrow> (\<exists>off src dst err. process_ipv4_ipv6 ntop (int (length ip)) ip = Inr (off, src, dst, err) \<and> off \<le> int (length ip))"
  "process_ipv4_ipv6 ntop (int (length ip)) ip = Inl e \<Longrightarrow> e = Undefined_behaviour"
proof -
  consider "ip \<noteq> []" "hd ip AND 0xf0 = 0x40" | "hd ip AND 0xf0 = 0x60" "42 \<le> length ip"
    | "ip = [] \<or> hd ip AND 0xf0 \<noteq> 0x40 \<and> (hd ip AND 0xf0 \<noteq> 0x60 \<or> length ip < 42)" by linarith
  then have "(ip_readable ip \<longleftrightarrow> (\<exists>off src dst err. process_ipv4_ipv6 ntop (int (length ip)) ip = Inr (off, src, dst, err) \<and> off \<le> int (length ip)))
    \<and> (process_ipv4_ipv6 ntop (int (length ip)) ip = Inl e \<longrightarrow> e = Undefined_behaviour)"
  proof cases
    case 1
    show ?thesis unfolding process_ipv4 [OF 1] using 1 by (simp add: ip_readable_def header_end)
  next
    case 2
    obtain off err where h: "ipv6_headers (int (length ip)) ip (ip ! 6) 40 = Inr (off, err)"
      "process_ipv4_ipv6 ntop (int (length ip)) ip = Inr (if off < 0 then (- 1, [], [], err) else (off + 8,
       (case ntop AF_INET6 (take 16 (drop 8 ip)) of None \<Rightarrow> ''unknown'' | Some s \<Rightarrow> s),
       (case ntop AF_INET6 (take 16 (drop 24 ip)) of None \<Rightarrow> ''unknown'' | Some s \<Rightarrow> s), []))"
      by (rule process_ipv6 [OF 2])
    have "ip_readable ip \<longleftrightarrow> off + 8 \<le> int (length ip)" using 2 h(1) by (auto simp: ip_readable_def)
    then show ?thesis unfolding h(2) using 2 by auto
  next
    case 3
    then show ?thesis unfolding process_other [OF 3] by (auto simp: ip_readable_def)
  qed
  then show "ip_readable ip \<longleftrightarrow> (\<exists>off src dst err. process_ipv4_ipv6 ntop (int (length ip)) ip = Inr (off, src, dst, err) \<and> off \<le> int (length ip))"
    "process_ipv4_ipv6 ntop (int (length ip)) ip = Inl e \<Longrightarrow> e = Undefined_behaviour" by blast+
qed

lemma link_header_returns:
  obtains l where "link_header dl_type pkt_data = Inr l" and "\<And>n. l = Link_header n \<Longrightarrow> n \<le> length pkt_data"
proof -
  have "\<exists>l. ether_type pkt_data n at = Inr l \<and> (\<forall>m. l = Link_header m \<longrightarrow> m \<le> length pkt_data)" if "at + 1 < n" for n at
    using that by (auto simp: ether_type_def malformed_def non_IP_def byte_at_def Let_def)
  then have "\<exists>l. link_header dl_type pkt_data = Inr l \<and> (\<forall>n. l = Link_header n \<longrightarrow> n \<le> length pkt_data)"
    by (cases dl_type) (auto simp: malformed_def non_IP_def byte_at_def)
  with that show ?thesis by blast
qed

lemma tun_packet_returns:
  assumes "length buffer < 2 ^ 31"
  shows "\<exists>t. tun_packet buffer = Inr t"
proof -
  obtain dump where d: "hexdump buffer 0 = Inr dump" using assms
    by (cases "hexdump_loop (replicate 0 (CHR '' '')) [] 0 (stringstream_of '' '') buffer") (auto simp: hexdump_def Let_def)
  have "outcome (\<lambda>_. False) (\<lambda>(d, _). \<exists>c. dg_payload d = BufferList_of_Buffer c \<and> Buffer_wf c \<and> length (Buffer_str c) < 2 ^ 31)
    (IPv4Datagram_parse IPv4Datagram_default (Buffer_of_string buffer))"
    using assms by (intro IPv4Datagram_parse_outcome) (simp_all add: two64_def)
  then obtain ip res c where ip: "IPv4Datagram_parse IPv4Datagram_default (Buffer_of_string buffer) = Inr (ip, res)"
    "dg_payload ip = BufferList_of_Buffer c" "Buffer_wf c" "length (Buffer_str c) < 2 ^ 31"
    by (auto simp: outcome_def split: sum.splits)
  have b: "BufferList_to_Buffer (BufferList_of_Buffer c) = Inr c" by (simp add: BufferList_to_Buffer_def BufferList_of_Buffer_def)
  have "outcome (\<lambda>_. False) (\<lambda>(seg, verdict). verdict = NoError \<longrightarrow> seg_ok seg)
    (TCPSegment_parse TCPSegment_default c (IPv4Header_pseudo_cksum (dg_header ip)))"
    by (rule TCPSegment_parse_outcome [OF ip(3,4)])
  then obtain seg res' where "TCPSegment_parse TCPSegment_default c (IPv4Header_pseudo_cksum (dg_header ip)) = Inr (seg, res')"
    by (auto simp: outcome_def split: sum.splits)
  then show ?thesis using d ip b by (auto simp: tun_packet_def Let_def)
qed

section \<open>Properties\<close>

text \<open>
  C36: \<^verbatim>\<open>udp_tcpdump\<close> prints a captured packet, of any type of link and any contents, exactly if it is no IP packet or its
  bytes reach as far as \<^verbatim>\<open>process_ipv4_ipv6\<close> looks.  The program checks neither: for every other packet it reads beyond the end
  of the captured data.
\<close>

theorem dump_packet_in_bounds:
  assumes "length pkt_data \<le> 65535"
  shows "((\<exists>d. dump_packet ntop dl_type pkt_data = Inr d)
      \<longleftrightarrow> (\<forall>hdr_off. link_header dl_type pkt_data = Inr (Link_header hdr_off) \<longrightarrow> ip_readable (drop hdr_off pkt_data)))
    \<and> (\<forall>e. dump_packet ntop dl_type pkt_data = Inl e \<longrightarrow> e = Undefined_behaviour)"
proof -
  obtain l where l: "link_header dl_type pkt_data = Inr l" and le: "\<And>n. l = Link_header n \<Longrightarrow> n \<le> length pkt_data"
    using link_header_returns [of dl_type pkt_data] by blast
  show ?thesis
  proof (cases l)
    case (Link_header n)
    let ?ip = "drop n pkt_data" and ?r = "process_ipv4_ipv6 ntop (int (length (drop n pkt_data))) (drop n pkt_data)"
    have "n \<le> length pkt_data" using le Link_header by simp
    then have len: "to_int (int (length pkt_data) - int n) = int (length ?ip)"
      using assms by (subst to_int_id) (simp_all add: of_nat_diff)
    show ?thesis
    proof (cases ?r)
      case (Inl e)
      with process_verdict [where ip = ?ip and ntop = ntop] l Link_header len show ?thesis by (auto simp: dump_packet_def)
    next
      case (Inr q)
      obtain off src dst err where q: "q = (off, src, dst, err)" by (cases q)
      obtain t where t: "print_payload src dst (drop (n + nat off) pkt_data) = Inr t"
        by (rule print_payload_returns [where payload = "drop (n + nat off) pkt_data" and src = src and dst = dst]) (use assms in simp)
      have ok: "ip_readable ?ip \<longleftrightarrow> off \<le> int (length ?ip)" using process_verdict(1) [where ip = ?ip and ntop = ntop] Inr q by auto
      have "n + nat off > length pkt_data \<longleftrightarrow> \<not> off \<le> int (length ?ip)" if "0 \<le> off"
        using that \<open>n \<le> length pkt_data\<close> by (auto simp: of_nat_diff)
      with ok t q Inr l Link_header len show ?thesis by (auto simp: dump_packet_def Let_def)
    qed
  qed (use l in \<open>auto simp: dump_packet_def\<close>)
qed

text \<open>One byte that says version 4 is enough.\<close>

theorem dump_packet_in_bounds_witness: "dump_packet (\<lambda>_ _. None) DLT_RAW [0x40] = Inl Undefined_behaviour"
proof -
  have "link_header DLT_RAW [0x40] = Inr (Link_header 0)" "\<not> ip_readable [0x40]" by code_simp+
  with dump_packet_in_bounds [of "[0x40]" "\<lambda>_ _. None" DLT_RAW] have "\<nexists>d. dump_packet (\<lambda>_ _. None) DLT_RAW [0x40] = Inr d"
    and "\<forall>e. dump_packet (\<lambda>_ _. None) DLT_RAW [0x40] = Inl e \<longrightarrow> e = Undefined_behaviour" by auto
  then show ?thesis by (cases "dump_packet (\<lambda>_ _. None) DLT_RAW [0x40]") auto
qed

end
