(* ===== verification/Owner.thy ===== *)
theory Owner
  imports Sponge_Run Command_Line
begin

text \<open>
  The side of the owner of a socket: opening a TUN device (\<^verbatim>\<open>util/tun.cc\<close>), constructing, closing and destroying a
  \<^verbatim>\<open>TCPSpongeSocket\<close>, and the programs that use sockets: \<^verbatim>\<open>apps/tcp_native.cc\<close>, \<^verbatim>\<open>apps/tcp_udp.cc\<close>, \<^verbatim>\<open>apps/tcp_ipv4.cc\<close> and
  \<^verbatim>\<open>apps/webget.cc\<close>.  The system calls that only these use, \<^verbatim>\<open>open\<close>, \<^verbatim>\<open>ioctl\<close> and \<^verbatim>\<open>socketpair\<close>, are arguments.
\<close>

type_synonym 'k sys_open = "string \<Rightarrow> int \<Rightarrow> 'k \<Rightarrow> (int \<times> int) \<times> 'k"
type_synonym 'k sys_ioctl = "int \<Rightarrow> int \<Rightarrow> bytes \<Rightarrow> 'k \<Rightarrow> (int \<times> int) \<times> 'k"
type_synonym 'k sys_socketpair = "int \<Rightarrow> int \<Rightarrow> 'k \<Rightarrow> (int \<times> int \<times> int \<times> int) \<times> 'k"

section \<open>TunTapFD\<close>

definition IFNAMSIZ :: nat where
  "IFNAMSIZ = 16"

text \<open>\<^verbatim>\<open>strncpy(dst, src, n)\<close>: the characters up to the first zero, then zeros.\<close>

definition strncpy :: "bytes \<Rightarrow> nat \<Rightarrow> bytes" where
  "strncpy src n = (let s = take n (takeWhile (\<lambda>b. b \<noteq> 0) src) in s @ replicate (n - length s) 0)"

text \<open>A \<^verbatim>\<open>struct ifreq\<close> with a name and flags: 40 bytes on Linux, the flags in little-endian order.\<close>

definition tun_req :: "bytes \<Rightarrow> bool \<Rightarrow> bytes" where
  "tun_req devname is_tun =
     (let flags = (if is_tun then 1 else 2) OR 0x1000 :: u16 in
      strncpy devname (IFNAMSIZ - 1) @ [0] @ [ucast flags, ucast (drop_bit 8 flags)] @ replicate 22 0)"

definition TunTapFD_new :: "'k sys_open \<Rightarrow> 'k sys_ioctl \<Rightarrow> FileDescriptor \<Rightarrow> bytes \<Rightarrow> bool \<Rightarrow> 'k world \<Rightarrow> 'k world result" where
  "TunTapFD_new sys_open ioctl f devname is_tun w =
     (let O_RDWR = 2; TUNSETIFF = 0x400454ca; ((ret, errno), k) = sys_open ''/dev/net/tun'' O_RDWR (wd_kernel w) in
      bindE (SystemCall ''open'' ret errno 0) (\<lambda>fd.
      bindE (FileDescriptor_new f fd (w\<lparr>wd_kernel := k\<rparr>)) (\<lambda>w.
      let ((ret, errno), k) = ioctl (FileDescriptor_fd_num w f) TUNSETIFF (tun_req devname is_tun) (wd_kernel w) in
      bindE (SystemCall ''ioctl'' ret errno 0) (\<lambda>_. Inr (w\<lparr>wd_kernel := k\<rparr>)))))"

definition TunFD_new :: "'k sys_open \<Rightarrow> 'k sys_ioctl \<Rightarrow> FileDescriptor \<Rightarrow> bytes \<Rightarrow> 'k world \<Rightarrow> 'k world result" where
  "TunFD_new sys_open ioctl f devname w = TunTapFD_new sys_open ioctl f devname True w"

definition TapFD_new :: "'k sys_open \<Rightarrow> 'k sys_ioctl \<Rightarrow> FileDescriptor \<Rightarrow> bytes \<Rightarrow> 'k world \<Rightarrow> 'k world result" where
  "TapFD_new sys_open ioctl f devname w = TunTapFD_new sys_open ioctl f devname False w"

text \<open>The request always has its size, and a name that ends within it.\<close>

lemma tun_req_wf: "length (tun_req devname is_tun) = 40" "tun_req devname is_tun ! (IFNAMSIZ - 1) = 0"
  by (simp_all add: tun_req_def strncpy_def IFNAMSIZ_def Let_def nth_append)

lemma tun_req_name:
  assumes "length devname < IFNAMSIZ" and "0 \<notin> set devname"
  shows "takeWhile (\<lambda>b. b \<noteq> 0) (tun_req devname is_tun) = devname"
proof -
  have name: "takeWhile (\<lambda>b. b \<noteq> 0) devname = devname" using assms(2) by (simp add: takeWhile_eq_all_conv) metis
  have "strncpy devname (IFNAMSIZ - 1) = devname @ replicate (IFNAMSIZ - 1 - length devname) 0"
    using assms(1) by (simp add: strncpy_def Let_def IFNAMSIZ_def name)
  moreover have "takeWhile (\<lambda>b. b \<noteq> 0) (devname @ replicate n 0 @ 0 # rest) = devname" for n rest
    using assms(2) by (subst takeWhile_append2) (auto simp: takeWhile_append takeWhile_replicate)
  ultimately show ?thesis by (simp add: tun_req_def Let_def)
qed

section \<open>Construction of a TCPSpongeSocket\<close>

definition socket_pair_helper :: "'k sys_socketpair \<Rightarrow> FileDescriptor \<Rightarrow> FileDescriptor \<Rightarrow> int
    \<Rightarrow> 'k world \<Rightarrow> 'k world result" where
  "socket_pair_helper socketpair first second type w =
     (let ((ret, errno, fd0, fd1), k) = socketpair AF_UNIX type (wd_kernel w) in
      bindE (SystemCall ''socketpair'' ret errno 0) (\<lambda>_.
      bindE (FileDescriptor_new first fd0 (w\<lparr>wd_kernel := k\<rparr>)) (\<lambda>w. FileDescriptor_new second fd1 w)))"

definition TCPSpongeSocket_make :: "'k os \<Rightarrow> 'k sys_socketpair \<Rightarrow> FileDescriptor \<Rightarrow> FileDescriptor
    \<Rightarrow> 'a \<Rightarrow> 'k world \<Rightarrow> ('a, 'k) TCPSpongeSocket result" where
  "TCPSpongeSocket_make os socketpair first second datagram_interface w =
     bindE (socket_pair_helper socketpair first second SOCK_STREAM w) (\<lambda>w.
       TCPSpongeSocket_new os first second datagram_interface w)"

text \<open>\<^verbatim>\<open>CS144TCPSocket()\<close>: the adapter has the default configuration and does not listen.\<close>

definition CS144TCPSocket_new :: "'k os \<Rightarrow> libc \<Rightarrow> 'k sys_open \<Rightarrow> 'k sys_ioctl \<Rightarrow> 'k sys_socketpair \<Rightarrow> FileDescriptor \<Rightarrow> FileDescriptor \<Rightarrow> FileDescriptor \<Rightarrow> 'k world
    \<Rightarrow> (TCPOverIPv4OverTunFdAdapter, 'k) TCPSpongeSocket result" where
  "CS144TCPSocket_new os lc sys_open ioctl socketpair tun first second w =
     bindE (TunFD_new sys_open ioctl tun (map of_char ''tun144'') w) (\<lambda>w.
     bindE (FdAdapterConfig_new lc) (\<lambda>cfg.
       TCPSpongeSocket_make os socketpair first second \<lparr>fa_cfg = cfg, fa_listen = False, ta_tun = tun\<rparr> w))"

section \<open>The end of a TCPSpongeSocket\<close>

text \<open>
  The thread of the connection, seen by its owner: it is in the loop of \<^verbatim>\<open>_tcp_main\<close>, between two rounds, with the time of
  the last tick; or it has not been started or has been joined.
\<close>

datatype thread = Not_joinable | In_loop u64

text \<open>What the thread still does from there: the rest of the loop and the statements of \<^verbatim>\<open>_tcp_main\<close> after it.\<close>

definition tcp_main_rest :: "'k os \<Rightarrow> ('a, 'k) adapter \<Rightarrow> ('k \<Rightarrow> bool) \<Rightarrow> nat \<Rightarrow> u64
    \<Rightarrow> ('a, 'k) TCPSpongeSocket EventLoop \<Rightarrow> ('a, 'k) TCPSpongeSocket
    \<Rightarrow> (('a, 'k) TCPSpongeSocket EventLoop \<times> ('a, 'k) TCPSpongeSocket) result option" where
  "tcp_main_rest os ad abort n base_time l s = tcp_main_end os (tcp_loop_rounds os ad abort (\<lambda>_. Inr True) n base_time l s)"

lemma tcp_main_is_rest:
  "sp_tcp s \<noteq> None \<Longrightarrow> TCPSpongeSocket_tcp_main os ad abort n l s
     = (let (base_time, s) = sp_timestamp os s in tcp_main_rest os ad abort n base_time l s)"
  by (auto simp: TCPSpongeSocket_tcp_main_def tcp_main_rest_def TCPSpongeSocket_tcp_loop_def Let_def split: prod.splits)

text \<open>\<^verbatim>\<open>join\<close> waits for the thread, so that from then on only the thread runs.\<close>

definition TCPSpongeSocket_wait_until_closed :: "'k os \<Rightarrow> ('a, 'k) adapter \<Rightarrow> ('k \<Rightarrow> bool) \<Rightarrow> nat \<Rightarrow> thread
    \<Rightarrow> ('a, 'k) TCPSpongeSocket EventLoop \<Rightarrow> ('a, 'k) TCPSpongeSocket
    \<Rightarrow> (('a, 'k) TCPSpongeSocket EventLoop \<times> ('a, 'k) TCPSpongeSocket) result option" where
  "TCPSpongeSocket_wait_until_closed os ad abort n t l s =
     (case Socket_shutdown os (sp_self s) SHUT_RDWR (sp_world s) of
        Inl e \<Rightarrow> Some (Inl e)
      | Inr w \<Rightarrow>
          (case t of
             Not_joinable \<Rightarrow> Some (Inr (l, s\<lparr>sp_world := w\<rparr>))
           | In_loop base_time \<Rightarrow> tcp_main_rest os ad abort n base_time l (s\<lparr>sp_world := w\<rparr>)))"

text \<open>
  The destructor: \<^verbatim>\<open>_abort\<close> is set before the thread is joined.  An exception that leaves the thread ends the program.
\<close>

definition TCPSpongeSocket_destroy :: "'k os \<Rightarrow> ('a, 'k) adapter \<Rightarrow> nat \<Rightarrow> thread
    \<Rightarrow> ('a, 'k) TCPSpongeSocket EventLoop \<Rightarrow> ('a, 'k) TCPSpongeSocket
    \<Rightarrow> (('a, 'k) TCPSpongeSocket EventLoop \<times> ('a, 'k) TCPSpongeSocket) result option" where
  "TCPSpongeSocket_destroy os ad n t l s =
     (case t of Not_joinable \<Rightarrow> Some (Inr (l, s)) | In_loop base_time \<Rightarrow> tcp_main_rest os ad (\<lambda>_. True) n base_time l s)"

text \<open>The destructor waits for one round of the loop at most.\<close>

lemma destroy_returns: "\<exists>r. TCPSpongeSocket_destroy os ad (Suc n) t l s = Some r"
  by (cases t) (auto simp: TCPSpongeSocket_destroy_def tcp_main_rest_def tcp_main_end_def split: sum.splits prod.splits)

context datagram_adapter
begin

text \<open>However the owner leaves the socket, the thread keeps what it promises of the streams up to its end.\<close>

lemma rest_faithful:
  assumes "session_ok line os lc (mk os lc) got put v c0 td t f l s" and "tcp_main_rest os (mk os lc) abort n base_time l s = Some r"
  shows "outcome io_exn (\<lambda>(_, s'). sp_tcp s' = None \<and> faithful got put v (isn_of c0) (wd_kernel (sp_world s'))) r"
proof -
  let ?loop = "tcp_loop_rounds os (mk os lc) abort (\<lambda>_. Inr True) n base_time l s"
  have s: "sponge_laws line os lc td got put v c0" "sponge_inv got put v c0 (mk os lc) td t f s" "distinct (el_rules l)"
    "set (el_rules l) \<subseteq> set (sponge_rules os lc (mk os lc) t f)"
    using assms(1) by (simp_all add: session_ok_def)
  have eq: "tcp_main_end os ?loop = Some r" using assms(2) by (simp add: tcp_main_rest_def)
  then obtain x where x: "?loop = Some x" by (cases ?loop) (simp_all add: tcp_main_end_def)
  have "outcome io_exn (\<lambda>(l', s'). sponge_inv got put v c0 (mk os lc) td t f s' \<and> subseq (el_rules l') (el_rules l)) x"
    by (rule rounds_ok [OF s(1) _ s(2-4) x]) simp
  then have "outcome io_exn (\<lambda>(l', s'). session_ok line os lc (mk os lc) got put v c0 td t f l' s') x"
    by (rule outcome_mono) (use s(1) subseq_keeps [OF _ s(3,4)] in \<open>auto simp: session_ok_def\<close>)
  moreover have "fresh_conn c0" using s(1) by (simp add: sponge_laws_def)
  ultimately show ?thesis
    using end_session [of os lc got put v c0 td t f x r] eq x run_faithful by (fastforce elim!: outcome_mono)
qed

lemma session_shutdown:
  assumes "session_ok line os lc (mk os lc) got put v c0 td t f l s" and "Socket_shutdown os (sp_self s) how (sp_world s) = Inr w"
  shows "session_ok line os lc (mk os lc) got put v c0 td t f l (s\<lparr>sp_world := w\<rparr>)"
proof -
  have s: "sponge_laws line os lc td got put v c0" "sponge_inv got put v c0 (mk os lc) td t f s"
    using assms(1) by (simp_all add: session_ok_def)
  have "sponge_inv got put v c0 (mk os lc) td t f (s\<lparr>sp_world := w\<rparr>)"
    using outcome_Inr [OF shutdown_quiet [OF s(1)] assms(2)] by (intro sponge_inv_quiet [OF s(2)]) simp_all
  then show ?thesis using assms(1) by (simp add: session_ok_def)
qed

lemma wait_faithful:
  assumes "session_ok line os lc (mk os lc) got put v c0 td t f l s"
    and "TCPSpongeSocket_wait_until_closed os (mk os lc) abort n (In_loop base_time) l s = Some r"
  shows "outcome io_exn (\<lambda>(_, s'). sp_tcp s' = None \<and> faithful got put v (isn_of c0) (wd_kernel (sp_world s'))) r"
proof (cases "Socket_shutdown os (sp_self s) SHUT_RDWR (sp_world s)")
  case (Inl e)
  have "sponge_laws line os lc td got put v c0" using assms(1) by (simp add: session_ok_def)
  from shutdown_quiet [OF this, of "sp_world s" "sp_self s" SHUT_RDWR] Inl assms(2) show ?thesis
    by (auto simp: TCPSpongeSocket_wait_until_closed_def)
next
  case (Inr w)
  with rest_faithful [OF session_shutdown [OF assms(1) Inr]] assms(2) show ?thesis
    by (simp add: TCPSpongeSocket_wait_until_closed_def)
qed

lemma destroy_faithful:
  assumes "session_ok line os lc (mk os lc) got put v c0 td t f l s"
  obtains r where "TCPSpongeSocket_destroy os (mk os lc) (Suc n) (In_loop base_time) l s = Some r"
    and "outcome io_exn (\<lambda>(_, s'). sp_tcp s' = None \<and> faithful got put v (isn_of c0) (wd_kernel (sp_world s'))) r"
  using destroy_returns [of os "mk os lc" n "In_loop base_time" l s] rest_faithful [OF assms]
  by (auto simp: TCPSpongeSocket_destroy_def)

end

section \<open>tcp_native\<close>

definition native_show_usage :: "string \<Rightarrow> string" where
  "native_show_usage argv0 =
     ''Usage: '' @ argv0 @ '' [-l] <host> <port>'' @ nl @ nl
     @ ''  -l specifies listen mode; <host>:<port> is the listening address.'' @ nl"

text \<open>
  The socket \<^verbatim>\<open>main\<close> gives to \<^verbatim>\<open>bidirectional_stream_copy\<close>.  \<open>f\<close> is the first socket it makes, \<open>g\<close> the one it accepts; the
  listening socket is closed when the lambda returns.
\<close>

definition tcp_native_socket :: "'k os \<Rightarrow> libc \<Rightarrow> string list \<Rightarrow> FileDescriptor \<Rightarrow> FileDescriptor \<Rightarrow> 'k world
    \<Rightarrow> (FileDescriptor \<times> 'k world) exits result" where
  "tcp_native_socket os lc argv f g w =
     (let usage = usage_exit (\<lambda>argv0 _. native_show_usage argv0) argv 1 None in
      if argc argv < 3 then usage
      else bindE (argv_at argv 1) (\<lambda>arg1.
        let server_mode = strncmp_equal ''-l'' arg1 3 in
        if server_mode \<and> argc argv < 4 then usage
        else bindE (TCPSocket_new os f w) (\<lambda>w.
        if server_mode then
          bindE (Socket_set_reuseaddr os f w) (\<lambda>w.
          bindE (argv_at argv 2) (\<lambda>host. bindE (argv_at argv 3) (\<lambda>port.
          bindE (Address_of_hostname lc host port) (\<lambda>address.
          bindE (Socket_bind os f address w) (\<lambda>w.
          bindE (TCPSocket_listen os f 16 w) (\<lambda>w.
          bindE (TCPSocket_accept os f g w) (\<lambda>w. Inr (Proceeds (g, FDWrapper_destroy os f w)))))))))
        else
          bindE (argv_at argv 2) (\<lambda>port.
          bindE (Address_of_hostname lc arg1 port) (\<lambda>address.
          bindE (Socket_connect os f address w) (\<lambda>w. Inr (Proceeds (f, w))))))))"

section \<open>tcp_udp and tcp_ipv4\<close>

text \<open>
  The socket each \<^verbatim>\<open>main\<close> makes from its arguments.  \<open>f\<close> is the descriptor of the adapter, \<open>first\<close> and \<open>second\<close> are the socket
  pair.  A \<^verbatim>\<open>LossyFdAdapter\<close> has the state of the adapter it wraps.
\<close>

definition tcp_udp_socket :: "'k os \<Rightarrow> libc \<Rightarrow> 'k sys_socketpair \<Rightarrow> (string \<Rightarrow> u16 result) \<Rightarrow> string list
    \<Rightarrow> FileDescriptor \<Rightarrow> FileDescriptor \<Rightarrow> FileDescriptor \<Rightarrow> 'k world
    \<Rightarrow> (udp_options \<times> (TCPOverUDPSocketAdapter, 'k) TCPSpongeSocket) exits result" where
  "tcp_udp_socket os lc socketpair loss argv f first second w =
     (if argc argv < 3 then usage_exit udp_show_usage argv 1 (Some ''ERROR: required arguments are missing.'')
      else bindE (udp_get_config loss lc argv) (\<lambda>r.
        case r of
          Exits code text \<Rightarrow> Inr (Exits code text)
        | Proceeds opts \<Rightarrow>
            bindE (UDPSocket_new os f w) (\<lambda>w.
            bindE (if uo_listen opts then Socket_bind os f (fc_source (uo_filt opts)) w else Inr w) (\<lambda>w.
            bindE (FdAdapterConfig_new lc) (\<lambda>cfg.
            bindE (TCPSpongeSocket_make os socketpair first second \<lparr>fa_cfg = cfg, fa_listen = False, ua_sock = f\<rparr> w) (\<lambda>s.
              Inr (Proceeds (opts, s))))))))"

definition tcp_ipv4_socket :: "'k os \<Rightarrow> libc \<Rightarrow> 'k sys_open \<Rightarrow> 'k sys_ioctl \<Rightarrow> 'k sys_socketpair \<Rightarrow> (string \<Rightarrow> u16 result)
    \<Rightarrow> string list \<Rightarrow> FileDescriptor \<Rightarrow> FileDescriptor \<Rightarrow> FileDescriptor \<Rightarrow> 'k world
    \<Rightarrow> (ipv4_options \<times> (TCPOverIPv4OverTunFdAdapter, 'k) TCPSpongeSocket) exits result" where
  "tcp_ipv4_socket os lc sys_open ioctl socketpair loss argv f first second w =
     (if argc argv < 3 then usage_exit ipv4_show_usage argv 1 (Some ''ERROR: required arguments are missing.'')
      else
        let (random, k) = os_random os (wd_kernel w); w = w\<lparr>wd_kernel := k\<rparr> in
        bindE (ipv4_get_config loss lc random argv) (\<lambda>r.
        case r of
          Exits code text \<Rightarrow> Inr (Exits code text)
        | Proceeds opts \<Rightarrow>
            let devname = (case io_tundev opts of None \<Rightarrow> TUN_DFLT | Some d \<Rightarrow> d) in
            bindE (TunFD_new sys_open ioctl f (map of_char devname) w) (\<lambda>w.
            bindE (FdAdapterConfig_new lc) (\<lambda>cfg.
            bindE (TCPSpongeSocket_make os socketpair first second \<lparr>fa_cfg = cfg, fa_listen = False, ta_tun = f\<rparr> w) (\<lambda>s.
              Inr (Proceeds (opts, s)))))))"

text \<open>Both programs then listen or connect, as they were told.\<close>

definition open_connection :: "'k os \<Rightarrow> libc \<Rightarrow> ('a, 'k) adapter \<Rightarrow> ('k \<Rightarrow> bool) \<Rightarrow> nat \<Rightarrow> bool \<Rightarrow> TCPConfig \<Rightarrow> FdAdapterConfig
    \<Rightarrow> ('a, 'k) TCPSpongeSocket \<Rightarrow> (('a, 'k) TCPSpongeSocket EventLoop \<times> ('a, 'k) TCPSpongeSocket) result option" where
  "open_connection os lc ad abort n listen c_fsm c_filt s =
     (if listen then TCPSpongeSocket_listen_and_accept os lc ad abort n c_fsm c_filt EventLoop_new s
      else TCPSpongeSocket_connect os lc ad abort n c_fsm c_filt EventLoop_new s)"

context datagram_adapter
begin

lemma open_connection_serves:
  assumes "kernel_law os td got put" and "line os v" and "getaddrinfo_law lc" and "unat (cf_recv_capacity cfg) < 2 ^ 62"
    and "sponge_start got put v (mk os lc) td s"
    and "open_connection os lc (mk os lc) abort n listen cfg c_ad s = Some r"
  shows "outcome io_exn (\<lambda>(l, s1). served os (mk os lc) got put v l s1) r"
  using listen_serves [OF assms(1-5)] connect_serves [OF assms(1-5)] assms(6) by (auto simp: open_connection_def split: if_splits)

end

section \<open>webget\<close>

definition request :: "string \<Rightarrow> string \<Rightarrow> bytes" where
  "request host path = map of_char (''GET '' @ path @ '' HTTP/1.1'' @ [CHR 0x0D, CHR 0x0A] @ ''Host: '' @ host
     @ [CHR 0x0D, CHR 0x0A] @ [CHR 0x0D, CHR 0x0A] @ [CHR 0x0D, CHR 0x0A])"

text \<open>\<^verbatim>\<open>while (!socket1.eof()) cout << socket1.read()\<close>, for at most \<open>n\<close> reads; \<open>out\<close> is what has been printed.\<close>

fun print_reply :: "'k os \<Rightarrow> FileDescriptor \<Rightarrow> nat \<Rightarrow> bytes \<Rightarrow> 'k world \<Rightarrow> (bytes \<times> 'k world) result option" where
  "print_reply os f n out w =
     (if FileDescriptor_eof w f then Some (Inr (out, w))
      else case n of
        0 \<Rightarrow> None
      | Suc n \<Rightarrow>
          (case FileDescriptor_read os f (- 1) w of
             Inl e \<Rightarrow> Some (Inl e)
           | Inr (data, w) \<Rightarrow> print_reply os f n (out @ data) w))"

declare print_reply.simps [simp del]

text \<open>
  The part of \<^verbatim>\<open>get_URL\<close> between \<^verbatim>\<open>connect\<close> and \<^verbatim>\<open>wait_until_closed\<close>, on the descriptor \<open>f\<close> of the owner.
\<close>

definition get_URL :: "'k os \<Rightarrow> FileDescriptor \<Rightarrow> nat \<Rightarrow> string \<Rightarrow> string \<Rightarrow> 'k world \<Rightarrow> (bytes \<times> 'k world) result option" where
  "get_URL os f n host path w =
     (case bindE (FileDescriptor_write os f (BufferViewList_of_string (request host path)) True w) (\<lambda>(_, w).
             Socket_shutdown os f SHUT_WR w) of
        Inl e \<Rightarrow> Some (Inl e)
      | Inr w \<Rightarrow> print_reply os f n [] w)"

definition webget_usage :: "string \<Rightarrow> string" where
  "webget_usage argv0 = ''Usage: '' @ argv0 @ '' HOST PATH'' @ nl
     @ [CHR 0x09] @ ''Example: '' @ argv0 @ '' stanford.edu /class/cs144'' @ nl"

text \<open>The arguments of \<^verbatim>\<open>get_URL\<close>, from the command line.\<close>

definition webget_arguments :: "string list \<Rightarrow> (string \<times> string) exits result" where
  "webget_arguments argv =
     (if argc argv \<noteq> 3 then usage_exit (\<lambda>argv0 _. webget_usage argv0) argv 1 None
      else bindE (argv_at argv 1) (\<lambda>host. bindE (argv_at argv 2) (\<lambda>path. Inr (Proceeds (host, path)))))"

text \<open>
  The kernel of the owner: on descriptor \<open>td\<close>, \<open>got k\<close> is what has been read and \<open>put k\<close> what has been written; at most \<open>m\<close>
  bytes ever come from it.
\<close>

definition reply_law :: "'k os \<Rightarrow> int \<Rightarrow> ('k \<Rightarrow> bytes) \<Rightarrow> ('k \<Rightarrow> bytes) \<Rightarrow> nat \<Rightarrow> bool" where
  "reply_law os td got put m \<longleftrightarrow> read_law os td \<and> writev_law os td put
     \<and> (\<forall>n k ret errno data k'. os_read os td n k = ((ret, errno, data), k') \<longrightarrow>
         got k' = got k @ (if ret < 0 then [] else data) \<and> put k' = put k)
     \<and> (\<forall>iov k. got (snd (os_writev os td iov k)) = got k)
     \<and> (\<forall>how k. same_pipe got put k (snd (os_shutdown os td how k)))
     \<and> (\<forall>k. length (got k) \<le> m)"

lemma write_loop_keeps:
  assumes "\<And>iov k. got (snd (os_writev os td iov k)) = got k" and "FileDescriptor_fd_num w f = td"
    and "FileDescriptor_write_loop os f write_all buffer acc w = Inr (n, w')"
  shows "got (wd_kernel w') = got (wd_kernel w)"
  using assms(2,3)
proof (induction "views_measure (bv_views buffer)" arbitrary: buffer acc w rule: less_induct)
  case less
  obtain ret errno k where call: "os_writev os td (BufferViewList_as_iovecs buffer) (wd_kernel w) = ((ret, errno), k)"
    by (metis surj_pair)
  then have k: "got k = got (wd_kernel w)" using assms(1) by (metis snd_conv)
  let ?w = "FileDescriptor_register_write f (w\<lparr>wd_kernel := k\<rparr>)"
  have w: "FileDescriptor_fd_num ?w f = td" "wd_kernel ?w = k" using less.prems(1) by (simp_all add: FileDescriptor_fd_num_def)
  obtain i buffer' where i: "SystemCall ''writev'' ret errno 0 = Inr i" "\<not> (i = 0 \<and> BufferViewList_size buffer \<noteq> 0)"
    and b: "BufferViewList_remove_prefix buffer (of_int i) = Inr buffer'"
    and step: "(if write_all \<and> BufferViewList_size buffer' \<noteq> 0
        then FileDescriptor_write_loop os f write_all buffer' (acc + of_int i) ?w else Inr (acc + of_int i, ?w)) = Inr (n, w')"
    using less.prems(2) unfolding FileDescriptor_write_loop.simps [of os f write_all buffer] less.prems(1) call Let_def prod.case
    by (auto simp: bindE_Inr_iff split: if_splits)
  show ?case
  proof (cases "write_all \<and> BufferViewList_size buffer' \<noteq> 0")
    case True
    with less.hyps [OF write_round_decreases [OF i b] w(1)] step w(2) k show ?thesis by simp
  next
    case False
    then show ?thesis using step w(2) k by auto
  qed
qed

lemma reply_read:
  assumes "reply_law os td got put m" and "FileDescriptor_fd_num w f = td"
  obtains errno where "FileDescriptor_read os f (- 1) w = Inl (Unix_error ''read'' errno)"
  | data w' where "FileDescriptor_read os f (- 1) w = Inr (data, w')" and "got (wd_kernel w') = got (wd_kernel w) @ data"
    and "put (wd_kernel w') = put (wd_kernel w)" and "FileDescriptor_fd_num w' f = td" and "data = [] \<Longrightarrow> FileDescriptor_eof w' f"
proof -
  have law: "read_law os (FileDescriptor_fd_num w f)" using assms by (simp add: reply_law_def)
  show ?thesis
  proof (rule read_spec [OF law, of "- 1"])
    fix errno
    assume "FileDescriptor_read os f (- 1) w = Inl (Unix_error ''read'' errno)"
    then show ?thesis by (rule that(1))
  next
    fix data :: bytes and errno k
    let ?w = "FileDescriptor_register_read f
      (if (- 1 :: u64) > 0 \<and> data = [] then set_fd f (\<lambda>d. d\<lparr>fd_eof := True\<rparr>) (w\<lparr>wd_kernel := k\<rparr>) else w\<lparr>wd_kernel := k\<rparr>)"
    assume r: "FileDescriptor_read os f (- 1) w = Inr (data, ?w)"
      and call: "os_read os (FileDescriptor_fd_num w f) (min FileDescriptor_BUFFER_SIZE (- 1)) (wd_kernel w) = ((int (length data), errno, data), k)"
    from assms call have "got k = got (wd_kernel w) @ data" "put k = put (wd_kernel w)" unfolding reply_law_def by fastforce+
    moreover have "(0 :: u64) < - 1" by (simp add: word_gt_0)
    ultimately show ?thesis using that(2) [OF r] assms(2)
      by (cases "data = []") (simp_all add: FileDescriptor_fd_num_def FileDescriptor_eof_def)
  qed
qed

text \<open>Every read brings bytes, of which there are at most \<open>m\<close>, or the end of the stream.\<close>

lemma print_reply_ends:
  assumes "reply_law os td got put m" and "FileDescriptor_fd_num w f = td" and "m < n + length (got (wd_kernel w))"
  shows "\<exists>r. print_reply os f n out w = Some r \<and> outcome io_exn (\<lambda>(out', w'). \<exists>data. out' = out @ data
     \<and> got (wd_kernel w') = got (wd_kernel w) @ data \<and> put (wd_kernel w') = put (wd_kernel w) \<and> FileDescriptor_eof w' f) r"
  using assms(2,3)
proof (induction n arbitrary: out w)
  case 0
  have "length (got (wd_kernel w)) \<le> m" using assms(1) by (simp add: reply_law_def)
  then show ?case using 0 by simp
next
  case (Suc n)
  show ?case
  proof (cases "FileDescriptor_eof w f")
    case True
    then show ?thesis by (simp add: print_reply.simps [of os f "Suc n"])
  next
    case False
    show ?thesis
      using assms(1) Suc.prems(1)
    proof (cases rule: reply_read)
      case (1 errno)
      then show ?thesis using False by (simp add: print_reply.simps [of os f "Suc n"])
    next
      case (2 data w')
      have eq: "print_reply os f (Suc n) out w = print_reply os f n (out @ data) w'"
        using 2(1) False by (simp add: print_reply.simps [of os f "Suc n"])
      show ?thesis
      proof (cases "data = []")
        case True
        with 2 show ?thesis unfolding eq by (simp add: print_reply.simps [of os f n])
      next
        case nonempty: False
        then have "1 \<le> length data" by (cases data) simp_all
        then have "m < n + length (got (wd_kernel w'))" using Suc.prems(2) unfolding 2(2) length_append by linarith
        from Suc.IH [OF 2(4) this, of "out @ data"] 2(2,3) show ?thesis
          unfolding eq by (auto elim!: outcome_mono)
      qed
    qed
  qed
qed

lemma write_all_reply:
  assumes "reply_law os td got put m" and "FileDescriptor_fd_num w f = td" and "length data < 2 ^ 63"
  shows "outcome io_exn (\<lambda>(_, w'). put (wd_kernel w') = put (wd_kernel w) @ data \<and> got (wd_kernel w') = got (wd_kernel w)
      \<and> FileDescriptor_fd_num w' f = td)
    (FileDescriptor_write os f (BufferViewList_of_string data) True w)"
proof -
  have view: "bv_views (BufferViewList_of_string data) = [data]" by (simp add: BufferViewList_of_string_def)
  have law: "writev_law os (FileDescriptor_fd_num w f) put" "\<And>iov k. got (snd (os_writev os td iov k)) = got k"
    using assms(1,2) by (simp_all add: reply_law_def)
  note keeps = write_loop_keeps [OF law(2) assms(2)]
  show ?thesis
    using write_spec [OF law(1), of "BufferViewList_of_string data" True] assms(2,3) keeps [of True "BufferViewList_of_string data" 0]
    by (cases "FileDescriptor_write os f (BufferViewList_of_string data) True w")
      (auto simp: view view_wf_def two64_def wrote_def FileDescriptor_fd_num_def FileDescriptor_write_def split: sum.splits prod.splits)
qed

lemma shutdown_reply:
  assumes "reply_law os td got put m" and "FileDescriptor_fd_num w f = td"
  shows "outcome io_exn (\<lambda>w'. put (wd_kernel w') = put (wd_kernel w) \<and> got (wd_kernel w') = got (wd_kernel w)
      \<and> FileDescriptor_fd_num w' f = td) (Socket_shutdown os f how w)"
proof -
  obtain ret errno k where call: "os_shutdown os td how (wd_kernel w) = ((ret, errno), k)" by (metis surj_pair)
  have "same_pipe got put (wd_kernel w) (snd (os_shutdown os td how (wd_kernel w)))" using assms(1) by (simp add: reply_law_def)
  then show ?thesis
    unfolding Socket_shutdown_def simple_call_def call Let_def prod.case assms(2) same_pipe_def
    using assms(2) by (auto simp: SystemCall_def FileDescriptor_fd_num_def)
qed

section \<open>Properties\<close>

text \<open>
  C20: \<^verbatim>\<open>get_URL\<close> sends exactly its request, however the kernel cuts it into pieces, and prints exactly what the server
  sends until the end of the stream.  It needs at most one read more than there are bytes in the reply, and fails
  only with an error of a system call.
\<close>

theorem get_URL_prints_reply:
  assumes "reply_law os (FileDescriptor_fd_num w f) got put m" and "length host + length path < 2 ^ 62" and "m < n"
  shows "\<exists>r. get_URL os f n host path w = Some r \<and> outcome io_exn (\<lambda>(out, w').
     put (wd_kernel w') = put (wd_kernel w) @ request host path \<and> got (wd_kernel w') = got (wd_kernel w) @ out
     \<and> FileDescriptor_eof w' f) r"
proof -
  let ?td = "FileDescriptor_fd_num w f"
  let ?start = "bindE (FileDescriptor_write os f (BufferViewList_of_string (request host path)) True w) (\<lambda>(_, w). Socket_shutdown os f SHUT_WR w)"
  have "length (request host path) < 2 ^ 63" using assms(2) by (simp add: request_def)
  note sent = write_all_reply [OF assms(1) refl this]
  have start: "outcome io_exn (\<lambda>w'. put (wd_kernel w') = put (wd_kernel w) @ request host path \<and> got (wd_kernel w') = got (wd_kernel w)
      \<and> FileDescriptor_fd_num w' f = ?td) ?start"
    by (rule outcome_bind [OF sent]) (auto elim!: outcome_mono [OF shutdown_reply [OF assms(1)]])
  show ?thesis
  proof (cases ?start)
    case (Inl e)
    then show ?thesis using start by (simp add: get_URL_def)
  next
    case (Inr w1)
    then have w1: "put (wd_kernel w1) = put (wd_kernel w) @ request host path" "got (wd_kernel w1) = got (wd_kernel w)"
      "FileDescriptor_fd_num w1 f = ?td" using start by simp_all
    have "m < n + length (got (wd_kernel w1))" using assms(3) by simp
    from print_reply_ends [OF assms(1) w1(3) this, of "[]"] w1(1,2) Inr show ?thesis
      by (auto simp: get_URL_def elim!: outcome_mono)
  qed
qed

text \<open>A server that answers with two bytes, and a kernel that takes ten bytes at a time.\<close>

definition web_os :: "(bytes \<times> bool) os" where
  "web_os = no_os\<lparr>
     os_writev := (\<lambda>_ iov k. let d = take 10 (concat (map fst iov)) in ((int (length d), 0), (fst k @ d, snd k))),
     os_read := (\<lambda>_ n k. if snd k \<or> n < 2 then ((0, 0, []), k) else ((2, 0, [104, 105]), (fst k, True))),
     os_shutdown := (\<lambda>_ _ k. ((0, 0), k))\<rparr>"

definition web_world :: "(bytes \<times> bool) world" where
  "web_world = \<lparr>wd_kernel = ([], False),
     wd_fds = (\<lambda>_. \<lparr>fd_fd = 3, fd_eof = False, fd_closed = False, fd_read_count = 0, fd_write_count = 0\<rparr>)\<rparr>"

definition web_got :: "bytes \<times> bool \<Rightarrow> bytes" where
  "web_got k = (if snd k then [104, 105] else [])"

lemma web_law: "reply_law web_os 3 web_got fst 2"
proof -
  have "Suc (Suc 0) \<le> unat n" if "\<not> n < (2 :: u64)" for n using that by (simp add: word_less_nat_alt)
  then show ?thesis
    by (auto simp: reply_law_def read_law_def writev_law_def web_os_def web_got_def Let_def same_pipe_def min_def split: if_splits)
qed

lemma web_read:
  assumes "FileDescriptor_fd_num w 0 = 3"
  obtains w' where "FileDescriptor_read web_os 0 (- 1) w = Inr (if snd (wd_kernel w) then [] else [104, 105], w')"
    and "FileDescriptor_fd_num w' 0 = 3" and "snd (wd_kernel w')" and "FileDescriptor_eof w' 0 \<longleftrightarrow> FileDescriptor_eof w 0 \<or> snd (wd_kernel w)"
proof -
  have max: "(0 :: u64) < - 1" by (simp add: word_gt_0)
  have call: "os_read web_os 3 FileDescriptor_BUFFER_SIZE (wd_kernel w)
      = (if snd (wd_kernel w) then ((0, 0, []), wd_kernel w) else ((2, 0, [104, 105]), (fst (wd_kernel w), True)))"
    by (simp add: web_os_def FileDescriptor_BUFFER_SIZE_def)
  have sys: "SystemCall ''read'' 2 0 0 = Inr 2" "SystemCall ''read'' 0 0 0 = Inr 0" by (simp_all add: SystemCall_def to_int_id)
  have "read_law web_os (FileDescriptor_fd_num w 0)" using web_law assms by (simp add: reply_law_def)
  then show ?thesis
  proof (cases rule: read_spec [where limit = "- 1"])
    case (1 errno)
    then show ?thesis by (auto simp: FileDescriptor_read_def FileDescriptor_read_into_def assms call sys Let_def split: if_splits)
  next
    case (2 data errno k)
    then show ?thesis using that call assms max by (auto simp: FileDescriptor_fd_num_def FileDescriptor_eof_def split: if_splits)
  qed
qed

lemma web_start:
  obtains w where "bindE (FileDescriptor_write web_os 0 (BufferViewList_of_string (request ''h'' ''/p'')) True web_world) (\<lambda>(_, w).
      Socket_shutdown web_os 0 SHUT_WR w) = Inr w"
    and "FileDescriptor_fd_num w 0 = 3" and "\<not> snd (wd_kernel w)" and "\<not> FileDescriptor_eof w 0"
proof -
  have "case bindE (FileDescriptor_write web_os 0 (BufferViewList_of_string (request ''h'' ''/p'')) True web_world) (\<lambda>(_, w).
      Socket_shutdown web_os 0 SHUT_WR w) of Inl _ \<Rightarrow> False
    | Inr w \<Rightarrow> FileDescriptor_fd_num w 0 = 3 \<and> \<not> snd (wd_kernel w) \<and> \<not> FileDescriptor_eof w 0"
    by code_simp
  with that show ?thesis by (auto split: sum.splits)
qed

lemma web_run: "\<exists>w. get_URL web_os 0 3 ''h'' ''/p'' web_world = Some (Inr ([104, 105], w))"
proof -
  obtain w where w: "bindE (FileDescriptor_write web_os 0 (BufferViewList_of_string (request ''h'' ''/p'')) True web_world) (\<lambda>(_, w).
      Socket_shutdown web_os 0 SHUT_WR w) = Inr w" "FileDescriptor_fd_num w 0 = 3" "\<not> snd (wd_kernel w)" "\<not> FileDescriptor_eof w 0"
    by (rule web_start)
  obtain w1 where w1: "FileDescriptor_read web_os 0 (- 1) w = Inr ([104, 105], w1)" "FileDescriptor_fd_num w1 0 = 3" "snd (wd_kernel w1)"
    "\<not> FileDescriptor_eof w1 0" by (rule web_read [OF w(2)]) (use w(3,4) in simp)
  obtain w2 where w2: "FileDescriptor_read web_os 0 (- 1) w1 = Inr ([], w2)" "FileDescriptor_eof w2 0"
    by (rule web_read [OF w1(2)]) (use w1(3) in simp)
  show ?thesis unfolding get_URL_def w(1) using w1(1,4) w2 w(4) by (simp add: print_reply.simps eval_nat_numeral)
qed

theorem get_URL_prints_reply_witness:
  "\<exists>w'. get_URL web_os 0 3 ''h'' ''/p'' web_world = Some (Inr ([104, 105], w')) \<and> fst (wd_kernel w') = request ''h'' ''/p''"
proof -
  obtain w where w: "get_URL web_os 0 3 ''h'' ''/p'' web_world = Some (Inr ([104, 105], w))" using web_run by blast
  have "reply_law web_os (FileDescriptor_fd_num web_world 0) web_got fst 2" using web_law by (simp add: FileDescriptor_fd_num_def web_world_def)
  from get_URL_prints_reply [OF this, of "''h''" "''/p''" 3] w have "fst (wd_kernel w) = request ''h'' ''/p''"
    by (simp add: web_world_def)
  with w show ?thesis by blast
qed

end
