(* ===== verification/Spec2Isabelle.thy ===== *)
theory Spec2Isabelle
  imports Benchmark Sponge_Props Stream_Copy Packet_Dump Owner
begin

text \<open>
  A verification of sponge, a user-space TCP: a library (\<^verbatim>\<open>libsponge\<close>), a thread that runs a connection
  over an unreliable datagram service, and programs on top of it.

  \<^bold>\<open>The program.\<close>  From the bottom up:
  \<^item> \<^verbatim>\<open>util/\<close> wraps the operating system: file descriptors, addresses, sockets and an event loop over
    \<^verbatim>\<open>poll\<close>; strings that can be shared and shortened (\<^verbatim>\<open>buffer.hh\<close>), integers in network byte order
    (\<^verbatim>\<open>parser.hh\<close>), and the Internet checksum (\<^verbatim>\<open>util.cc\<close>).
  \<^item> \<^verbatim>\<open>byte_stream.cc\<close> is the bounded queue between an application and TCP.  \<^verbatim>\<open>stream_reassembler.cc\<close> turns
    substrings in any order into such a stream.  \<^verbatim>\<open>wrapping_integers.cc\<close> translates 32-bit sequence numbers.
  \<^item> \<^verbatim>\<open>tcp_receiver.cc\<close> feeds the reassembler from segments and computes acknowledgment and window.
    \<^verbatim>\<open>tcp_sender.cc\<close> cuts a stream into segments, keeps them until they are acknowledged, and repeats them.
    \<^verbatim>\<open>tcp_connection.cc\<close> joins a sender and a receiver into an endpoint; \<^verbatim>\<open>tcp_state.cc\<close> names its states.
  \<^item> \<^verbatim>\<open>tcp_helpers/\<close> has the formats (\<^verbatim>\<open>tcp_segment.cc\<close>, \<^verbatim>\<open>ipv4_datagram.cc\<close>), the adapters that carry
    segments over UDP or IPv4 (\<^verbatim>\<open>fd_adapter.cc\<close>, \<^verbatim>\<open>tcp_over_ip.cc\<close>, \<^verbatim>\<open>tuntap_adapter.hh\<close>, \<^verbatim>\<open>lossy_fd_adapter.hh\<close>), and
    \<^verbatim>\<open>tcp_sponge_socket.cc\<close>, which moves bytes between a local socket, a connection and an adapter.
  \<^item> \<^verbatim>\<open>apps/\<close> has the programs.  \<^verbatim>\<open>tcp_udp.cc\<close>, \<^verbatim>\<open>tcp_ipv4.cc\<close> and \<^verbatim>\<open>tcp_native.cc\<close> open a connection from their command line and
    join standard input and output to it (\<^verbatim>\<open>bidirectional_stream_copy.cc\<close>); \<^verbatim>\<open>webget.cc\<close> fetches a page; \<^verbatim>\<open>tcp_benchmark.cc\<close> runs
    two connections against each other in memory; \<^verbatim>\<open>udp_tcpdump.cc\<close> and \<^verbatim>\<open>tun.cc\<close> print packets.

  \<^bold>\<open>How the code is modelled.\<close>  Machine integers are words of their width and wrap around.  A class is a record with
  a field per member and a function per method, which takes the object and returns it updated.  An exception
  is a value: a method that can throw has type \<open>'a result\<close>, and what is undefined in C++ (the front of an empty queue, a
  dereferenced end iterator, a null connection, a view cut beyond its end) is the exception \<open>Undefined_behaviour\<close>, so that theorems rule it out
  instead of overlooking it.  A \<^verbatim>\<open>std::set\<close> or \<^verbatim>\<open>std::map\<close> is the list of its elements in order, an
  iterator into a \<^verbatim>\<open>std::list\<close> is the identity of a node.  The operating system is not part of
  the sources: it is a record of functions \<open>os\<close> on an unknown kernel state, and the C library calls on addresses are a record
  \<open>libc\<close>.  Where a theorem needs their documented behaviour, it has a named hypothesis (\<open>writev_law\<close>, \<open>read_law\<close>,
  \<open>kernel_law\<close>, \<open>packet_law\<close>, \<open>tun_line\<close>, \<open>udp_line\<close>, \<open>getaddrinfo_law\<close>, \<open>numeric_libc\<close>, \<open>copy_law\<close>, \<open>reply_law\<close>), and a witness gives a concrete kernel that satisfies it.
  What a program prints is the string it results in, and \<^verbatim>\<open>exit\<close> is a value with the exit code.

  \<^bold>\<open>Theories and sources.\<close>
  \<^descr>[Shared] \<open>Prelude\<close> (types, exceptions, word arithmetic without wrap-around), \<open>Containers\<close> (ordered sets and
    linked lists), \<open>Delivery\<close> (components that deliver a stream in order).
  \<^descr>[Data] \<open>Buffers\<close> (\<^verbatim>\<open>buffer.cc\<close>), \<open>Net_Parser\<close> (\<^verbatim>\<open>parser.cc\<close>), \<open>Checksum\<close> (\<^verbatim>\<open>InternetChecksum\<close>),
    \<open>TCP_Segment\<close> (\<^verbatim>\<open>tcp_header.cc\<close>, \<^verbatim>\<open>tcp_segment.cc\<close>), \<open>IPv4\<close> (\<^verbatim>\<open>ipv4_header.cc\<close>, \<^verbatim>\<open>ipv4_datagram.cc\<close>).
  \<^descr>[Streams] \<open>Byte_Stream\<close>, \<open>Wrapping_Integers\<close>; \<open>Free_Intervals\<close> and \<open>Stream_Reassembler\<close> are the two halves of
    \<^verbatim>\<open>stream_reassembler.cc\<close>: its account of missing bytes, and its list of waiting substrings.
  \<^descr>[Endpoints] \<open>TCP_Receiver\<close>; \<open>TCP_Sender\<close>, with its invariant in \<open>Sender_Window\<close> and its runs in \<open>Sender_Run\<close>;
    \<open>TCP_Connection\<close> and \<open>TCP_State\<close>, with the invariant and the runs in \<open>Connection_Run\<close> and \<open>Connection_Trace\<close>, and the properties in
    \<open>Connection_Props\<close> and \<open>Connection_Life\<close>.
  \<^descr>[Two endpoints] \<open>Handshake\<close> (three segments open a connection) and \<open>Network\<close> (a channel that loses, repeats
    and reorders).
  \<^descr>[Operating system] \<open>File_Descriptor\<close>, \<open>Addresses\<close>, \<open>Sockets\<close>, \<open>Event_Loop\<close>, named after their sources in \<^verbatim>\<open>util/\<close>.
  \<^descr>[Adapters] \<open>Adapters\<close> models the four adapters, \<open>Tunnel\<close> shows what passes through them, \<open>Adapter_Laws\<close> shows that
    they keep the contract the socket relies on.
  \<^descr>[Threads of control] \<open>Loop_Client\<close> (what an event loop guarantees its client), \<open>Sponge_Socket\<close> (\<^verbatim>\<open>tcp_sponge_socket.cc\<close>),
    \<open>Sponge_Run\<close> and \<open>Sponge_Props\<close> (its invariant and what a whole session does), \<open>Stream_Copy\<close>
    (\<^verbatim>\<open>bidirectional_stream_copy.cc\<close>), \<open>Owner\<close> (constructing, closing and destroying a socket, \<^verbatim>\<open>util/tun.cc\<close>, and the programs that open
    a connection: \<^verbatim>\<open>tcp_udp.cc\<close>, \<^verbatim>\<open>tcp_ipv4.cc\<close>, \<^verbatim>\<open>tcp_native.cc\<close>, \<^verbatim>\<open>webget.cc\<close>).
  \<^descr>[Programs] \<open>Benchmark\<close> (\<^verbatim>\<open>tcp_benchmark.cc\<close>), \<open>Command_Line\<close> (\<^verbatim>\<open>get_config\<close> of \<^verbatim>\<open>tcp_udp.cc\<close> and \<^verbatim>\<open>tcp_ipv4.cc\<close>), \<open>Printing\<close>
    (\<^verbatim>\<open>hexdump\<close>, the \<^verbatim>\<open>to_string\<close> and \<^verbatim>\<open>summary\<close> of headers, \<^verbatim>\<open>TCPConnectionDebugger\<close>), \<open>Packet_Dump\<close> (\<^verbatim>\<open>udp_tcpdump.cc\<close>, \<^verbatim>\<open>apps/tun.cc\<close>).

  \<^bold>\<open>What is shown.\<close>
  \<^item> Delivery.  The reassembler, the receiver, and two endpoints over a bad network deliver a prefix of what was
    written, in order and without gaps.  After each push everything that can be assembled is assembled, within the
    capacity, and the intervals of missing bytes implement set difference.  The acknowledgment number names the first missing byte, or the
    end of the stream, unless a FIN without data overtook data.
  \<^item> Sending.  The outstanding segments form a gapless chain with the right bytes; \<^verbatim>\<open>fill_window\<close> returns, numbers what
    it queues from the next sequence number on without a gap, stays within the window and stops only when nothing more may be sent.  Acknowledgments remove exactly the segments they cover.  The timer
    repeats the earliest segment in time however the time is cut into ticks, and doubles its timeout.
  \<^item> Connections.  In every reachable state every operation returns, whatever arrives.  Handshake, answers, reset, giving up
    and TIME_WAIT are described exactly, and for each state of the TCP specification it is shown when \<^verbatim>\<open>state()\<close> reports it, and where
    that differs from the predicates of the connection.
  \<^item> Formats.  Segments and datagrams survive a round trip; one changed byte is detected; a TUN adapter reads back
    what its peer wrote and lets through only what belongs to the connection.
  \<^item> Composition.  The histories of the socket pair and of the device of the adapter (the record \<open>wire\<close>) say what a session did.  From \<^verbatim>\<open>connect\<close> or
    \<^verbatim>\<open>listen_and_accept\<close> to the end of the thread, what the owner is given is a prefix of the stream that the packets which arrived
    carry, and every packet that was sent carries a segment of the bytes of the owner or a bare one.  The thread never meets undefined
    behaviour, an empty optional, a loop that does not return or a short write to the connection.  The copying program neither loses, repeats nor reorders a byte.
    \<^verbatim>\<open>wait_until_closed\<close> and the destructor keep these promises to the end of the thread, and the destructor waits for one round at most.
  \<^item> Programs.  Every round of the benchmark is a run of two endpoints over a network, so that it inherits their theorem: it
    never throws and what arrives is a prefix.  \<^verbatim>\<open>get_config\<close> reads back every list of options and stays within its arguments.
    \<^verbatim>\<open>webget\<close> sends its request and prints the reply up to its end.  \<^verbatim>\<open>hexdump\<close> prints the lines of a reference definition.
  \<^item> Where the code departs from its purpose, that is proved too: a FIN without data that overtakes data ends the stream
    early, parsers drop errors of the headers they contain, errors of \<^verbatim>\<open>poll\<close> are swallowed, and \<^verbatim>\<open>udp_tcpdump\<close> reads
    beyond the end of exactly those packets that are described.

  \<^bold>\<open>Interfaces.\<close>  \<open>chunk\<close> (strings with a removable front: \<open>Buffer\<close> and string views), \<open>flow_stream\<close> (bounded queues: \<open>ByteStream\<close>),
  \<open>ordered_set\<close> (the two containers of the reassembler), \<open>codec\<close> (integers of 8, 16 and 32 bits), \<open>prefix_reader\<close> (the
  reassembler and the receiver), \<open>datagram_adapter\<close> (the adapters over UDP and TUN, each also lossy), \<open>loop_client\<close> (the
  socket thread over UDP and TUN, and the copying program) and \<open>option_body\<close> (the body of a loop over options: those of
  \<^verbatim>\<open>tcp_udp\<close> and of \<^verbatim>\<open>tcp_ipv4\<close>) are locales; each is interpreted on the definitions of the code.

  \<^bold>\<open>Bounds and fuel.\<close>  Absolute sequence numbers and stream indices are 64-bit words.  Theorems over whole runs assume that the bytes written,
  or read plus the capacity, stay \<open>2 ^ 33\<close> below \<open>2 ^ 64\<close> (\<open>2 ^ 34\<close> where two endpoints meet): \<open>2 ^ 32\<close> is
  what an unwrapped number can lie ahead of its checkpoint, and the rest covers a segment, a window and the two flags.
  Sessions of the socket thread and of the copying program assume fewer than \<open>2 ^ 62\<close> bytes per descriptor.  The loops of the
  data structures and of \<^verbatim>\<open>fill_window\<close> and \<^verbatim>\<open>FileDescriptor::write\<close> are total functions with termination proofs or
  theorems that they return.  Fuel is taken by the event loops (\<open>tcp_loop_rounds\<close>, \<open>copy_rounds\<close>), which wait for a
  peer that may never answer, by the loops of the benchmark (\<open>bm_while\<close>) and by \<open>print_reply\<close>: \<open>None\<close> says that the loop is still running
  after that many rounds.  The theorems hold for every number of rounds.  For \<open>print_reply\<close> one round more than the reply has bytes is
  enough, for the destructor of a socket one round, and both are proved; that the benchmark ends is evaluated for an input only.

  \<^bold>\<open>Not modelled.\<close>  The parallelism of the owner of a socket and its thread: they share only the socket pair and
  \<^verbatim>\<open>_abort\<close>, and these belong to the state of the kernel, which may change in any way its laws allow at every system call.  Hence the
  copying of \<^verbatim>\<open>tcp_udp\<close> and \<^verbatim>\<open>tcp_ipv4\<close> is not composed with the thread it runs beside.  \<^verbatim>\<open>timestamp_ms\<close>, the random
  generator, \<^verbatim>\<open>pcap\<close>, \<^verbatim>\<open>inet_ntop\<close> and the conversion of a loss rate from a floating point number, which are
  parameters of the model.  The measurement of time in the benchmark.  The stream output operator of \<^verbatim>\<open>wrapping_integers.hh\<close>.
  The examples in \<^verbatim>\<open>doctests/\<close> and the experiments in \<^verbatim>\<open>vixbob_tests/\<close>, which only call the classes above.
\<close>

end
